(* ===== verification/Prelude.thy ===== *)
theory Prelude
  imports Main "HOL-Library.Word" "HOL-Library.List_Lexorder" "HOL-Library.Product_Lexorder"
begin

text \<open>
  Shared vocabulary of the development: bytes and machine integers as the Rust code uses them,
  the result type of fallible functions, big-endian integer encodings, and the generic list
  lemmas the components rely on.  Rust's \<open>u8\<close>, \<open>u16\<close>, \<open>u32\<close> and \<open>u64\<close> are words of that width;
  \<open>i64\<close> is an \<open>int\<close> together with the predicate \<open>is_i64\<close>, and every checked conversion or addition
  is written out.  A Rust \<open>String\<close> is its UTF-8 byte sequence as a HOL \<open>string\<close>; a Unix
  \<open>PathBuf\<close> is a list of bytes.
\<close>

unbundle bit_operations_syntax

named_theorems store_simps \<open>unfolding rules of the durable-state operations\<close>
named_theorems wf_intros \<open>preservation of well-formedness by the operations\<close>
named_theorems codec_simps \<open>round trips and lengths of the byte encodings\<close>

section \<open>Machine integers\<close>

type_synonym byte = "8 word"
type_synonym bytes = "byte list"
type_synonym u16 = "16 word"
type_synonym u32 = "32 word"
type_synonym u64 = "64 word"
type_synonym i64 = int

definition i64_max :: int where
  "i64_max = 9223372036854775807"

definition i64_min :: int where
  "i64_min = - 9223372036854775808"

definition is_i64 :: "int \<Rightarrow> bool" where
  "is_i64 x \<longleftrightarrow> i64_min \<le> x \<and> x \<le> i64_max"

definition i64_checked_add :: "i64 \<Rightarrow> i64 \<Rightarrow> i64 option" where
  "i64_checked_add x y = (if is_i64 (x + y) then Some (x + y) else None)"

definition u64_checked_add :: "u64 \<Rightarrow> u64 \<Rightarrow> u64 option" where
  "u64_checked_add x y = (if unat x + unat y < 2 ^ 64 then Some (x + y) else None)"

definition u64_checked_sub :: "u64 \<Rightarrow> u64 \<Rightarrow> u64 option" where
  "u64_checked_sub x y = (if y \<le> x then Some (x - y) else None)"

definition u64_checked_mul :: "u64 \<Rightarrow> u64 \<Rightarrow> u64 option" where
  "u64_checked_mul x y = (if unat x * unat y < 2 ^ 64 then Some (x * y) else None)"

definition u64_saturating_sub :: "u64 \<Rightarrow> u64 \<Rightarrow> u64" where
  "u64_saturating_sub x y = (if y \<le> x then x - y else 0)"

text \<open>\<open>i64::try_from(u64)\<close> and \<open>u64::try_from(i64)\<close>.\<close>

definition i64_of_u64 :: "u64 \<Rightarrow> i64 option" where
  "i64_of_u64 w = (if uint w \<le> i64_max then Some (uint w) else None)"

definition u64_of_i64 :: "i64 \<Rightarrow> u64 option" where
  "u64_of_i64 x = (if 0 \<le> x then Some (word_of_int x) else None)"

definition u32_of_i64 :: "i64 \<Rightarrow> u32 option" where
  "u32_of_i64 x = (if 0 \<le> x \<and> x < 2 ^ 32 then Some (word_of_int x) else None)"

definition u16_of_i64 :: "i64 \<Rightarrow> u16 option" where
  "u16_of_i64 x = (if 0 \<le> x \<and> x < 2 ^ 16 then Some (word_of_int x) else None)"

lemma i64_checked_add_Some:
  "i64_checked_add x y = Some z \<longleftrightarrow> z = x + y \<and> is_i64 (x + y)"
  by (auto simp: i64_checked_add_def)

lemma u64_checked_add_Some:
  "u64_checked_add x y = Some z \<Longrightarrow> unat z = unat x + unat y"
  by (auto simp: u64_checked_add_def unat_word_ariths split: if_splits)

lemma u64_checked_mul_Some:
  "u64_checked_mul x y = Some z \<Longrightarrow> unat z = unat x * unat y"
  by (auto simp: u64_checked_mul_def unat_word_ariths split: if_splits)

lemma unat_u64_diff: "y \<le> x \<Longrightarrow> unat (x - y) = unat x - unat (y :: u64)"
  by (simp add: unat_sub)

lemma u64_of_i64_uint [codec_simps]: "u64_of_i64 (uint w) = Some w"
  by (simp add: u64_of_i64_def)

lemma i64_of_u64_Some: "i64_of_u64 w = Some x \<longleftrightarrow> x = uint w \<and> uint w \<le> i64_max"
  by (auto simp: i64_of_u64_def)

lemma u16_of_i64_uint [codec_simps]: "u16_of_i64 (uint w) = Some w"
  using uint_lt2p [of w] by (simp add: u16_of_i64_def)

text \<open>\<open>usize\<close> values are natural numbers; arithmetic on them saturates where the source says so.\<close>

definition usize_max :: nat where
  "usize_max = 2 ^ 64 - 1"

definition sat_add :: "nat \<Rightarrow> nat \<Rightarrow> nat" where
  "sat_add a b = min (a + b) usize_max"

definition sat_mul :: "nat \<Rightarrow> nat \<Rightarrow> nat" where
  "sat_mul a b = min (a * b) usize_max"

section \<open>Results\<close>

text \<open>A fallible function returns \<open>'e + 'a\<close>: \<open>Inl\<close> is the error path.\<close>

fun result_bind :: "'e + 'a \<Rightarrow> ('a \<Rightarrow> 'e + 'b) \<Rightarrow> 'e + 'b" where
  "result_bind (Inl e) f = Inl e"
| "result_bind (Inr x) f = f x"

definition ok_or :: "'a option \<Rightarrow> 'e \<Rightarrow> 'e + 'a" where
  "ok_or x e = (case x of None \<Rightarrow> Inl e | Some v \<Rightarrow> Inr v)"

definition ensure :: "bool \<Rightarrow> 'e \<Rightarrow> 'e + unit" where
  "ensure c e = (if c then Inr () else Inl e)"

fun result_map :: "('a \<Rightarrow> 'b) \<Rightarrow> 'e + 'a \<Rightarrow> 'e + 'b" where
  "result_map f (Inl e) = Inl e"
| "result_map f (Inr x) = Inr (f x)"

text \<open>\<open>Iterator::collect\<close> into a \<open>Result\<close>: the first error wins.\<close>

fun result_collect :: "('e + 'a) list \<Rightarrow> 'e + 'a list" where
  "result_collect [] = Inr []"
| "result_collect (Inl e # rs) = Inl e"
| "result_collect (Inr x # rs) = result_map ((#) x) (result_collect rs)"

lemma result_collect_Cons:
  "result_collect (r # rs) = Inr xs \<longleftrightarrow>
     (\<exists>y ys. r = Inr y \<and> result_collect rs = Inr ys \<and> xs = y # ys)"
  by (cases r; cases "result_collect rs") auto

lemma result_bind_Inr [simp]:
  "result_bind r f = Inr y \<longleftrightarrow> (\<exists>x. r = Inr x \<and> f x = Inr y)"
  by (cases r) auto

lemma result_map_Inr [simp]: "result_map f r = Inr y \<longleftrightarrow> (\<exists>x. r = Inr x \<and> y = f x)"
  by (cases r) auto

lemma ok_or_Inr [simp]: "ok_or x e = Inr v \<longleftrightarrow> x = Some v"
  by (auto simp: ok_or_def split: option.splits)

lemma ok_or_Some [simp]: "ok_or (Some v) e = Inr v"
  by (simp add: ok_or_def)

lemma ok_or_None [simp]: "ok_or None e = Inl e"
  by (simp add: ok_or_def)

lemma ensure_Inr [simp]: "ensure c e = Inr u \<longleftrightarrow> c"
  by (auto simp: ensure_def)

lemma ensure_True [simp]: "ensure True e = Inr ()"
  by (simp add: ensure_def)

lemma ensure_False [simp]: "ensure False e = Inl e"
  by (simp add: ensure_def)

lemma result_collect_Inr:
  "result_collect rs = Inr ys \<longleftrightarrow> rs = map Inr ys"
proof (induction rs arbitrary: ys rule: result_collect.induct)
  case (3 x rs)
  then show ?case by (cases ys) auto
qed auto

section \<open>Big-endian encodings\<close>

text \<open>\<open>u64::to_be_bytes\<close> and \<open>u64::from_be_bytes\<close> on a slice of eight bytes.\<close>

definition to_be_bytes :: "u64 \<Rightarrow> bytes" where
  "to_be_bytes w = map (\<lambda>i. ucast (drop_bit (8 * i) w)) [7, 6, 5, 4, 3, 2, 1, 0]"

definition from_be_bytes :: "bytes \<Rightarrow> u64" where
  "from_be_bytes bs = foldl (\<lambda>acc b. push_bit 8 acc OR ucast b) 0 bs"

lemma length_to_be_bytes [simp, codec_simps]: "length (to_be_bytes w) = 8"
  by (simp add: to_be_bytes_def)

lemma be_byte_step:
  "push_bit 8 (drop_bit (n + 8) w) OR ucast (ucast (drop_bit n w) :: byte) = drop_bit n (w :: u64)"
  by (rule bit_word_eqI)
    (auto simp: bit_or_iff bit_push_bit_iff bit_ucast_iff bit_drop_bit_eq not_le
      add.commute add.left_commute)

lemma drop_bit_all_u64: "drop_bit 64 (w :: u64) = 0"
  by (rule bit_word_eqI) (auto simp: bit_drop_bit_eq dest: bit_imp_le_length)

lemma from_to_be_bytes [codec_simps]: "from_be_bytes (to_be_bytes w) = w"
  using be_byte_step [of 56 w] be_byte_step [of 48 w] be_byte_step [of 40 w]
    be_byte_step [of 32 w] be_byte_step [of 24 w] be_byte_step [of 16 w]
    be_byte_step [of 8 w] be_byte_step [of 0 w]
  by (simp add: from_be_bytes_def to_be_bytes_def drop_bit_all_u64)

lemma to_be_bytes_inject: "to_be_bytes x = to_be_bytes y \<longleftrightarrow> x = y"
  by (metis from_to_be_bytes)

section \<open>Text and bytes\<close>

text \<open>The bytes of a string literal, and the number of Unicode scalar values of a UTF-8
  string: every byte that is not a continuation byte starts one.\<close>

definition str_bytes :: "string \<Rightarrow> bytes" where
  "str_bytes s = map of_char s"

definition chars_count :: "string \<Rightarrow> nat" where
  "chars_count s =
     length (filter (\<lambda>c. \<not> (128 \<le> (of_char c :: nat) \<and> (of_char c :: nat) < 192)) s)"

text \<open>\<open>str::split\<close> on one separator: always at least one part.\<close>

fun split_on :: "'a \<Rightarrow> 'a list \<Rightarrow> 'a list list" where
  "split_on c [] = [[]]"
| "split_on c (x # xs) =
     (if x = c then [] # split_on c xs
      else (case split_on c xs of [] \<Rightarrow> [[x]] | p # ps \<Rightarrow> (x # p) # ps))"

text \<open>\<open>[T]::join\<close>.\<close>

fun join_on :: "'a \<Rightarrow> 'a list list \<Rightarrow> 'a list" where
  "join_on c [] = []"
| "join_on c [p] = p"
| "join_on c (p # q # ps) = p @ c # join_on c (q # ps)"

text \<open>\<open>str::strip_prefix\<close> and \<open>str::strip_suffix\<close>.\<close>

fun strip_prefix :: "'a list \<Rightarrow> 'a list \<Rightarrow> 'a list option" where
  "strip_prefix [] xs = Some xs"
| "strip_prefix (p # ps) [] = None"
| "strip_prefix (p # ps) (x # xs) = (if p = x then strip_prefix ps xs else None)"

definition strip_suffix :: "'a list \<Rightarrow> 'a list \<Rightarrow> 'a list option" where
  "strip_suffix s xs = map_option rev (strip_prefix (rev s) (rev xs))"

lemma split_on_nonempty [simp]: "split_on c xs \<noteq> []"
  by (induction xs) (auto split: list.splits)

lemma split_on_no_sep: "\<forall>p\<in>set (split_on c xs). c \<notin> set p"
  by (induction xs) (auto split: list.splits)

lemma join_split_on [simp]: "join_on c (split_on c xs) = xs"
proof (induction xs)
  case (Cons x xs)
  obtain p ps where "split_on c xs = p # ps"
    by (cases "split_on c xs") auto
  with Cons show ?case by (cases ps) auto
qed simp

lemma split_on_append_sep:
  "c \<notin> set p \<Longrightarrow> split_on c (p @ c # xs) = p # split_on c xs"
  by (induction p) auto

lemma split_on_clean: "c \<notin> set p \<Longrightarrow> split_on c p = [p]"
  by (induction p) auto

lemma split_join_on:
  "ps \<noteq> [] \<Longrightarrow> \<forall>p\<in>set ps. c \<notin> set p \<Longrightarrow> split_on c (join_on c ps) = ps"
  by (induction c ps rule: join_on.induct) (auto simp: split_on_append_sep split_on_clean)

lemma strip_prefix_Some: "strip_prefix p xs = Some ys \<longleftrightarrow> xs = p @ ys"
  by (induction p xs rule: strip_prefix.induct) auto

lemma strip_prefix_append [simp]: "strip_prefix p (p @ ys) = Some ys"
  by (simp add: strip_prefix_Some)

lemma strip_suffix_Some: "strip_suffix s xs = Some ys \<longleftrightarrow> xs = ys @ s"
proof -
  have "rev xs = rev s @ zs \<and> ys = rev zs \<longleftrightarrow> xs = ys @ s \<and> zs = rev ys" for zs
    by (metis rev_append rev_rev_ident rev_is_rev_conv)
  then show ?thesis
    by (auto simp: strip_suffix_def strip_prefix_Some)
qed

section \<open>List facts shared by the components\<close>

lemma length_filter_le_filter:
  "(\<And>x. x \<in> set xs \<Longrightarrow> P x \<Longrightarrow> Q x) \<Longrightarrow> length (filter P xs) \<le> length (filter Q xs)"
  by (induction xs) (auto simp: le_SucI)

lemma sorted_wrt_map_filter:
  "sorted_wrt R (map f xs) \<Longrightarrow> sorted_wrt R (map f (filter P xs))"
  by (simp add: sorted_wrt_map sorted_wrt_filter)

lemma sorted_wrt_less_distinct: "sorted_wrt (<) (xs :: 'a :: linorder list) \<Longrightarrow> distinct xs"
  by (simp add: strict_sorted_iff)

section \<open>Runs\<close>

text \<open>The contract of a component whose steps interleave: every step keeps an invariant.  A component
  that also advances tells what a step keeps of the state before it.\<close>

locale invariant_steps =
  fixes step :: "'s \<Rightarrow> 's \<Rightarrow> bool" and inv :: "'s \<Rightarrow> bool"
  assumes step_inv: "step s s' \<Longrightarrow> inv s \<Longrightarrow> inv s'"
begin

lemma steps_inv: "step\<^sup>*\<^sup>* s s' \<Longrightarrow> inv s \<Longrightarrow> inv s'"
  by (induction rule: rtranclp_induct) (auto intro: step_inv)

end

locale advancing_steps = invariant_steps +
  fixes adv :: "'s \<Rightarrow> 's \<Rightarrow> bool"
  assumes adv_refl: "adv s s" and adv_trans: "adv s s' \<Longrightarrow> adv s' s'' \<Longrightarrow> adv s s''"
    and step_adv: "step s s' \<Longrightarrow> inv s \<Longrightarrow> adv s s'"
begin

lemma steps_adv: "step\<^sup>*\<^sup>* s s' \<Longrightarrow> inv s \<Longrightarrow> adv s s'"
proof (induction rule: rtranclp_induct)
  case (step b c)
  then show ?case using steps_inv step_adv adv_trans by blast
qed (rule adv_refl)

end

text \<open>The contract of operations that are called one after the other.\<close>

locale invariant_calls =
  fixes call :: "'c \<Rightarrow> 's \<Rightarrow> 's" and allowed :: "'c \<Rightarrow> bool" and inv :: "'s \<Rightarrow> bool"
  assumes call_inv: "allowed c \<Longrightarrow> inv s \<Longrightarrow> inv (call c s)"
begin

lemma calls_inv: "list_all allowed cs \<Longrightarrow> inv s \<Longrightarrow> inv (fold call cs s)"
  by (induction cs arbitrary: s) (auto intro: call_inv)

end

end
