(* ===== verification/Paths.thy ===== *)
theory Paths
  imports Prelude
begin

text \<open>
  Rust's \<open>std::path\<close> on Unix, as far as the server relies on it: a path is a byte string, and
  \<open>components\<close> is the normalising view through which equality, ordering and
  \<open>starts_with\<close> are defined.  Repeated separators, trailing separators and inner \<open>.\<close> parts
  disappear; \<open>..\<close> stays as a component of its own.
\<close>

datatype component = RootDir | CurDir | ParentDir | Normal bytes

abbreviation slash :: byte where
  "slash \<equiv> 47"

abbreviation dot :: byte where
  "dot \<equiv> 46"

text \<open>\<open>Component\<close> derives \<open>Ord\<close>: constructors in declaration order, then the bytes.\<close>

fun component_rank :: "component \<Rightarrow> nat \<times> bytes" where
  "component_rank RootDir = (1, [])"
| "component_rank CurDir = (2, [])"
| "component_rank ParentDir = (3, [])"
| "component_rank (Normal s) = (4, s)"

lemma component_rank_inject [simp]: "component_rank a = component_rank b \<longleftrightarrow> a = b"
  by (cases a; cases b) auto

instantiation component :: linorder
begin

definition less_eq_component :: "component \<Rightarrow> component \<Rightarrow> bool" where
  "a \<le> b \<longleftrightarrow> component_rank a \<le> component_rank b"

definition less_component :: "component \<Rightarrow> component \<Rightarrow> bool" where
  "a < b \<longleftrightarrow> component_rank a < component_rank b"

instance
  by intro_classes (auto simp: less_eq_component_def less_component_def less_le_not_le
      intro: order_trans dest: antisym)

end

definition has_root :: "bytes \<Rightarrow> bool" where
  "has_root p = (case p of [] \<Rightarrow> False | x # _ \<Rightarrow> x = slash)"

definition parse_single_component :: "bytes \<Rightarrow> component option" where
  "parse_single_component s =
     (if s = [] \<or> s = [dot] then None
      else if s = [dot, dot] then Some ParentDir
      else Some (Normal s))"

definition components :: "bytes \<Rightarrow> component list" where
  "components p =
     (let parts = split_on slash p
      in if has_root p then RootDir # List.map_filter parse_single_component parts
         else (case parts of
             [] \<Rightarrow> []
           | s # rest \<Rightarrow>
               (if s = [dot] then [CurDir] else [])
               @ List.map_filter parse_single_component parts))"

fun component_bytes :: "component \<Rightarrow> bytes" where
  "component_bytes RootDir = [slash]"
| "component_bytes CurDir = [dot]"
| "component_bytes ParentDir = [dot, dot]"
| "component_bytes (Normal s) = s"

text \<open>\<open>PathBuf::push\<close>: an absolute argument replaces the path, anything else is appended
  behind a separator.\<close>

definition path_push :: "bytes \<Rightarrow> bytes \<Rightarrow> bytes" where
  "path_push p q =
     (if has_root q then q
      else p @ (if p \<noteq> [] \<and> last p \<noteq> slash then [slash] else []) @ q)"

text \<open>Path equality and \<open>Path::starts_with\<close> compare components.\<close>

definition path_eq :: "bytes \<Rightarrow> bytes \<Rightarrow> bool" where
  "path_eq p q \<longleftrightarrow> components p = components q"

fun component_prefix :: "component list \<Rightarrow> component list \<Rightarrow> bool" where
  "component_prefix [] ys = True"
| "component_prefix (x # xs) [] = False"
| "component_prefix (x # xs) (y # ys) = (x = y \<and> component_prefix xs ys)"

definition path_starts_with :: "bytes \<Rightarrow> bytes \<Rightarrow> bool" where
  "path_starts_with p base \<longleftrightarrow> component_prefix (components base) (components p)"

lemma component_prefix_iff: "component_prefix xs ys \<longleftrightarrow> (\<exists>zs. ys = xs @ zs)"
  by (induction xs ys rule: component_prefix.induct) auto

lemma component_prefix_refl [simp]: "component_prefix xs xs"
  by (simp add: component_prefix_iff)

lemma component_prefix_trans:
  "component_prefix xs ys \<Longrightarrow> component_prefix ys zs \<Longrightarrow> component_prefix xs zs"
  by (auto simp: component_prefix_iff)

lemma component_prefix_antisym:
  "component_prefix xs ys \<Longrightarrow> component_prefix ys xs \<Longrightarrow> xs = ys"
  by (auto simp: component_prefix_iff)

lemma path_starts_with_refl [simp]: "path_starts_with p p"
  by (simp add: path_starts_with_def)

lemma path_eq_refl [simp]: "path_eq p p"
  by (simp add: path_eq_def)

lemma path_eq_sym: "path_eq p q \<longleftrightarrow> path_eq q p"
  by (auto simp: path_eq_def)

lemma path_eq_trans: "path_eq p q \<Longrightarrow> path_eq q r \<Longrightarrow> path_eq p r"
  by (simp add: path_eq_def)

section \<open>Rebuilding a path from its components\<close>

definition push_component :: "bytes \<Rightarrow> component \<Rightarrow> bytes" where
  "push_component p c = path_push p (component_bytes c)"

text \<open>The component lists that \<open>components\<close> can return.\<close>

definition wf_part :: "component \<Rightarrow> bool" where
  "wf_part c = (case c of
       ParentDir \<Rightarrow> True
     | Normal s \<Rightarrow> s \<noteq> [] \<and> s \<noteq> [dot] \<and> s \<noteq> [dot, dot] \<and> slash \<notin> set s
     | _ \<Rightarrow> False)"

definition wf_components :: "component list \<Rightarrow> bool" where
  "wf_components cs = (case cs of
       [] \<Rightarrow> True
     | c # rest \<Rightarrow> (c = RootDir \<or> c = CurDir \<or> wf_part c) \<and> list_all wf_part rest)"

lemma map_filter_parse_wf:
  "\<forall>s\<in>set ss. slash \<notin> set s \<Longrightarrow> list_all wf_part (List.map_filter parse_single_component ss)"
  by (induction ss)
    (auto simp: List.map_filter_simps parse_single_component_def wf_part_def split: option.splits)

lemma components_wf: "wf_components (components p)"
proof -
  have wf: "list_all wf_part (List.map_filter parse_single_component (split_on slash p))"
    by (rule map_filter_parse_wf) (rule split_on_no_sep)
  show ?thesis
  proof (cases "has_root p \<or> hd (split_on slash p) = [dot]")
    case True
    with wf show ?thesis
      by (cases "split_on slash p")
        (auto simp: components_def wf_components_def Let_def)
  next
    case False
    with wf show ?thesis
      by (cases "split_on slash p"; cases "List.map_filter parse_single_component (split_on slash p)")
        (auto simp: components_def wf_components_def Let_def)
  qed
qed

lemma wf_part_bytes:
  "wf_part c \<Longrightarrow> parse_single_component (component_bytes c) = Some c"
  "wf_part c \<Longrightarrow> slash \<notin> set (component_bytes c)"
  "wf_part c \<Longrightarrow> component_bytes c \<noteq> []"
  "wf_part c \<Longrightarrow> component_bytes c \<noteq> [dot]"
  "wf_part c \<Longrightarrow> \<not> has_root (component_bytes c)"
  "wf_part c \<Longrightarrow> last (component_bytes c) \<noteq> slash"
  by (cases c; force simp: wf_part_def parse_single_component_def has_root_def split: list.splits
      dest: last_in_set)+

lemma split_on_append:
  "split_on c (p @ c # xs) = split_on c p @ split_on c xs"
proof (induction p)
  case (Cons y p)
  obtain q qs where "split_on c p = q # qs"
    by (cases "split_on c p") auto
  with Cons show ?case by auto
qed simp

lemma map_filter_append:
  "List.map_filter f (xs @ ys) = List.map_filter f xs @ List.map_filter f ys"
  by (simp add: List.map_filter_def)

lemma components_snoc_sep:
  assumes "slash \<notin> set s"
  shows "components (p @ slash # s) =
    components (p @ [slash]) @ List.map_filter parse_single_component [s]"
proof -
  have root: "has_root (p @ slash # s) = has_root (p @ [slash])"
    by (cases p) (auto simp: has_root_def)
  obtain q qs where q: "split_on slash p = q # qs"
    by (cases "split_on slash p") auto
  from assms have sp: "split_on slash (p @ slash # s) = split_on slash p @ [s]"
    by (simp add: split_on_append split_on_clean)
  show ?thesis
    unfolding components_def Let_def root sp
    by (simp add: q split_on_append)
      (simp add: List.map_filter_simps parse_single_component_def map_filter_append)
qed

lemma components_trailing_sep:
  assumes "p \<noteq> []" shows "components (p @ [slash]) = components p"
proof -
  have root: "has_root (p @ [slash]) = has_root p"
    using assms by (cases p) (auto simp: has_root_def)
  obtain q qs where q: "split_on slash p = q # qs"
    by (cases "split_on slash p") auto
  show ?thesis
    unfolding components_def Let_def root
    by (simp add: q split_on_append)
      (simp add: List.map_filter_simps parse_single_component_def map_filter_append)
qed

lemma components_Nil [simp]: "components [] = []"
  by (simp add: components_def has_root_def List.map_filter_simps parse_single_component_def)

lemma components_single:
  assumes "wf_part c" shows "components (component_bytes c) = [c]"
  using wf_part_bytes [OF assms]
  by (simp add: components_def split_on_clean List.map_filter_simps)

lemma components_push_component:
  assumes "wf_part c" shows "components (push_component p c) = components p @ [c]"
proof -
  note b = wf_part_bytes [OF assms]
  have one: "List.map_filter parse_single_component [component_bytes c] = [c]"
    using b(1) by (simp add: List.map_filter_simps)
  consider "p = []" | "p \<noteq> []" "last p \<noteq> slash" | "p \<noteq> []" "last p = slash" by blast
  then show ?thesis
  proof cases
    case 1
    with b components_single [OF assms] show ?thesis
      by (simp add: push_component_def path_push_def)
  next
    case 2
    with b components_snoc_sep [of "component_bytes c" p] components_trailing_sep [of p] one
    show ?thesis by (simp add: push_component_def path_push_def)
  next
    case 3
    then obtain p' where p: "p = p' @ [slash]" by (metis append_butlast_last_id)
    with 3 b components_snoc_sep [of "component_bytes c" p'] one
    show ?thesis by (simp add: push_component_def path_push_def)
  qed
qed

lemma components_foldl_push:
  "list_all wf_part cs \<Longrightarrow> components (foldl push_component p cs) = components p @ cs"
  by (induction cs arbitrary: p) (auto simp: components_push_component)

text \<open>Pushing the components of a path one by one rebuilds a path with the same components.\<close>

lemma components_rebuild:
  assumes "wf_components cs" shows "components (foldl push_component [] cs) = cs"
proof (cases cs)
  case (Cons c rest)
  have base: "components [slash] = [RootDir]" "components [dot] = [CurDir]"
    by (simp_all add: components_def has_root_def List.map_filter_simps parse_single_component_def)
  from assms Cons have rest: "list_all wf_part rest"
    and c: "c = RootDir \<or> c = CurDir \<or> wf_part c"
    by (auto simp: wf_components_def)
  have "components (push_component [] c) = [c]"
    using c base components_single [of c]
    by (auto simp: push_component_def path_push_def has_root_def)
  with components_foldl_push [OF rest] Cons show ?thesis by simp
qed simp

end
