(* ===== verification/Tables.thy ===== *)
theory Tables
  imports Prelude
begin

text \<open>
  The SQLite tables of the state database are \<open>WITHOUT ROWID\<close> tables clustered on a two-column
  primary key.  A table is the list of its rows in primary-key order; the statements the server
  issues are functions on that list: \<open>tbl_get\<close> (\<open>SELECT\<close> by primary key), \<open>tbl_put\<close>
  (\<open>INSERT\<close> and \<open>INSERT .. ON CONFLICT DO UPDATE\<close>), \<open>tbl_delete\<close> (\<open>DELETE WHERE\<close>),
  \<open>tbl_update\<close> (\<open>UPDATE WHERE\<close>, with the number of rows affected) and \<open>tbl_count\<close>
  (\<open>SELECT COUNT(*) WHERE\<close>).  The locale \<open>keyed_table\<close> is the contract the components use.
\<close>

section \<open>Primary keys\<close>

text \<open>\<open>OperationKey\<close>, \<open>UploadSessionKey\<close> and \<open>PurgeJobKey\<close> are the same pair of columns:
  an owner digest and an identifier.  SQLite compares \<open>BLOB\<close>s bytewise, the shorter first.\<close>

datatype row_key = RowKey (key_owner: bytes) (key_id: bytes)

type_synonym OperationKey = row_key
type_synonym UploadSessionKey = row_key
type_synonym PurgeJobKey = row_key

fun row_key_pair :: "row_key \<Rightarrow> bytes \<times> bytes" where
  "row_key_pair (RowKey o' i) = (o', i)"

lemma row_key_pair_inject [simp]: "row_key_pair a = row_key_pair b \<longleftrightarrow> a = b"
  by (cases a; cases b) auto

instantiation row_key :: linorder
begin

definition less_eq_row_key :: "row_key \<Rightarrow> row_key \<Rightarrow> bool" where
  "a \<le> b \<longleftrightarrow> row_key_pair a \<le> row_key_pair b"

definition less_row_key :: "row_key \<Rightarrow> row_key \<Rightarrow> bool" where
  "a < b \<longleftrightarrow> row_key_pair a < row_key_pair b"

instance
  by intro_classes (auto simp: less_eq_row_key_def less_row_key_def less_le_not_le
      intro: order_trans dest: antisym)

end

text \<open>The keyset condition of the paging queries is the strict order.\<close>

lemma row_key_less_iff:
  "a < b \<longleftrightarrow> key_owner a < key_owner b \<or> key_owner a = key_owner b \<and> key_id a < key_id b"
  by (cases a; cases b) (auto simp: less_row_key_def less_prod_def)

text \<open>A key has the column lengths the schema checks.\<close>

definition key_ok :: "row_key \<Rightarrow> bool" where
  "key_ok k \<longleftrightarrow> length (key_owner k) = 32 \<and> length (key_id k) = 16"

section \<open>Statements\<close>

type_synonym ('k, 'r) table = "('k \<times> 'r) list"

definition tbl_wf :: "('k :: linorder, 'r) table \<Rightarrow> bool" where
  "tbl_wf t \<longleftrightarrow> sorted_wrt (<) (map fst t)"

definition tbl_get :: "('k, 'r) table \<Rightarrow> 'k \<Rightarrow> 'r option" where
  "tbl_get t k = map_of t k"

fun tbl_put :: "'k :: linorder \<Rightarrow> 'r \<Rightarrow> ('k, 'r) table \<Rightarrow> ('k, 'r) table" where
  "tbl_put k r [] = [(k, r)]"
| "tbl_put k r ((k', r') # t) =
     (if k < k' then (k, r) # (k', r') # t
      else if k = k' then (k, r) # t
      else (k', r') # tbl_put k r t)"

definition tbl_delete :: "('k \<Rightarrow> 'r \<Rightarrow> bool) \<Rightarrow> ('k, 'r) table \<Rightarrow> ('k, 'r) table" where
  "tbl_delete P t = filter (\<lambda>(k, r). \<not> P k r) t"

definition tbl_update ::
  "('k \<Rightarrow> 'r \<Rightarrow> bool) \<Rightarrow> ('r \<Rightarrow> 'r) \<Rightarrow> ('k, 'r) table \<Rightarrow> ('k, 'r) table" where
  "tbl_update P f t = map (\<lambda>(k, r). (k, if P k r then f r else r)) t"

definition tbl_count :: "('k \<Rightarrow> 'r \<Rightarrow> bool) \<Rightarrow> ('k, 'r) table \<Rightarrow> nat" where
  "tbl_count P t = length (filter (\<lambda>(k, r). P k r) t)"

text \<open>Every row satisfies a predicate of its key and columns (a \<open>CHECK\<close> constraint).\<close>

definition tbl_all :: "('k \<Rightarrow> 'r \<Rightarrow> bool) \<Rightarrow> ('k, 'r) table \<Rightarrow> bool" where
  "tbl_all P t \<longleftrightarrow> list_all (\<lambda>(k, r). P k r) t"

section \<open>Laws\<close>

lemma tbl_wf_Nil [simp]: "tbl_wf []"
  by (simp add: tbl_wf_def)

lemma tbl_get_Nil [simp]: "tbl_get [] k = None"
  by (simp add: tbl_get_def)

lemma tbl_wf_Cons:
  "tbl_wf ((k, r) # t) \<longleftrightarrow> (\<forall>k'\<in>fst ` set t. k < k') \<and> tbl_wf t"
  by (auto simp: tbl_wf_def)

lemma tbl_get_put: "tbl_get (tbl_put k r t) k' = (if k' = k then Some r else tbl_get t k')"
  by (induction k r t rule: tbl_put.induct) (auto simp: tbl_get_def)

lemma keys_put: "fst ` set (tbl_put k r t) = insert k (fst ` set t)"
  by (induction k r t rule: tbl_put.induct) auto

lemma tbl_wf_put [wf_intros]: "tbl_wf t \<Longrightarrow> tbl_wf (tbl_put k r t)"
  by (induction k r t rule: tbl_put.induct) (auto simp: tbl_wf_Cons keys_put not_less)

lemma tbl_wf_delete [wf_intros]: "tbl_wf t \<Longrightarrow> tbl_wf (tbl_delete P t)"
  by (simp add: tbl_wf_def tbl_delete_def sorted_wrt_map_filter)

lemma keys_update [simp]: "map fst (tbl_update P f t) = map fst t"
  by (simp add: tbl_update_def case_prod_beta comp_def)

lemma tbl_wf_update [wf_intros]: "tbl_wf t \<Longrightarrow> tbl_wf (tbl_update P f t)"
  by (simp add: tbl_wf_def)

lemma tbl_wf_distinct: "tbl_wf t \<Longrightarrow> distinct (map fst t)"
  by (simp add: tbl_wf_def sorted_wrt_less_distinct)

lemma tbl_get_Some_set: "tbl_wf t \<Longrightarrow> tbl_get t k = Some r \<longleftrightarrow> (k, r) \<in> set t"
  by (simp add: tbl_get_def map_of_eq_Some_iff tbl_wf_distinct)

lemma tbl_get_in: "tbl_get t k = Some r \<Longrightarrow> (k, r) \<in> set t"
  by (simp add: tbl_get_def map_of_SomeD)

lemma tbl_get_delete:
  assumes "tbl_wf t"
  shows "tbl_get (tbl_delete P t) k =
    (case tbl_get t k of None \<Rightarrow> None | Some r \<Rightarrow> if P k r then None else Some r)"
  using assms
proof (induction t)
  case (Cons kr t)
  obtain k0 r0 where kr: "kr = (k0, r0)" by force
  with Cons.prems have wf: "tbl_wf t" and fresh: "k0 \<notin> fst ` set t"
    by (auto simp: tbl_wf_Cons)
  from fresh have "map_of t k0 = None" by (simp add: map_of_eq_None_iff)
  moreover from fresh have "map_of (filter (\<lambda>(k, r). \<not> P k r) t) k0 = None"
    by (force simp: map_of_eq_None_iff)
  ultimately show ?case using Cons.IH [OF wf] kr
    by (auto simp: tbl_get_def tbl_delete_def split: option.splits)
qed (simp add: tbl_get_def tbl_delete_def)

lemma tbl_get_update:
  "tbl_get (tbl_update P f t) k =
    (case tbl_get t k of None \<Rightarrow> None | Some r \<Rightarrow> Some (if P k r then f r else r))"
  by (induction t) (auto simp: tbl_get_def tbl_update_def)

lemma tbl_all_get: "tbl_all P t \<Longrightarrow> tbl_get t k = Some r \<Longrightarrow> P k r"
  by (auto simp: tbl_all_def list_all_iff dest: tbl_get_in)

lemma tbl_all_iff_get:
  "tbl_wf t \<Longrightarrow> tbl_all P t \<longleftrightarrow> (\<forall>k r. tbl_get t k = Some r \<longrightarrow> P k r)"
  by (auto simp: tbl_all_def list_all_iff tbl_get_Some_set)

lemma set_put: "set (tbl_put k r t) \<subseteq> insert (k, r) (set t)"
  by (induction k r t rule: tbl_put.induct) auto

lemma tbl_all_put [wf_intros]: "tbl_all P t \<Longrightarrow> P k r \<Longrightarrow> tbl_all P (tbl_put k r t)"
  using set_put [of k r t] by (auto simp: tbl_all_def list_all_iff)

lemma tbl_all_delete [wf_intros]: "tbl_all P t \<Longrightarrow> tbl_all P (tbl_delete Q t)"
  by (auto simp: tbl_all_def tbl_delete_def list_all_iff)

lemma tbl_all_update [wf_intros]:
  "tbl_all P t \<Longrightarrow> (\<And>k r. P k r \<Longrightarrow> Q k r \<Longrightarrow> P k (f r)) \<Longrightarrow> tbl_all P (tbl_update Q f t)"
  by (auto simp: tbl_all_def tbl_update_def list_all_iff)

section \<open>Counting\<close>

lemma tbl_count_delete_le: "tbl_count P (tbl_delete Q t) \<le> tbl_count P t"
  by (induction t) (auto simp: tbl_count_def tbl_delete_def)

lemma tbl_count_put:
  assumes "tbl_get t k = None"
  shows "tbl_count P (tbl_put k r t) = (if P k r then Suc (tbl_count P t) else tbl_count P t)"
  using assms
  by (induction k r t rule: tbl_put.induct) (auto simp: tbl_count_def tbl_get_def split: if_splits)

lemma tbl_count_replace:
  assumes "tbl_wf t" and "tbl_get t k = Some r'" and "P k r = P k r'"
  shows "tbl_count P (tbl_put k r t) = tbl_count P t"
  using assms
proof (induction k r t rule: tbl_put.induct)
  case (2 k r k' r'' t)
  show ?case
  proof (cases "k < k'")
    case True
    with "2.prems" have "k \<notin> fst ` set ((k', r'') # t)" by (auto simp: tbl_wf_Cons)
    then have "tbl_get ((k', r'') # t) k = None" by (simp add: tbl_get_def map_of_eq_None_iff)
    with "2.prems" show ?thesis by simp
  next
    case False
    with 2 show ?thesis by (auto simp: tbl_count_def tbl_get_def tbl_wf_Cons split: if_splits)
  qed
qed simp

lemma tbl_count_update:
  "(\<And>k r. Q k r \<Longrightarrow> P k (f r) = P k r) \<Longrightarrow> tbl_count P (tbl_update Q f t) = tbl_count P t"
  by (induction t) (auto simp: tbl_count_def tbl_update_def split: if_splits)

lemma tbl_count_all: "tbl_count (\<lambda>_ _. True) t = length t"
  by (simp add: tbl_count_def)

section \<open>Statements under constraints\<close>

text \<open>\<open>INSERT\<close> and \<open>UPDATE\<close> fail, and change nothing, when a resulting row breaks a
  \<open>CHECK\<close> constraint or the primary key; the update returns the number of rows affected.\<close>

definition sql_insert ::
  "'e \<Rightarrow> ('k \<Rightarrow> 'r \<Rightarrow> bool) \<Rightarrow> 'k :: linorder \<Rightarrow> 'r \<Rightarrow> ('k, 'r) table \<Rightarrow> 'e + ('k, 'r) table" where
  "sql_insert e chk k r t =
     (if chk k r \<and> tbl_get t k = None then Inr (tbl_put k r t) else Inl e)"

definition sql_update ::
  "'e \<Rightarrow> ('k \<Rightarrow> 'r \<Rightarrow> bool) \<Rightarrow> ('k \<Rightarrow> 'r \<Rightarrow> bool) \<Rightarrow> ('r \<Rightarrow> 'r) \<Rightarrow> ('k, 'r) table \<Rightarrow>
   'e + nat \<times> ('k, 'r) table" where
  "sql_update e chk P f t =
     (if tbl_all (\<lambda>k r. P k r \<longrightarrow> chk k (f r)) t then Inr (tbl_count P t, tbl_update P f t)
      else Inl e)"

lemma sql_insert_Inr [simp]:
  "sql_insert e chk k r t = Inr t' \<longleftrightarrow> chk k r \<and> tbl_get t k = None \<and> t' = tbl_put k r t"
  by (auto simp: sql_insert_def)

lemma sql_update_Inr:
  "sql_update e chk P f t = Inr (n, t') \<longleftrightarrow>
     tbl_all (\<lambda>k r. P k r \<longrightarrow> chk k (f r)) t \<and> n = tbl_count P t \<and> t' = tbl_update P f t"
  by (auto simp: sql_update_def)

lemma tbl_count_key:
  assumes "tbl_wf t"
  shows "tbl_count (\<lambda>k' r. k' = k \<and> P r) t =
    (case tbl_get t k of None \<Rightarrow> 0 | Some r \<Rightarrow> if P r then 1 else 0)"
  using assms
proof (induction t)
  case (Cons kr t)
  obtain k0 r0 where kr: "kr = (k0, r0)" by force
  with Cons.prems have wf: "tbl_wf t" and fresh: "k0 \<notin> fst ` set t"
    by (auto simp: tbl_wf_Cons)
  from fresh have "tbl_get t k0 = None" by (simp add: tbl_get_def map_of_eq_None_iff)
  with Cons.IH [OF wf] kr show ?case
    by (auto simp: tbl_get_def tbl_count_def split: option.splits)
qed (simp add: tbl_count_def)

lemma tbl_all_key:
  assumes "tbl_wf t"
  shows "tbl_all (\<lambda>k' r. k' = k \<and> P r \<longrightarrow> Q k' r) t \<longleftrightarrow>
    (case tbl_get t k of None \<Rightarrow> True | Some r \<Rightarrow> P r \<longrightarrow> Q k r)"
  using assms by (auto simp: tbl_all_iff_get split: option.splits)

lemma length_update [simp]: "length (tbl_update P f t) = length t"
  by (simp add: tbl_update_def)

lemma tbl_all_mono: "tbl_all P t \<Longrightarrow> (\<And>k r. P k r \<Longrightarrow> Q k r) \<Longrightarrow> tbl_all Q t"
  by (auto simp: tbl_all_def list_all_iff)

text \<open>A statement whose condition no row satisfies.\<close>

lemma tbl_update_idle: "tbl_all (\<lambda>k r. \<not> P k r) t \<Longrightarrow> tbl_update P f t = t"
  by (induction t) (auto simp: tbl_all_def tbl_update_def)

lemma tbl_count_idle: "tbl_all (\<lambda>k r. \<not> P k r) t \<Longrightarrow> tbl_count P t = 0"
  by (induction t) (auto simp: tbl_all_def tbl_count_def)

lemma sql_update_idle:
  assumes "tbl_all (\<lambda>k r. \<not> P k r) t"
  shows "sql_update e chk P f t = Inr (0, t)"
proof -
  have "tbl_all (\<lambda>k r. P k r \<longrightarrow> chk k (f r)) t"
    using assms by (rule tbl_all_mono) simp
  with assms show ?thesis by (simp add: sql_update_def tbl_update_idle tbl_count_idle)
qed

section \<open>The contract of a table\<close>

text \<open>What the stores rely on: reading after a write by primary key, the invariant, and how
  the row count moves.  \<open>lookup\<close> and \<open>count\<close> are the observations.\<close>

locale keyed_table =
  fixes lookup :: "'t \<Rightarrow> 'k \<Rightarrow> 'r option"
    and put :: "'k \<Rightarrow> 'r \<Rightarrow> 't \<Rightarrow> 't"
    and drop_rows :: "('k \<Rightarrow> 'r \<Rightarrow> bool) \<Rightarrow> 't \<Rightarrow> 't"
    and count :: "('k \<Rightarrow> 'r \<Rightarrow> bool) \<Rightarrow> 't \<Rightarrow> nat"
    and wf :: "'t \<Rightarrow> bool"
  assumes lookup_put: "lookup (put k r t) k' = (if k' = k then Some r else lookup t k')"
    and lookup_drop: "wf t \<Longrightarrow> lookup (drop_rows P t) k =
      (case lookup t k of None \<Rightarrow> None | Some r \<Rightarrow> if P k r then None else Some r)"
    and wf_put: "wf t \<Longrightarrow> wf (put k r t)"
    and wf_drop: "wf t \<Longrightarrow> wf (drop_rows P t)"
    and count_fresh: "lookup t k = None \<Longrightarrow>
      count P (put k r t) = (if P k r then Suc (count P t) else count P t)"
    and count_replace: "wf t \<Longrightarrow> lookup t k = Some r' \<Longrightarrow> P k r = P k r' \<Longrightarrow>
      count P (put k r t) = count P t"
    and count_drop: "count P (drop_rows Q t) \<le> count P t"
begin

text \<open>The admission discipline of every bounded table of the server: expired rows are dropped
  first, and a new row is stored only while the count is below the bound.\<close>

lemma admission_bound:
  assumes "count P t \<le> n" and "lookup t k = None \<Longrightarrow> P k r \<Longrightarrow> count P t < n"
    and "wf t" and "\<And>r'. lookup t k = Some r' \<Longrightarrow> P k r = P k r'"
  shows "count P (put k r t) \<le> n"
proof (cases "lookup t k")
  case None
  with assms(1,2) show ?thesis by (auto simp: count_fresh)
next
  case (Some r')
  with assms(1,3,4) show ?thesis by (auto simp: count_replace)
qed

lemma drop_bound: "count P t \<le> n \<Longrightarrow> count P (drop_rows Q t) \<le> n"
  using count_drop le_trans by blast

lemma drop_then_put:
  "wf t \<Longrightarrow> lookup (put k r (drop_rows P t)) k' =
    (if k' = k then Some r
     else case lookup t k' of None \<Rightarrow> None | Some r' \<Rightarrow> if P k' r' then None else Some r')"
  by (simp add: lookup_put lookup_drop)

end

interpretation tbl: keyed_table tbl_get tbl_put tbl_delete tbl_count tbl_wf
  by unfold_locales
    (auto simp: tbl_get_put tbl_get_delete tbl_count_put tbl_count_replace tbl_count_delete_le
      intro: wf_intros)

section \<open>Keyset paging\<close>

text \<open>\<open>SELECT .. WHERE key > ?after ORDER BY key LIMIT ?limit\<close> over rows that are already in
  key order.\<close>

fun beyond :: "'k :: linorder option \<Rightarrow> 'k \<Rightarrow> bool" where
  "beyond None k = True"
| "beyond (Some a) k = (a < k)"

definition keyset_page :: "('r \<Rightarrow> 'k :: linorder) \<Rightarrow> 'k option \<Rightarrow> nat \<Rightarrow> 'r list \<Rightarrow> 'r list" where
  "keyset_page key after limit rows = take limit (filter (\<lambda>r. beyond after (key r)) rows)"

text \<open>A page cursor moves strictly forward: fewer rows are left beyond it.\<close>

lemma page_last_beyond:
  assumes "keyset_page key after n t \<noteq> []"
  shows "beyond after (key (last (keyset_page key after n t)))"
    and "last (keyset_page key after n t) \<in> set t"
proof -
  have "last (keyset_page key after n t) \<in> set (filter (\<lambda>r. beyond after (key r)) t)"
    using last_in_set [OF assms] unfolding keyset_page_def by (rule in_set_takeD)
  then show "beyond after (key (last (keyset_page key after n t)))"
    and "last (keyset_page key after n t) \<in> set t" by auto
qed

lemma beyond_shrinks:
  assumes "x \<in> set t" and "beyond after (key x)"
  shows "length (filter (\<lambda>r. beyond (Some (key x)) (key r)) t) <
    length (filter (\<lambda>r. beyond after (key r)) t)"
proof -
  have "beyond (Some (key x)) k \<Longrightarrow> beyond after k" for k
    using assms(2) by (cases after) auto
  then have "filter (\<lambda>r. beyond (Some (key x)) (key r)) t =
    filter (\<lambda>r. beyond (Some (key x)) (key r)) (filter (\<lambda>r. beyond after (key r)) t)"
    unfolding filter_filter by (intro filter_cong) auto
  also have "length \<dots> < length (filter (\<lambda>r. beyond after (key r)) t)"
    using assms by (intro length_filter_less [of x]) auto
  finally show ?thesis .
qed

text \<open>The contract of a paged query: the rows it ranges over are strictly ordered by the cursor
  key.  A client walks the pages with the last key of each page as the next cursor; the lemmas
  say what is left after a page, so that every walk sees each row once and in order.\<close>

locale keyset_query =
  fixes key :: "'r \<Rightarrow> 'k :: linorder" and rows :: "'t \<Rightarrow> 'r list" and wf :: "'t \<Rightarrow> bool"
  assumes sorted_keys: "wf t \<Longrightarrow> sorted_wrt (\<lambda>x y. key x < key y) (rows t)"
begin

definition remaining :: "'k option \<Rightarrow> 't \<Rightarrow> 'r list" where
  "remaining after t = filter (\<lambda>r. beyond after (key r)) (rows t)"

lemma page_take: "keyset_page key after limit (rows t) = take limit (remaining after t)"
  by (simp add: keyset_page_def remaining_def)

lemma remaining_None [simp]: "remaining None t = rows t"
  by (simp add: remaining_def)

lemma filter_beyond_last:
  assumes sorted: "sorted_wrt (\<lambda>x y. key x < key y) xs" and n: "n < length xs"
  shows "filter (\<lambda>r. key (last (take (Suc n) xs)) < key r) xs = drop (Suc n) xs"
proof -
  from n have xs: "xs = take n xs @ xs ! n # drop (Suc n) xs"
    by (rule id_take_nth_drop)
  have l: "last (take (Suc n) xs) = xs ! n"
    using n by (simp add: take_Suc_conv_app_nth)
  have "sorted_wrt (\<lambda>x y. key x < key y) (take n xs @ xs ! n # drop (Suc n) xs)"
    by (subst xs [symmetric]) (rule sorted)
  then have "\<forall>r\<in>set (take n xs). key r < key (xs ! n)"
    and after: "\<forall>r\<in>set (drop (Suc n) xs). key (xs ! n) < key r"
    by (simp_all add: sorted_wrt_append)
  then have before: "\<forall>r\<in>set (take n xs). \<not> key (xs ! n) < key r"
    by (meson not_less_iff_gr_or_eq)
  have "filter (\<lambda>r. key (xs ! n) < key r) (take n xs @ xs ! n # drop (Suc n) xs) =
    drop (Suc n) xs"
    using before after by (simp only: filter_append filter.simps filter_False filter_True) simp
  then show ?thesis unfolding l by (subst (asm) xs [symmetric])
qed

lemma remaining_after:
  assumes wf: "wf t" and pos: "0 < n" and n: "n \<le> length (remaining after t)"
  shows "remaining (Some (key (last (take n (remaining after t))))) t =
    drop n (remaining after t)"
proof -
  define rs where "rs = remaining after t"
  define l where "l = last (take n rs)"
  obtain m where m: "n = Suc m" using pos by (cases n) auto
  have sorted: "sorted_wrt (\<lambda>x y. key x < key y) rs"
    unfolding rs_def remaining_def by (rule sorted_wrt_filter) (rule sorted_keys [OF wf])
  have "take n rs \<noteq> []" using n m unfolding rs_def by (cases "remaining after t") auto
  then have "l \<in> set rs" unfolding l_def by (meson in_set_takeD last_in_set)
  then have "beyond after (key l)" unfolding rs_def remaining_def by simp
  then have le: "key l < key r \<longleftrightarrow> beyond after (key r) \<and> key l < key r" for r
    by (cases after) auto
  have "remaining (Some (key l)) t = filter (\<lambda>r. key l < key r) (rows t)"
    by (simp only: remaining_def beyond.simps)
  also have "\<dots> = filter (\<lambda>r. beyond after (key r) \<and> key l < key r) (rows t)"
    by (rule filter_cong [OF refl le])
  also have "\<dots> = filter (\<lambda>r. key l < key r) rs"
    unfolding rs_def remaining_def filter_filter ..
  also have "\<dots> = drop n rs"
    unfolding l_def m by (rule filter_beyond_last [OF sorted]) (use n m in \<open>simp add: rs_def\<close>)
  finally show ?thesis unfolding l_def rs_def .
qed

text \<open>After a full page, and after any page that is not empty.\<close>

lemma remaining_full_page:
  assumes "wf t" and "0 < limit" and "length (keyset_page key after limit (rows t)) = limit"
  shows "remaining (Some (key (last (keyset_page key after limit (rows t))))) t =
    drop limit (remaining after t)"
proof -
  have "limit \<le> length (remaining after t)" using assms(3) by (simp add: page_take)
  then show ?thesis unfolding page_take by (rule remaining_after [OF assms(1,2)])
qed

lemma remaining_nonempty_page:
  assumes "wf t" and "keyset_page key after limit (rows t) \<noteq> []"
  shows "remaining (Some (key (last (keyset_page key after limit (rows t))))) t =
    drop limit (remaining after t)"
proof (cases "limit \<le> length (remaining after t)")
  case True
  have "0 < limit" using assms(2) by (cases limit) (simp_all add: page_take)
  then show ?thesis unfolding page_take by (rule remaining_after [OF assms(1) _ True])
next
  case False
  let ?n = "length (remaining after t)"
  have page: "take limit (remaining after t) = take ?n (remaining after t)"
    "drop limit (remaining after t) = drop ?n (remaining after t)"
    using False by simp_all
  have "0 < ?n" using assms(2) unfolding page_take by (cases "remaining after t") simp_all
  then show ?thesis
    unfolding page_take page by (rule remaining_after [OF assms(1) _ order_refl])
qed

end

text \<open>A table is a paged query over its rows.\<close>

interpretation tbl_page: keyset_query fst "\<lambda>t. t" tbl_wf
proof unfold_locales
  fix t :: "('a, 'b) table"
  assume "tbl_wf t"
  then show "sorted_wrt (\<lambda>x y. fst x < fst y) t"
    unfolding tbl_wf_def sorted_wrt_map .
qed

end
