(* ===== verification/Store_Model.thy ===== *)
theory Store_Model
  imports Paths Tables
begin

text \<open>
  The value types of the state store (\<open>src/src/server/state_store/model.rs\<close>), their
  database encodings and their validation functions, the limits and the clock of the store
  worker (\<open>src/src/server/state_store.rs\<close>).  Paths are byte strings; \<open>PathBuf\<close>
  equality is \<open>path_eq\<close>, whereas SQL compares the bytes.
\<close>

section \<open>Errors\<close>

datatype store_error =
    InvalidDatabaseState i64
  | MissingTerminalState
  | MissingHttpStatus
  | InvalidHttpStatus
  | SucceededWithoutSuccessStatus
  | SucceededWithCode
  | FailureWithSuccessStatus
  | FailureWithoutCode
  | ErrorCodeLength
  | InvalidLength
  | IncompleteIdentity
  | NegativeColumn
  | ColumnOutOfRange
  | InvalidFlag
  | PathEmpty
  | PathTooLong
  | PathContainsNul
  | PathsMustDiffer
  | OffsetExceedsLength
  | NotRepresentable
  | NotFullyDurable
  | NewPurgeNotPrepared
  | NewPurgeHasRevision
  | NewPurgeHasAttempts
  | ConstraintViolated
  | LostLockedRow
  | LimitNotPositive
  | LimitTooLarge
  | CapacityExceeded
  | InvalidCapacities
  | ClockMovedBackwards
  | ClockNotRepresentable
  | ClockOverflow
  | ExpirationOverflow
  | DurationTooLarge
  | QueueFull
  | Unavailable
  | SqliteFailure

type_synonym 'a store_result = "store_error + 'a"

section \<open>Operation outcomes\<close>

datatype StoredTerminalState = Succeeded | Failed | TerminalUnknown

fun terminal_state_value :: "StoredTerminalState \<Rightarrow> i64" where
  "terminal_state_value Succeeded = 0"
| "terminal_state_value Failed = 1"
| "terminal_state_value TerminalUnknown = 2"

definition terminal_state_from_database :: "i64 \<Rightarrow> StoredTerminalState store_result" where
  "terminal_state_from_database v =
     (if v = 0 then Inr Succeeded
      else if v = 1 then Inr Failed
      else if v = 2 then Inr TerminalUnknown
      else Inl (InvalidDatabaseState v))"

record StoredOutcome =
  so_status :: u16
  so_state :: StoredTerminalState
  so_code :: "string option"

definition max_error_code_chars :: nat where
  "max_error_code_chars = 128"

definition validate_outcome :: "StoredOutcome \<Rightarrow> unit store_result" where
  "validate_outcome out =
     result_bind (ensure (100 \<le> so_status out \<and> so_status out \<le> 599) InvalidHttpStatus) (\<lambda>_.
     result_bind
       (case so_state out of
          Succeeded \<Rightarrow>
            result_bind (ensure (200 \<le> so_status out \<and> so_status out \<le> 299)
                          SucceededWithoutSuccessStatus) (\<lambda>_.
            ensure (so_code out = None) SucceededWithCode)
        | _ \<Rightarrow>
            result_bind (ensure (\<not> (200 \<le> so_status out \<and> so_status out \<le> 299))
                          FailureWithSuccessStatus) (\<lambda>_.
            ensure (so_code out \<noteq> None) FailureWithoutCode)) (\<lambda>_.
     (case so_code out of
        None \<Rightarrow> Inr ()
      | Some code \<Rightarrow>
          ensure (1 \<le> chars_count code \<and> chars_count code \<le> max_error_code_chars)
            ErrorCodeLength)))"

datatype StoreBegin =
    Started bytes
  | BeginRunning
  | Replay StoredOutcome
  | Conflict
  | Full

datatype StoreStatus = StatusRunning | StatusCompleted StoredOutcome | StatusNotFound

section \<open>Upload sessions\<close>

record StoredFileIdentity =
  fi_device :: u64
  fi_inode :: u64

datatype StoredUploadState =
    UploadRunning
  | UploadCommitStarted
  | UploadCommitted
  | UploadRejected
  | UploadUnknown
  | UploadAwaitingConfirmation

fun upload_state_value :: "StoredUploadState \<Rightarrow> i64" where
  "upload_state_value UploadRunning = 0"
| "upload_state_value UploadCommitStarted = 1"
| "upload_state_value UploadCommitted = 2"
| "upload_state_value UploadRejected = 3"
| "upload_state_value UploadUnknown = 4"
| "upload_state_value UploadAwaitingConfirmation = 5"

definition upload_state_from_database :: "i64 \<Rightarrow> StoredUploadState store_result" where
  "upload_state_from_database v =
     (if v = 0 then Inr UploadRunning
      else if v = 1 then Inr UploadCommitStarted
      else if v = 2 then Inr UploadCommitted
      else if v = 3 then Inr UploadRejected
      else if v = 4 then Inr UploadUnknown
      else if v = 5 then Inr UploadAwaitingConfirmation
      else Inl (InvalidDatabaseState v))"

definition is_terminal :: "StoredUploadState \<Rightarrow> bool" where
  "is_terminal s \<longleftrightarrow> s = UploadCommitted \<or> s = UploadRejected \<or> s = UploadUnknown"

record StoredUploadSession =
  us_key :: UploadSessionKey
  us_target_path :: bytes
  us_stage_path :: bytes
  us_upload_length :: u64
  us_durable_offset :: u64
  us_state :: StoredUploadState
  us_stage_identity :: "StoredFileIdentity option"
  us_target_revision :: "bytes option"

record ExpiredUploadSession =
  eu_session :: StoredUploadSession
  eu_expires_at :: i64

datatype RejectUploadSession =
    RejectNotFound
  | RejectBindingConflict
  | RejectStateConflict StoredUploadSession
  | RejectRejected StoredUploadSession

datatype StoreUploadSession =
    UploadInserted | UploadUpdated | UploadUnchanged | UploadConflict | UploadFull

definition validate_stored_path :: "bytes \<Rightarrow> unit store_result" where
  "validate_stored_path p =
     result_bind (ensure (p \<noteq> []) PathEmpty) (\<lambda>_.
     result_bind (ensure (length p \<le> 65536) PathTooLong) (\<lambda>_.
     ensure (0 \<notin> set p) PathContainsNul))"

definition validate_session :: "StoredUploadSession \<Rightarrow> unit store_result" where
  "validate_session s =
     result_bind (validate_stored_path (us_target_path s)) (\<lambda>_.
     result_bind (validate_stored_path (us_stage_path s)) (\<lambda>_.
     result_bind (ensure (\<not> path_eq (us_target_path s) (us_stage_path s)) PathsMustDiffer) (\<lambda>_.
     result_bind (ensure (us_durable_offset s \<le> us_upload_length s) OffsetExceedsLength) (\<lambda>_.
     result_bind (ensure (us_upload_length s \<le> 9223372036854775807) NotRepresentable) (\<lambda>_.
     result_bind (ensure (us_durable_offset s \<le> 9223372036854775807) NotRepresentable) (\<lambda>_.
     if us_state s = UploadCommitStarted \<or> us_state s = UploadCommitted
        \<or> us_state s = UploadAwaitingConfirmation
     then ensure (us_durable_offset s = us_upload_length s) NotFullyDurable
     else Inr ()))))))"

text \<open>The derived \<open>PartialEq\<close> of a session: paths by components, everything else by value.\<close>

definition session_eq :: "StoredUploadSession \<Rightarrow> StoredUploadSession \<Rightarrow> bool" where
  "session_eq a b \<longleftrightarrow>
     us_key a = us_key b
     \<and> path_eq (us_target_path a) (us_target_path b)
     \<and> path_eq (us_stage_path a) (us_stage_path b)
     \<and> us_upload_length a = us_upload_length b
     \<and> us_durable_offset a = us_durable_offset b
     \<and> us_state a = us_state b
     \<and> us_stage_identity a = us_stage_identity b
     \<and> us_target_revision a = us_target_revision b"

definition expired_session_eq :: "ExpiredUploadSession \<Rightarrow> ExpiredUploadSession \<Rightarrow> bool" where
  "expired_session_eq a b \<longleftrightarrow>
     session_eq (eu_session a) (eu_session b) \<and> eu_expires_at a = eu_expires_at b"

section \<open>Purge jobs\<close>

datatype StoredPurgeState = PurgePrepared | PurgeReady | PurgeClaimed

fun purge_state_value :: "StoredPurgeState \<Rightarrow> i64" where
  "purge_state_value PurgePrepared = 0"
| "purge_state_value PurgeReady = 1"
| "purge_state_value PurgeClaimed = 2"

definition purge_state_from_database :: "i64 \<Rightarrow> StoredPurgeState store_result" where
  "purge_state_from_database v =
     (if v = 0 then Inr PurgePrepared
      else if v = 1 then Inr PurgeReady
      else if v = 2 then Inr PurgeClaimed
      else Inl (InvalidDatabaseState v))"

record StoredPurgeJob =
  pj_key :: PurgeJobKey
  pj_target_path :: bytes
  pj_trash_path :: bytes
  pj_source_identity :: StoredFileIdentity
  pj_trash_revision :: "bytes option"
  pj_is_directory :: bool
  pj_state :: StoredPurgeState
  pj_attempts :: u32

definition validate_new :: "StoredPurgeJob \<Rightarrow> unit store_result" where
  "validate_new j =
     result_bind (validate_stored_path (pj_target_path j)) (\<lambda>_.
     result_bind (validate_stored_path (pj_trash_path j)) (\<lambda>_.
     result_bind (ensure (\<not> path_eq (pj_target_path j) (pj_trash_path j)) PathsMustDiffer) (\<lambda>_.
     result_bind (ensure (pj_state j = PurgePrepared) NewPurgeNotPrepared) (\<lambda>_.
     result_bind (ensure (pj_trash_revision j = None) NewPurgeHasRevision) (\<lambda>_.
     ensure (pj_attempts j = 0) NewPurgeHasAttempts)))))"

datatype StorePurgeJob = PurgeInserted | PurgeExisting | PurgeConflict | PurgeFull

section \<open>State paths\<close>

datatype StatePathCursor =
  StatePathCursor (cur_kind: i64) (cur_owner: bytes) (cur_id: bytes) (cur_slot: i64)

fun cursor_tuple :: "StatePathCursor \<Rightarrow> i64 \<times> bytes \<times> bytes \<times> i64" where
  "cursor_tuple (StatePathCursor k o' i s) = (k, o', i, s)"

lemma cursor_tuple_inject [simp]: "cursor_tuple a = cursor_tuple b \<longleftrightarrow> a = b"
  by (cases a; cases b) auto

instantiation StatePathCursor :: linorder
begin

definition less_eq_StatePathCursor :: "StatePathCursor \<Rightarrow> StatePathCursor \<Rightarrow> bool" where
  "a \<le> b \<longleftrightarrow> cursor_tuple a \<le> cursor_tuple b"

definition less_StatePathCursor :: "StatePathCursor \<Rightarrow> StatePathCursor \<Rightarrow> bool" where
  "a < b \<longleftrightarrow> cursor_tuple a < cursor_tuple b"

instance
  by intro_classes (auto simp: less_eq_StatePathCursor_def less_StatePathCursor_def
      less_le_not_le intro: order_trans dest: antisym)

end

record StateBlockingPath =
  sb_path :: bytes
  sb_allows_exact_replacement :: bool

record StatePathPage =
  sp_paths :: "StateBlockingPath list"
  sp_next :: "StatePathCursor option"

section \<open>Lemmas\<close>

lemma terminal_state_roundtrip [codec_simps]:
  "terminal_state_from_database (terminal_state_value s) = Inr s"
  by (cases s) (auto simp: terminal_state_from_database_def)

lemma upload_state_roundtrip [codec_simps]:
  "upload_state_from_database (upload_state_value s) = Inr s"
  by (cases s) (auto simp: upload_state_from_database_def)

lemma upload_state_from_database_value:
  "upload_state_from_database v = Inr s \<longleftrightarrow> v = upload_state_value s"
  by (cases s) (auto simp: upload_state_from_database_def)

lemma upload_state_value_inject [simp]:
  "upload_state_value a = upload_state_value b \<longleftrightarrow> a = b"
  by (cases a; cases b) auto

lemma purge_state_roundtrip [codec_simps]:
  "purge_state_from_database (purge_state_value s) = Inr s"
  by (cases s) (auto simp: purge_state_from_database_def)

lemma purge_state_from_database_value:
  "purge_state_from_database v = Inr s \<longleftrightarrow> v = purge_state_value s"
  by (cases s) (auto simp: purge_state_from_database_def)

lemma terminal_state_value_inject [simp]:
  "terminal_state_value a = terminal_state_value b \<longleftrightarrow> a = b"
  by (cases a; cases b) auto

lemma session_eq_refl [simp]: "session_eq s s"
  by (simp add: session_eq_def)

lemma session_eq_sym: "session_eq a b \<longleftrightarrow> session_eq b a"
  by (auto simp: session_eq_def path_eq_def)

text \<open>What a successful validation establishes.\<close>

lemma validate_outcome_ok:
  "validate_outcome out = Inr () \<longleftrightarrow>
     100 \<le> so_status out \<and> so_status out \<le> 599
     \<and> (so_state out = Succeeded \<longleftrightarrow> 200 \<le> so_status out \<and> so_status out \<le> 299)
     \<and> (so_state out = Succeeded \<longleftrightarrow> so_code out = None)
     \<and> (\<forall>code. so_code out = Some code \<longrightarrow>
          1 \<le> chars_count code \<and> chars_count code \<le> max_error_code_chars)"
  by (cases "so_state out"; cases "so_code out") (auto simp: validate_outcome_def)

lemma validate_stored_path_ok:
  "validate_stored_path p = Inr () \<longleftrightarrow> p \<noteq> [] \<and> length p \<le> 65536 \<and> 0 \<notin> set p"
  by (auto simp: validate_stored_path_def)

lemma validate_session_ok:
  "validate_session s = Inr () \<longleftrightarrow>
     validate_stored_path (us_target_path s) = Inr ()
     \<and> validate_stored_path (us_stage_path s) = Inr ()
     \<and> \<not> path_eq (us_target_path s) (us_stage_path s)
     \<and> us_durable_offset s \<le> us_upload_length s
     \<and> us_upload_length s \<le> 9223372036854775807
     \<and> (us_state s \<in> {UploadCommitStarted, UploadCommitted, UploadAwaitingConfirmation} \<longrightarrow>
          us_durable_offset s = us_upload_length s)"
  by (auto simp: validate_session_def)

lemma validate_new_ok:
  "validate_new j = Inr () \<longleftrightarrow>
     validate_stored_path (pj_target_path j) = Inr ()
     \<and> validate_stored_path (pj_trash_path j) = Inr ()
     \<and> \<not> path_eq (pj_target_path j) (pj_trash_path j)
     \<and> pj_state j = PurgePrepared \<and> pj_trash_revision j = None \<and> pj_attempts j = 0"
  by (auto simp: validate_new_def)

end
