(* ===== verification/Store_Clock.thy ===== *)
theory Store_Clock
  imports Store_Model
begin

text \<open>
  Limits and clock of the store worker (\<open>src/src/server/state_store.rs\<close>).  An \<open>Instant\<close> is a
  number of nanoseconds of the monotonic clock and a \<open>Duration\<close> is a number of nanoseconds;
  \<open>usize\<close> is 64 bits wide.  The readings of the two clocks are arguments of \<open>observe\<close>.
\<close>

section \<open>Limits\<close>

definition COMMAND_QUEUE_CAPACITY :: nat where
  "COMMAND_QUEUE_CAPACITY = 256"

record RepositoryLimits =
  repo_upload_capacity :: u64
  repo_upload_per_owner :: u64
  repo_purge_capacity :: u64
  repo_purge_per_owner :: u64

definition REPOSITORY_LIMITS :: RepositoryLimits where
  "REPOSITORY_LIMITS =
     \<lparr>repo_upload_capacity = 16384, repo_upload_per_owner = 4096,
      repo_purge_capacity = 4096, repo_purge_per_owner = 1024\<rparr>"

record Limits =
  lim_capacity :: i64
  lim_per_owner :: i64
  lim_ttl_ms :: i64
  lim_upload_ttl_ms :: i64
  lim_upload_capacity :: i64
  lim_upload_per_owner :: i64
  lim_purge_capacity :: i64
  lim_purge_per_owner :: i64

type_synonym duration = nat

definition as_millis :: "duration \<Rightarrow> nat" where
  "as_millis d = d div 1000000"

definition duration_ms :: "duration \<Rightarrow> i64 store_result" where
  "duration_ms d =
     (if is_i64 (int (as_millis d)) then Inr (int (as_millis d)) else Inl DurationTooLarge)"

definition validate_limits ::
  "u64 \<Rightarrow> u64 \<Rightarrow> duration \<Rightarrow> duration \<Rightarrow> RepositoryLimits \<Rightarrow> Limits store_result" where
  "validate_limits capacity per_owner ttl upload_ttl repo =
     result_bind (ensure (0 < capacity) InvalidCapacities) (\<lambda>_.
     result_bind (ensure (1 \<le> per_owner \<and> per_owner \<le> capacity) InvalidCapacities) (\<lambda>_.
     result_bind (ok_or (i64_of_u64 capacity) LimitTooLarge) (\<lambda>cap.
     result_bind (ok_or (i64_of_u64 per_owner) LimitTooLarge) (\<lambda>own.
     result_bind (duration_ms ttl) (\<lambda>ttl_ms.
     result_bind (duration_ms upload_ttl) (\<lambda>upload_ttl_ms.
     result_bind (ensure (0 < repo_upload_capacity repo \<and> 1 \<le> repo_upload_per_owner repo
                    \<and> repo_upload_per_owner repo \<le> repo_upload_capacity repo)
                  InvalidCapacities) (\<lambda>_.
     result_bind (ensure (0 < repo_purge_capacity repo \<and> 1 \<le> repo_purge_per_owner repo
                    \<and> repo_purge_per_owner repo \<le> repo_purge_capacity repo)
                  InvalidCapacities) (\<lambda>_.
     result_bind (ok_or (i64_of_u64 (repo_upload_capacity repo)) LimitTooLarge) (\<lambda>uc.
     result_bind (ok_or (i64_of_u64 (repo_upload_per_owner repo)) LimitTooLarge) (\<lambda>uo.
     result_bind (ok_or (i64_of_u64 (repo_purge_capacity repo)) LimitTooLarge) (\<lambda>pc.
     result_bind (ok_or (i64_of_u64 (repo_purge_per_owner repo)) LimitTooLarge) (\<lambda>po.
     Inr \<lparr>lim_capacity = cap, lim_per_owner = own, lim_ttl_ms = ttl_ms,
          lim_upload_ttl_ms = upload_ttl_ms, lim_upload_capacity = uc,
          lim_upload_per_owner = uo, lim_purge_capacity = pc,
          lim_purge_per_owner = po\<rparr>))))))))))))"

definition query_limit :: "u64 \<Rightarrow> i64 store_result" where
  "query_limit limit =
     result_bind (ensure (0 < limit) LimitNotPositive) (\<lambda>_.
     ok_or (i64_of_u64 limit) LimitTooLarge)"

text \<open>What the rest of the store relies on.\<close>

definition limits_ok :: "Limits \<Rightarrow> bool" where
  "limits_ok l \<longleftrightarrow>
     1 \<le> lim_per_owner l \<and> lim_per_owner l \<le> lim_capacity l
     \<and> 0 \<le> lim_ttl_ms l \<and> 0 \<le> lim_upload_ttl_ms l
     \<and> 1 \<le> lim_upload_per_owner l \<and> lim_upload_per_owner l \<le> lim_upload_capacity l
     \<and> 1 \<le> lim_purge_per_owner l \<and> lim_purge_per_owner l \<le> lim_purge_capacity l
     \<and> is_i64 (lim_capacity l) \<and> is_i64 (lim_ttl_ms l) \<and> is_i64 (lim_upload_ttl_ms l)
     \<and> is_i64 (lim_upload_capacity l) \<and> is_i64 (lim_purge_capacity l)"

lemma i64_of_u64_bounds:
  "i64_of_u64 w = Some x \<Longrightarrow> 0 \<le> x \<and> is_i64 x"
  by (auto simp: i64_of_u64_Some is_i64_def i64_min_def intro: order_trans [of _ 0])

lemma i64_of_u64_mono:
  "i64_of_u64 v = Some x \<Longrightarrow> i64_of_u64 w = Some y \<Longrightarrow> v \<le> w \<Longrightarrow> x \<le> y"
  by (auto simp: i64_of_u64_Some word_le_def)

lemma i64_of_u64_pos: "i64_of_u64 w = Some x \<Longrightarrow> 1 \<le> w \<Longrightarrow> 1 \<le> x"
  by (auto simp: i64_of_u64_Some word_le_def)

lemma duration_ms_Inr: "duration_ms d = Inr x \<Longrightarrow> 0 \<le> x \<and> is_i64 x"
  by (auto simp: duration_ms_def split: if_splits)

lemma validate_limits_ok:
  "validate_limits capacity per_owner ttl upload_ttl repo = Inr l \<Longrightarrow> limits_ok l"
  by (auto simp: validate_limits_def limits_ok_def dest: duration_ms_Inr i64_of_u64_bounds
      i64_of_u64_mono i64_of_u64_pos)

section \<open>Clock\<close>

record StoreClock =
  wall_anchor_ms :: i64
  monotonic_anchor :: nat
  last_ms :: i64

definition clock_new :: "i64 \<Rightarrow> nat \<Rightarrow> StoreClock" where
  "clock_new wall inst = \<lparr>wall_anchor_ms = wall, monotonic_anchor = inst, last_ms = wall\<rparr>"

definition observe ::
  "i64 option \<Rightarrow> nat \<Rightarrow> StoreClock \<Rightarrow> i64 store_result \<times> StoreClock" where
  "observe wall_now monotonic_now c =
     (if monotonic_now < monotonic_anchor c then (Inl ClockMovedBackwards, c)
      else let elapsed_ms = int (as_millis (monotonic_now - monotonic_anchor c)) in
        if \<not> is_i64 elapsed_ms then (Inl ClockNotRepresentable, c)
        else (case i64_checked_add (wall_anchor_ms c) elapsed_ms of
          None \<Rightarrow> (Inl ClockOverflow, c)
        | Some candidate \<Rightarrow>
            let (c', candidate') =
              (case wall_now of
                 Some w \<Rightarrow>
                   if w > candidate
                   then (c\<lparr>wall_anchor_ms := w, monotonic_anchor := monotonic_now\<rparr>, w)
                   else (c, candidate)
               | None \<Rightarrow> (c, candidate));
              now = max candidate' (last_ms c)
            in (Inr now, c'\<lparr>last_ms := now\<rparr>)))"

definition expiration_time :: "i64 \<Rightarrow> i64 \<Rightarrow> i64 store_result" where
  "expiration_time now ttl = ok_or (i64_checked_add now ttl) ExpirationOverflow"

text \<open>A run of the clock over a sequence of readings, keeping the successful results.\<close>

fun observe_all :: "StoreClock \<Rightarrow> (i64 option \<times> nat) list \<Rightarrow> i64 list" where
  "observe_all c [] = []"
| "observe_all c ((w, m) # obs) =
     (case observe w m c of
        (Inl _, c') \<Rightarrow> observe_all c' obs
      | (Inr t, c') \<Rightarrow> t # observe_all c' obs)"

lemma observe_Inr:
  assumes "observe w m c = (Inr t, c')"
  shows "last_ms c \<le> t" and "last_ms c' = t"
    and "wall_anchor_ms c + int (as_millis (m - monotonic_anchor c)) \<le> t"
    and "w = Some x \<Longrightarrow> x \<le> t"
  using assms
  by (auto simp: observe_def Let_def i64_checked_add_Some split: if_splits option.splits)

lemma observe_Inl: "observe w m c = (Inl e, c') \<Longrightarrow> c' = c"
  by (auto simp: observe_def Let_def split: if_splits option.splits prod.splits)

lemma observe_is_i64:
  "observe w m c = (Inr t, c') \<Longrightarrow> is_i64 (last_ms c) \<Longrightarrow> (\<forall>x. w = Some x \<longrightarrow> is_i64 x) \<Longrightarrow> is_i64 t"
  by (auto simp: observe_def Let_def i64_checked_add_Some max_def
      split: if_splits option.splits prod.splits)

lemma observe_all_lower: "t \<in> set (observe_all c obs) \<Longrightarrow> last_ms c \<le> t"
proof (induction obs arbitrary: c)
  case (Cons wm obs)
  obtain w m r c' where wm: "wm = (w, m)" and o': "observe w m c = (r, c')" by force
  show ?case
  proof (cases r)
    case (Inl e)
    with Cons wm o' observe_Inl [of w m c e c'] show ?thesis by auto
  next
    case (Inr t')
    with o' have "last_ms c \<le> t'" "last_ms c' = t'" by (simp_all add: observe_Inr)
    with Cons wm o' Inr show ?thesis by (auto intro: order_trans)
  qed
qed simp

lemma observe_all_Cons:
  "observe_all c ((w, m) # obs) =
     (case fst (observe w m c) of Inl _ \<Rightarrow> [] | Inr t \<Rightarrow> [t]) @
       observe_all (snd (observe w m c)) obs"
  by (simp split: prod.split sum.split)

lemma expiration_time_Inr [simp]:
  "expiration_time now ttl = Inr x \<longleftrightarrow> x = now + ttl \<and> is_i64 (now + ttl)"
  by (auto simp: expiration_time_def i64_checked_add_Some)

text \<open>The clock of the store never runs backwards.  Over any sequence of readings of the wall
  clock (which may be unavailable or step in either direction) and of the monotonic clock, the
  successful results are in order and none is before the last one already reported.\<close>

theorem store_clock_monotone: "sorted (last_ms c # observe_all c obs)"
proof (induction obs arbitrary: c)
  case (Cons wm obs)
  obtain w m r c' where wm: "wm = (w, m)" and o': "observe w m c = (r, c')" by force
  show ?case
  proof (cases r)
    case (Inl e)
    with Cons wm o' observe_Inl [of w m c e c'] show ?thesis by auto
  next
    case (Inr t)
    with o' have "last_ms c \<le> t" "last_ms c' = t" by (simp_all add: observe_Inr)
    with Cons [of c'] wm o' Inr show ?thesis by fastforce
  qed
qed simp

end
