(* ===== verification/Operation_Store.thy ===== *)
theory Operation_Store
  imports Store_Clock
begin

text \<open>
  The operation ledger of the state store (\<open>src/src/server/state_store/operation.rs\<close> over the
  table \<open>operations\<close> of \<open>src/schema/product.sql\<close>).  A row is kept as its raw columns, so that
  the decoding errors of the code are branches of the model.  Every operation runs in one
  \<open>BEGIN IMMEDIATE\<close> transaction: a result \<open>Inr (x, t)\<close> commits the table \<open>t\<close>, an error rolls
  back.  \<open>now\<close> is the reading of the store clock, \<open>lease\<close> the fresh UUID of \<open>begin_operation\<close>.
\<close>

section \<open>Rows\<close>

definition OPERATION_RESERVED :: i64 where "OPERATION_RESERVED = 0"
definition OPERATION_COMMIT_STARTED :: i64 where "OPERATION_COMMIT_STARTED = 1"
definition OPERATION_COMPLETED :: i64 where "OPERATION_COMPLETED = 2"
definition UNKNOWN_STATUS :: u16 where "UNKNOWN_STATUS = 500"
definition UNKNOWN_CODE :: string where "UNKNOWN_CODE = ''outcome_uncertain''"

lemmas operation_states = OPERATION_RESERVED_def OPERATION_COMMIT_STARTED_def
  OPERATION_COMPLETED_def

record OperationRow =
  op_fingerprint :: bytes
  op_lease :: bytes
  op_state :: i64
  op_terminal_state :: "i64 option"
  op_http_status :: "i64 option"
  op_error_code :: "string option"
  op_created_at :: i64
  op_updated_at :: i64
  op_expires_at :: "i64 option"

type_synonym operations = "(OperationKey, OperationRow) table"

text \<open>SQLite's \<open>length\<close> of a text counts the characters before the first NUL.\<close>

definition sql_text_length :: "string \<Rightarrow> nat" where
  "sql_text_length s = chars_count (takeWhile (\<lambda>c. c \<noteq> CHR 0x00) s)"

text \<open>The \<open>CHECK\<close> constraints.  A constraint is violated only when it evaluates to false, so a
  comparison with a NULL column, which evaluates to NULL, does not violate it.\<close>

definition sql_between :: "i64 option \<Rightarrow> i64 \<Rightarrow> i64 \<Rightarrow> bool option" where
  "sql_between x lo hi = map_option (\<lambda>v. lo \<le> v \<and> v \<le> hi) x"

definition not_false :: "bool option \<Rightarrow> bool" where
  "not_false b \<longleftrightarrow> b \<noteq> Some False"

definition operation_check :: "OperationKey \<Rightarrow> OperationRow \<Rightarrow> bool" where
  "operation_check k r \<longleftrightarrow>
     key_ok k
     \<and> length (op_fingerprint r) = 32
     \<and> length (op_lease r) = 16
     \<and> op_state r \<in> {0, 1, 2}
     \<and> not_false (sql_between (op_terminal_state r) 0 2)
     \<and> (case op_error_code r of None \<Rightarrow> True
        | Some c \<Rightarrow> 1 \<le> sql_text_length c \<and> sql_text_length c \<le> 128)
     \<and> ((op_state r \<in> {0, 1}
         \<and> op_terminal_state r = None
         \<and> op_http_status r = None
         \<and> op_error_code r = None
         \<and> op_expires_at r = None)
        \<or>
        (op_state r = 2
         \<and> op_terminal_state r \<noteq> None
         \<and> not_false (sql_between (op_http_status r) 100 599)
         \<and> op_expires_at r \<noteq> None
         \<and> ((op_terminal_state r = Some 0
             \<and> not_false (sql_between (op_http_status r) 200 299)
             \<and> op_error_code r = None)
            \<or>
            (op_terminal_state r \<in> {Some 1, Some 2}
             \<and> not_false (map_option Not (sql_between (op_http_status r) 200 299))
             \<and> op_error_code r \<noteq> None))))"

section \<open>Operations\<close>

definition into_outcome :: "OperationRow \<Rightarrow> StoredOutcome store_result" where
  "into_outcome r =
     result_bind (ok_or (op_terminal_state r) MissingTerminalState) (\<lambda>state.
     result_bind (ok_or (op_http_status r) MissingHttpStatus) (\<lambda>raw.
     result_bind (ok_or (u16_of_i64 raw) InvalidHttpStatus) (\<lambda>status.
     result_bind (terminal_state_from_database state) (\<lambda>terminal.
     let outcome = \<lparr>so_status = status, so_state = terminal, so_code = op_error_code r\<rparr> in
     result_bind (validate_outcome outcome) (\<lambda>_. Inr outcome)))))"

definition load_operation :: "OperationKey \<Rightarrow> operations \<Rightarrow> OperationRow option store_result" where
  "load_operation k t =
     (case tbl_get t k of
        None \<Rightarrow> Inr None
      | Some r \<Rightarrow> if length (op_fingerprint r) = 32 then Inr (Some r) else Inl InvalidLength)"

definition operation_expired :: "i64 \<Rightarrow> OperationRow \<Rightarrow> bool" where
  "operation_expired now r \<longleftrightarrow>
     op_state r = OPERATION_COMPLETED
     \<and> (case op_expires_at r of None \<Rightarrow> False | Some e \<Rightarrow> e \<le> now)"

definition purge_expired :: "i64 \<Rightarrow> operations \<Rightarrow> operations" where
  "purge_expired now t = tbl_delete (\<lambda>_ r. operation_expired now r) t"

definition operation_has_room :: "Limits \<Rightarrow> OperationKey \<Rightarrow> operations \<Rightarrow> bool" where
  "operation_has_room l k t \<longleftrightarrow>
     \<not> (int (tbl_count (\<lambda>_ _. True) t) \<ge> lim_capacity l
        \<or> int (tbl_count (\<lambda>k' _. key_owner k' = key_owner k) t) \<ge> lim_per_owner l)"

definition reserved_row :: "bytes \<Rightarrow> bytes \<Rightarrow> i64 \<Rightarrow> OperationRow" where
  "reserved_row fingerprint lease now =
     \<lparr>op_fingerprint = fingerprint, op_lease = lease, op_state = OPERATION_RESERVED,
      op_terminal_state = None, op_http_status = None, op_error_code = None,
      op_created_at = now, op_updated_at = now, op_expires_at = None\<rparr>"

definition begin_operation ::
  "Limits \<Rightarrow> i64 \<Rightarrow> bytes \<Rightarrow> OperationKey \<Rightarrow> bytes \<Rightarrow> operations \<Rightarrow>
   (StoreBegin \<times> operations) store_result" where
  "begin_operation l now lease k fingerprint t0 =
     (let t = purge_expired now t0 in
      result_bind (load_operation k t) (\<lambda>existing.
      case existing of
        Some row \<Rightarrow>
          if op_fingerprint row \<noteq> fingerprint then Inr (Conflict, t)
          else if op_state row = OPERATION_RESERVED \<or> op_state row = OPERATION_COMMIT_STARTED
            then Inr (BeginRunning, t)
          else if op_state row = OPERATION_COMPLETED
            then result_map (\<lambda>outcome. (Replay outcome, t)) (into_outcome row)
          else Inl (InvalidDatabaseState (op_state row))
      | None \<Rightarrow>
          if \<not> operation_has_room l k t then Inr (Full, t)
          else result_map (\<lambda>t'. (Started lease, t'))
            (sql_insert ConstraintViolated operation_check k
               (reserved_row fingerprint lease now) t)))"

definition operation_status ::
  "i64 \<Rightarrow> OperationKey \<Rightarrow> operations \<Rightarrow> (StoreStatus \<times> operations) store_result" where
  "operation_status now k t0 =
     (let t = purge_expired now t0 in
      result_bind (load_operation k t) (\<lambda>existing.
      case existing of
        Some row \<Rightarrow>
          if op_state row = OPERATION_RESERVED \<or> op_state row = OPERATION_COMMIT_STARTED
            then Inr (StatusRunning, t)
          else if op_state row = OPERATION_COMPLETED
            then result_map (\<lambda>outcome. (StatusCompleted outcome, t)) (into_outcome row)
          else Inl (InvalidDatabaseState (op_state row))
      | None \<Rightarrow> Inr (StatusNotFound, t)))"

definition mark_operation_commit_started ::
  "i64 \<Rightarrow> OperationKey \<Rightarrow> bytes \<Rightarrow> operations \<Rightarrow> (bool \<times> operations) store_result" where
  "mark_operation_commit_started now k lease t =
     result_map (\<lambda>(changed, t'). (changed = 1, t'))
       (sql_update ConstraintViolated operation_check
          (\<lambda>k' r. k' = k \<and> (op_lease r = lease \<and> op_state r = OPERATION_RESERVED))
          (\<lambda>r. r\<lparr>op_state := OPERATION_COMMIT_STARTED, op_updated_at := now\<rparr>) t)"

definition completed_row :: "StoredOutcome \<Rightarrow> i64 \<Rightarrow> i64 \<Rightarrow> OperationRow \<Rightarrow> OperationRow" where
  "completed_row outcome now expires_at r =
     r\<lparr>op_state := OPERATION_COMPLETED,
       op_terminal_state := Some (terminal_state_value (so_state outcome)),
       op_http_status := Some (uint (so_status outcome)),
       op_error_code := so_code outcome,
       op_updated_at := now,
       op_expires_at := Some expires_at\<rparr>"

definition complete_operation ::
  "Limits \<Rightarrow> i64 \<Rightarrow> OperationKey \<Rightarrow> bytes \<Rightarrow> StoredOutcome \<Rightarrow> operations \<Rightarrow>
   (bool \<times> operations) store_result" where
  "complete_operation l now k lease outcome t =
     result_bind (expiration_time now (lim_ttl_ms l)) (\<lambda>expires_at.
     result_map (\<lambda>(changed, t'). (changed = 1, t'))
       (sql_update ConstraintViolated operation_check
          (\<lambda>k' r. k' = k \<and> (op_lease r = lease \<and>
             (op_state r = OPERATION_RESERVED \<or> op_state r = OPERATION_COMMIT_STARTED)))
          (completed_row outcome now expires_at) t))"

definition uncertain_outcome :: StoredOutcome where
  "uncertain_outcome =
     \<lparr>so_status = UNKNOWN_STATUS, so_state = TerminalUnknown, so_code = Some UNKNOWN_CODE\<rparr>"

definition abandon_operation ::
  "Limits \<Rightarrow> i64 \<Rightarrow> OperationKey \<Rightarrow> bytes \<Rightarrow> operations \<Rightarrow> operations store_result" where
  "abandon_operation l now k lease t =
     result_bind (expiration_time now (lim_ttl_ms l)) (\<lambda>expires_at.
     let reserved = (\<lambda>k' r. k' = k \<and> (op_lease r = lease \<and> op_state r = OPERATION_RESERVED))
     in if tbl_count reserved t = 0
        then result_map snd
          (sql_update ConstraintViolated operation_check
             (\<lambda>k' r. k' = k \<and> (op_lease r = lease \<and> op_state r = OPERATION_COMMIT_STARTED))
             (completed_row uncertain_outcome now expires_at) t)
        else Inr (tbl_delete reserved t))"

section \<open>Abstract specification\<close>

text \<open>What the ledger promises about one key: absent, reserved or committing under a lease, or
  done with an outcome until an expiry time.\<close>

datatype op_view =
    Absent
  | ReservedBy bytes bytes
  | CommittingBy bytes bytes
  | Done bytes StoredOutcome i64
  | Corrupt

definition row_view :: "OperationRow \<Rightarrow> op_view" where
  "row_view r =
     (if op_state r = OPERATION_RESERVED then ReservedBy (op_fingerprint r) (op_lease r)
      else if op_state r = OPERATION_COMMIT_STARTED then CommittingBy (op_fingerprint r) (op_lease r)
      else if op_state r = OPERATION_COMPLETED then
        (case (into_outcome r, op_expires_at r) of
           (Inr outcome, Some e) \<Rightarrow> Done (op_fingerprint r) outcome e
         | _ \<Rightarrow> Corrupt)
      else Corrupt)"

definition operation_view :: "operations \<Rightarrow> OperationKey \<Rightarrow> op_view" where
  "operation_view t k = (case tbl_get t k of None \<Rightarrow> Absent | Some r \<Rightarrow> row_view r)"

fun spec_expire :: "i64 \<Rightarrow> op_view \<Rightarrow> op_view" where
  "spec_expire now (Done fp outcome e) = (if e \<le> now then Absent else Done fp outcome e)"
| "spec_expire now v = v"

fun spec_begin :: "bool \<Rightarrow> bytes \<Rightarrow> bytes \<Rightarrow> op_view \<Rightarrow> StoreBegin \<times> op_view" where
  "spec_begin room lease fp Absent =
     (if room then (Started lease, ReservedBy fp lease) else (Full, Absent))"
| "spec_begin room lease fp (ReservedBy fp' l) =
     (if fp' = fp then BeginRunning else Conflict, ReservedBy fp' l)"
| "spec_begin room lease fp (CommittingBy fp' l) =
     (if fp' = fp then BeginRunning else Conflict, CommittingBy fp' l)"
| "spec_begin room lease fp (Done fp' outcome e) =
     (if fp' = fp then Replay outcome else Conflict, Done fp' outcome e)"
| "spec_begin room lease fp Corrupt = (Conflict, Corrupt)"

fun spec_status :: "op_view \<Rightarrow> StoreStatus" where
  "spec_status (ReservedBy _ _) = StatusRunning"
| "spec_status (CommittingBy _ _) = StatusRunning"
| "spec_status (Done _ outcome _) = StatusCompleted outcome"
| "spec_status _ = StatusNotFound"

fun spec_mark :: "bytes \<Rightarrow> op_view \<Rightarrow> bool \<times> op_view" where
  "spec_mark lease (ReservedBy fp l) =
     (if l = lease then (True, CommittingBy fp l) else (False, ReservedBy fp l))"
| "spec_mark lease v = (False, v)"

fun spec_complete :: "i64 \<Rightarrow> StoredOutcome \<Rightarrow> bytes \<Rightarrow> op_view \<Rightarrow> bool \<times> op_view" where
  "spec_complete e outcome lease (ReservedBy fp l) =
     (if l = lease then (True, Done fp outcome e) else (False, ReservedBy fp l))"
| "spec_complete e outcome lease (CommittingBy fp l) =
     (if l = lease then (True, Done fp outcome e) else (False, CommittingBy fp l))"
| "spec_complete e outcome lease v = (False, v)"

fun spec_abandon :: "i64 \<Rightarrow> bytes \<Rightarrow> op_view \<Rightarrow> op_view" where
  "spec_abandon e lease (ReservedBy fp l) = (if l = lease then Absent else ReservedBy fp l)"
| "spec_abandon e lease (CommittingBy fp l) =
     (if l = lease then Done fp uncertain_outcome e else CommittingBy fp l)"
| "spec_abandon e lease v = v"

section \<open>Invariant\<close>

definition operation_row_ok :: "OperationKey \<Rightarrow> OperationRow \<Rightarrow> bool" where
  "operation_row_ok k r \<longleftrightarrow> operation_check k r \<and> row_view r \<noteq> Corrupt"

definition operations_inv :: "operations \<Rightarrow> bool" where
  "operations_inv t \<longleftrightarrow> tbl_wf t \<and> tbl_all operation_row_ok t"

definition operations_bounded :: "Limits \<Rightarrow> operations \<Rightarrow> bool" where
  "operations_bounded l t \<longleftrightarrow>
     int (tbl_count (\<lambda>_ _. True) t) \<le> lim_capacity l
     \<and> (\<forall>owner. int (tbl_count (\<lambda>k _. key_owner k = owner) t) \<le> lim_per_owner l)"

text \<open>An outcome that passes validation and whose code has no NUL character.\<close>

definition outcome_storable :: "StoredOutcome \<Rightarrow> bool" where
  "outcome_storable out \<longleftrightarrow>
     validate_outcome out = Inr ()
     \<and> (case so_code out of None \<Rightarrow> True | Some c \<Rightarrow> CHR 0x00 \<notin> set c)"

lemma sql_text_length_no_nul: "CHR 0x00 \<notin> set c \<Longrightarrow> sql_text_length c = chars_count c"
proof -
  assume "CHR 0x00 \<notin> set c"
  then have "takeWhile (\<lambda>x. x \<noteq> CHR 0x00) c = c" by (auto simp: takeWhile_eq_all_conv)
  then show ?thesis by (simp only: sql_text_length_def)
qed

lemma operations_inv_Nil [simp]: "operations_inv []"
  by (simp add: operations_inv_def tbl_all_def)

lemma uint_le_of_word_le:
  "(numeral n :: u16) \<le> w \<longleftrightarrow> uint (numeral n :: u16) \<le> uint w"
  "w \<le> (numeral n :: u16) \<longleftrightarrow> uint w \<le> uint (numeral n :: u16)"
  by (simp_all add: word_le_def)

lemma completed_row_outcome:
  assumes "validate_outcome outcome = Inr ()"
  shows "into_outcome (completed_row outcome now e r) = Inr outcome"
  using assms by (cases outcome) (simp add: into_outcome_def completed_row_def codec_simps Let_def)

lemma completed_row_view:
  assumes "validate_outcome outcome = Inr ()"
  shows "row_view (completed_row outcome now e r) = Done (op_fingerprint r) outcome e"
proof -
  have "op_state (completed_row outcome now e r) = 2"
    "op_expires_at (completed_row outcome now e r) = Some e"
    "op_fingerprint (completed_row outcome now e r) = op_fingerprint r"
    by (simp_all add: completed_row_def operation_states)
  with completed_row_outcome [OF assms] show ?thesis
    by (simp add: row_view_def operation_states)
qed

lemma completed_row_check:
  assumes "operation_check k r" and "outcome_storable outcome"
  shows "operation_check k (completed_row outcome now e r)"
  using assms
  by (cases "so_state outcome")
    (auto simp: operation_check_def completed_row_def outcome_storable_def validate_outcome_ok
      operation_states not_false_def sql_between_def sql_text_length_no_nul
      max_error_code_chars_def uint_le_of_word_le split: option.splits)

lemma uncertain_outcome_storable [simp]: "outcome_storable uncertain_outcome"
  by (simp add: outcome_storable_def uncertain_outcome_def validate_outcome_ok UNKNOWN_STATUS_def
      UNKNOWN_CODE_def chars_count_def max_error_code_chars_def)

lemma storable_valid: "outcome_storable out \<Longrightarrow> validate_outcome out = Inr ()"
  by (simp add: outcome_storable_def)

lemma completed_row_ok:
  "operation_check k r \<Longrightarrow> outcome_storable outcome \<Longrightarrow>
    operation_row_ok k (completed_row outcome now e r)"
  by (simp add: operation_row_ok_def completed_row_check completed_row_view storable_valid)

section \<open>Refinement\<close>

lemma operation_row_ok_expired:
  assumes "operation_row_ok k r"
  shows "spec_expire now (row_view r) = (if operation_expired now r then Absent else row_view r)"
  using assms
  by (auto simp: operation_row_ok_def row_view_def operation_expired_def operation_states
      split: if_splits option.splits sum.splits)

lemma operation_row_ok_fingerprint [simp]:
  "operation_row_ok k r \<Longrightarrow> length (op_fingerprint r) = 32"
  by (simp add: operation_row_ok_def operation_check_def)

lemma purge_expired_inv [wf_intros]: "operations_inv t \<Longrightarrow> operations_inv (purge_expired now t)"
  by (simp add: operations_inv_def purge_expired_def wf_intros)

lemma purge_expired_view:
  assumes "operations_inv t"
  shows "operation_view (purge_expired now t) k = spec_expire now (operation_view t k)"
proof (cases "tbl_get t k")
  case (Some r)
  with assms have "operation_row_ok k r" by (auto simp: operations_inv_def dest: tbl_all_get)
  with Some assms show ?thesis
    by (simp add: operation_view_def purge_expired_def operations_inv_def tbl_get_delete
        operation_row_ok_expired)
qed (use assms in \<open>simp add: operation_view_def purge_expired_def operations_inv_def tbl_get_delete\<close>)

lemma load_operation_inv:
  "operations_inv t \<Longrightarrow> load_operation k t = Inr (tbl_get t k)"
  by (auto simp: load_operation_def operations_inv_def split: option.splits dest!: tbl_all_get)

lemma row_view_cases:
  assumes "operation_row_ok k r"
  obtains (reserved) "op_state r = OPERATION_RESERVED"
      "row_view r = ReservedBy (op_fingerprint r) (op_lease r)"
  | (committing) "op_state r = OPERATION_COMMIT_STARTED"
      "row_view r = CommittingBy (op_fingerprint r) (op_lease r)"
  | (done') outcome e where "op_state r = OPERATION_COMPLETED" "into_outcome r = Inr outcome"
      "op_expires_at r = Some e" "row_view r = Done (op_fingerprint r) outcome e"
proof -
  have "op_state r = OPERATION_RESERVED \<or> op_state r = OPERATION_COMMIT_STARTED
    \<or> op_state r = OPERATION_COMPLETED"
    using assms by (auto simp: operation_row_ok_def operation_check_def operation_states)
  with assms that show thesis
    by (auto simp: operation_row_ok_def row_view_def operation_states
        split: if_splits option.splits sum.splits)
qed

lemma operations_inv_get:
  "operations_inv t \<Longrightarrow> tbl_get t k = Some r \<Longrightarrow> operation_row_ok k r"
  by (auto simp: operations_inv_def dest: tbl_all_get)

lemma operation_view_put:
  "operation_view (tbl_put k r t) k' = (if k' = k then row_view r else operation_view t k')"
  by (simp add: operation_view_def tbl_get_put)

lemma reserved_row_ok:
  "key_ok k \<Longrightarrow> length fp = 32 \<Longrightarrow> length lease = 16 \<Longrightarrow>
    operation_row_ok k (reserved_row fp lease now)"
  by (simp add: operation_row_ok_def operation_check_def reserved_row_def row_view_def
      operation_states not_false_def sql_between_def)

lemma reserved_row_view [simp]: "row_view (reserved_row fp lease now) = ReservedBy fp lease"
  by (simp add: reserved_row_def row_view_def)

lemma begin_refines:
  fixes now t0
  assumes inv: "operations_inv t0"
    and "key_ok k" and "length fp = 32" and "length lease = 16"
  defines "t \<equiv> purge_expired now t0"
  shows "\<exists>res t'. begin_operation l now lease k fp t0 = Inr (res, t')
    \<and> operations_inv t'
    \<and> (res, operation_view t' k) =
        spec_begin (operation_has_room l k t) lease fp (spec_expire now (operation_view t0 k))
    \<and> (\<forall>k'. k' \<noteq> k \<longrightarrow> operation_view t' k' = spec_expire now (operation_view t0 k'))
    \<and> ((\<exists>le. res = Started le) \<longrightarrow> operation_has_room l k t \<and> tbl_get t k = None
         \<and> t' = tbl_put k (reserved_row fp lease now) t)
    \<and> ((\<nexists>le. res = Started le) \<longrightarrow> t' = t)"
proof -
  have inv': "operations_inv t" unfolding t_def using inv by (rule wf_intros)
  have view: "spec_expire now (operation_view t0 k') = operation_view t k'" for k'
    unfolding t_def using inv by (simp add: purge_expired_view)
  have row: "operation_row_ok k (reserved_row fp lease now)"
    using assms by (intro reserved_row_ok)
  show ?thesis
  proof (cases "tbl_get t k")
    case None
    have "operations_inv (tbl_put k (reserved_row fp lease now) t)"
      using inv' row by (simp add: operations_inv_def wf_intros)
    moreover have "operation_check k (reserved_row fp lease now)"
      using row by (simp add: operation_row_ok_def)
    ultimately show ?thesis
      using None inv' unfolding begin_operation_def t_def [symmetric] Let_def
      by (auto simp: load_operation_inv view sql_insert_def operation_view_put)
         (auto simp: operation_view_def)
  next
    case (Some r)
    with inv' have "operation_row_ok k r" by (rule operations_inv_get)
    then show ?thesis
      by (cases rule: row_view_cases)
        (use Some inv' in \<open>auto simp: begin_operation_def t_def [symmetric] Let_def
          load_operation_inv view operation_view_def [of t k] operation_states\<close>)
  qed
qed

lemma status_refines:
  assumes inv: "operations_inv t0"
  shows "operation_status now k t0 =
    Inr (spec_status (spec_expire now (operation_view t0 k)), purge_expired now t0)"
proof -
  define t where "t = purge_expired now t0"
  have inv': "operations_inv t" unfolding t_def using inv by (rule wf_intros)
  have view: "spec_expire now (operation_view t0 k) = operation_view t k"
    unfolding t_def using inv by (simp add: purge_expired_view)
  show ?thesis
  proof (cases "tbl_get t k")
    case None
    with inv' show ?thesis
      by (simp add: operation_status_def t_def [symmetric] Let_def load_operation_inv view
          operation_view_def [of t k])
  next
    case (Some r)
    with inv' have "operation_row_ok k r" by (rule operations_inv_get)
    then show ?thesis
      by (cases rule: row_view_cases)
        (use Some inv' in \<open>auto simp: operation_status_def t_def [symmetric] Let_def
          load_operation_inv view operation_view_def [of t k] operation_states\<close>)
  qed
qed

text \<open>An update of the row of one key that keeps rows well formed and acts on the view of the
  row as a specification step does.\<close>

lemma keyed_update:
  assumes inv: "operations_inv t"
    and ok: "\<And>r. tbl_get t k = Some r \<Longrightarrow> operation_row_ok k r \<Longrightarrow> P r \<Longrightarrow> operation_row_ok k (f r)"
    and spec: "\<And>r. operation_row_ok k r \<Longrightarrow>
      (P r, row_view (if P r then f r else r)) = spec (row_view r)"
    and absent: "spec Absent = (False, Absent)"
  shows "\<exists>n t'. sql_update e operation_check (\<lambda>k' r. k' = k \<and> P r) f t = Inr (n, t')
    \<and> operations_inv t'
    \<and> (n = 1, operation_view t' k) = spec (operation_view t k)
    \<and> (\<forall>k'. k' \<noteq> k \<longrightarrow> operation_view t' k' = operation_view t k')"
proof -
  define t' where "t' = tbl_update (\<lambda>k' r. k' = k \<and> P r) f t"
  define n :: nat where "n = (case tbl_get t k of None \<Rightarrow> 0 | Some r \<Rightarrow> if P r then 1 else 0)"
  have wf: "tbl_wf t" using inv by (simp add: operations_inv_def)
  have "tbl_all (\<lambda>k' r. k' = k \<and> P r \<longrightarrow> operation_check k' (f r)) t"
    using inv ok by (auto simp: tbl_all_key [OF wf] operation_row_ok_def dest: operations_inv_get
        split: option.splits)
  then have "sql_update e operation_check (\<lambda>k' r. k' = k \<and> P r) f t = Inr (n, t')"
    by (simp add: sql_update_def tbl_count_key [OF wf] t'_def n_def)
  moreover have "operations_inv t'"
  proof -
    have wf': "tbl_wf t'" unfolding t'_def using wf by (rule wf_intros)
    have "operation_row_ok k' r'" if r': "tbl_get t' k' = Some r'" for k' r'
    proof (cases "tbl_get t k'")
      case (Some r)
      with r' ok operations_inv_get [OF inv Some] show ?thesis
        by (auto simp: t'_def tbl_get_update split: if_splits)
    qed (use r' in \<open>simp add: t'_def tbl_get_update\<close>)
    with wf' show ?thesis by (simp add: operations_inv_def tbl_all_iff_get)
  qed
  moreover have "(n = 1, operation_view t' k) = spec (operation_view t k)"
  proof (cases "tbl_get t k")
    case None
    then show ?thesis by (simp add: n_def t'_def operation_view_def tbl_get_update absent)
  next
    case (Some r)
    with spec [of r] inv show ?thesis
      by (simp add: n_def t'_def operation_view_def tbl_get_update operations_inv_get
          split: if_splits)
  qed
  moreover have "\<forall>k'. k' \<noteq> k \<longrightarrow> operation_view t' k' = operation_view t k'"
    by (auto simp: operation_view_def t'_def tbl_get_update split: option.splits)
  ultimately show ?thesis by blast
qed

lemma mark_row_ok:
  assumes "operation_row_ok k r" and "op_state r = OPERATION_RESERVED"
  shows "operation_row_ok k (r\<lparr>op_state := OPERATION_COMMIT_STARTED, op_updated_at := now\<rparr>)"
  using assms
  by (auto simp: operation_row_ok_def operation_check_def row_view_def operation_states)

lemma mark_row_view:
  "row_view (r\<lparr>op_state := OPERATION_COMMIT_STARTED, op_updated_at := now\<rparr>) =
     CommittingBy (op_fingerprint r) (op_lease r)"
  by (simp add: row_view_def operation_states)

lemma mark_row_spec:
  assumes "operation_row_ok k r"
  shows "(op_lease r = lease \<and> op_state r = OPERATION_RESERVED,
      row_view (if op_lease r = lease \<and> op_state r = OPERATION_RESERVED
        then r\<lparr>op_state := OPERATION_COMMIT_STARTED, op_updated_at := now\<rparr> else r)) =
    spec_mark lease (row_view r)"
  using assms
  by (cases rule: row_view_cases)
    (auto simp: mark_row_view mark_row_view [unfolded operation_states] operation_states)

lemma mark_refines:
  assumes inv: "operations_inv t"
  shows "\<exists>res t'. mark_operation_commit_started now k lease t = Inr (res, t')
    \<and> operations_inv t'
    \<and> (res, operation_view t' k) = spec_mark lease (operation_view t k)
    \<and> (\<forall>k'. k' \<noteq> k \<longrightarrow> operation_view t' k' = operation_view t k')"
proof -
  have "\<exists>n t'. sql_update ConstraintViolated operation_check
       (\<lambda>k' r. k' = k \<and> (op_lease r = lease \<and> op_state r = OPERATION_RESERVED))
       (\<lambda>r. r\<lparr>op_state := OPERATION_COMMIT_STARTED, op_updated_at := now\<rparr>) t = Inr (n, t')
    \<and> operations_inv t' \<and> (n = 1, operation_view t' k) = spec_mark lease (operation_view t k)
    \<and> (\<forall>k'. k' \<noteq> k \<longrightarrow> operation_view t' k' = operation_view t k')"
    by (rule keyed_update [OF inv _ mark_row_spec]) (simp_all add: mark_row_ok)
  then show ?thesis by (auto simp: mark_operation_commit_started_def)
qed

lemma complete_row_spec:
  assumes "operation_row_ok k r" and "validate_outcome outcome = Inr ()"
  shows "(op_lease r = lease \<and>
        (op_state r = OPERATION_RESERVED \<or> op_state r = OPERATION_COMMIT_STARTED),
      row_view (if op_lease r = lease \<and>
          (op_state r = OPERATION_RESERVED \<or> op_state r = OPERATION_COMMIT_STARTED)
        then completed_row outcome now e r else r)) =
    spec_complete e outcome lease (row_view r)"
  using assms
  by (cases rule: row_view_cases) (auto simp: completed_row_view operation_states)

lemma complete_refines:
  assumes inv: "operations_inv t" and out: "outcome_storable outcome"
    and time: "is_i64 (now + lim_ttl_ms l)"
  shows "\<exists>res t'. complete_operation l now k lease outcome t = Inr (res, t')
    \<and> operations_inv t'
    \<and> (res, operation_view t' k) =
        spec_complete (now + lim_ttl_ms l) outcome lease (operation_view t k)
    \<and> (\<forall>k'. k' \<noteq> k \<longrightarrow> operation_view t' k' = operation_view t k')"
proof -
  have ok: "operation_row_ok k (completed_row outcome now e r)" if "operation_row_ok k r" for r e
    using that out by (simp add: completed_row_ok operation_row_ok_def [of k r])
  have exp: "expiration_time now (lim_ttl_ms l) = Inr (now + lim_ttl_ms l)"
    using time by simp
  have "\<exists>n t'. sql_update ConstraintViolated operation_check
       (\<lambda>k' r. k' = k \<and> (op_lease r = lease \<and>
          (op_state r = OPERATION_RESERVED \<or> op_state r = OPERATION_COMMIT_STARTED)))
       (completed_row outcome now (now + lim_ttl_ms l)) t = Inr (n, t')
    \<and> operations_inv t'
    \<and> (n = 1, operation_view t' k) =
         spec_complete (now + lim_ttl_ms l) outcome lease (operation_view t k)
    \<and> (\<forall>k'. k' \<noteq> k \<longrightarrow> operation_view t' k' = operation_view t k')"
    by (rule keyed_update [OF inv ok complete_row_spec [OF _ storable_valid [OF out]]]) simp_all
  then show ?thesis by (auto simp: complete_operation_def exp)
qed

text \<open>Whatever the error code contains, a completion that succeeds acts as specified.\<close>

lemma complete_success:
  assumes inv: "operations_inv t" and out: "validate_outcome outcome = Inr ()"
    and run: "complete_operation l now k lease outcome t = Inr (res, t')"
  shows "operations_inv t'
    \<and> (res, operation_view t' k) =
        spec_complete (now + lim_ttl_ms l) outcome lease (operation_view t k)
    \<and> (\<forall>k'. k' \<noteq> k \<longrightarrow> operation_view t' k' = operation_view t k')"
proof -
  let ?P = "\<lambda>r. op_lease r = lease \<and>
    (op_state r = OPERATION_RESERVED \<or> op_state r = OPERATION_COMMIT_STARTED)"
  let ?f = "completed_row outcome now (now + lim_ttl_ms l)"
  have wf: "tbl_wf t" using inv by (simp add: operations_inv_def)
  from run obtain n where upd: "sql_update ConstraintViolated operation_check
      (\<lambda>k' r. k' = k \<and> ?P r) ?f t = Inr (n, t')" and res: "res = (n = 1)"
    by (auto simp: complete_operation_def)
  then have chk: "tbl_all (\<lambda>k' r. k' = k \<and> ?P r \<longrightarrow> operation_check k' (?f r)) t"
    by (simp add: sql_update_Inr)
  have ok: "operation_row_ok k (?f r)" if "tbl_get t k = Some r" "?P r" for r
    using tbl_all_get [OF chk that(1)] that(2) out
    by (simp add: operation_row_ok_def completed_row_view)
  have "\<exists>n t'. sql_update ConstraintViolated operation_check (\<lambda>k' r. k' = k \<and> ?P r) ?f t = Inr (n, t')
    \<and> operations_inv t'
    \<and> (n = 1, operation_view t' k) =
         spec_complete (now + lim_ttl_ms l) outcome lease (operation_view t k)
    \<and> (\<forall>k'. k' \<noteq> k \<longrightarrow> operation_view t' k' = operation_view t k')"
    by (rule keyed_update [OF inv _ complete_row_spec [OF _ out]]) (simp_all add: ok)
  with upd res show ?thesis by auto
qed

lemma abandon_refines:
  assumes inv: "operations_inv t" and time: "is_i64 (now + lim_ttl_ms l)"
  shows "\<exists>t'. abandon_operation l now k lease t = Inr t'
    \<and> operations_inv t'
    \<and> operation_view t' k = spec_abandon (now + lim_ttl_ms l) lease (operation_view t k)
    \<and> (\<forall>k'. k' \<noteq> k \<longrightarrow> operation_view t' k' = operation_view t k')"
proof -
  let ?R = "\<lambda>r. op_lease r = lease \<and> op_state r = OPERATION_RESERVED"
  let ?C = "\<lambda>r. op_lease r = lease \<and> op_state r = OPERATION_COMMIT_STARTED"
  let ?f = "completed_row uncertain_outcome now (now + lim_ttl_ms l)"
  have wf: "tbl_wf t" using inv by (simp add: operations_inv_def)
  have exp: "expiration_time now (lim_ttl_ms l) = Inr (now + lim_ttl_ms l)"
    using time by simp
  show ?thesis
  proof (cases "\<exists>r. tbl_get t k = Some r \<and> ?R r")
    case True
    then obtain r where r: "tbl_get t k = Some r" "?R r" by blast
    let ?t' = "tbl_delete (\<lambda>k' r. k' = k \<and> ?R r) t"
    have "abandon_operation l now k lease t = Inr ?t'"
      using r by (simp add: abandon_operation_def exp tbl_count_key [OF wf])
    moreover have "operations_inv ?t'"
      using inv by (simp add: operations_inv_def wf_intros)
    moreover have "operation_view ?t' k = spec_abandon (now + lim_ttl_ms l) lease (operation_view t k)"
      using r by (simp add: operation_view_def tbl_get_delete [OF wf] row_view_def)
    moreover have "operation_view ?t' k' = operation_view t k'" if "k' \<noteq> k" for k'
      using that by (simp add: operation_view_def tbl_get_delete [OF wf] split: option.split)
    ultimately show ?thesis by blast
  next
    case False
    define spec where "spec = (\<lambda>v. (case v of CommittingBy fp l' \<Rightarrow> l' = lease | _ \<Rightarrow> False,
      case v of ReservedBy fp l' \<Rightarrow> v | _ \<Rightarrow> spec_abandon (now + lim_ttl_ms l) lease v))"
    have ok: "operation_row_ok k (?f r)" if "operation_row_ok k r" for r
      using that by (simp add: completed_row_ok operation_row_ok_def [of k r])
    have row: "(?C r, row_view (if ?C r then ?f r else r)) = spec (row_view r)"
      if "operation_row_ok k r" for r
      using that by (cases rule: row_view_cases)
        (auto simp: spec_def completed_row_view [OF storable_valid] operation_states)
    have absent: "spec Absent = (False, Absent)" by (simp add: spec_def)
    have "\<exists>n t'. sql_update ConstraintViolated operation_check (\<lambda>k' r. k' = k \<and> ?C r) ?f t =
        Inr (n, t')
      \<and> operations_inv t' \<and> (n = 1, operation_view t' k) = spec (operation_view t k)
      \<and> (\<forall>k'. k' \<noteq> k \<longrightarrow> operation_view t' k' = operation_view t k')"
      by (rule keyed_update [OF inv ok row absent])
    then obtain n t' where upd:
      "sql_update ConstraintViolated operation_check (\<lambda>k' r. k' = k \<and> ?C r) ?f t = Inr (n, t')"
      "operations_inv t'" "(n = 1, operation_view t' k) = spec (operation_view t k)"
      "\<forall>k'. k' \<noteq> k \<longrightarrow> operation_view t' k' = operation_view t k'"
      by (elim exE conjE)
    have "spec_abandon (now + lim_ttl_ms l) lease (operation_view t k) =
      snd (spec (operation_view t k))"
    proof (cases "tbl_get t k")
      case None
      then show ?thesis by (simp add: spec_def operation_view_def)
    next
      case (Some r)
      with inv have "operation_row_ok k r" by (rule operations_inv_get)
      then show ?thesis
        by (cases rule: row_view_cases)
          (use Some False in \<open>simp_all add: spec_def operation_view_def\<close>)
    qed
    moreover have "tbl_count (\<lambda>k' r. k' = k \<and> ?R r) t = 0"
      using False by (auto simp: tbl_count_key [OF wf] split: option.splits)
    moreover have "operation_view t' k = snd (spec (operation_view t k))"
      using upd(3) by (metis snd_conv)
    ultimately show ?thesis
      using upd(1,2,4) by (simp add: abandon_operation_def exp)
  qed
qed

section \<open>Capacity\<close>

lemma bounded_delete: "operations_bounded l t \<Longrightarrow> operations_bounded l (tbl_delete P t)"
  unfolding operations_bounded_def
  by (meson tbl.count_drop of_nat_le_iff order_trans)

lemma bounded_update: "operations_bounded l t \<Longrightarrow> operations_bounded l (tbl_update P f t)"
  by (simp add: operations_bounded_def tbl_count_update)

lemma bounded_begin:
  assumes "operations_bounded l t0"
    and "begin_operation l now lease k fp t0 = Inr (res, t')"
  shows "operations_bounded l t'"
proof -
  define t where "t = purge_expired now t0"
  have b: "operations_bounded l t"
    using assms(1) by (simp add: t_def purge_expired_def bounded_delete)
  from assms(2) consider "t' = t"
    | r where "operation_has_room l k t" "tbl_get t k = None" "t' = tbl_put k r t"
    unfolding begin_operation_def t_def [symmetric] Let_def load_operation_def
    by (auto split: option.splits if_splits)
  then show ?thesis
  proof cases
    case 1
    with b show ?thesis by simp
  next
    case 2
    with b show ?thesis
      by (auto simp: operations_bounded_def operation_has_room_def tbl_count_put)
  qed
qed

lemma bounded_mark:
  "operations_bounded l t \<Longrightarrow> mark_operation_commit_started now k lease t = Inr (res, t') \<Longrightarrow>
    operations_bounded l t'"
  by (auto simp: mark_operation_commit_started_def sql_update_Inr bounded_update)

lemma bounded_complete:
  "operations_bounded l t \<Longrightarrow> complete_operation l now k lease outcome t = Inr (res, t') \<Longrightarrow>
    operations_bounded l t'"
  by (auto simp: complete_operation_def sql_update_Inr bounded_update)

lemma bounded_abandon:
  "operations_bounded l t \<Longrightarrow> abandon_operation l now k lease t = Inr t' \<Longrightarrow>
    operations_bounded l t'"
  by (auto simp: abandon_operation_def sql_update_Inr bounded_update bounded_delete Let_def
      split: if_splits)

lemma status_table: "operation_status now k t = Inr (res, t') \<Longrightarrow> t' = purge_expired now t"
  unfolding operation_status_def Let_def
  by (cases "load_operation k (purge_expired now t)")
    (auto split: option.splits if_splits)

lemma bounded_status:
  "operations_bounded l t \<Longrightarrow> operation_status now k t = Inr (res, t') \<Longrightarrow>
    operations_bounded l t'"
  by (auto dest!: status_table simp: purge_expired_def bounded_delete)

section \<open>Protection of a started commit\<close>

text \<open>Once the commit of an operation has started, its key is committing or done with an expiry
  no earlier than \<open>h\<close>, one TTL after the commit point.\<close>

fun committed_until :: "i64 \<Rightarrow> op_view \<Rightarrow> bool" where
  "committed_until h (CommittingBy _ _) = True"
| "committed_until h (Done _ _ e) = (h \<le> e)"
| "committed_until h _ = False"

lemma committed_until_expire:
  "committed_until h v \<Longrightarrow> now < h \<Longrightarrow> spec_expire now v = v"
  by (cases v) auto

lemma committed_until_begin:
  assumes "committed_until h v"
  shows "snd (spec_begin room lease fp v) = v"
    and "fst (spec_begin room lease fp v) \<noteq> Started lease'"
  using assms by (cases v; auto)+

lemma committed_until_mark: "committed_until h v \<Longrightarrow> snd (spec_mark lease v) = v"
  by (cases v) auto

lemma committed_until_complete:
  "committed_until h v \<Longrightarrow> h \<le> e \<Longrightarrow> committed_until h (snd (spec_complete e outcome lease v))"
  by (cases v) auto

lemma committed_until_abandon:
  "committed_until h v \<Longrightarrow> h \<le> e \<Longrightarrow> committed_until h (spec_abandon e lease v)"
  by (cases v) auto

section \<open>Sequences of calls\<close>

text \<open>Any call of the ledger, each with the time at which it runs.  A call that fails is rolled
  back.\<close>

datatype ledger_call =
    CallBegin i64 bytes OperationKey bytes
  | CallStatus i64 OperationKey
  | CallMark i64 OperationKey bytes
  | CallComplete i64 OperationKey bytes StoredOutcome
  | CallAbandon i64 OperationKey bytes

fun call_time :: "ledger_call \<Rightarrow> i64" where
  "call_time (CallBegin now _ _ _) = now"
| "call_time (CallStatus now _) = now"
| "call_time (CallMark now _ _) = now"
| "call_time (CallComplete now _ _ _) = now"
| "call_time (CallAbandon now _ _) = now"

text \<open>Keys, fingerprints and leases have their fixed lengths, and an outcome was validated before it
  is sent to the store.\<close>

fun call_typed :: "ledger_call \<Rightarrow> bool" where
  "call_typed (CallBegin _ lease k fp) \<longleftrightarrow> key_ok k \<and> length fp = 32 \<and> length lease = 16"
| "call_typed (CallComplete _ _ _ outcome) \<longleftrightarrow> validate_outcome outcome = Inr ()"
| "call_typed _ \<longleftrightarrow> True"

definition committed :: "'e + 'a \<times> 't \<Rightarrow> 't \<Rightarrow> 't" where
  "committed r t = (case r of Inl _ \<Rightarrow> t | Inr (_, t') \<Rightarrow> t')"

fun ledger_step :: "Limits \<Rightarrow> ledger_call \<Rightarrow> operations \<Rightarrow> operations" where
  "ledger_step l (CallBegin now lease k fp) t = committed (begin_operation l now lease k fp t) t"
| "ledger_step l (CallStatus now k) t = committed (operation_status now k t) t"
| "ledger_step l (CallMark now k lease) t = committed (mark_operation_commit_started now k lease t) t"
| "ledger_step l (CallComplete now k lease outcome) t = committed (complete_operation l now k lease outcome t) t"
| "ledger_step l (CallAbandon now k lease) t =
     (case abandon_operation l now k lease t of Inl _ \<Rightarrow> t | Inr t' \<Rightarrow> t')"

lemma ledger_keeps_done:
  assumes inv: "operations_inv t" and v: "operation_view t k = Done fp out e"
    and typed: "call_typed c" and early: "call_time c < e"
  shows "operations_inv (ledger_step l c t) \<and> operation_view (ledger_step l c t) k = Done fp out e"
proof (cases c)
  case (CallBegin now lease k' fp')
  with typed have ok: "key_ok k'" "length fp' = 32" "length lease = 16" by simp_all
  from begin_refines [OF inv ok, of l now] obtain res t' where
    b: "begin_operation l now lease k' fp' t = Inr (res, t')" "operations_inv t'"
      "(res, operation_view t' k') = spec_begin (operation_has_room l k' (purge_expired now t)) lease fp'
        (spec_expire now (operation_view t k'))"
      "\<forall>k''. k'' \<noteq> k' \<longrightarrow> operation_view t' k'' = spec_expire now (operation_view t k'')" by blast
  have "operation_view t' k = Done fp out e"
    using b(3,4) v early CallBegin by (cases "k = k'") auto
  with b CallBegin show ?thesis by (simp add: committed_def)
next
  case (CallStatus now k')
  then show ?thesis
    using inv v early by (simp add: committed_def status_refines purge_expired_inv purge_expired_view)
next
  case (CallMark now k' lease)
  from mark_refines [OF inv, of now k' lease] obtain res t' where
    m: "mark_operation_commit_started now k' lease t = Inr (res, t')" "operations_inv t'"
      "(res, operation_view t' k') = spec_mark lease (operation_view t k')"
      "\<forall>k''. k'' \<noteq> k' \<longrightarrow> operation_view t' k'' = operation_view t k''" by blast
  then show ?thesis using v CallMark by (cases "k = k'") (auto simp: committed_def)
next
  case (CallComplete now k' lease outcome)
  show ?thesis
  proof (cases "complete_operation l now k' lease outcome t")
    case (Inl e)
    then show ?thesis using inv v CallComplete by (simp add: committed_def)
  next
    case (Inr r)
    obtain res t' where r: "complete_operation l now k' lease outcome t = Inr (res, t')"
      using Inr by (cases r) simp
    from complete_success [OF inv _ r] typed CallComplete v show ?thesis
      by (cases "k = k'") (auto simp: committed_def r)
  qed
next
  case (CallAbandon now k' lease)
  show ?thesis
  proof (cases "is_i64 (now + lim_ttl_ms l)")
    case True
    from abandon_refines [OF inv True, of k' lease] v CallAbandon show ?thesis
      by (cases "k = k'") auto
  next
    case False
    then have "\<exists>e. abandon_operation l now k' lease t = Inl e"
      by (simp add: abandon_operation_def expiration_time_def i64_checked_add_def)
    then show ?thesis using inv v CallAbandon by auto
  qed
qed

interpretation ledger_run: invariant_calls "ledger_step l" "\<lambda>c. call_typed c \<and> call_time c < e"
    "\<lambda>t. operations_inv t \<and> operation_view t k = Done fp out e" for l e k fp out
  by unfold_locales (use ledger_keeps_done in blast)

section \<open>Fencing\<close>

lemma stale_lease_idle:
  assumes inv: "operations_inv t"
    and stale: "\<forall>fp. operation_view t k \<notin> {ReservedBy fp lease, CommittingBy fp lease}"
  shows "tbl_all (\<lambda>k' r. \<not> (k' = k \<and> op_lease r = lease \<and>
    (op_state r = OPERATION_RESERVED \<or> op_state r = OPERATION_COMMIT_STARTED))) t"
proof -
  have "\<not> (op_lease r = lease \<and>
      (op_state r = OPERATION_RESERVED \<or> op_state r = OPERATION_COMMIT_STARTED))"
    if "tbl_get t k = Some r" for r
    using stale that by (auto simp: operation_view_def row_view_def operation_states)
  then show ?thesis using inv by (auto simp: operations_inv_def tbl_all_iff_get)
qed

section \<open>Properties\<close>

text \<open>Concrete values for the witnesses.\<close>

abbreviation sample_key :: row_key where
  "sample_key \<equiv> RowKey (replicate 32 1) (replicate 16 2)"

abbreviation sample_limits :: Limits where
  "sample_limits \<equiv>
     \<lparr>lim_capacity = 8, lim_per_owner = 4, lim_ttl_ms = 1000, lim_upload_ttl_ms = 5000,
      lim_upload_capacity = 8, lim_upload_per_owner = 4, lim_purge_capacity = 8,
      lim_purge_per_owner = 4\<rparr>"

abbreviation sample_reserved :: operations where
  "sample_reserved \<equiv> [(sample_key, reserved_row (replicate 32 7) (replicate 16 9) 100)]"

abbreviation sample_outcome :: StoredOutcome where
  "sample_outcome \<equiv> \<lparr>so_status = 204, so_state = Succeeded, so_code = None\<rparr>"

lemma sample_reserved_inv: "operations_inv sample_reserved"
  by (simp add: operations_inv_def tbl_all_def tbl_wf_Cons reserved_row_ok key_ok_def)

lemma sample_reserved_view:
  "operation_view sample_reserved sample_key = ReservedBy (replicate 32 7) (replicate 16 9)"
  by (simp add: operation_view_def tbl_get_def)

text \<open>C1: \<open>begin_operation\<close> implements the abstract ledger: after dropping expired results, an
  absent key is reserved under the new lease exactly when the global and the per-owner capacity
  have room, a key with another fingerprint is a conflict, a reserved or committing key is
  reported as running, a completed key replays its stored outcome; no other key changes except
  by expiry, and the table stays well formed.  No decoding error can occur.\<close>

theorem begin_operation_refines:
  assumes "operations_inv t" and "key_ok k" and "length fp = 32" and "length lease = 16"
  shows "\<exists>res t'. begin_operation l now lease k fp t = Inr (res, t')
    \<and> operations_inv t'
    \<and> (res, operation_view t' k) =
        spec_begin (operation_has_room l k (purge_expired now t)) lease fp
          (spec_expire now (operation_view t k))
    \<and> (\<forall>k'. k' \<noteq> k \<longrightarrow> operation_view t' k' = spec_expire now (operation_view t k'))"
  using begin_refines [OF assms, of l now] by blast

theorem begin_operation_refines_witness:
  "\<exists>res t'. begin_operation sample_limits 200 (replicate 16 5) sample_key (replicate 32 7)
      sample_reserved = Inr (res, t')
    \<and> (res, operation_view t' sample_key) =
        (BeginRunning, ReservedBy (replicate 32 7) (replicate 16 9))"
  using begin_operation_refines [OF sample_reserved_inv, of sample_key "replicate 32 7"
      "replicate 16 5" sample_limits 200]
  by (simp add: key_ok_def sample_reserved_view) blast

text \<open>C2: A completed operation is idempotent for its whole TTL.  When the holder of the lease
  completes it at \<open>now\<close> with a valid outcome, then after any sequence of ledger calls of any clients,
  for any keys and leases and in any order, that run before \<open>now + ttl\<close>, a \<open>begin\<close> before
  \<open>now + ttl\<close> with the same fingerprint replays exactly that outcome, a \<open>begin\<close> with another
  fingerprint is a conflict, and \<open>operation_status\<close> reports the outcome.\<close>

theorem operation_replay_until_expiry:
  assumes inv: "operations_inv t"
    and held: "operation_view t k \<in> {ReservedBy fp lease, CommittingBy fp lease}"
    and out: "outcome_storable outcome" and time: "is_i64 (now + lim_ttl_ms l)"
    and between: "list_all (\<lambda>c. call_typed c \<and> call_time c < now + lim_ttl_ms l) calls"
    and later: "now' < now + lim_ttl_ms l"
    and k: "key_ok k" and fp': "length fp' = 32" and lease': "length lease' = 16"
  shows "\<exists>t1. complete_operation l now k lease outcome t = Inr (True, t1)
    \<and> (\<exists>t2. begin_operation l now' lease' k fp' (fold (ledger_step l) calls t1) =
          Inr (if fp' = fp then Replay outcome else Conflict, t2))
    \<and> (\<exists>t3. operation_status now' k (fold (ledger_step l) calls t1) = Inr (StatusCompleted outcome, t3))"
proof -
  obtain t1 where c: "complete_operation l now k lease outcome t = Inr (True, t1)"
    and inv1: "operations_inv t1"
    and v1: "operation_view t1 k = Done fp outcome (now + lim_ttl_ms l)"
    using complete_refines [OF inv out time, of k lease] held by auto
  let ?t = "fold (ledger_step l) calls t1"
  have run: "operations_inv ?t" "operation_view ?t k = Done fp outcome (now + lim_ttl_ms l)"
    using ledger_run.calls_inv [OF between, of t1 k fp outcome l] inv1 v1 by simp_all
  have "\<exists>t2. begin_operation l now' lease' k fp' ?t =
      Inr (if fp' = fp then Replay outcome else Conflict, t2)"
    using begin_refines [OF run(1) k fp' lease', of l now'] run(2) later by auto
  moreover have "\<exists>t3. operation_status now' k ?t = Inr (StatusCompleted outcome, t3)"
    using status_refines [OF run(1), of now' k] run(2) later by auto
  ultimately show ?thesis using c by blast
qed

abbreviation sample_calls :: "ledger_call list" where
  "sample_calls \<equiv>
     [CallBegin 200 (replicate 16 3) sample_key (replicate 32 7), CallAbandon 300 sample_key (replicate 16 9),
      CallStatus 400 sample_key, CallBegin 500 (replicate 16 4) sample_key (replicate 32 8)]"

theorem operation_replay_until_expiry_witness:
  "\<exists>t1. complete_operation sample_limits 150 sample_key (replicate 16 9) sample_outcome
        sample_reserved = Inr (True, t1)
    \<and> (\<exists>t2. begin_operation sample_limits 1149 (replicate 16 3) sample_key (replicate 32 7)
          (fold (ledger_step sample_limits) sample_calls t1) = Inr (Replay sample_outcome, t2))
    \<and> (\<exists>t3. operation_status 1149 sample_key (fold (ledger_step sample_limits) sample_calls t1) =
          Inr (StatusCompleted sample_outcome, t3))"
proof -
  have "operation_view sample_reserved sample_key
      \<in> {ReservedBy (replicate 32 7) (replicate 16 9), CommittingBy (replicate 32 7) (replicate 16 9)}"
    by (simp add: sample_reserved_view)
  moreover have "outcome_storable sample_outcome" by (simp add: outcome_storable_def validate_outcome_ok)
  moreover have "is_i64 (150 + lim_ttl_ms sample_limits)" by (simp add: is_i64_def i64_min_def i64_max_def)
  moreover have "list_all (\<lambda>c. call_typed c \<and> call_time c < 150 + lim_ttl_ms sample_limits) sample_calls"
    by (simp add: key_ok_def)
  ultimately have "\<exists>t1. complete_operation sample_limits 150 sample_key (replicate 16 9) sample_outcome
        sample_reserved = Inr (True, t1)
    \<and> (\<exists>t2. begin_operation sample_limits 1149 (replicate 16 3) sample_key (replicate 32 7)
          (fold (ledger_step sample_limits) sample_calls t1) =
          Inr (if replicate 32 (7 :: byte) = replicate 32 7 then Replay sample_outcome else Conflict, t2))
    \<and> (\<exists>t3. operation_status 1149 sample_key (fold (ledger_step sample_limits) sample_calls t1) =
          Inr (StatusCompleted sample_outcome, t3))"
    by (rule operation_replay_until_expiry [OF sample_reserved_inv]) (simp_all add: key_ok_def)
  then show ?thesis by (simp only: refl if_True)
qed

text \<open>C3: Lease fencing.  A caller whose lease does not hold the key (the row is gone, is
  completed, or belongs to another lease) changes nothing: marking and completing report
  \<open>false\<close>, abandoning succeeds, and the table is exactly the same.\<close>

theorem stale_lease_is_fenced:
  assumes inv: "operations_inv t"
    and stale: "\<forall>fp. operation_view t k \<notin> {ReservedBy fp lease, CommittingBy fp lease}"
    and time: "is_i64 (now + lim_ttl_ms l)"
  shows "mark_operation_commit_started now k lease t = Inr (False, t)
    \<and> complete_operation l now k lease outcome t = Inr (False, t)
    \<and> abandon_operation l now k lease t = Inr t"
proof -
  note idle = stale_lease_idle [OF inv stale]
  have exp: "expiration_time now (lim_ttl_ms l) = Inr (now + lim_ttl_ms l)"
    using time by simp
  have reserved: "tbl_all (\<lambda>k' r. \<not> (k' = k \<and> (op_lease r = lease \<and> op_state r = OPERATION_RESERVED))) t"
    and committing: "tbl_all (\<lambda>k' r. \<not> (k' = k \<and> (op_lease r = lease \<and> op_state r = OPERATION_COMMIT_STARTED))) t"
    by (rule tbl_all_mono [OF idle], blast)+
  have "mark_operation_commit_started now k lease t = Inr (False, t)"
    unfolding mark_operation_commit_started_def sql_update_idle [OF reserved] by simp
  moreover have "complete_operation l now k lease outcome t = Inr (False, t)"
    unfolding complete_operation_def exp result_bind.simps sql_update_idle [OF idle] by simp
  moreover have "abandon_operation l now k lease t = Inr t"
    unfolding abandon_operation_def exp result_bind.simps Let_def tbl_count_idle [OF reserved]
      sql_update_idle [OF committing] by simp
  ultimately show ?thesis by blast
qed

theorem stale_lease_is_fenced_witness:
  "mark_operation_commit_started 150 sample_key (replicate 16 8) sample_reserved =
      Inr (False, sample_reserved)
    \<and> complete_operation sample_limits 150 sample_key (replicate 16 8) sample_outcome
        sample_reserved = Inr (False, sample_reserved)
    \<and> abandon_operation sample_limits 150 sample_key (replicate 16 8) sample_reserved =
        Inr sample_reserved"
proof -
  have "\<forall>fp. operation_view sample_reserved sample_key
      \<notin> {ReservedBy fp (replicate 16 8), CommittingBy fp (replicate 16 8)}"
    by (simp add: sample_reserved_view)
  from stale_lease_is_fenced [OF sample_reserved_inv this, of 150 sample_limits] show ?thesis
    by (simp add: is_i64_def i64_min_def i64_max_def)
qed

text \<open>Abandoning under the right lease.  A reservation whose commit never started
  disappears, so that the same request may run again; a commit that had started becomes a
  durable \<open>Unknown\<close> outcome (status 500, code \<open>outcome_uncertain\<close>) for one TTL.  Other keys do not
  change.\<close>

theorem abandon_operation_outcome:
  assumes inv: "operations_inv t" and time: "is_i64 (now + lim_ttl_ms l)"
  shows "\<exists>t'. abandon_operation l now k lease t = Inr t'
    \<and> operations_inv t'
    \<and> (operation_view t k = ReservedBy fp lease \<longrightarrow> operation_view t' k = Absent)
    \<and> (operation_view t k = CommittingBy fp lease \<longrightarrow>
        operation_view t' k =
          Done fp \<lparr>so_status = 500, so_state = TerminalUnknown,
                   so_code = Some ''outcome_uncertain''\<rparr> (now + lim_ttl_ms l))
    \<and> (\<forall>k'. k' \<noteq> k \<longrightarrow> operation_view t' k' = operation_view t k')"
  using abandon_refines [OF inv time, of k lease]
  by (auto simp: uncertain_outcome_def UNKNOWN_STATUS_def UNKNOWN_CODE_def)

theorem abandon_operation_outcome_witness:
  "\<exists>t'. abandon_operation sample_limits 300 sample_key (replicate 16 9) sample_reserved = Inr t'
    \<and> operation_view t' sample_key = Absent"
  using abandon_operation_outcome [OF sample_reserved_inv, of 300 sample_limits sample_key
      "replicate 16 9" "replicate 32 7"]
  by (auto simp: sample_reserved_view is_i64_def i64_min_def i64_max_def)

end
