(* ===== verification/Upload_Store.thy ===== *)
theory Upload_Store
  imports Operation_Store
begin

text \<open>
  The durable upload sessions of the state store (\<open>src/src/server/state_store/upload.rs\<close> over
  the table \<open>upload_sessions\<close> of \<open>src/schema/product.sql\<close>): the merge of a proposed checkpoint
  into the stored session, saving, rejecting, the guarded removals, and the paged and expiry
  queries.  Rows are raw columns; \<open>decode_upload_row\<close> has the error branches of the code.
\<close>

section \<open>Rows\<close>

record UploadRow =
  ur_target_path :: bytes
  ur_stage_path :: bytes
  ur_upload_length :: i64
  ur_durable_offset :: i64
  ur_state :: i64
  ur_stage_device :: "bytes option"
  ur_stage_inode :: "bytes option"
  ur_target_revision :: "bytes option"
  ur_updated_at :: i64
  ur_expires_at :: i64

type_synonym upload_sessions = "(UploadSessionKey, UploadRow) table"

definition upload_check :: "UploadSessionKey \<Rightarrow> UploadRow \<Rightarrow> bool" where
  "upload_check k r \<longleftrightarrow>
     key_ok k
     \<and> 1 \<le> length (ur_target_path r) \<and> length (ur_target_path r) \<le> 65536
     \<and> 1 \<le> length (ur_stage_path r) \<and> length (ur_stage_path r) \<le> 65536
     \<and> ur_upload_length r \<ge> 0
     \<and> ur_durable_offset r \<ge> 0
     \<and> ur_state r \<in> {0, 1, 2, 3, 4, 5}
     \<and> (ur_stage_device r = None \<or> map_option length (ur_stage_device r) = Some 8)
     \<and> (ur_stage_inode r = None \<or> map_option length (ur_stage_inode r) = Some 8)
     \<and> (ur_target_revision r = None \<or> map_option length (ur_target_revision r) = Some 32)
     \<and> ur_target_path r \<noteq> ur_stage_path r
     \<and> ur_durable_offset r \<le> ur_upload_length r
     \<and> (ur_stage_device r = None) = (ur_stage_inode r = None)
     \<and> (ur_state r \<noteq> 2 \<or> ur_durable_offset r = ur_upload_length r)
     \<and> (ur_state r \<noteq> 1 \<or> ur_durable_offset r = ur_upload_length r)
     \<and> (ur_state r \<noteq> 5 \<or> ur_durable_offset r = ur_upload_length r)"

text \<open>\<open><[u8; n]>::try_from(Vec<u8>)\<close>.\<close>

definition array_of :: "nat \<Rightarrow> bytes \<Rightarrow> bytes store_result" where
  "array_of n bs = (if length bs = n then Inr bs else Inl InvalidLength)"

definition decode_identity ::
  "bytes option \<Rightarrow> bytes option \<Rightarrow> StoredFileIdentity option store_result" where
  "decode_identity device inode =
     (case (device, inode) of
        (None, None) \<Rightarrow> Inr None
      | (Some d, Some i) \<Rightarrow>
          result_bind (array_of 8 d) (\<lambda>d'.
          result_bind (array_of 8 i) (\<lambda>i'.
          Inr (Some \<lparr>fi_device = from_be_bytes d', fi_inode = from_be_bytes i'\<rparr>)))
      | _ \<Rightarrow> Inl IncompleteIdentity)"

definition decode_upload_row ::
  "UploadSessionKey \<Rightarrow> UploadRow \<Rightarrow> StoredUploadSession store_result" where
  "decode_upload_row k r =
     result_bind (decode_identity (ur_stage_device r) (ur_stage_inode r)) (\<lambda>identity.
     result_bind (array_of 32 (key_owner k)) (\<lambda>owner.
     result_bind (array_of 16 (key_id k)) (\<lambda>id'.
     result_bind (ok_or (u64_of_i64 (ur_upload_length r)) NegativeColumn) (\<lambda>len.
     result_bind (ok_or (u64_of_i64 (ur_durable_offset r)) NegativeColumn) (\<lambda>off.
     result_bind (upload_state_from_database (ur_state r)) (\<lambda>state.
     result_bind (case ur_target_revision r of None \<Rightarrow> Inr None
                  | Some raw \<Rightarrow> result_map Some (array_of 32 raw)) (\<lambda>revision.
     let session = \<lparr>us_key = RowKey owner id', us_target_path = ur_target_path r,
        us_stage_path = ur_stage_path r, us_upload_length = len, us_durable_offset = off,
        us_state = state, us_stage_identity = identity, us_target_revision = revision\<rparr> in
     result_bind (validate_session session) (\<lambda>_. Inr session))))))))"

definition load_upload_session ::
  "UploadSessionKey \<Rightarrow> upload_sessions \<Rightarrow> StoredUploadSession option store_result" where
  "load_upload_session k t =
     (case tbl_get t k of
        None \<Rightarrow> Inr None
      | Some r \<Rightarrow> result_map Some (decode_upload_row k r))"

definition decode_expired_upload_row ::
  "UploadSessionKey \<Rightarrow> UploadRow \<Rightarrow> ExpiredUploadSession store_result" where
  "decode_expired_upload_row k r =
     result_map (\<lambda>s. \<lparr>eu_session = s, eu_expires_at = ur_expires_at r\<rparr>) (decode_upload_row k r)"

definition load_expired_upload_session ::
  "UploadSessionKey \<Rightarrow> upload_sessions \<Rightarrow> ExpiredUploadSession option store_result" where
  "load_expired_upload_session k t =
     (case tbl_get t k of
        None \<Rightarrow> Inr None
      | Some r \<Rightarrow> result_map Some (decode_expired_upload_row k r))"

definition query_upload_sessions ::
  "(UploadSessionKey \<times> UploadRow) list \<Rightarrow> StoredUploadSession list store_result" where
  "query_upload_sessions rows = result_collect (map (\<lambda>(k, r). decode_upload_row k r) rows)"

definition query_expired_upload_sessions ::
  "(UploadSessionKey \<times> UploadRow) list \<Rightarrow> ExpiredUploadSession list store_result" where
  "query_expired_upload_sessions rows =
     result_collect (map (\<lambda>(k, r). decode_expired_upload_row k r) rows)"

section \<open>Merging a checkpoint\<close>

definition transition_listed :: "StoredUploadState \<Rightarrow> StoredUploadState \<Rightarrow> bool" where
  "transition_listed a b \<longleftrightarrow>
     (case a of
        UploadRunning \<Rightarrow> b \<in> {UploadCommitStarted, UploadRejected, UploadUnknown}
      | UploadCommitStarted \<Rightarrow>
          b \<in> {UploadCommitted, UploadRejected, UploadUnknown, UploadAwaitingConfirmation}
      | UploadAwaitingConfirmation \<Rightarrow> b \<in> {UploadCommitStarted, UploadRejected}
      | _ \<Rightarrow> False)"

definition merge_upload_session ::
  "StoredUploadSession \<Rightarrow> StoredUploadSession \<Rightarrow> StoredUploadSession option" where
  "merge_upload_session existing proposed =
     (if us_key existing \<noteq> us_key proposed
         \<or> \<not> path_eq (us_target_path existing) (us_target_path proposed)
         \<or> \<not> path_eq (us_stage_path existing) (us_stage_path proposed)
         \<or> us_upload_length existing \<noteq> us_upload_length proposed
         \<or> us_durable_offset proposed < us_durable_offset existing
         \<or> (case (us_stage_identity existing, us_stage_identity proposed) of
              (Some a, Some b) \<Rightarrow> a \<noteq> b | _ \<Rightarrow> False)
         \<or> (us_stage_identity existing \<noteq> None \<and> us_stage_identity proposed = None)
      then None
      else
        let transition_allowed =
              (if us_state existing = us_state proposed
               then \<not> is_terminal (us_state existing)
                  \<or> us_durable_offset existing = us_durable_offset proposed
                    \<and> us_stage_identity existing = us_stage_identity proposed
               else transition_listed (us_state existing) (us_state proposed));
            revision_change_allowed =
              (us_target_revision existing = us_target_revision proposed
               \<or> us_state existing = us_state proposed \<and> \<not> is_terminal (us_state existing)
               \<or> us_state existing = UploadAwaitingConfirmation)
        in if \<not> transition_allowed \<or> \<not> revision_change_allowed then None else Some proposed)"

section \<open>Operations\<close>

definition UPLOAD_LIVE :: "i64 set" where
  "UPLOAD_LIVE = {0, 1, 5}"

definition upload_finished :: "i64 \<Rightarrow> UploadRow \<Rightarrow> bool" where
  "upload_finished now r \<longleftrightarrow>
     ur_expires_at r \<le> now
     \<and> (ur_state r \<in> {2, 4}
        \<or> (ur_state r = 3 \<and> ur_stage_device r = None \<and> ur_stage_inode r = None))"

definition conflicting_stage :: "StoredUploadSession \<Rightarrow> upload_sessions \<Rightarrow> bool" where
  "conflicting_stage s t \<longleftrightarrow>
     tbl_count (\<lambda>k r. ur_stage_path r = us_stage_path s \<and> ur_state r \<in> UPLOAD_LIVE
       \<and> \<not> (key_owner k = key_owner (us_key s) \<and> key_id k = key_id (us_key s))) t > 0"

definition upload_has_room :: "Limits \<Rightarrow> UploadSessionKey \<Rightarrow> upload_sessions \<Rightarrow> bool" where
  "upload_has_room l k t \<longleftrightarrow>
     \<not> (int (tbl_count (\<lambda>_ _. True) t) \<ge> lim_upload_capacity l
        \<or> int (tbl_count (\<lambda>k' _. key_owner k' = key_owner k) t) \<ge> lim_upload_per_owner l)"

definition encode_upload_row ::
  "StoredUploadSession \<Rightarrow> i64 \<Rightarrow> i64 \<Rightarrow> UploadRow store_result" where
  "encode_upload_row s now expires_at =
     result_bind (ok_or (i64_of_u64 (us_upload_length s)) NotRepresentable) (\<lambda>len.
     result_bind (ok_or (i64_of_u64 (us_durable_offset s)) NotRepresentable) (\<lambda>off.
     Inr \<lparr>ur_target_path = us_target_path s, ur_stage_path = us_stage_path s,
       ur_upload_length = len, ur_durable_offset = off,
       ur_state = upload_state_value (us_state s),
       ur_stage_device = map_option (\<lambda>i. to_be_bytes (fi_device i)) (us_stage_identity s),
       ur_stage_inode = map_option (\<lambda>i. to_be_bytes (fi_inode i)) (us_stage_identity s),
       ur_target_revision = us_target_revision s,
       ur_updated_at = now, ur_expires_at = expires_at\<rparr>))"

text \<open>\<open>INSERT .. ON CONFLICT DO UPDATE\<close>: the constraints hold for the offered row and for the
  resulting row; on a conflict the paths and the length of the stored row are kept.\<close>

definition upsert_upload_row ::
  "UploadSessionKey \<Rightarrow> UploadRow \<Rightarrow> upload_sessions \<Rightarrow> upload_sessions store_result" where
  "upsert_upload_row k r t =
     (let r' = (case tbl_get t k of
          None \<Rightarrow> r
        | Some old \<Rightarrow> r\<lparr>ur_target_path := ur_target_path old, ur_stage_path := ur_stage_path old,
                        ur_upload_length := ur_upload_length old\<rparr>)
      in if upload_check k r \<and> upload_check k r' then Inr (tbl_put k r' t)
         else Inl ConstraintViolated)"

definition save_upload_session ::
  "Limits \<Rightarrow> i64 \<Rightarrow> StoredUploadSession \<Rightarrow> i64 \<Rightarrow> upload_sessions \<Rightarrow>
   (StoreUploadSession \<times> upload_sessions) store_result" where
  "save_upload_session l now proposed ttl_ms t0 =
     result_bind (expiration_time now ttl_ms) (\<lambda>expires_at.
     let t = tbl_delete (\<lambda>_ r. upload_finished now r) t0 in
     result_bind (load_upload_session (us_key proposed) t) (\<lambda>existing.
     if \<not> is_terminal (us_state proposed) \<and> conflicting_stage proposed t
     then Inr (UploadConflict, t)
     else
       let decision =
         (case existing of
            None \<Rightarrow>
              if \<not> upload_has_room l (us_key proposed) t then Inl UploadFull
              else Inr (UploadInserted, proposed)
          | Some ex \<Rightarrow>
              (case merge_upload_session ex proposed of
                 Some stored \<Rightarrow>
                   if session_eq stored ex then Inr (UploadUnchanged, stored)
                   else Inr (UploadUpdated, stored)
               | None \<Rightarrow> Inl UploadConflict))
       in (case decision of
             Inl result \<Rightarrow> Inr (result, t)
           | Inr (result, stored) \<Rightarrow>
               result_bind (encode_upload_row stored now expires_at) (\<lambda>row.
               result_map (\<lambda>t'. (result, t')) (upsert_upload_row (us_key stored) row t)))))"

definition upload_sessions_page ::
  "Limits \<Rightarrow> UploadSessionKey option \<Rightarrow> i64 \<Rightarrow> upload_sessions \<Rightarrow>
   StoredUploadSession list store_result" where
  "upload_sessions_page l after limit t =
     result_bind (ensure (limit > 0) LimitNotPositive) (\<lambda>_.
     result_bind
       (if after = None
        then ensure (int (tbl_count (\<lambda>_ _. True) t) \<le> lim_upload_capacity l) CapacityExceeded
        else Inr ()) (\<lambda>_.
     query_upload_sessions (keyset_page fst after (nat limit) t)))"

definition expired_upload_sessions ::
  "i64 \<Rightarrow> UploadSessionKey option \<Rightarrow> i64 \<Rightarrow> upload_sessions \<Rightarrow>
   ExpiredUploadSession list store_result" where
  "expired_upload_sessions now after limit t =
     query_expired_upload_sessions
       (keyset_page fst after (nat limit)
          (filter (\<lambda>(k, r). ur_expires_at r \<le> now \<and> ur_state r \<noteq> 1) t))"

definition expired_upload_session_matches ::
  "i64 \<Rightarrow> ExpiredUploadSession \<Rightarrow> upload_sessions \<Rightarrow> bool store_result" where
  "expired_upload_session_matches now expected t =
     (if eu_expires_at expected > now then Inr False
      else result_map
        (\<lambda>found. case found of None \<Rightarrow> False | Some e \<Rightarrow> expired_session_eq e expected)
        (load_expired_upload_session (us_key (eu_session expected)) t))"

text \<open>The checks of a rejection, made once before the clock is read and again inside the
  transaction: \<open>Inl\<close> is the early reply, \<open>Inr\<close> the session that awaits confirmation.\<close>

definition reject_checks ::
  "UploadSessionKey \<Rightarrow> bytes \<Rightarrow> bytes \<Rightarrow> upload_sessions \<Rightarrow>
   (RejectUploadSession + StoredUploadSession) store_result" where
  "reject_checks k target stage t =
     result_map
       (\<lambda>found. case found of
          None \<Rightarrow> Inl RejectNotFound
        | Some session \<Rightarrow>
            if \<not> path_eq (us_target_path session) target \<or> \<not> path_eq (us_stage_path session) stage
            then Inl RejectBindingConflict
            else if us_state session = UploadRejected then Inl (RejectRejected session)
            else if us_state session \<noteq> UploadAwaitingConfirmation
            then Inl (RejectStateConflict session)
            else Inr session)
       (load_upload_session k t)"

text \<open>\<open>clock\<close> is the clock reading, which may fail; it is taken only after the first checks.\<close>

definition reject_upload_session ::
  "i64 store_result \<Rightarrow> UploadSessionKey \<Rightarrow> bytes \<Rightarrow> bytes \<Rightarrow> i64 \<Rightarrow> upload_sessions \<Rightarrow>
   (RejectUploadSession \<times> upload_sessions) store_result" where
  "reject_upload_session clock k target stage ttl_ms t =
     result_bind (reject_checks k target stage t) (\<lambda>first.
     case first of
       Inl reply \<Rightarrow> Inr (reply, t)
     | Inr _ \<Rightarrow>
         result_bind clock (\<lambda>now.
         result_bind (expiration_time now ttl_ms) (\<lambda>expires_at.
         result_bind (reject_checks k target stage t) (\<lambda>locked.
         case locked of
           Inl reply \<Rightarrow> Inr (reply, t)
         | Inr session \<Rightarrow>
             result_bind
               (sql_update ConstraintViolated upload_check
                  (\<lambda>k' r. k' = k \<and> ur_state r = upload_state_value UploadAwaitingConfirmation)
                  (\<lambda>r. r\<lparr>ur_state := upload_state_value UploadRejected,
                         ur_updated_at := now, ur_expires_at := expires_at\<rparr>) t) (\<lambda>(updated, t').
             result_map (\<lambda>_. (RejectRejected (session\<lparr>us_state := UploadRejected\<rparr>), t'))
               (ensure (updated = 1) LostLockedRow))))))"

definition remove_upload_session_if_matches ::
  "StoredUploadSession \<Rightarrow> upload_sessions \<Rightarrow> (bool \<times> upload_sessions) store_result" where
  "remove_upload_session_if_matches expected t =
     result_bind (load_upload_session (us_key expected) t) (\<lambda>found.
     case found of
       None \<Rightarrow> Inr (False, t)
     | Some s \<Rightarrow>
         if \<not> session_eq s expected then Inr (False, t)
         else result_map (\<lambda>_. (True, tbl_delete (\<lambda>k _. k = us_key expected) t))
           (ensure (tbl_count (\<lambda>k _. k = us_key expected) t = 1) LostLockedRow))"

definition remove_expired_upload_session_if_matches ::
  "i64 \<Rightarrow> ExpiredUploadSession \<Rightarrow> upload_sessions \<Rightarrow> (bool \<times> upload_sessions) store_result" where
  "remove_expired_upload_session_if_matches now expected t =
     (if eu_expires_at expected > now then Inr (False, t)
      else result_bind (load_expired_upload_session (us_key (eu_session expected)) t) (\<lambda>found.
        case found of
          None \<Rightarrow> Inr (False, t)
        | Some e \<Rightarrow>
            if \<not> expired_session_eq e expected then Inr (False, t)
            else
              let P = (\<lambda>k r. k = us_key (eu_session expected) \<and>
                 (ur_expires_at r = eu_expires_at expected \<and> ur_expires_at r \<le> now))
              in Inr (tbl_count P t = 1, tbl_delete P t)))"

section \<open>Encoding and decoding\<close>

text \<open>The array lengths that Rust's types give a session.\<close>

definition session_typed :: "StoredUploadSession \<Rightarrow> bool" where
  "session_typed s \<longleftrightarrow>
     key_ok (us_key s)
     \<and> (case us_target_revision s of None \<Rightarrow> True | Some rv \<Rightarrow> length rv = 32)"

definition session_ok :: "StoredUploadSession \<Rightarrow> bool" where
  "session_ok s \<longleftrightarrow> session_typed s \<and> validate_session s = Inr ()"

lemma array_of_Inr [simp]: "array_of n bs = Inr xs \<longleftrightarrow> xs = bs \<and> length bs = n"
  by (auto simp: array_of_def)

lemma array_of_ok: "length bs = n \<Longrightarrow> array_of n bs = Inr bs"
  by simp

lemma decode_identity_encode [codec_simps]:
  "decode_identity (map_option (\<lambda>i. to_be_bytes (fi_device i)) d)
     (map_option (\<lambda>i. to_be_bytes (fi_inode i)) d) = Inr d"
  by (cases d) (auto simp: decode_identity_def array_of_ok codec_simps)

lemma u64_le_i64_max:
  "(w :: u64) \<le> 9223372036854775807 \<longleftrightarrow> uint w \<le> i64_max"
  by (simp add: word_le_def i64_max_def)

definition session_row :: "StoredUploadSession \<Rightarrow> i64 \<Rightarrow> i64 \<Rightarrow> UploadRow" where
  "session_row s now expires_at =
     \<lparr>ur_target_path = us_target_path s, ur_stage_path = us_stage_path s,
       ur_upload_length = uint (us_upload_length s),
       ur_durable_offset = uint (us_durable_offset s),
       ur_state = upload_state_value (us_state s),
       ur_stage_device = map_option (\<lambda>i. to_be_bytes (fi_device i)) (us_stage_identity s),
       ur_stage_inode = map_option (\<lambda>i. to_be_bytes (fi_inode i)) (us_stage_identity s),
       ur_target_revision = us_target_revision s,
       ur_updated_at = now, ur_expires_at = expires_at\<rparr>"

lemma encode_upload_row_ok:
  assumes "validate_session s = Inr ()"
  shows "encode_upload_row s now e = Inr (session_row s now e)"
proof -
  have "uint (us_upload_length s) \<le> i64_max"
    using assms by (simp add: validate_session_ok u64_le_i64_max)
  moreover have "uint (us_durable_offset s) \<le> uint (us_upload_length s)"
    using assms by (simp add: validate_session_ok word_le_def)
  ultimately show ?thesis
    by (simp add: encode_upload_row_def session_row_def i64_of_u64_def)
qed

lemma decode_session_row:
  assumes "session_ok s"
  shows "decode_upload_row (us_key s) (session_row s now e) = Inr s"
proof -
  have "us_key s = RowKey (key_owner (us_key s)) (key_id (us_key s))" by simp
  moreover have "(case us_target_revision s of None \<Rightarrow> Inr None
      | Some raw \<Rightarrow> result_map Some (array_of 32 raw)) = Inr (us_target_revision s)"
    using assms by (auto simp: session_ok_def session_typed_def array_of_ok split: option.splits)
  ultimately show ?thesis
    using assms
    by (cases s) (simp add: decode_upload_row_def session_row_def codec_simps session_ok_def
        session_typed_def key_ok_def array_of_ok Let_def)
qed

lemma decode_upload_row_key: "decode_upload_row k r = Inr s \<Longrightarrow> us_key s = k \<and> session_ok s"
  by (cases k) (auto simp: decode_upload_row_def Let_def session_ok_def session_typed_def key_ok_def
      split: option.splits)

lemma session_row_check:
  assumes "session_ok s"
  shows "upload_check (us_key s) (session_row s now e)"
proof -
  have v: "validate_session s = Inr ()" and typed: "session_typed s"
    using assms by (simp_all add: session_ok_def)
  have "us_target_path s \<noteq> us_stage_path s"
    using v by (auto simp: validate_session_ok)
  moreover have "uint (us_durable_offset s) \<le> uint (us_upload_length s)"
    using v by (simp add: validate_session_ok word_le_def)
  moreover have "upload_state_value (us_state s) \<in> {1, 2, 5} \<Longrightarrow>
      us_durable_offset s = us_upload_length s"
    using v by (cases "us_state s") (simp_all add: validate_session_ok)
  moreover have "upload_state_value (us_state s) \<in> {0, 1, 2, 3, 4, 5}"
    by (cases "us_state s") auto
  ultimately show ?thesis
    using v typed
    by (cases "us_target_revision s"; cases "us_stage_identity s")
      (auto simp: upload_check_def session_row_def validate_session_ok validate_stored_path_ok
        session_typed_def codec_simps Suc_le_eq)
qed

definition upload_row_ok :: "UploadSessionKey \<Rightarrow> UploadRow \<Rightarrow> bool" where
  "upload_row_ok k r \<longleftrightarrow>
     (case decode_upload_row k r of
        Inl _ \<Rightarrow> False
      | Inr s \<Rightarrow> r = session_row s (ur_updated_at r) (ur_expires_at r))"

lemma upload_row_okE:
  assumes "upload_row_ok k r"
  obtains s where "decode_upload_row k r = Inr s" "us_key s = k" "session_ok s"
    "r = session_row s (ur_updated_at r) (ur_expires_at r)"
  using assms decode_upload_row_key [of k r]
  by (auto simp: upload_row_ok_def split: sum.splits)

lemma session_row_ok: "session_ok s \<Longrightarrow> upload_row_ok (us_key s) (session_row s now e)"
  by (simp add: upload_row_ok_def decode_session_row) (simp add: session_row_def)

lemma upload_row_ok_check: "upload_row_ok k r \<Longrightarrow> upload_check k r"
  by (erule upload_row_okE) (metis session_row_check)

section \<open>Lifecycle\<close>

text \<open>Abstract contract of a session: its binding is fixed, the durable offset only grows, a
  recorded stage identity never changes, the phase never goes back, and a terminal session is
  frozen.\<close>

fun upload_phase :: "StoredUploadState \<Rightarrow> nat" where
  "upload_phase UploadRunning = 0"
| "upload_phase UploadCommitStarted = 1"
| "upload_phase UploadAwaitingConfirmation = 1"
| "upload_phase _ = 2"

definition upload_advances :: "StoredUploadSession \<Rightarrow> StoredUploadSession \<Rightarrow> bool" where
  "upload_advances s s' \<longleftrightarrow>
     us_key s' = us_key s
     \<and> path_eq (us_target_path s) (us_target_path s')
     \<and> path_eq (us_stage_path s) (us_stage_path s')
     \<and> us_upload_length s' = us_upload_length s
     \<and> us_durable_offset s \<le> us_durable_offset s'
     \<and> (us_stage_identity s \<noteq> None \<longrightarrow> us_stage_identity s' = us_stage_identity s)
     \<and> upload_phase (us_state s) \<le> upload_phase (us_state s')
     \<and> (is_terminal (us_state s) \<longrightarrow>
          us_state s' = us_state s \<and> us_durable_offset s' = us_durable_offset s
          \<and> us_stage_identity s' = us_stage_identity s
          \<and> us_target_revision s' = us_target_revision s)"

lemma upload_advances_refl [simp]: "upload_advances s s"
  by (simp add: upload_advances_def)

lemma upload_advances_trans:
  "upload_advances a b \<Longrightarrow> upload_advances b c \<Longrightarrow> upload_advances a c"
  by (auto simp: upload_advances_def path_eq_def intro: order_trans)

lemma is_terminal_simps [simp]:
  "\<not> is_terminal UploadRunning" "\<not> is_terminal UploadCommitStarted"
  "\<not> is_terminal UploadAwaitingConfirmation"
  "is_terminal UploadCommitted" "is_terminal UploadRejected" "is_terminal UploadUnknown"
  by (simp_all add: is_terminal_def)

lemma merge_Some: "merge_upload_session ex p = Some s \<Longrightarrow> s = p"
  by (auto simp: merge_upload_session_def Let_def split: if_splits)

lemma merge_advances: "merge_upload_session ex p = Some s \<Longrightarrow> upload_advances ex s"
proof -
  assume m: "merge_upload_session ex p = Some s"
  then have s: "s = p" by (rule merge_Some)
  from m have "upload_phase (us_state ex) \<le> upload_phase (us_state p)"
    "is_terminal (us_state ex) \<Longrightarrow> us_state p = us_state ex"
    by (cases "us_state ex"; cases "us_state p";
        simp add: merge_upload_session_def Let_def transition_listed_def is_terminal_def
        split: if_splits)+
  with m show ?thesis
    unfolding s upload_advances_def merge_upload_session_def Let_def
    by (auto split: if_splits option.splits)
qed

text \<open>Replacing the paths of a session by component-wise equal ones.\<close>

definition rebind_paths :: "StoredUploadSession \<Rightarrow> StoredUploadSession \<Rightarrow> StoredUploadSession" where
  "rebind_paths ex p =
     p\<lparr>us_target_path := us_target_path ex, us_stage_path := us_stage_path ex\<rparr>"

lemma rebind_advances: "upload_advances ex p \<Longrightarrow> upload_advances ex (rebind_paths ex p)"
  by (simp add: upload_advances_def rebind_paths_def)

lemma rebind_ok:
  assumes "session_ok ex" and "session_ok p" and "upload_advances ex p"
  shows "session_ok (rebind_paths ex p)"
  using assms
  by (auto simp: session_ok_def session_typed_def validate_session_ok rebind_paths_def
      upload_advances_def path_eq_def)

lemma rebind_row:
  assumes "upload_advances ex p"
  shows "session_row (rebind_paths ex p) now e =
    (session_row p now e)\<lparr>ur_target_path := us_target_path ex, ur_stage_path := us_stage_path ex,
      ur_upload_length := uint (us_upload_length ex)\<rparr>"
  using assms by (simp add: session_row_def rebind_paths_def upload_advances_def)

section \<open>Invariant\<close>

definition upload_live :: "UploadRow \<Rightarrow> bool" where
  "upload_live r \<longleftrightarrow> ur_state r \<in> UPLOAD_LIVE"

definition live_stages_unique :: "upload_sessions \<Rightarrow> bool" where
  "live_stages_unique t \<longleftrightarrow>
     (\<forall>k r k' r'. tbl_get t k = Some r \<longrightarrow> tbl_get t k' = Some r' \<longrightarrow>
        upload_live r \<longrightarrow> upload_live r' \<longrightarrow> ur_stage_path r = ur_stage_path r' \<longrightarrow> k = k')"

definition uploads_inv :: "upload_sessions \<Rightarrow> bool" where
  "uploads_inv t \<longleftrightarrow> tbl_wf t \<and> tbl_all upload_row_ok t \<and> live_stages_unique t"

definition uploads_bounded :: "Limits \<Rightarrow> upload_sessions \<Rightarrow> bool" where
  "uploads_bounded l t \<longleftrightarrow>
     int (tbl_count (\<lambda>_ _. True) t) \<le> lim_upload_capacity l
     \<and> (\<forall>owner. int (tbl_count (\<lambda>k _. key_owner k = owner) t) \<le> lim_upload_per_owner l)"

definition upload_view :: "upload_sessions \<Rightarrow> UploadSessionKey \<Rightarrow> (StoredUploadSession \<times> i64) option" where
  "upload_view t k =
     (case tbl_get t k of
        None \<Rightarrow> None
      | Some r \<Rightarrow> (case decode_upload_row k r of Inl _ \<Rightarrow> None | Inr s \<Rightarrow> Some (s, ur_expires_at r)))"

lemma uploads_inv_Nil [simp]: "uploads_inv []"
  by (simp add: uploads_inv_def tbl_all_def live_stages_unique_def)

lemma uploads_inv_get: "uploads_inv t \<Longrightarrow> tbl_get t k = Some r \<Longrightarrow> upload_row_ok k r"
  by (auto simp: uploads_inv_def dest: tbl_all_get)

lemma load_upload_view:
  assumes "uploads_inv t"
  shows "load_upload_session k t = Inr (map_option fst (upload_view t k))"
proof (cases "tbl_get t k")
  case (Some r)
  from assms Some have "upload_row_ok k r" by (rule uploads_inv_get)
  then obtain s where "decode_upload_row k r = Inr s" by (rule upload_row_okE)
  with Some show ?thesis by (simp add: load_upload_session_def upload_view_def)
qed (simp add: load_upload_session_def upload_view_def)

lemma upload_view_get:
  assumes "uploads_inv t" and "tbl_get t k = Some r"
  obtains s where "upload_view t k = Some (s, ur_expires_at r)" "us_key s = k" "session_ok s"
    "r = session_row s (ur_updated_at r) (ur_expires_at r)"
proof -
  from uploads_inv_get [OF assms] obtain s where "decode_upload_row k r = Inr s" "us_key s = k"
    "session_ok s" "r = session_row s (ur_updated_at r) (ur_expires_at r)"
    by (rule upload_row_okE)
  moreover from this assms(2) have "upload_view t k = Some (s, ur_expires_at r)"
    by (simp add: upload_view_def)
  ultimately show thesis using that by blast
qed

lemma upload_view_Some:
  assumes "uploads_inv t" and "upload_view t k = Some (s, e)"
  obtains u where "tbl_get t k = Some (session_row s u e)" "us_key s = k" "session_ok s"
proof -
  from assms(2) obtain r where r: "tbl_get t k = Some r" "ur_expires_at r = e"
    by (auto simp: upload_view_def split: option.splits sum.splits)
  from upload_view_get [OF assms(1) r(1)] obtain s' where
    "upload_view t k = Some (s', ur_expires_at r)" "us_key s' = k" "session_ok s'"
    "r = session_row s' (ur_updated_at r) (ur_expires_at r)" .
  with assms(2) r have "tbl_get t k = Some (session_row s (ur_updated_at r) e)" "us_key s = k"
    "session_ok s" by simp_all
  then show thesis by (rule that)
qed

lemma upload_view_absent [simp]: "tbl_get t k = None \<Longrightarrow> upload_view t k = None"
  by (simp add: upload_view_def)

lemma upload_view_None:
  assumes "uploads_inv t"
  shows "upload_view t k = None \<longleftrightarrow> tbl_get t k = None"
proof (cases "tbl_get t k")
  case (Some r)
  then obtain s where "upload_view t k = Some (s, ur_expires_at r)"
    using upload_view_get [OF assms] by blast
  with Some show ?thesis by simp
qed (simp add: upload_view_def)

lemma session_row_live: "upload_live (session_row s u e) \<longleftrightarrow> \<not> is_terminal (us_state s)"
  by (cases "us_state s") (auto simp: upload_live_def UPLOAD_LIVE_def session_row_def is_terminal_def)

lemma uploads_inv_delete [wf_intros]: "uploads_inv t \<Longrightarrow> uploads_inv (tbl_delete P t)"
  unfolding uploads_inv_def live_stages_unique_def
  by (auto simp: tbl_get_delete intro: wf_intros split: option.splits if_splits)

lemma upload_view_delete:
  assumes "uploads_inv t"
  shows "upload_view (tbl_delete P t) k =
    (case tbl_get t k of None \<Rightarrow> None | Some r \<Rightarrow> if P k r then None else upload_view t k)"
  using assms by (auto simp: upload_view_def uploads_inv_def tbl_get_delete split: option.splits)

lemma uploads_inv_put:
  assumes inv: "uploads_inv t" and row: "upload_row_ok k r"
    and uniq: "\<And>k' r'. upload_live r \<Longrightarrow> k' \<noteq> k \<Longrightarrow> tbl_get t k' = Some r' \<Longrightarrow> upload_live r' \<Longrightarrow>
      ur_stage_path r' \<noteq> ur_stage_path r"
  shows "uploads_inv (tbl_put k r t)"
proof -
  have u: "live_stages_unique t" using inv by (simp add: uploads_inv_def)
  have "live_stages_unique (tbl_put k r t)"
    unfolding live_stages_unique_def
  proof (intro allI impI)
    fix a ra b rb
    assume "tbl_get (tbl_put k r t) a = Some ra" "tbl_get (tbl_put k r t) b = Some rb"
      "upload_live ra" "upload_live rb" "ur_stage_path ra = ur_stage_path rb"
    with u uniq [of a ra] uniq [of b rb] show "a = b"
      by (cases "a = k"; cases "b = k") (auto simp: tbl_get_put live_stages_unique_def)
  qed
  with inv row show ?thesis by (simp add: uploads_inv_def wf_intros)
qed

lemma upload_view_put:
  assumes "session_ok s" and "us_key s = k"
  shows "upload_view (tbl_put k (session_row s u e) t) k' =
    (if k' = k then Some (s, e) else upload_view t k')"
  using assms decode_session_row [of s u e] by (auto simp: upload_view_def tbl_get_put session_row_def)

section \<open>Saving\<close>

lemma conflicting_stage_iff:
  assumes "tbl_wf t"
  shows "conflicting_stage s t \<longleftrightarrow>
    (\<exists>k r. k \<noteq> us_key s \<and> tbl_get t k = Some r \<and> upload_live r \<and> ur_stage_path r = us_stage_path s)"
proof -
  have key: "key_owner k = key_owner (us_key s) \<and> key_id k = key_id (us_key s) \<longleftrightarrow> k = us_key s" for k
    by (cases k; cases "us_key s") auto
  show ?thesis
    unfolding conflicting_stage_def tbl_count_def key
    by (fastforce simp: filter_empty_conv tbl_get_Some_set [OF assms] upload_live_def)
qed

lemma upsert_insert:
  assumes "session_ok s" and "tbl_get t (us_key s) = None"
  shows "upsert_upload_row (us_key s) (session_row s now e) t =
    Inr (tbl_put (us_key s) (session_row s now e) t)"
  using assms by (simp add: upsert_upload_row_def session_row_check)

lemma upsert_update:
  assumes "session_ok ex" and "session_ok p" and "upload_advances ex p"
    and "tbl_get t (us_key p) = Some (session_row ex u e0)"
  shows "upsert_upload_row (us_key p) (session_row p now e) t =
    Inr (tbl_put (us_key p) (session_row (rebind_paths ex p) now e) t)"
proof -
  have row: "(session_row p now e)\<lparr>ur_target_path := us_target_path ex,
      ur_stage_path := us_stage_path ex, ur_upload_length := uint (us_upload_length ex)\<rparr> =
    session_row (rebind_paths ex p) now e"
    by (rule rebind_row [symmetric]) fact
  have old: "ur_target_path (session_row ex u e0) = us_target_path ex"
    "ur_stage_path (session_row ex u e0) = us_stage_path ex"
    "ur_upload_length (session_row ex u e0) = uint (us_upload_length ex)"
    by (simp_all add: session_row_def)
  have "us_key (rebind_paths ex p) = us_key p" by (simp add: rebind_paths_def)
  then have "upload_check (us_key p) (session_row (rebind_paths ex p) now e)"
    using session_row_check [OF rebind_ok [OF assms(1-3)], of now e] by simp
  with session_row_check [OF assms(2), of now e] assms(4) show ?thesis
    by (simp add: upsert_upload_row_def old row)
qed

text \<open>The outcome of a save, in terms of the sessions.\<close>

definition save_outcome ::
  "Limits \<Rightarrow> i64 \<Rightarrow> StoredUploadSession \<Rightarrow> upload_sessions \<Rightarrow> StoreUploadSession \<Rightarrow>
   upload_sessions \<Rightarrow> bool" where
  "save_outcome l e p t res t' \<longleftrightarrow>
     (case res of
        UploadInserted \<Rightarrow>
          upload_view t (us_key p) = None \<and> upload_has_room l (us_key p) t
          \<and> upload_view t' (us_key p) = Some (p, e)
      | UploadFull \<Rightarrow>
          upload_view t (us_key p) = None \<and> \<not> upload_has_room l (us_key p) t \<and> t' = t
      | UploadConflict \<Rightarrow>
          t' = t \<and> (\<not> is_terminal (us_state p) \<and> conflicting_stage p t
            \<or> (\<exists>ex e'. upload_view t (us_key p) = Some (ex, e') \<and> merge_upload_session ex p = None))
      | _ \<Rightarrow>
          (\<exists>ex e'. upload_view t (us_key p) = Some (ex, e') \<and> merge_upload_session ex p = Some p
            \<and> (res = UploadUnchanged \<longleftrightarrow> session_eq p ex)
            \<and> upload_view t' (us_key p) = Some (rebind_paths ex p, e)))"

lemma save_insert_inv:
  assumes inv: "uploads_inv t" and p: "session_ok p"
    and free: "is_terminal (us_state p) \<or> \<not> conflicting_stage p t"
  shows "uploads_inv (tbl_put (us_key p) (session_row p now e) t)"
proof (rule uploads_inv_put [OF inv session_row_ok [OF p]])
  fix k' r'
  assume "upload_live (session_row p now e)" "k' \<noteq> us_key p" "tbl_get t k' = Some r'" "upload_live r'"
  moreover have "tbl_wf t" using inv by (simp add: uploads_inv_def)
  ultimately show "ur_stage_path r' \<noteq> ur_stage_path (session_row p now e)"
    using free by (auto simp: session_row_live conflicting_stage_iff) (auto simp: session_row_def)
qed

lemma save_update_inv:
  assumes inv: "uploads_inv t" and p: "session_ok p" and ex: "session_ok ex"
    and row: "tbl_get t (us_key p) = Some (session_row ex u e0)" and adv: "upload_advances ex p"
  shows "uploads_inv (tbl_put (us_key p) (session_row (rebind_paths ex p) now e) t)"
proof -
  let ?s = "rebind_paths ex p"
  have key: "us_key ?s = us_key p" by (simp add: rebind_paths_def)
  have ok: "upload_row_ok (us_key p) (session_row ?s now e)"
    using session_row_ok [OF rebind_ok [OF ex p adv], of now e] key by simp
  show ?thesis
  proof (rule uploads_inv_put [OF inv ok])
    fix k' r'
    assume live: "upload_live (session_row ?s now e)" and other: "k' \<noteq> us_key p"
      "tbl_get t k' = Some r'" "upload_live r'"
    have "\<not> is_terminal (us_state ex)"
      using live adv by (auto simp: session_row_live rebind_paths_def upload_advances_def)
    then have "upload_live (session_row ex u e0)" by (simp add: session_row_live)
    moreover have "live_stages_unique t" using inv by (simp add: uploads_inv_def)
    ultimately have "ur_stage_path r' \<noteq> ur_stage_path (session_row ex u e0)"
      using row other unfolding live_stages_unique_def by metis
    then show "ur_stage_path r' \<noteq> ur_stage_path (session_row ?s now e)"
      by (simp add: session_row_def rebind_paths_def)
  qed
qed

lemma save_refines:
  fixes now t0
  assumes inv0: "uploads_inv t0" and p: "session_ok p" and time: "is_i64 (now + ttl)"
  defines "t \<equiv> tbl_delete (\<lambda>_ r. upload_finished now r) t0"
  shows "\<exists>res t'. save_upload_session l now p ttl t0 = Inr (res, t') \<and> uploads_inv t'
    \<and> save_outcome l (now + ttl) p t res t'
    \<and> (\<forall>k'. k' \<noteq> us_key p \<longrightarrow> upload_view t' k' = upload_view t k')"
proof -
  have inv: "uploads_inv t" unfolding t_def using inv0 by (rule wf_intros)
  have exp: "expiration_time now ttl = Inr (now + ttl)" using time by simp
  have enc: "encode_upload_row p now (now + ttl) = Inr (session_row p now (now + ttl))"
    using p by (simp add: session_ok_def encode_upload_row_ok)
  note unfold = save_upload_session_def exp result_bind.simps t_def [symmetric] Let_def
    load_upload_view [OF inv]
  show ?thesis
  proof (cases "\<not> is_terminal (us_state p) \<and> conflicting_stage p t")
    case True
    then show ?thesis
      unfolding unfold using inv by (simp add: save_outcome_def)
  next
    case free: False
    show ?thesis
    proof (cases "upload_view t (us_key p)")
      case None
      then have get: "tbl_get t (us_key p) = None" using upload_view_None [OF inv] by simp
      let ?t' = "tbl_put (us_key p) (session_row p now (now + ttl)) t"
      have "uploads_inv ?t'" using inv p free by (intro save_insert_inv) auto
      then show ?thesis
        unfolding unfold using None free inv p
        by (simp add: save_outcome_def enc upsert_insert [OF p get] upload_view_put)
    next
      case (Some ee)
      then obtain ex e' where ex: "upload_view t (us_key p) = Some (ex, e')" by force
      show ?thesis
      proof (cases "merge_upload_session ex p")
        case None
        with ex free inv show ?thesis
          unfolding unfold by (simp add: save_outcome_def)
      next
        case m: (Some s')
        from m have s': "s' = p" by (rule merge_Some)
        with m have adv: "upload_advances ex p" by (auto dest: merge_advances)
        from inv ex obtain u where row: "tbl_get t (us_key p) = Some (session_row ex u e')"
          and ok: "session_ok ex" by (rule upload_view_Some)
        let ?t' = "tbl_put (us_key p) (session_row (rebind_paths ex p) now (now + ttl)) t"
        have ups: "upsert_upload_row (us_key p) (session_row p now (now + ttl)) t = Inr ?t'"
          by (rule upsert_update [OF ok p adv row])
        have inv': "uploads_inv ?t'" by (rule save_update_inv [OF inv p ok row adv])
        have view: "upload_view ?t' k' =
            (if k' = us_key p then Some (rebind_paths ex p, now + ttl) else upload_view t k')" for k'
          by (rule upload_view_put [OF rebind_ok [OF ok p adv]]) (simp add: rebind_paths_def)
        show ?thesis
          unfolding unfold using free ex m s' inv inv' view
          by (cases "session_eq p ex") (simp_all add: save_outcome_def enc ups)
      qed
    qed
  qed
qed

lemma uploads_bounded_delete: "uploads_bounded l t \<Longrightarrow> uploads_bounded l (tbl_delete P t)"
  unfolding uploads_bounded_def
  by (meson tbl.count_drop of_nat_le_iff order_trans)

lemma uploads_bounded_update: "uploads_bounded l t \<Longrightarrow> uploads_bounded l (tbl_update P f t)"
  by (simp add: uploads_bounded_def tbl_count_update)

lemma uploads_bounded_put:
  assumes "tbl_wf t" and "uploads_bounded l t" and "tbl_get t k = None \<Longrightarrow> upload_has_room l k t"
  shows "uploads_bounded l (tbl_put k r t)"
proof (cases "tbl_get t k")
  case None
  with assms show ?thesis
    by (auto simp: uploads_bounded_def upload_has_room_def tbl_count_put)
next
  case (Some r')
  with assms show ?thesis
    by (auto simp: uploads_bounded_def tbl_count_replace [of t k r'])
qed

lemma save_shape:
  assumes "save_upload_session l now p ttl t0 = Inr (res, t')"
  shows "t' = tbl_delete (\<lambda>_ r. upload_finished now r) t0 \<or>
    (\<exists>r. t' = tbl_put (us_key p) r (tbl_delete (\<lambda>_ r. upload_finished now r) t0)
      \<and> (tbl_get (tbl_delete (\<lambda>_ r. upload_finished now r) t0) (us_key p) = None \<longrightarrow>
          upload_has_room l (us_key p) (tbl_delete (\<lambda>_ r. upload_finished now r) t0)))"
proof -
  define t where "t = tbl_delete (\<lambda>_ r. upload_finished now r) t0"
  from assms have "t' = t \<or> (\<exists>r. t' = tbl_put (us_key p) r t \<and>
    (tbl_get t (us_key p) = None \<longrightarrow> upload_has_room l (us_key p) t))"
    unfolding save_upload_session_def t_def [symmetric] Let_def
    by (auto simp: load_upload_session_def upsert_upload_row_def Let_def
        split: if_splits option.splits sum.splits dest!: merge_Some)
  then show ?thesis unfolding t_def .
qed

lemma save_bounded:
  assumes "tbl_wf t0" and "uploads_bounded l t0"
    and "save_upload_session l now p ttl t0 = Inr (res, t')"
  shows "uploads_bounded l t'"
  using save_shape [OF assms(3)] assms(1,2)
  by (auto intro!: uploads_bounded_put uploads_bounded_delete wf_intros)

section \<open>Rejecting and removing\<close>

definition rejected_session :: "StoredUploadSession \<Rightarrow> StoredUploadSession" where
  "rejected_session s = s\<lparr>us_state := UploadRejected\<rparr>"

lemma rejected_session_ok: "session_ok s \<Longrightarrow> session_ok (rejected_session s)"
  by (auto simp: session_ok_def session_typed_def validate_session_ok rejected_session_def)

lemma rejected_session_advances:
  "\<not> is_terminal (us_state s) \<Longrightarrow> upload_advances s (rejected_session s)"
  by (cases "us_state s") (simp_all add: upload_advances_def rejected_session_def)

lemma rejected_session_row:
  "(session_row s u e)\<lparr>ur_state := upload_state_value UploadRejected, ur_updated_at := now,
     ur_expires_at := e'\<rparr> = session_row (rejected_session s) now e'"
  by (simp add: session_row_def rejected_session_def)

lemma uploads_inv_update_dead:
  assumes inv: "uploads_inv t"
    and ok: "\<And>r. upload_row_ok k r \<Longrightarrow> P r \<Longrightarrow> upload_row_ok k (f r) \<and> \<not> upload_live (f r)"
  shows "uploads_inv (tbl_update (\<lambda>k' r. k' = k \<and> P r) f t)"
proof -
  let ?t' = "tbl_update (\<lambda>k' r. k' = k \<and> P r) f t"
  have live: "tbl_get t k' = Some r" if "tbl_get ?t' k' = Some r" "upload_live r" for k' r
    using that ok uploads_inv_get [OF inv]
    by (auto simp: tbl_get_update split: option.splits if_splits)
  have "live_stages_unique t" using inv by (simp add: uploads_inv_def)
  then have "live_stages_unique ?t'"
    unfolding live_stages_unique_def using live by metis
  moreover have "tbl_all upload_row_ok ?t'"
    using inv ok by (auto simp: uploads_inv_def intro!: wf_intros)
  ultimately show ?thesis using inv by (simp add: uploads_inv_def wf_intros)
qed

lemma reject_checks_view:
  "uploads_inv t \<Longrightarrow> reject_checks k target stage t =
     Inr (case upload_view t k of
        None \<Rightarrow> Inl RejectNotFound
      | Some (s, _) \<Rightarrow>
          if \<not> path_eq (us_target_path s) target \<or> \<not> path_eq (us_stage_path s) stage
          then Inl RejectBindingConflict
          else if us_state s = UploadRejected then Inl (RejectRejected s)
          else if us_state s \<noteq> UploadAwaitingConfirmation then Inl (RejectStateConflict s)
          else Inr s)"
  by (simp add: reject_checks_def load_upload_view split: option.split)

lemma reject_unchanged:
  assumes "uploads_inv t" and "reject_checks k target stage t = Inr (Inl reply)"
  shows "reject_upload_session clock k target stage ttl t = Inr (reply, t)"
  using assms by (simp add: reject_upload_session_def)

lemma reject_awaiting:
  assumes inv: "uploads_inv t" and s: "upload_view t k = Some (s, e)"
    and await: "us_state s = UploadAwaitingConfirmation"
    and bound: "path_eq (us_target_path s) target" "path_eq (us_stage_path s) stage"
    and time: "is_i64 (now + ttl)"
  shows "\<exists>t'. reject_upload_session (Inr now) k target stage ttl t =
        Inr (RejectRejected (rejected_session s), t')
      \<and> uploads_inv t' \<and> upload_view t' k = Some (rejected_session s, now + ttl)
      \<and> (\<forall>k'. k' \<noteq> k \<longrightarrow> upload_view t' k' = upload_view t k')
      \<and> (\<exists>P f. t' = tbl_update P f t)"
proof -
  let ?P = "\<lambda>r. ur_state r = upload_state_value UploadAwaitingConfirmation"
  let ?f = "\<lambda>r. r\<lparr>ur_state := upload_state_value UploadRejected, ur_updated_at := now,
    ur_expires_at := now + ttl\<rparr>"
  define t' where "t' = tbl_update (\<lambda>k' r. k' = k \<and> ?P r) ?f t"
  have wf: "tbl_wf t" using inv by (simp add: uploads_inv_def)
  from inv s obtain u where row: "tbl_get t k = Some (session_row s u e)" and k: "us_key s = k"
    and ok: "session_ok s" by (rule upload_view_Some)
  have P: "?P (session_row s u e)" using await by (simp add: session_row_def)
  have row_ok: "upload_row_ok k (?f r) \<and> \<not> upload_live (?f r)" if r: "upload_row_ok k r" for r
  proof -
    from r obtain s' where s': "session_ok s'" "us_key s' = k"
      "r = session_row s' (ur_updated_at r) (ur_expires_at r)" by (rule upload_row_okE)
    then have f: "?f r = session_row (rejected_session s') now (now + ttl)"
      by (metis rejected_session_row)
    have "us_key (rejected_session s') = k" using s' by (simp add: rejected_session_def)
    then have "upload_row_ok k (?f r)"
      unfolding f using session_row_ok [OF rejected_session_ok [OF s'(1)], of now "now + ttl"]
      by simp
    then show ?thesis unfolding f session_row_live by (simp add: rejected_session_def)
  qed
  have "sql_update ConstraintViolated upload_check (\<lambda>k' r. k' = k \<and> ?P r) ?f t = Inr (1, t')"
    using row P row_ok [OF uploads_inv_get [OF inv row]]
    by (simp add: sql_update_def tbl_all_key [OF wf] tbl_count_key [OF wf] t'_def
        upload_row_ok_check)
  then have "reject_upload_session (Inr now) k target stage ttl t =
      Inr (RejectRejected (rejected_session s), t')"
    using s await bound time
    by (simp add: reject_upload_session_def reject_checks_view [OF inv] rejected_session_def)
  moreover have "uploads_inv t'"
    unfolding t'_def using inv row_ok by (intro uploads_inv_update_dead) auto
  moreover have "tbl_get t' k = Some (session_row (rejected_session s) now (now + ttl))"
    using row P rejected_session_row [where s = s and u = u and e = e and now = now and e' = "now + ttl"]
    by (simp add: t'_def tbl_get_update)
  then have "upload_view t' k = Some (rejected_session s, now + ttl)"
    using decode_session_row [OF rejected_session_ok [OF ok], of now "now + ttl"] k
    by (simp add: upload_view_def rejected_session_def) (simp add: session_row_def)
  moreover have "upload_view t' k' = upload_view t k'" if "k' \<noteq> k" for k'
    using that by (simp add: upload_view_def t'_def tbl_get_update split: option.split)
  ultimately show ?thesis unfolding t'_def by blast
qed

lemma remove_view:
  assumes inv: "uploads_inv t"
  shows "remove_upload_session_if_matches x t =
    (case upload_view t (us_key x) of
       None \<Rightarrow> Inr (False, t)
     | Some (s, _) \<Rightarrow>
         if session_eq s x then Inr (True, tbl_delete (\<lambda>k _. k = us_key x) t) else Inr (False, t))"
proof (cases "upload_view t (us_key x)")
  case (Some se)
  then obtain s e where se: "upload_view t (us_key x) = Some (s, e)" by force
  with inv obtain u where "tbl_get t (us_key x) = Some (session_row s u e)" by (rule upload_view_Some)
  moreover have "tbl_wf t" using inv by (simp add: uploads_inv_def)
  ultimately have "tbl_count (\<lambda>k _. k = us_key x) t = 1"
    using tbl_count_key [of t "us_key x" "\<lambda>_. True"] by simp
  with se show ?thesis
    by (simp add: remove_upload_session_if_matches_def load_upload_view [OF inv])
qed (simp add: remove_upload_session_if_matches_def load_upload_view [OF inv])

lemma load_expired_view:
  assumes "uploads_inv t"
  shows "load_expired_upload_session k t =
    Inr (map_option (\<lambda>(s, e). \<lparr>eu_session = s, eu_expires_at = e\<rparr>) (upload_view t k))"
proof (cases "tbl_get t k")
  case (Some r)
  from assms Some have "upload_row_ok k r" by (rule uploads_inv_get)
  then obtain s where "decode_upload_row k r = Inr s" by (rule upload_row_okE)
  with Some show ?thesis
    by (simp add: load_expired_upload_session_def decode_expired_upload_row_def upload_view_def)
qed (simp add: load_expired_upload_session_def upload_view_def)

lemma remove_expired_view:
  assumes inv: "uploads_inv t"
  shows "remove_expired_upload_session_if_matches now x t =
    (case upload_view t (us_key (eu_session x)) of
       None \<Rightarrow> Inr (False, t)
     | Some (s, e) \<Rightarrow>
         if session_eq s (eu_session x) \<and> e = eu_expires_at x \<and> e \<le> now
         then Inr (True, tbl_delete (\<lambda>k r. k = us_key (eu_session x) \<and>
           (ur_expires_at r = eu_expires_at x \<and> ur_expires_at r \<le> now)) t)
         else Inr (False, t))"
proof (cases "upload_view t (us_key (eu_session x))")
  case (Some se)
  then obtain s e where se: "upload_view t (us_key (eu_session x)) = Some (s, e)" by force
  with inv obtain u where row: "tbl_get t (us_key (eu_session x)) = Some (session_row s u e)"
    by (rule upload_view_Some)
  have wf: "tbl_wf t" using inv by (simp add: uploads_inv_def)
  have "ur_expires_at (session_row s u e) = e" by (simp add: session_row_def)
  with row se show ?thesis
    by (auto simp: remove_expired_upload_session_if_matches_def load_expired_view [OF inv] Let_def
        expired_session_eq_def tbl_count_key [OF wf])
qed (simp add: remove_expired_upload_session_if_matches_def load_expired_view [OF inv])

section \<open>Pages and the startup scan\<close>

definition sessions_of :: "(UploadSessionKey \<times> UploadRow) list \<Rightarrow> StoredUploadSession list" where
  "sessions_of rows = map (\<lambda>(k, r). case decode_upload_row k r of Inr s \<Rightarrow> s
     | Inl _ \<Rightarrow> undefined) rows"

lemma query_upload_sessions_ok:
  assumes "tbl_all upload_row_ok rows"
  shows "query_upload_sessions rows = Inr (sessions_of rows)"
  using assms
  by (induction rows)
    (auto simp: query_upload_sessions_def sessions_of_def tbl_all_def elim!: upload_row_okE)

lemma query_upload_sessions_keys:
  "query_upload_sessions rows = Inr ss \<Longrightarrow> map us_key ss = map fst rows"
  by (induction rows arbitrary: ss)
    (auto simp: query_upload_sessions_def result_collect_Cons dest: decode_upload_row_key)

lemma tbl_all_page: "tbl_all P t \<Longrightarrow> tbl_all P (keyset_page fst after n t)"
  by (auto simp: tbl_all_def list_all_iff keyset_page_def dest!: in_set_takeD)

text \<open>\<open>UploadRecordStore::validate_stage_layouts\<close>: the server reads the sessions in pages of 16
  until a page is empty, and checks every session against the file system (\<open>check\<close>, a
  parameter).  No other command runs before the listeners start, so the table is fixed.\<close>

definition STARTUP_RECONCILIATION_PAGE_SIZE :: i64 where
  "STARTUP_RECONCILIATION_PAGE_SIZE = 16"

function validate_stage_layouts ::
  "Limits \<Rightarrow> (StoredUploadSession \<Rightarrow> unit store_result) \<Rightarrow> upload_sessions \<Rightarrow>
   UploadSessionKey option \<Rightarrow> unit store_result" where
  "validate_stage_layouts l check t after =
     (case upload_sessions_page l after STARTUP_RECONCILIATION_PAGE_SIZE t of
        Inl e \<Rightarrow> Inl e
      | Inr sessions \<Rightarrow>
          if sessions = [] then Inr ()
          else result_bind (result_collect (map check sessions)) (\<lambda>_.
            validate_stage_layouts l check t (Some (us_key (last sessions)))))"
  by auto

lemma upload_page_last:
  assumes "upload_sessions_page l after limit t = Inr ss" and "ss \<noteq> []"
  shows "keyset_page fst after (nat limit) t \<noteq> []"
    and "us_key (last ss) = fst (last (keyset_page fst after (nat limit) t))"
proof -
  have keys: "map us_key ss = map fst (keyset_page fst after (nat limit) t)"
    using assms(1) by (auto simp: upload_sessions_page_def dest: query_upload_sessions_keys)
  with assms(2) show ne: "keyset_page fst after (nat limit) t \<noteq> []" by auto
  from keys have "last (map us_key ss) = last (map fst (keyset_page fst after (nat limit) t))"
    by simp
  with assms(2) ne show "us_key (last ss) = fst (last (keyset_page fst after (nat limit) t))"
    by (simp add: last_map)
qed

termination validate_stage_layouts
proof (relation "measure (\<lambda>(l, check, t, after). length (filter (\<lambda>r. beyond after (fst r)) t))")
  fix l check t after sessions
  assume page: "upload_sessions_page l after STARTUP_RECONCILIATION_PAGE_SIZE t = Inr sessions"
    and ne: "sessions \<noteq> []"
  note last = upload_page_last [OF page ne]
  show "((l, check, t, Some (us_key (last sessions))), l, check, t, after)
    \<in> measure (\<lambda>(l, check, t, after). length (filter (\<lambda>r. beyond after (fst r)) t))"
    using beyond_shrinks [where key = fst, OF page_last_beyond(2,1) [OF last(1)]] by (simp add: last(2))
qed simp

declare validate_stage_layouts.simps [simp del]

definition check_all :: "(StoredUploadSession \<Rightarrow> unit store_result) \<Rightarrow> StoredUploadSession list \<Rightarrow> unit store_result" where
  "check_all check ss = result_map (\<lambda>_. ()) (result_collect (map check ss))"

lemma result_collect_append:
  "result_collect (xs @ ys) =
     result_bind (result_collect xs) (\<lambda>as. result_map ((@) as) (result_collect ys))"
proof (induction xs rule: result_collect.induct)
  case 1
  then show ?case by (cases "result_collect ys") simp_all
next
  case (3 x rs)
  then show ?case by (cases "result_collect rs"; cases "result_collect ys") simp_all
qed simp

lemma check_all_append:
  "check_all check (xs @ ys) = result_bind (check_all check xs) (\<lambda>_. check_all check ys)"
  unfolding check_all_def map_append result_collect_append
  by (cases "result_collect (map check xs)"; cases "result_collect (map check ys)") simp_all

lemma validate_stage_layouts_remaining:
  assumes inv: "uploads_inv t"
    and cap: "int (length t) \<le> lim_upload_capacity l"
  shows "validate_stage_layouts l check t after =
    check_all check (sessions_of (tbl_page.remaining after t))"
proof (induction "length (tbl_page.remaining after t)" arbitrary: after rule: less_induct)
  case less
  define page where "page = keyset_page fst after 16 t"
  have wf: "tbl_wf t" and all: "tbl_all upload_row_ok t" using inv by (simp_all add: uploads_inv_def)
  have q: "upload_sessions_page l after STARTUP_RECONCILIATION_PAGE_SIZE t = Inr (sessions_of page)"
    using query_upload_sessions_ok [OF tbl_all_page [OF all]] cap
    by (simp add: upload_sessions_page_def STARTUP_RECONCILIATION_PAGE_SIZE_def page_def
        tbl_count_all)
  have take: "page = take 16 (tbl_page.remaining after t)"
    unfolding page_def by (rule tbl_page.page_take)
  show ?case
  proof (cases "page = []")
    case True
    then have "tbl_page.remaining after t = []" unfolding take by simp
    with True q show ?thesis
      by (subst validate_stage_layouts.simps) (simp add: sessions_of_def check_all_def)
  next
    case False
    then have ne: "keyset_page fst after 16 t \<noteq> []" by (simp add: page_def)
    have rest: "tbl_page.remaining (Some (fst (last page))) t = drop 16 (tbl_page.remaining after t)"
      unfolding page_def by (rule tbl_page.remaining_nonempty_page [OF wf ne])
    have ss: "sessions_of page \<noteq> []" using False by (simp add: sessions_of_def)
    have key: "us_key (last (sessions_of page)) = fst (last page)"
      using upload_page_last(2) [OF q ss]
      by (simp add: STARTUP_RECONCILIATION_PAGE_SIZE_def page_def)
    have "0 < length (tbl_page.remaining after t)" using False unfolding take by auto
    then have IH: "validate_stage_layouts l check t (Some (fst (last page))) =
      check_all check (sessions_of (drop 16 (tbl_page.remaining after t)))"
      using less [of "Some (fst (last page))"] rest by simp
    have split: "sessions_of (tbl_page.remaining after t) =
      sessions_of page @ sessions_of (drop 16 (tbl_page.remaining after t))"
      unfolding take sessions_of_def map_append [symmetric] append_take_drop_id ..
    show ?thesis
      unfolding split check_all_append
      using q ss key IH
      by (subst validate_stage_layouts.simps)
        (cases "result_collect (map check (sessions_of page))"; simp add: check_all_def)
  qed
qed

section \<open>Properties\<close>

abbreviation sample_session :: StoredUploadSession where
  "sample_session \<equiv>
     \<lparr>us_key = sample_key, us_target_path = [97], us_stage_path = [46, 97],
      us_upload_length = 10, us_durable_offset = 4, us_state = UploadRunning,
      us_stage_identity = Some \<lparr>fi_device = 7, fi_inode = 300\<rparr>, us_target_revision = None\<rparr>"

abbreviation sample_checkpoint :: StoredUploadSession where
  "sample_checkpoint \<equiv> sample_session\<lparr>us_durable_offset := 10, us_state := UploadCommitStarted\<rparr>"

abbreviation sample_uploads :: upload_sessions where
  "sample_uploads \<equiv> [(sample_key, session_row sample_session 100 5100)]"

lemma sample_session_ok: "session_ok sample_session"
  by (simp add: session_ok_def session_typed_def key_ok_def validate_session_ok
      validate_stored_path_ok path_eq_def components_def parse_single_component_def has_root_def
      Let_def List.map_filter_simps)

lemma sample_checkpoint_ok: "session_ok sample_checkpoint"
  by (simp add: session_ok_def session_typed_def key_ok_def validate_session_ok
      validate_stored_path_ok path_eq_def components_def parse_single_component_def has_root_def
      Let_def List.map_filter_simps)

lemma sample_uploads_inv: "uploads_inv sample_uploads"
  using session_row_ok [OF sample_session_ok, of 100 5100]
  by (simp add: uploads_inv_def tbl_wf_Cons tbl_all_def live_stages_unique_def tbl_get_def)

lemma sample_uploads_view: "upload_view sample_uploads sample_key = Some (sample_session, 5100)"
  using decode_session_row [OF sample_session_ok, of 100 5100]
  by (simp add: upload_view_def tbl_get_def) (simp add: session_row_def)

text \<open>C6: The history of a session.  Along any sequence of accepted checkpoints the key, the
  paths (component-wise) and the declared length stay fixed, the durable offset never decreases,
  a recorded stage identity never changes, the session never returns to an earlier phase (running,
  committing or awaiting confirmation, terminal), and a terminal session is frozen.\<close>

theorem upload_history_advances:
  assumes "(\<lambda>s s'. merge_upload_session s s' = Some s')\<^sup>*\<^sup>* s s'"
  shows "upload_advances s s'"
  using assms
proof induction
  case (step s' s'')
  then show ?case using merge_advances upload_advances_trans by blast
qed simp

theorem upload_history_advances_witness:
  "upload_advances sample_session (sample_checkpoint\<lparr>us_state := UploadCommitted\<rparr>)"
proof (rule upload_history_advances)
  have "merge_upload_session sample_session sample_checkpoint = Some sample_checkpoint"
    by (simp add: merge_upload_session_def transition_listed_def)
  moreover have "merge_upload_session sample_checkpoint
      (sample_checkpoint\<lparr>us_state := UploadCommitted\<rparr>) =
    Some (sample_checkpoint\<lparr>us_state := UploadCommitted\<rparr>)"
    by (simp add: merge_upload_session_def transition_listed_def)
  ultimately show "(\<lambda>s s'. merge_upload_session s s' = Some s')\<^sup>*\<^sup>* sample_session
      (sample_checkpoint\<lparr>us_state := UploadCommitted\<rparr>)"
    by (meson converse_rtranclp_into_rtranclp rtranclp.rtrancl_refl)
qed

text \<open>C5: Saving a checkpoint.  After dropping finished expired sessions, saving a valid session
  never fails to decode, keeps every row valid and no two live sessions on the same stage path,
  and answers exactly: \<open>Inserted\<close> when the key is free and there is room, \<open>Full\<close> when there is
  none, \<open>Conflict\<close> when another live session has the stage path or the merge refuses, and
  otherwise \<open>Unchanged\<close> or \<open>Updated\<close> with the merged session stored under a new expiry.  No other
  session changes.\<close>

theorem save_upload_session_refines:
  assumes "uploads_inv t" and "session_ok p" and "is_i64 (now + ttl)"
  shows "\<exists>res t'. save_upload_session l now p ttl t = Inr (res, t') \<and> uploads_inv t'
    \<and> save_outcome l (now + ttl) p (tbl_delete (\<lambda>_ r. upload_finished now r) t) res t'
    \<and> (\<forall>k'. k' \<noteq> us_key p \<longrightarrow>
        upload_view t' k' = upload_view (tbl_delete (\<lambda>_ r. upload_finished now r) t) k')"
  using assms by (rule save_refines)

theorem save_upload_session_refines_witness:
  "\<exists>res t'. save_upload_session sample_limits 200 sample_checkpoint 5000 sample_uploads = Inr (res, t')
    \<and> uploads_inv t'"
  using save_upload_session_refines [OF sample_uploads_inv sample_checkpoint_ok, of 200 5000
      sample_limits]
  by (auto simp: is_i64_def i64_min_def i64_max_def)

text \<open>Rejecting an upload.  A session that awaits confirmation under the given paths becomes
  \<open>Rejected\<close> with a new expiry and the reply carries the rejected session; every other situation
  (unknown key, other paths, already rejected, any other state) leaves the table unchanged.\<close>

theorem reject_upload_session_outcome:
  assumes inv: "uploads_inv t" and time: "is_i64 (now + ttl)"
  shows "\<exists>reply t'. reject_upload_session (Inr now) k target stage ttl t = Inr (reply, t')
    \<and> uploads_inv t'
    \<and> (case upload_view t k of
         None \<Rightarrow> reply = RejectNotFound \<and> t' = t
       | Some (s, e) \<Rightarrow>
           if \<not> (path_eq (us_target_path s) target \<and> path_eq (us_stage_path s) stage)
           then reply = RejectBindingConflict \<and> t' = t
           else if us_state s = UploadRejected then reply = RejectRejected s \<and> t' = t
           else if us_state s = UploadAwaitingConfirmation
           then reply = RejectRejected (s\<lparr>us_state := UploadRejected\<rparr>)
             \<and> upload_view t' k = Some (s\<lparr>us_state := UploadRejected\<rparr>, now + ttl)
           else reply = RejectStateConflict s \<and> t' = t)
    \<and> (\<forall>k'. k' \<noteq> k \<longrightarrow> upload_view t' k' = upload_view t k')"
proof (cases "upload_view t k")
  case None
  with inv show ?thesis
    using reject_unchanged [OF inv, of k target stage RejectNotFound "Inr now" ttl]
    by (simp add: reject_checks_view)
next
  case (Some se)
  then obtain s e where s: "upload_view t k = Some (s, e)" by force
  show ?thesis
  proof (cases "reject_checks k target stage t = Inr (Inr s)")
    case True
    then have "us_state s = UploadAwaitingConfirmation" "path_eq (us_target_path s) target"
      "path_eq (us_stage_path s) stage"
      using s by (auto simp: reject_checks_view [OF inv] split: if_splits)
    from reject_awaiting [OF inv s this time] this s show ?thesis
      by (auto simp: rejected_session_def)
  next
    case False
    then obtain reply where r: "reject_checks k target stage t = Inr (Inl reply)"
      using s by (auto simp: reject_checks_view [OF inv] split: if_splits)
    with False s inv show ?thesis
      using reject_unchanged [OF inv r, of "Inr now" ttl]
      by (auto simp: reject_checks_view [OF inv] split: if_splits)
  qed
qed

theorem reject_upload_session_outcome_witness:
  "\<exists>reply t'. reject_upload_session (Inr 300) sample_key [97] [46, 97] 5000 sample_uploads = Inr (reply, t')
    \<and> reply = RejectStateConflict sample_session \<and> t' = sample_uploads"
  using reject_upload_session_outcome [OF sample_uploads_inv, of 300 5000 sample_key "[97]" "[46, 97]"]
  by (simp add: sample_uploads_view is_i64_def i64_min_def i64_max_def)

text \<open>Removal is compare-and-delete.  A guarded removal deletes a session only when the stored
  session equals the expected one (and, for an expired session, when the stored expiry is the
  expected one and has passed); otherwise the table is unchanged, so a session that was refreshed
  since it was read survives.\<close>

theorem guarded_removal:
  assumes inv: "uploads_inv t"
  shows "remove_upload_session_if_matches x t =
      (case upload_view t (us_key x) of
         None \<Rightarrow> Inr (False, t)
       | Some (s, _) \<Rightarrow>
           if session_eq s x then Inr (True, tbl_delete (\<lambda>k _. k = us_key x) t) else Inr (False, t))
    \<and> (\<exists>b t'. remove_expired_upload_session_if_matches now y t = Inr (b, t')
      \<and> uploads_inv t'
      \<and> (b \<longleftrightarrow> (\<exists>s. upload_view t (us_key (eu_session y)) = Some (s, eu_expires_at y)
            \<and> session_eq s (eu_session y) \<and> eu_expires_at y \<le> now))
      \<and> (b \<longrightarrow> upload_view t' (us_key (eu_session y)) = None) \<and> (\<not> b \<longrightarrow> t' = t)
      \<and> (\<forall>k. k \<noteq> us_key (eu_session y) \<longrightarrow> upload_view t' k = upload_view t k))"
proof (cases "upload_view t (us_key (eu_session y))")
  case None
  with inv show ?thesis by (auto simp: remove_view remove_expired_view intro!: exI [of _ False])
next
  case (Some se)
  then obtain s e where se: "upload_view t (us_key (eu_session y)) = Some (s, e)" by force
  with inv obtain u where row: "tbl_get t (us_key (eu_session y)) = Some (session_row s u e)"
    by (rule upload_view_Some)
  have e: "ur_expires_at (session_row s u e) = e" by (simp add: session_row_def)
  show ?thesis
    using se row e inv
    by (auto simp: remove_view remove_expired_view uploads_inv_delete upload_view_delete
        upload_view_None split: option.splits)
qed

theorem guarded_removal_witness:
  "\<exists>b t'. remove_expired_upload_session_if_matches 6000
      \<lparr>eu_session = sample_session, eu_expires_at = 5100\<rparr> sample_uploads = Inr (b, t')
    \<and> b \<and> upload_view t' sample_key = None"
  using guarded_removal [OF sample_uploads_inv, of sample_session 6000
      "\<lparr>eu_session = sample_session, eu_expires_at = 5100\<rparr>"]
  by (auto simp: sample_uploads_view)

text \<open>C8: The startup scan terminates and checks every stored session exactly once in key order:
  reading pages of 16 until an empty page, its result is the first failure of the check over all
  sessions of the table, or success; a table above its capacity is refused.\<close>

theorem validate_stage_layouts_complete:
  assumes "uploads_inv t"
  shows "validate_stage_layouts l check t None =
    (if int (length t) \<le> lim_upload_capacity l then check_all check (sessions_of t)
     else Inl CapacityExceeded)"
proof (cases "int (length t) \<le> lim_upload_capacity l")
  case True
  with validate_stage_layouts_remaining [OF assms True, of check None] show ?thesis by simp
next
  case False
  then show ?thesis
    by (subst validate_stage_layouts.simps)
      (simp add: upload_sessions_page_def STARTUP_RECONCILIATION_PAGE_SIZE_def tbl_count_all)
qed

theorem validate_stage_layouts_complete_witness:
  "validate_stage_layouts sample_limits (\<lambda>s. ensure (us_durable_offset s = 4) NotFullyDurable)
     sample_uploads None = Inr ()"
  using validate_stage_layouts_complete [OF sample_uploads_inv, of sample_limits]
    decode_session_row [OF sample_session_ok, of 100 5100]
  by (simp add: sessions_of_def check_all_def)

text \<open>C9: The row codec of an upload session loses nothing: every valid session can be encoded,
  the row passes all constraints of the schema, and decoding it gives the session back.\<close>

theorem upload_row_roundtrip:
  assumes "session_ok s"
  shows "\<exists>r. encode_upload_row s now e = Inr r \<and> upload_check (us_key s) r
    \<and> decode_upload_row (us_key s) r = Inr s"
  using assms session_row_check [OF assms] decode_session_row [OF assms]
  by (simp add: encode_upload_row_ok session_ok_def)

theorem upload_row_roundtrip_witness:
  "\<exists>r. encode_upload_row sample_session 1 2 = Inr r \<and> decode_upload_row sample_key r = Inr sample_session"
  using upload_row_roundtrip [OF sample_session_ok, of 1 2] by auto

end
