(* ===== verification/Purge_Store.thy ===== *)
theory Purge_Store
  imports Upload_Store
begin

text \<open>
  The durable purge jobs of the state store and the query for the paths that durable state
  blocks (\<open>src/src/server/state_store/purge.rs\<close> over the tables \<open>purge_jobs\<close> and
  \<open>upload_sessions\<close> of \<open>src/schema/product.sql\<close>).  A job goes from prepared to ready to claimed;
  the worker claims the earliest due job, then completes it or schedules a retry.
\<close>

section \<open>Rows\<close>

record PurgeRow =
  pr_target_path :: bytes
  pr_trash_path :: bytes
  pr_source_device :: bytes
  pr_source_inode :: bytes
  pr_trash_revision :: "bytes option"
  pr_is_directory :: i64
  pr_state :: i64
  pr_attempts :: i64
  pr_next_attempt :: i64
  pr_created_at :: i64
  pr_updated_at :: i64

type_synonym purge_jobs_table = "(PurgeJobKey, PurgeRow) table"

definition purge_check :: "PurgeJobKey \<Rightarrow> PurgeRow \<Rightarrow> bool" where
  "purge_check k r \<longleftrightarrow>
     key_ok k
     \<and> 1 \<le> length (pr_target_path r) \<and> length (pr_target_path r) \<le> 65536
     \<and> 1 \<le> length (pr_trash_path r) \<and> length (pr_trash_path r) \<le> 65536
     \<and> length (pr_source_device r) = 8
     \<and> length (pr_source_inode r) = 8
     \<and> (pr_trash_revision r = None \<or> map_option length (pr_trash_revision r) = Some 32)
     \<and> pr_is_directory r \<in> {0, 1}
     \<and> pr_state r \<in> {0, 1, 2}
     \<and> 0 \<le> pr_attempts r \<and> pr_attempts r \<le> 4294967295
     \<and> pr_target_path r \<noteq> pr_trash_path r"

definition purge_key_from_database :: "PurgeJobKey \<Rightarrow> PurgeJobKey store_result" where
  "purge_key_from_database k =
     result_bind (array_of 32 (key_owner k)) (\<lambda>owner.
     result_bind (array_of 16 (key_id k)) (\<lambda>id'.
     Inr (RowKey owner id')))"

definition decode_purge_row :: "PurgeJobKey \<Rightarrow> PurgeRow \<Rightarrow> StoredPurgeJob store_result" where
  "decode_purge_row k r =
     result_bind (ensure (pr_is_directory r = 0 \<or> pr_is_directory r = 1) InvalidFlag) (\<lambda>_.
     result_bind (purge_key_from_database k) (\<lambda>key.
     result_bind (array_of 8 (pr_source_device r)) (\<lambda>device.
     result_bind (array_of 8 (pr_source_inode r)) (\<lambda>inode.
     result_bind (case pr_trash_revision r of None \<Rightarrow> Inr None
                  | Some raw \<Rightarrow> result_map Some (array_of 32 raw)) (\<lambda>revision.
     result_bind (purge_state_from_database (pr_state r)) (\<lambda>state.
     result_bind (ok_or (u32_of_i64 (pr_attempts r)) ColumnOutOfRange) (\<lambda>attempts.
     let job = \<lparr>pj_key = key, pj_target_path = pr_target_path r, pj_trash_path = pr_trash_path r,
        pj_source_identity = \<lparr>fi_device = from_be_bytes device, fi_inode = from_be_bytes inode\<rparr>,
        pj_trash_revision = revision, pj_is_directory = (pr_is_directory r = 1),
        pj_state = state, pj_attempts = attempts\<rparr> in
     result_bind (validate_stored_path (pj_target_path job)) (\<lambda>_.
     result_bind (validate_stored_path (pj_trash_path job)) (\<lambda>_.
     result_bind (ensure (\<not> path_eq (pj_target_path job) (pj_trash_path job)) PathsMustDiffer) (\<lambda>_.
     Inr job))))))))))"

definition load_purge_job ::
  "PurgeJobKey \<Rightarrow> purge_jobs_table \<Rightarrow> StoredPurgeJob option store_result" where
  "load_purge_job k t =
     (case tbl_get t k of
        None \<Rightarrow> Inr None
      | Some r \<Rightarrow> result_map Some (decode_purge_row k r))"

definition query_purge_jobs ::
  "(PurgeJobKey \<times> PurgeRow) list \<Rightarrow> StoredPurgeJob list store_result" where
  "query_purge_jobs rows = result_collect (map (\<lambda>(k, r). decode_purge_row k r) rows)"

section \<open>Operations\<close>

definition purge_has_room :: "Limits \<Rightarrow> PurgeJobKey \<Rightarrow> purge_jobs_table \<Rightarrow> bool" where
  "purge_has_room l k t \<longleftrightarrow>
     \<not> (int (tbl_count (\<lambda>_ _. True) t) \<ge> lim_purge_capacity l
        \<or> int (tbl_count (\<lambda>k' _. key_owner k' = key_owner k) t) \<ge> lim_purge_per_owner l)"

definition trash_path_taken :: "bytes \<Rightarrow> purge_jobs_table \<Rightarrow> bool" where
  "trash_path_taken p t \<longleftrightarrow> tbl_count (\<lambda>_ r. pr_trash_path r = p) t > 0"

definition prepared_row :: "StoredPurgeJob \<Rightarrow> i64 \<Rightarrow> PurgeRow" where
  "prepared_row j now =
     \<lparr>pr_target_path = pj_target_path j, pr_trash_path = pj_trash_path j,
      pr_source_device = to_be_bytes (fi_device (pj_source_identity j)),
      pr_source_inode = to_be_bytes (fi_inode (pj_source_identity j)),
      pr_trash_revision = None, pr_is_directory = of_bool (pj_is_directory j),
      pr_state = purge_state_value PurgePrepared, pr_attempts = 0,
      pr_next_attempt = now, pr_created_at = now, pr_updated_at = now\<rparr>"

definition prepare_purge_job ::
  "Limits \<Rightarrow> i64 \<Rightarrow> StoredPurgeJob \<Rightarrow> purge_jobs_table \<Rightarrow>
   (StorePurgeJob \<times> purge_jobs_table) store_result" where
  "prepare_purge_job l now proposed t =
     result_bind (load_purge_job (pj_key proposed) t) (\<lambda>found.
     case found of
       Some existing \<Rightarrow>
         Inr (if path_eq (pj_target_path existing) (pj_target_path proposed)
                 \<and> path_eq (pj_trash_path existing) (pj_trash_path proposed)
                 \<and> pj_source_identity existing = pj_source_identity proposed
                 \<and> pj_is_directory existing = pj_is_directory proposed
              then PurgeExisting else PurgeConflict, t)
     | None \<Rightarrow>
         if trash_path_taken (pj_trash_path proposed) t then Inr (PurgeConflict, t)
         else if \<not> purge_has_room l (pj_key proposed) t then Inr (PurgeFull, t)
         else result_map (\<lambda>t'. (PurgeInserted, t'))
           (sql_insert ConstraintViolated purge_check (pj_key proposed) (prepared_row proposed now) t))"

definition prepared_purge_jobs :: "i64 \<Rightarrow> purge_jobs_table \<Rightarrow> StoredPurgeJob list store_result" where
  "prepared_purge_jobs limit t =
     query_purge_jobs (take (nat limit)
       (sort_key (\<lambda>(k, r). (pr_created_at r, k))
         (filter (\<lambda>(k, r). pr_state r = purge_state_value PurgePrepared) t)))"

definition purge_jobs :: "i64 \<Rightarrow> purge_jobs_table \<Rightarrow> StoredPurgeJob list store_result" where
  "purge_jobs limit t =
     query_purge_jobs (take (nat limit) (sort_key (\<lambda>(k, r). (pr_created_at r, k)) t))"

definition mark_purge_job_ready ::
  "i64 \<Rightarrow> PurgeJobKey \<Rightarrow> bytes \<Rightarrow> purge_jobs_table \<Rightarrow> (bool \<times> purge_jobs_table) store_result" where
  "mark_purge_job_ready now k trash_revision t =
     result_bind
       (sql_update ConstraintViolated purge_check
          (\<lambda>k' r. k' = k \<and> pr_state r = purge_state_value PurgePrepared)
          (\<lambda>r. r\<lparr>pr_state := purge_state_value PurgeReady, pr_trash_revision := Some trash_revision,
                 pr_next_attempt := now, pr_updated_at := now\<rparr>) t) (\<lambda>(changed, t').
     if changed = 1 then Inr (True, t')
     else result_map
       (\<lambda>found. (case found of None \<Rightarrow> False
          | Some job \<Rightarrow> pj_state job \<noteq> PurgePrepared \<and> pj_trash_revision job = Some trash_revision,
          t')) (load_purge_job k t'))"

text \<open>\<open>ORDER BY next_attempt_at_ms, created_at_ms, owner_digest, job_id LIMIT 1\<close>.\<close>

definition purge_order :: "PurgeJobKey \<times> PurgeRow \<Rightarrow> i64 \<times> i64 \<times> PurgeJobKey" where
  "purge_order kr = (pr_next_attempt (snd kr), pr_created_at (snd kr), fst kr)"

definition purge_due :: "i64 \<Rightarrow> PurgeRow \<Rightarrow> bool" where
  "purge_due now r \<longleftrightarrow> pr_state r = purge_state_value PurgeReady \<and> pr_next_attempt r \<le> now"

definition due_purge_rows :: "i64 \<Rightarrow> purge_jobs_table \<Rightarrow> (PurgeJobKey \<times> PurgeRow) list" where
  "due_purge_rows now t = sort_key purge_order (filter (\<lambda>(k, r). purge_due now r) t)"

definition claim_due_purge_job ::
  "i64 \<Rightarrow> purge_jobs_table \<Rightarrow> (StoredPurgeJob option \<times> purge_jobs_table) store_result" where
  "claim_due_purge_job now t =
     (case due_purge_rows now t of
        [] \<Rightarrow> Inr (None, t)
      | (k0, _) # _ \<Rightarrow>
          result_bind (purge_key_from_database k0) (\<lambda>k.
          result_bind
            (sql_update ConstraintViolated purge_check
               (\<lambda>k' r. k' = k \<and> pr_state r = purge_state_value PurgeReady)
               (\<lambda>r. r\<lparr>pr_state := purge_state_value PurgeClaimed, pr_updated_at := now\<rparr>) t)
            (\<lambda>(changed, t').
          result_bind (ensure (changed = 1) LostLockedRow) (\<lambda>_.
          result_bind (load_purge_job k t') (\<lambda>found.
          result_map (\<lambda>job. (Some job, t')) (ok_or found LostLockedRow))))))"

definition retry_purge_job ::
  "i64 \<Rightarrow> PurgeJobKey \<Rightarrow> i64 \<Rightarrow> purge_jobs_table \<Rightarrow> (bool \<times> purge_jobs_table) store_result" where
  "retry_purge_job now k delay_ms t =
     result_bind (expiration_time now delay_ms) (\<lambda>next_attempt.
     result_map (\<lambda>(changed, t'). (changed = 1, t'))
       (sql_update ConstraintViolated purge_check
          (\<lambda>k' r. k' = k \<and> pr_state r = purge_state_value PurgeClaimed)
          (\<lambda>r. r\<lparr>pr_state := purge_state_value PurgeReady,
                 pr_attempts := min (pr_attempts r + 1) 4294967295,
                 pr_next_attempt := next_attempt, pr_updated_at := now\<rparr>) t))"

definition complete_purge_job ::
  "PurgeJobKey \<Rightarrow> purge_jobs_table \<Rightarrow> (bool \<times> purge_jobs_table) store_result" where
  "complete_purge_job k t =
     (let P = (\<lambda>k' r. k' = k \<and> pr_state r = purge_state_value PurgeClaimed)
      in Inr (tbl_count P t = 1, tbl_delete P t))"

definition remove_purge_job ::
  "PurgeJobKey \<Rightarrow> purge_jobs_table \<Rightarrow> (bool \<times> purge_jobs_table) store_result" where
  "remove_purge_job k t =
     (let P = (\<lambda>k' r. k' = k \<and> True) in Inr (tbl_count P t = 1, tbl_delete P t))"

section \<open>Paths blocked by durable state\<close>

definition state_path_is_bound :: "bytes \<Rightarrow> upload_sessions \<Rightarrow> purge_jobs_table \<Rightarrow> bool" where
  "state_path_is_bound p us ps \<longleftrightarrow>
     tbl_count (\<lambda>_ r. ur_stage_path r = p \<and> ur_state r \<in> UPLOAD_LIVE) us > 0
     \<or> tbl_count (\<lambda>_ r. pr_trash_path r = p) ps > 0"

record StatePathRow =
  sr_cursor :: StatePathCursor
  sr_path :: bytes
  sr_allows_exact_replacement :: i64

definition cursor_of :: "i64 \<Rightarrow> row_key \<Rightarrow> i64 \<Rightarrow> StatePathCursor" where
  "cursor_of kind k slot = StatePathCursor kind (key_owner k) (key_id k) slot"

text \<open>The four selects of the common table expression, and the ordered result.\<close>

definition state_paths :: "upload_sessions \<Rightarrow> purge_jobs_table \<Rightarrow> StatePathRow list" where
  "state_paths us ps =
     map (\<lambda>(k, r). \<lparr>sr_cursor = cursor_of 0 k 0, sr_path = ur_target_path r,
                    sr_allows_exact_replacement = of_bool (ur_state r = 0)\<rparr>)
       (filter (\<lambda>(k, r). ur_state r \<in> UPLOAD_LIVE) us)
     @ map (\<lambda>(k, r). \<lparr>sr_cursor = cursor_of 0 k 1, sr_path = ur_stage_path r,
                      sr_allows_exact_replacement = 0\<rparr>)
       (filter (\<lambda>(k, r). ur_state r \<in> UPLOAD_LIVE) us)
     @ map (\<lambda>(k, r). \<lparr>sr_cursor = cursor_of 1 k 0, sr_path = pr_target_path r,
                      sr_allows_exact_replacement = 0\<rparr>)
       (filter (\<lambda>(k, r). pr_state r = 0) ps)
     @ map (\<lambda>(k, r). \<lparr>sr_cursor = cursor_of 1 k 1, sr_path = pr_trash_path r,
                      sr_allows_exact_replacement = 0\<rparr>) ps"

definition state_path_rows :: "upload_sessions \<times> purge_jobs_table \<Rightarrow> StatePathRow list" where
  "state_path_rows db = sort_key sr_cursor (state_paths (fst db) (snd db))"

definition decode_state_path_row ::
  "StatePathRow \<Rightarrow> (StatePathCursor \<times> StateBlockingPath) store_result" where
  "decode_state_path_row r =
     (let c = sr_cursor r in
      result_bind (ensure (cur_kind c = 0 \<or> cur_kind c = 1) InvalidFlag) (\<lambda>_.
      result_bind (ensure (cur_slot c = 0 \<or> cur_slot c = 1) InvalidFlag) (\<lambda>_.
      result_bind (ensure (sr_allows_exact_replacement r = 0 \<or> sr_allows_exact_replacement r = 1)
                    InvalidFlag) (\<lambda>_.
      result_bind (validate_stored_path (sr_path r)) (\<lambda>_.
      result_bind (array_of 32 (cur_owner c)) (\<lambda>owner.
      result_bind (array_of 16 (cur_id c)) (\<lambda>id'.
      Inr (StatePathCursor (cur_kind c) owner id' (cur_slot c),
           \<lparr>sb_path = sr_path r,
            sb_allows_exact_replacement = (sr_allows_exact_replacement r \<noteq> 0)\<rparr>))))))))"

definition state_blocking_paths ::
  "StatePathCursor option \<Rightarrow> i64 \<Rightarrow> upload_sessions \<times> purge_jobs_table \<Rightarrow> StatePathPage store_result" where
  "state_blocking_paths after limit db =
     result_map
       (\<lambda>decoded.
          \<lparr>sp_paths = map snd decoded,
           sp_next = (if length decoded = nat limit \<and> decoded \<noteq> []
                      then Some (fst (last decoded)) else None)\<rparr>)
       (result_collect (map decode_state_path_row
          (keyset_page sr_cursor after (nat limit) (state_path_rows db))))"

section \<open>Invariant\<close>

text \<open>Array lengths, valid paths, and a trash revision exactly after the prepared state.\<close>

definition job_ok :: "StoredPurgeJob \<Rightarrow> bool" where
  "job_ok j \<longleftrightarrow>
     key_ok (pj_key j)
     \<and> (case pj_trash_revision j of None \<Rightarrow> True | Some rv \<Rightarrow> length rv = 32)
     \<and> validate_stored_path (pj_target_path j) = Inr ()
     \<and> validate_stored_path (pj_trash_path j) = Inr ()
     \<and> \<not> path_eq (pj_target_path j) (pj_trash_path j)
     \<and> (pj_state j = PurgePrepared \<longleftrightarrow> pj_trash_revision j = None)"

definition job_row :: "StoredPurgeJob \<Rightarrow> i64 \<Rightarrow> i64 \<Rightarrow> i64 \<Rightarrow> PurgeRow" where
  "job_row j next created updated =
     \<lparr>pr_target_path = pj_target_path j, pr_trash_path = pj_trash_path j,
      pr_source_device = to_be_bytes (fi_device (pj_source_identity j)),
      pr_source_inode = to_be_bytes (fi_inode (pj_source_identity j)),
      pr_trash_revision = pj_trash_revision j, pr_is_directory = of_bool (pj_is_directory j),
      pr_state = purge_state_value (pj_state j), pr_attempts = uint (pj_attempts j),
      pr_next_attempt = next, pr_created_at = created, pr_updated_at = updated\<rparr>"

lemma job_row_sel [simp]:
  "pr_target_path (job_row j n c u) = pj_target_path j"
  "pr_trash_path (job_row j n c u) = pj_trash_path j"
  "pr_state (job_row j n c u) = purge_state_value (pj_state j)"
  "pr_attempts (job_row j n c u) = uint (pj_attempts j)"
  "pr_next_attempt (job_row j n c u) = n"
  "pr_created_at (job_row j n c u) = c"
  "pr_updated_at (job_row j n c u) = u"
  by (simp_all add: job_row_def)

lemma u32_of_i64_uint [codec_simps]: "u32_of_i64 (uint w) = Some w"
  using uint_lt2p [of w] by (simp add: u32_of_i64_def)

lemma decode_job_row:
  assumes "job_ok j"
  shows "decode_purge_row (pj_key j) (job_row j next created updated) = Inr j"
proof -
  have "pj_key j = RowKey (key_owner (pj_key j)) (key_id (pj_key j))" by simp
  moreover have "(case pj_trash_revision j of None \<Rightarrow> Inr None
      | Some raw \<Rightarrow> result_map Some (array_of 32 raw)) = Inr (pj_trash_revision j)"
    using assms by (auto simp: job_ok_def array_of_ok split: option.splits)
  ultimately show ?thesis
    using assms
    by (cases j)
      (simp add: decode_purge_row_def job_row_def codec_simps job_ok_def key_ok_def array_of_ok
        purge_key_from_database_def Let_def)
qed

lemma job_row_check:
  assumes "job_ok j"
  shows "purge_check (pj_key j) (job_row j next created updated)"
proof -
  have "pj_target_path j \<noteq> pj_trash_path j" using assms by (auto simp: job_ok_def)
  moreover have "uint (pj_attempts j) \<le> 4294967295" using uint_lt2p [of "pj_attempts j"] by simp
  moreover have "purge_state_value (pj_state j) \<in> {0, 1, 2}" by (cases "pj_state j") auto
  ultimately show ?thesis
    using assms
    by (cases "pj_trash_revision j")
      (auto simp: purge_check_def job_row_def job_ok_def validate_stored_path_ok codec_simps
        Suc_le_eq)
qed

definition purge_row_ok :: "PurgeJobKey \<Rightarrow> PurgeRow \<Rightarrow> bool" where
  "purge_row_ok k r \<longleftrightarrow>
     (case decode_purge_row k r of
        Inl _ \<Rightarrow> False
      | Inr j \<Rightarrow> job_ok j \<and> pj_key j = k
          \<and> r = job_row j (pr_next_attempt r) (pr_created_at r) (pr_updated_at r))"

lemma purge_row_okE:
  assumes "purge_row_ok k r"
  obtains j n c u where "decode_purge_row k r = Inr j" "pj_key j = k" "job_ok j"
    "r = job_row j n c u"
proof -
  from assms obtain j where "decode_purge_row k r = Inr j" "pj_key j = k" "job_ok j"
    "r = job_row j (pr_next_attempt r) (pr_created_at r) (pr_updated_at r)"
    by (auto simp: purge_row_ok_def split: sum.splits)
  then show thesis by (rule that)
qed

lemma job_row_ok: "job_ok j \<Longrightarrow> purge_row_ok (pj_key j) (job_row j n c u)"
  by (simp add: purge_row_ok_def decode_job_row)

definition trash_paths_unique :: "purge_jobs_table \<Rightarrow> bool" where
  "trash_paths_unique t \<longleftrightarrow>
     (\<forall>k r k' r'. tbl_get t k = Some r \<longrightarrow> tbl_get t k' = Some r' \<longrightarrow>
        pr_trash_path r = pr_trash_path r' \<longrightarrow> k = k')"

definition purges_inv :: "purge_jobs_table \<Rightarrow> bool" where
  "purges_inv t \<longleftrightarrow> tbl_wf t \<and> tbl_all purge_row_ok t \<and> trash_paths_unique t"

definition purges_bounded :: "Limits \<Rightarrow> purge_jobs_table \<Rightarrow> bool" where
  "purges_bounded l t \<longleftrightarrow>
     int (tbl_count (\<lambda>_ _. True) t) \<le> lim_purge_capacity l
     \<and> (\<forall>owner. int (tbl_count (\<lambda>k _. key_owner k = owner) t) \<le> lim_purge_per_owner l)"

text \<open>A job with the time of its next attempt.\<close>

definition purge_view :: "purge_jobs_table \<Rightarrow> PurgeJobKey \<Rightarrow> (StoredPurgeJob \<times> i64) option" where
  "purge_view t k =
     (case tbl_get t k of
        None \<Rightarrow> None
      | Some r \<Rightarrow> (case decode_purge_row k r of Inl _ \<Rightarrow> None | Inr j \<Rightarrow> Some (j, pr_next_attempt r)))"

lemma purges_inv_Nil [simp]: "purges_inv []"
  by (simp add: purges_inv_def tbl_all_def trash_paths_unique_def)

lemma purge_view_absent [simp]: "tbl_get t k = None \<Longrightarrow> purge_view t k = None"
  by (simp add: purge_view_def)

lemma purges_inv_get: "purges_inv t \<Longrightarrow> tbl_get t k = Some r \<Longrightarrow> purge_row_ok k r"
  by (auto simp: purges_inv_def dest: tbl_all_get)

lemma purge_view_get:
  assumes "purges_inv t" and "tbl_get t k = Some r"
  obtains j n c u where "r = job_row j n c u" "pj_key j = k" "job_ok j"
    "purge_view t k = Some (j, n)"
proof -
  from purges_inv_get [OF assms] obtain j n c u where "decode_purge_row k r = Inr j" "pj_key j = k"
    "job_ok j" "r = job_row j n c u" by (rule purge_row_okE)
  moreover from this assms(2) have "purge_view t k = Some (j, n)" by (simp add: purge_view_def)
  ultimately show thesis using that by blast
qed

lemma purge_view_None: "purges_inv t \<Longrightarrow> purge_view t k = None \<longleftrightarrow> tbl_get t k = None"
  by (cases "tbl_get t k") (auto elim: purge_view_get)

lemma purge_view_Some:
  assumes "purges_inv t" and "purge_view t k = Some (j, n)"
  obtains c u where "tbl_get t k = Some (job_row j n c u)" "pj_key j = k" "job_ok j"
proof -
  from assms obtain r where r: "tbl_get t k = Some r"
    by (cases "tbl_get t k") auto
  with assms(1) obtain j' n' c u where "r = job_row j' n' c u" "pj_key j' = k" "job_ok j'"
    "purge_view t k = Some (j', n')" by (rule purge_view_get)
  with assms(2) r that show thesis by simp
qed

lemma load_purge_view:
  assumes "purges_inv t"
  shows "load_purge_job k t = Inr (map_option fst (purge_view t k))"
proof (cases "tbl_get t k")
  case (Some r)
  from assms Some have "purge_row_ok k r" by (rule purges_inv_get)
  then obtain j where "decode_purge_row k r = Inr j" by (rule purge_row_okE)
  with Some show ?thesis by (simp add: load_purge_job_def purge_view_def)
qed (simp add: load_purge_job_def purge_view_def)

lemma purges_inv_delete [wf_intros]: "purges_inv t \<Longrightarrow> purges_inv (tbl_delete P t)"
  unfolding purges_inv_def trash_paths_unique_def
  by (auto simp: tbl_get_delete intro: wf_intros split: option.splits if_splits)

lemma purge_view_delete:
  "purges_inv t \<Longrightarrow> purge_view (tbl_delete P t) k =
    (case tbl_get t k of None \<Rightarrow> None | Some r \<Rightarrow> if P k r then None else purge_view t k)"
  by (auto simp: purge_view_def purges_inv_def tbl_get_delete split: option.splits)

lemma purges_bounded_delete: "purges_bounded l t \<Longrightarrow> purges_bounded l (tbl_delete P t)"
  unfolding purges_bounded_def
  by (meson tbl.count_drop of_nat_le_iff order_trans)

lemma purges_bounded_update: "purges_bounded l t \<Longrightarrow> purges_bounded l (tbl_update P f t)"
  by (simp add: purges_bounded_def tbl_count_update)

text \<open>An update of the row of one key, read on jobs: rows whose job satisfies \<open>Q\<close> become the row
  of \<open>g\<close> of that job.\<close>

lemma purge_keyed_update:
  assumes inv: "purges_inv t"
    and P: "\<And>j n c u. P (job_row j n c u) \<longleftrightarrow> Q j"
    and f: "\<And>j n c u. f (job_row j n c u) = job_row (g j) (h n) c now"
    and ok: "\<forall>j. job_ok j \<longrightarrow> Q j \<longrightarrow>
      job_ok (g j) \<and> pj_key (g j) = pj_key j \<and> pj_trash_path (g j) = pj_trash_path j"
  shows "\<exists>t'. sql_update e purge_check (\<lambda>k' r. k' = k \<and> P r) f t =
      Inr (case purge_view t k of None \<Rightarrow> 0 | Some (j, _) \<Rightarrow> if Q j then 1 else 0, t')
    \<and> purges_inv t'
    \<and> purge_view t' k = map_option (\<lambda>(j, n). if Q j then (g j, h n) else (j, n)) (purge_view t k)
    \<and> (\<forall>k'. k' \<noteq> k \<longrightarrow> purge_view t' k' = purge_view t k')
    \<and> t' = tbl_update (\<lambda>k' r. k' = k \<and> P r) f t"
proof -
  define t' where "t' = tbl_update (\<lambda>k' r. k' = k \<and> P r) f t"
  have wf: "tbl_wf t" using inv by (simp add: purges_inv_def)
  have row: "purge_row_ok k' (f r) \<and> pr_trash_path (f r) = pr_trash_path r \<and> purge_check k' (f r)"
    if r: "purge_row_ok k' r" "P r" for k' r
  proof -
    from r(1) obtain j n c u where j: "pj_key j = k'" "job_ok j" "r = job_row j n c u"
      by (rule purge_row_okE)
    with r(2) P ok have g: "job_ok (g j)" "pj_key (g j) = k'"
      "pj_trash_path (g j) = pj_trash_path j" by auto
    then show ?thesis
      using job_row_ok [OF g(1), of "h n" c now] job_row_check [OF g(1), of "h n" c now]
      by (simp add: j(3) f)
  qed
  have "tbl_all purge_row_ok t" using inv by (simp add: purges_inv_def)
  then have all: "tbl_all purge_row_ok t'"
    unfolding t'_def by (rule tbl_all_update) (simp add: row)
  have trash: "\<exists>r0. tbl_get t k' = Some r0 \<and> pr_trash_path r0 = pr_trash_path r"
    if "tbl_get t' k' = Some r" for k' r
  proof (cases "tbl_get t k'")
    case None
    with that show ?thesis by (simp add: t'_def tbl_get_update)
  next
    case (Some r0)
    with that row [OF purges_inv_get [OF inv Some]] show ?thesis
      by (auto simp: t'_def tbl_get_update split: if_splits)
  qed
  have u: "trash_paths_unique t" using inv by (simp add: purges_inv_def)
  have "trash_paths_unique t'"
    unfolding trash_paths_unique_def
  proof (intro allI impI)
    fix a ra b rb
    assume "tbl_get t' a = Some ra" "tbl_get t' b = Some rb" "pr_trash_path ra = pr_trash_path rb"
    with trash [of a ra] trash [of b rb] u show "a = b" unfolding trash_paths_unique_def by metis
  qed
  with all wf have inv': "purges_inv t'" by (simp add: purges_inv_def t'_def wf_intros)
  have chk: "tbl_all (\<lambda>k' r. k' = k \<and> P r \<longrightarrow> purge_check k' (f r)) t"
    using row purges_inv_get [OF inv] by (auto simp: tbl_all_iff_get [OF wf])
  have "sql_update e purge_check (\<lambda>k' r. k' = k \<and> P r) f t =
      Inr (case purge_view t k of None \<Rightarrow> 0 | Some (j, _) \<Rightarrow> if Q j then 1 else 0, t')
    \<and> purge_view t' k = map_option (\<lambda>(j, n). if Q j then (g j, h n) else (j, n)) (purge_view t k)"
  proof (cases "tbl_get t k")
    case None
    then show ?thesis
      using chk by (simp add: sql_update_def tbl_count_key [OF wf] t'_def [symmetric])
        (simp add: t'_def purge_view_def tbl_get_update)
  next
    case (Some r)
    with inv obtain j n c u where j: "r = job_row j n c u" "pj_key j = k" "job_ok j"
      "purge_view t k = Some (j, n)" by (rule purge_view_get)
    have get': "tbl_get t' k = Some (if Q j then job_row (g j) (h n) c now else job_row j n c u)"
      using Some j(1) by (simp add: t'_def tbl_get_update P f)
    have "purge_view t' k = Some (if Q j then (g j, h n) else (j, n))"
      using get' j ok decode_job_row [of "g j" "h n" c now] decode_job_row [OF j(3), of n c u]
      by (auto simp: purge_view_def)
    then show ?thesis
      using chk Some j by (simp add: sql_update_def tbl_count_key [OF wf] P t'_def [symmetric])
  qed
  moreover have "purge_view t' k' = purge_view t k'" if "k' \<noteq> k" for k'
    using that by (simp add: purge_view_def t'_def tbl_get_update split: option.split)
  ultimately show ?thesis using inv' t'_def by blast
qed

section \<open>Behaviour of the operations\<close>

lemma validate_new_job_ok: "validate_new j = Inr () \<Longrightarrow> key_ok (pj_key j) \<Longrightarrow> job_ok j"
  by (simp add: validate_new_ok job_ok_def)

lemma prepared_job_row: "validate_new j = Inr () \<Longrightarrow> prepared_row j now = job_row j now now now"
  by (simp add: validate_new_ok prepared_row_def job_row_def)

lemma trash_path_taken_iff:
  "tbl_wf t \<Longrightarrow> trash_path_taken p t \<longleftrightarrow> (\<exists>k r. tbl_get t k = Some r \<and> pr_trash_path r = p)"
  unfolding trash_path_taken_def tbl_count_def
  by (fastforce simp: filter_empty_conv tbl_get_Some_set)

definition same_purge_binding :: "StoredPurgeJob \<Rightarrow> StoredPurgeJob \<Rightarrow> bool" where
  "same_purge_binding a b \<longleftrightarrow>
     path_eq (pj_target_path a) (pj_target_path b)
     \<and> path_eq (pj_trash_path a) (pj_trash_path b)
     \<and> pj_source_identity a = pj_source_identity b
     \<and> pj_is_directory a = pj_is_directory b"

lemma purge_insert:
  fixes t j n c u
  assumes inv: "purges_inv t" and j: "job_ok j" and fresh: "tbl_get t (pj_key j) = None"
    and free: "\<not> trash_path_taken (pj_trash_path j) t"
  defines "t' \<equiv> tbl_put (pj_key j) (job_row j n c u) t"
  shows "purges_inv t'"
    and "purge_view t' k = (if k = pj_key j then Some (j, n) else purge_view t k)"
proof -
  have wf: "tbl_wf t" and uniq: "trash_paths_unique t" using inv by (simp_all add: purges_inv_def)
  have "trash_paths_unique t'"
    unfolding trash_paths_unique_def
  proof (intro allI impI)
    fix a ra b rb
    assume *: "tbl_get t' a = Some ra" "tbl_get t' b = Some rb" "pr_trash_path ra = pr_trash_path rb"
    have other: "pr_trash_path r \<noteq> pj_trash_path j" if "tbl_get t k = Some r" for k r
      using that free by (auto simp: trash_path_taken_iff [OF wf])
    show "a = b"
      using * uniq other [of a ra] other [of b rb]
      by (cases "a = pj_key j"; cases "b = pj_key j")
        (auto simp: t'_def tbl_get_put trash_paths_unique_def)
  qed
  with inv job_row_ok [OF j, of n c u] show "purges_inv t'"
    by (simp add: purges_inv_def t'_def wf_intros)
  show "purge_view t' k = (if k = pj_key j then Some (j, n) else purge_view t k)"
    using decode_job_row [OF j, of n c u] by (simp add: purge_view_def t'_def tbl_get_put)
qed

lemma prepare_refines:
  assumes inv: "purges_inv t" and new: "validate_new j = Inr ()" and key: "key_ok (pj_key j)"
  shows "\<exists>res t'. prepare_purge_job l now j t = Inr (res, t') \<and> purges_inv t'
    \<and> (case purge_view t (pj_key j) of
         Some (ex, _) \<Rightarrow>
           t' = t \<and> res = (if same_purge_binding ex j then PurgeExisting else PurgeConflict)
       | None \<Rightarrow>
           if trash_path_taken (pj_trash_path j) t then t' = t \<and> res = PurgeConflict
           else if \<not> purge_has_room l (pj_key j) t then t' = t \<and> res = PurgeFull
           else res = PurgeInserted \<and> purge_view t' (pj_key j) = Some (j, now))
    \<and> (\<forall>k. k \<noteq> pj_key j \<longrightarrow> purge_view t' k = purge_view t k)"
proof (cases "purge_view t (pj_key j)")
  case (Some exn)
  then show ?thesis
    using inv by (cases exn)
      (simp add: prepare_purge_job_def load_purge_view same_purge_binding_def)
next
  case None
  then have fresh: "tbl_get t (pj_key j) = None" using inv by (simp add: purge_view_None)
  note ok = validate_new_job_ok [OF new key]
  have "purge_check (pj_key j) (job_row j now now now)" by (rule job_row_check [OF ok])
  then show ?thesis
    using None fresh inv purge_insert [OF inv ok fresh, of now now now]
    by (auto simp: prepare_purge_job_def load_purge_view sql_insert_def prepared_job_row [OF new])
qed

definition ready_job :: "bytes \<Rightarrow> StoredPurgeJob \<Rightarrow> StoredPurgeJob" where
  "ready_job rv j = j\<lparr>pj_state := PurgeReady, pj_trash_revision := Some rv\<rparr>"

lemma mark_ready_refines:
  assumes inv: "purges_inv t" and rv: "length rv = 32"
  shows "\<exists>res t'. mark_purge_job_ready now k rv t = Inr (res, t') \<and> purges_inv t'
    \<and> (case purge_view t k of
         None \<Rightarrow> \<not> res \<and> purge_view t' k = None
       | Some (j, n) \<Rightarrow>
           if pj_state j = PurgePrepared
           then res \<and> purge_view t' k = Some (ready_job rv j, now)
           else res = (pj_trash_revision j = Some rv) \<and> purge_view t' k = Some (j, n))
    \<and> (\<forall>k'. k' \<noteq> k \<longrightarrow> purge_view t' k' = purge_view t k')
    \<and> (\<exists>P f. t' = tbl_update P f t)"
proof -
  let ?P = "\<lambda>r. pr_state r = purge_state_value PurgePrepared"
  let ?Q = "\<lambda>j. pj_state j = PurgePrepared"
  let ?f = "\<lambda>r. r\<lparr>pr_state := purge_state_value PurgeReady, pr_trash_revision := Some rv,
    pr_next_attempt := now, pr_updated_at := now\<rparr>"
  have P: "?P (job_row j n c u) \<longleftrightarrow> ?Q j" for j n c u
    by (cases "pj_state j") simp_all
  have f: "?f (job_row j n c u) = job_row (ready_job rv j) ((\<lambda>_. now) n) c now" for j n c u
    by (simp add: job_row_def ready_job_def)
  have ok: "\<forall>j. job_ok j \<longrightarrow> ?Q j \<longrightarrow> job_ok (ready_job rv j) \<and> pj_key (ready_job rv j) = pj_key j
      \<and> pj_trash_path (ready_job rv j) = pj_trash_path j"
    using rv by (auto simp: job_ok_def ready_job_def)
  from purge_keyed_update [where P = ?P and Q = ?Q and f = ?f and g = "ready_job rv" and h = "\<lambda>_. now"
      and now = now and e = ConstraintViolated and k = k, OF inv P f ok]
  obtain t' where upd: "sql_update ConstraintViolated purge_check (\<lambda>k' r. k' = k \<and> ?P r) ?f t =
      Inr (case purge_view t k of None \<Rightarrow> 0 | Some (j, _) \<Rightarrow> if ?Q j then 1 else 0, t')"
    and inv': "purges_inv t'"
    and view: "purge_view t' k = map_option (\<lambda>(j, n). if ?Q j then (ready_job rv j, now) else (j, n))
      (purge_view t k)"
    and rest: "\<forall>k'. k' \<noteq> k \<longrightarrow> purge_view t' k' = purge_view t k'"
    and t': "t' = tbl_update (\<lambda>k' r. k' = k \<and> ?P r) ?f t"
    by (elim exE conjE)
  have ex: "\<exists>P f. t' = tbl_update P f t" using t' by blast
  show ?thesis
  proof (cases "purge_view t k")
    case None
    with upd inv' view rest ex show ?thesis
      by (auto simp: mark_purge_job_ready_def load_purge_view)
  next
    case (Some jn)
    then obtain j n where "purge_view t k = Some (j, n)" by force
    with upd inv' view rest ex show ?thesis
      by (cases "?Q j") (auto simp: mark_purge_job_ready_def load_purge_view)
  qed
qed

definition claimed_job :: "StoredPurgeJob \<Rightarrow> StoredPurgeJob" where
  "claimed_job j = j\<lparr>pj_state := PurgeClaimed\<rparr>"

lemma claim_keyed:
  assumes inv: "purges_inv t" and k: "purge_view t k = Some (j, n)" and ready: "pj_state j = PurgeReady"
  shows "\<exists>t'. sql_update ConstraintViolated purge_check
        (\<lambda>k' r. k' = k \<and> pr_state r = purge_state_value PurgeReady)
        (\<lambda>r. r\<lparr>pr_state := purge_state_value PurgeClaimed, pr_updated_at := now\<rparr>) t = Inr (1, t')
      \<and> purges_inv t' \<and> purge_view t' k = Some (claimed_job j, n)
      \<and> (\<forall>k'. k' \<noteq> k \<longrightarrow> purge_view t' k' = purge_view t k')
      \<and> (\<exists>P f. t' = tbl_update P f t)"
proof -
  let ?P = "\<lambda>r. pr_state r = purge_state_value PurgeReady"
  let ?Q = "\<lambda>j. pj_state j = PurgeReady"
  let ?f = "\<lambda>r. r\<lparr>pr_state := purge_state_value PurgeClaimed, pr_updated_at := now\<rparr>"
  have P: "?P (job_row j n c u) \<longleftrightarrow> ?Q j" for j n c u
    by (cases "pj_state j") simp_all
  have f: "?f (job_row j n c u) = job_row (claimed_job j) (id n) c now" for j n c u
    by (simp add: job_row_def claimed_job_def)
  have ok: "\<forall>j. job_ok j \<longrightarrow> ?Q j \<longrightarrow> job_ok (claimed_job j) \<and> pj_key (claimed_job j) = pj_key j
      \<and> pj_trash_path (claimed_job j) = pj_trash_path j"
    by (auto simp: job_ok_def claimed_job_def)
  from purge_keyed_update [where P = ?P and Q = ?Q and f = ?f and g = claimed_job and h = id
      and now = now and e = ConstraintViolated and k = k, OF inv P f ok] k ready
  show ?thesis by auto
qed

lemma sort_key_hd_min:
  assumes "sort_key f xs = y # ys" and "x \<in> set xs"
  shows "f y \<le> f x" and "y \<in> set xs"
proof -
  have "sorted (map f (y # ys))" using sorted_sort_key [of f xs] assms(1) by simp
  moreover have "set (y # ys) = set xs" using assms(1) set_sort [of f xs] by simp
  ultimately show "f y \<le> f x" "y \<in> set xs" using assms(2) by auto
qed

lemma claim_refines:
  assumes inv: "purges_inv t"
  shows "\<exists>res t'. claim_due_purge_job now t = Inr (res, t') \<and> purges_inv t'
    \<and> (case res of
         None \<Rightarrow> t' = t \<and> (\<forall>k r. tbl_get t k = Some r \<longrightarrow> \<not> purge_due now r)
       | Some job \<Rightarrow> (\<exists>k r j n.
           tbl_get t k = Some r \<and> purge_due now r
           \<and> (\<forall>k' r'. tbl_get t k' = Some r' \<longrightarrow> purge_due now r' \<longrightarrow>
                purge_order (k, r) \<le> purge_order (k', r'))
           \<and> purge_view t k = Some (j, n) \<and> job = claimed_job j
           \<and> purge_view t' k = Some (job, n)
           \<and> (\<forall>k'. k' \<noteq> k \<longrightarrow> purge_view t' k' = purge_view t k')
           \<and> (\<exists>P f. t' = tbl_update P f t)))"
proof (cases "due_purge_rows now t")
  case Nil
  have wf: "tbl_wf t" using inv by (simp add: purges_inv_def)
  from Nil have "set (filter (\<lambda>(k, r). purge_due now r) t) = {}"
    unfolding due_purge_rows_def by (metis set_sort set_empty)
  then have "\<forall>k r. tbl_get t k = Some r \<longrightarrow> \<not> purge_due now r"
    by (auto simp: tbl_get_Some_set [OF wf])
  with Nil inv show ?thesis by (simp add: claim_due_purge_job_def)
next
  case (Cons kr rest)
  obtain k r where kr: "kr = (k, r)" by force
  have wf: "tbl_wf t" using inv by (simp add: purges_inv_def)
  note hd = sort_key_hd_min [OF Cons [unfolded due_purge_rows_def]]
  have "kr \<in> set (filter (\<lambda>(k, r). purge_due now r) t)"
    using Cons unfolding due_purge_rows_def by (metis list.set_intros(1) set_sort)
  then have get: "tbl_get t k = Some r" and due: "purge_due now r"
    by (auto simp: kr tbl_get_Some_set [OF wf])
  have min: "purge_order (k, r) \<le> purge_order (k', r')"
    if "tbl_get t k' = Some r'" "purge_due now r'" for k' r'
    using hd(1) [of "(k', r')"] that by (auto simp: kr tbl_get_Some_set [OF wf])
  from inv get obtain j n c u where j: "r = job_row j n c u" "pj_key j = k" "job_ok j"
    "purge_view t k = Some (j, n)" by (rule purge_view_get)
  have ready: "pj_state j = PurgeReady"
    using due j(1) by (cases "pj_state j") (simp_all add: purge_due_def)
  from claim_keyed [OF inv j(4) ready, of now] obtain t' where
    upd: "sql_update ConstraintViolated purge_check
        (\<lambda>k' r. k' = k \<and> pr_state r = purge_state_value PurgeReady)
        (\<lambda>r. r\<lparr>pr_state := purge_state_value PurgeClaimed, pr_updated_at := now\<rparr>) t = Inr (1, t')"
    and inv': "purges_inv t'" and view: "purge_view t' k = Some (claimed_job j, n)"
    and rest: "\<forall>k'. k' \<noteq> k \<longrightarrow> purge_view t' k' = purge_view t k'"
    and ex: "\<exists>P f. t' = tbl_update P f t"
    by blast
  have "purge_key_from_database k = Inr k"
    using j(2,3) by (cases k) (simp add: purge_key_from_database_def job_ok_def key_ok_def array_of_def)
  with Cons upd inv' view kr
  have "claim_due_purge_job now t = Inr (Some (claimed_job j), t')"
    by (simp add: claim_due_purge_job_def load_purge_view)
  with get due min j(4) view rest ex inv' show ?thesis by force
qed

definition retried_attempts :: "u32 \<Rightarrow> u32" where
  "retried_attempts a = (if a = 4294967295 then a else a + 1)"

lemma uint_retried_attempts: "uint (retried_attempts a) = min (uint a + 1) 4294967295"
proof (cases "a = 4294967295")
  case False
  then have "uint a \<noteq> 4294967295" by (simp add: word_uint_eq_iff)
  moreover have "uint a < 2 ^ 32" using uint_lt2p [of a] by simp
  ultimately have "uint a + 1 < 2 ^ 32" by simp
  then have "uint (a + 1) = uint a + 1" by (simp add: uint_word_ariths)
  with False \<open>uint a + 1 < 2 ^ 32\<close> show ?thesis by (simp add: retried_attempts_def)
qed (simp add: retried_attempts_def)

definition retried_job :: "StoredPurgeJob \<Rightarrow> StoredPurgeJob" where
  "retried_job j = j\<lparr>pj_state := PurgeReady, pj_attempts := retried_attempts (pj_attempts j)\<rparr>"

lemma retry_refines:
  assumes inv: "purges_inv t" and time: "is_i64 (now + delay)"
  shows "\<exists>res t'. retry_purge_job now k delay t = Inr (res, t') \<and> purges_inv t'
    \<and> (case purge_view t k of
         None \<Rightarrow> \<not> res \<and> purge_view t' k = None
       | Some (j, n) \<Rightarrow>
           if pj_state j = PurgeClaimed
           then res \<and> purge_view t' k = Some (retried_job j, now + delay)
           else \<not> res \<and> purge_view t' k = Some (j, n))
    \<and> (\<forall>k'. k' \<noteq> k \<longrightarrow> purge_view t' k' = purge_view t k')
    \<and> (\<exists>P f. t' = tbl_update P f t)"
proof -
  let ?P = "\<lambda>r. pr_state r = purge_state_value PurgeClaimed"
  let ?Q = "\<lambda>j. pj_state j = PurgeClaimed"
  let ?f = "\<lambda>r. r\<lparr>pr_state := purge_state_value PurgeReady,
    pr_attempts := min (pr_attempts r + 1) 4294967295, pr_next_attempt := now + delay,
    pr_updated_at := now\<rparr>"
  have P: "?P (job_row j n c u) \<longleftrightarrow> ?Q j" for j n c u
    by (cases "pj_state j") simp_all
  have f: "?f (job_row j n c u) = job_row (retried_job j) ((\<lambda>_. now + delay) n) c now" for j n c u
    by (simp add: job_row_def retried_job_def uint_retried_attempts)
  have ok: "\<forall>j. job_ok j \<longrightarrow> ?Q j \<longrightarrow> job_ok (retried_job j) \<and> pj_key (retried_job j) = pj_key j
      \<and> pj_trash_path (retried_job j) = pj_trash_path j"
    by (auto simp: job_ok_def retried_job_def)
  have exp: "expiration_time now delay = Inr (now + delay)" using time by simp
  from purge_keyed_update [where P = ?P and Q = ?Q and f = ?f and g = retried_job
      and h = "\<lambda>_. now + delay" and now = now and e = ConstraintViolated and k = k, OF inv P f ok]
  obtain t' where upd: "sql_update ConstraintViolated purge_check (\<lambda>k' r. k' = k \<and> ?P r) ?f t =
      Inr (case purge_view t k of None \<Rightarrow> 0 | Some (j, _) \<Rightarrow> if ?Q j then 1 else 0, t')"
    and inv': "purges_inv t'"
    and view: "purge_view t' k =
      map_option (\<lambda>(j, n). if ?Q j then (retried_job j, now + delay) else (j, n)) (purge_view t k)"
    and rest: "\<forall>k'. k' \<noteq> k \<longrightarrow> purge_view t' k' = purge_view t k'"
    and t': "t' = tbl_update (\<lambda>k' r. k' = k \<and> ?P r) ?f t"
    by (elim exE conjE)
  have ex: "\<exists>P f. t' = tbl_update P f t" using t' by blast
  from upd inv' view rest ex show ?thesis
    by (cases "purge_view t k") (auto simp: retry_purge_job_def exp)
qed

lemma complete_purge_refines:
  assumes inv: "purges_inv t"
  shows "\<exists>res t'. complete_purge_job k t = Inr (res, t') \<and> purges_inv t'
    \<and> (case purge_view t k of
         None \<Rightarrow> \<not> res \<and> purge_view t' k = None
       | Some (j, n) \<Rightarrow>
           if pj_state j = PurgeClaimed then res \<and> purge_view t' k = None
           else \<not> res \<and> purge_view t' k = Some (j, n))
    \<and> (\<forall>k'. k' \<noteq> k \<longrightarrow> purge_view t' k' = purge_view t k')"
proof -
  let ?P = "\<lambda>k' r. k' = k \<and> pr_state r = purge_state_value PurgeClaimed"
  have wf: "tbl_wf t" using inv by (simp add: purges_inv_def)
  have rest: "\<forall>k'. k' \<noteq> k \<longrightarrow> purge_view (tbl_delete ?P t) k' = purge_view t k'"
    using inv by (simp add: purge_view_delete split: option.split)
  have op: "complete_purge_job k t = Inr (tbl_count ?P t = 1, tbl_delete ?P t)"
    by (simp add: complete_purge_job_def Let_def)
  have inv': "purges_inv (tbl_delete ?P t)" using inv by (rule wf_intros)
  show ?thesis
  proof (cases "tbl_get t k")
    case None
    then show ?thesis
      using op inv' rest by (auto simp: tbl_count_key [OF wf] purge_view_delete [OF inv])
  next
    case (Some r)
    with inv obtain j n c u where j: "r = job_row j n c u" "purge_view t k = Some (j, n)"
      by (rule purge_view_get)
    have "tbl_count ?P t = (if pj_state j = PurgeClaimed then 1 else 0)"
      using Some j(1) by (cases "pj_state j") (simp_all add: tbl_count_key [OF wf])
    moreover have "purge_view (tbl_delete ?P t) k =
        (if pj_state j = PurgeClaimed then None else Some (j, n))"
      using Some j by (cases "pj_state j") (simp_all add: purge_view_delete [OF inv])
    ultimately show ?thesis using op inv' rest j(2) by auto
  qed
qed

lemma remove_purge_refines:
  assumes inv: "purges_inv t"
  shows "\<exists>t'. remove_purge_job k t = Inr (purge_view t k \<noteq> None, t') \<and> purges_inv t'
    \<and> purge_view t' k = None \<and> (\<forall>k'. k' \<noteq> k \<longrightarrow> purge_view t' k' = purge_view t k')"
proof -
  have wf: "tbl_wf t" using inv by (simp add: purges_inv_def)
  let ?t' = "tbl_delete (\<lambda>k' r. k' = k \<and> True) t"
  have "tbl_count (\<lambda>k' r. k' = k \<and> True) t = 1 \<longleftrightarrow> purge_view t k \<noteq> None"
    using purge_view_None [OF inv, of k]
    by (auto simp only: tbl_count_key [OF wf, where P = "\<lambda>_. True"] if_True split: option.split)
  then have "remove_purge_job k t = Inr (purge_view t k \<noteq> None, ?t')"
    unfolding remove_purge_job_def Let_def by simp
  moreover have "purges_inv ?t'" using inv by (rule wf_intros)
  moreover have "purge_view ?t' k = None" "\<forall>k'. k' \<noteq> k \<longrightarrow> purge_view ?t' k' = purge_view t k'"
    using inv by (simp_all add: purge_view_delete split: option.split)
  ultimately show ?thesis by blast
qed

section \<open>Capacity\<close>

lemma prepare_shape:
  "prepare_purge_job l now j t = Inr (res, t') \<Longrightarrow> t' = t \<or>
    (tbl_get t (pj_key j) = None \<and> purge_has_room l (pj_key j) t
      \<and> (\<exists>r. t' = tbl_put (pj_key j) r t))"
  unfolding prepare_purge_job_def load_purge_job_def
  by (cases "tbl_get t (pj_key j)") (auto split: if_splits)

lemma prepare_bounded:
  assumes "purges_bounded l t" and "prepare_purge_job l now j t = Inr (res, t')"
  shows "purges_bounded l t'"
  using prepare_shape [OF assms(2)]
proof
  assume "tbl_get t (pj_key j) = None \<and> purge_has_room l (pj_key j) t
    \<and> (\<exists>r. t' = tbl_put (pj_key j) r t)"
  with assms(1) show ?thesis
    by (auto simp: purges_bounded_def purge_has_room_def tbl_count_put)
qed (use assms(1) in simp)

section \<open>The paged query of blocked paths\<close>

lemma cursor_of_inject [simp]:
  "cursor_of a k b = cursor_of a' k' b' \<longleftrightarrow> a = a' \<and> k = k' \<and> b = b'"
  by (cases k; cases k') (auto simp: cursor_of_def)

lemma distinct_keys_filter:
  "distinct (map fst t) \<Longrightarrow> distinct (map fst (filter P t))"
  by (rule distinct_map_filter)

lemma distinct_cursors:
  assumes "tbl_wf t"
  shows "distinct (map (\<lambda>x. cursor_of a (fst x) b) (filter P t))"
proof -
  have "distinct (map fst (filter P t))"
    using tbl_wf_distinct [OF assms] by (rule distinct_keys_filter)
  then have "distinct (map (\<lambda>k. cursor_of a k b) (map fst (filter P t)))"
    by (subst distinct_map) (auto intro: inj_onI)
  then show ?thesis by (simp add: comp_def)
qed

lemma map_cursor:
  "map sr_cursor (map (\<lambda>(k, r). \<lparr>sr_cursor = cursor_of a k b, sr_path = p r,
      sr_allows_exact_replacement = f r\<rparr>) xs) = map (\<lambda>x. cursor_of a (fst x) b) xs"
  by (induction xs) auto

lemma state_paths_distinct:
  assumes "tbl_wf us" and "tbl_wf ps"
  shows "distinct (map sr_cursor (state_paths us ps))"
  using distinct_cursors [OF assms(1), of 0 0] distinct_cursors [OF assms(1), of 0 1]
    distinct_cursors [OF assms(2), of 1 0] distinct_cursors [OF assms(2), of 1 1 "\<lambda>_. True"]
  unfolding state_paths_def map_append map_cursor
  by auto

lemma state_path_rows_sorted:
  assumes "tbl_wf (fst db)" and "tbl_wf (snd db)"
  shows "sorted_wrt (\<lambda>x y. sr_cursor x < sr_cursor y) (state_path_rows db)"
proof -
  have "distinct (map sr_cursor (state_path_rows db))"
    using state_paths_distinct [OF assms] unfolding state_path_rows_def distinct_map
    by (simp add: set_sort)
  moreover have "sorted (map sr_cursor (state_path_rows db))"
    unfolding state_path_rows_def by simp
  ultimately have "sorted_wrt (<) (map sr_cursor (state_path_rows db))"
    by (simp add: strict_sorted_iff)
  then show ?thesis by (simp only: sorted_wrt_map)
qed

definition state_tables_wf :: "upload_sessions \<times> purge_jobs_table \<Rightarrow> bool" where
  "state_tables_wf db \<longleftrightarrow> tbl_wf (fst db) \<and> tbl_wf (snd db)"

interpretation state_page: keyset_query sr_cursor state_path_rows state_tables_wf
  by unfold_locales (simp add: state_path_rows_sorted state_tables_wf_def)

definition blocking_path :: "StatePathRow \<Rightarrow> StateBlockingPath" where
  "blocking_path r =
     \<lparr>sb_path = sr_path r, sb_allows_exact_replacement = (sr_allows_exact_replacement r \<noteq> 0)\<rparr>"

lemma cursor_of_sel [simp]:
  "cur_kind (cursor_of a k b) = a" "cur_owner (cursor_of a k b) = key_owner k"
  "cur_id (cursor_of a k b) = key_id k" "cur_slot (cursor_of a k b) = b"
  by (simp_all add: cursor_of_def)

lemma decode_state_path_ok:
  assumes "uploads_inv us" and "purges_inv ps" and "row \<in> set (state_path_rows (us, ps))"
  shows "decode_state_path_row row = Inr (sr_cursor row, blocking_path row)"
proof -
  have up: "key_ok k \<and> validate_stored_path (ur_target_path r) = Inr ()
      \<and> validate_stored_path (ur_stage_path r) = Inr ()" if "(k, r) \<in> set us" for k r
  proof -
    from that assms(1) have "upload_row_ok k r"
      by (auto simp: uploads_inv_def tbl_all_def list_all_iff)
    then obtain s where s: "us_key s = k" "session_ok s"
      "r = session_row s (ur_updated_at r) (ur_expires_at r)" by (rule upload_row_okE)
    have "ur_target_path r = us_target_path s" "ur_stage_path r = us_stage_path s"
      by (subst s(3), simp add: session_row_def)+
    with s show ?thesis by (simp add: session_ok_def session_typed_def validate_session_ok)
  qed
  have pu: "key_ok k \<and> validate_stored_path (pr_target_path r) = Inr ()
      \<and> validate_stored_path (pr_trash_path r) = Inr ()" if "(k, r) \<in> set ps" for k r
  proof -
    from that assms(2) have "purge_row_ok k r"
      by (auto simp: purges_inv_def tbl_all_def list_all_iff)
    then show ?thesis by (rule purge_row_okE) (auto simp: job_ok_def)
  qed
  have "row \<in> set (state_paths us ps)"
    using assms(3) by (simp add: state_path_rows_def)
  then have "\<exists>a k b. sr_cursor row = cursor_of a k b \<and> a \<in> {0, 1} \<and> b \<in> {0, 1} \<and> key_ok k
      \<and> sr_allows_exact_replacement row \<in> {0, 1} \<and> validate_stored_path (sr_path row) = Inr ()"
    unfolding state_paths_def using up pu by (force simp: of_bool_def)
  then show ?thesis
    by (auto simp: decode_state_path_row_def Let_def key_ok_def array_of_def blocking_path_def
        cursor_of_def)
qed

lemma result_collect_map_ok:
  "(\<And>x. x \<in> set xs \<Longrightarrow> f x = Inr (g x)) \<Longrightarrow> result_collect (map f xs) = Inr (map g xs)"
  by (induction xs) auto

lemma state_blocking_paths_page:
  fixes us ps after limit
  assumes "uploads_inv us" and "purges_inv ps"
  defines "page \<equiv> keyset_page sr_cursor after (nat limit) (state_path_rows (us, ps))"
  shows "state_blocking_paths after limit (us, ps) =
    Inr \<lparr>sp_paths = map blocking_path page,
         sp_next = (if length page = nat limit \<and> page \<noteq> [] then Some (sr_cursor (last page))
                    else None)\<rparr>"
proof -
  have "set page \<subseteq> set (state_path_rows (us, ps))"
    unfolding page_def keyset_page_def by (auto dest!: in_set_takeD)
  then have "result_collect (map decode_state_path_row page) =
      Inr (map (\<lambda>r. (sr_cursor r, blocking_path r)) page)"
    using decode_state_path_ok [OF assms(1,2)] by (intro result_collect_map_ok) auto
  then show ?thesis
    unfolding state_blocking_paths_def page_def [symmetric]
    by (simp add: comp_def last_map)
qed

section \<open>Properties\<close>

abbreviation sample_job :: StoredPurgeJob where
  "sample_job \<equiv>
     \<lparr>pj_key = sample_key, pj_target_path = [97], pj_trash_path = [46, 116],
      pj_source_identity = \<lparr>fi_device = 7, fi_inode = 42\<rparr>, pj_trash_revision = None,
      pj_is_directory = True, pj_state = PurgePrepared, pj_attempts = 0\<rparr>"

abbreviation sample_claimed :: StoredPurgeJob where
  "sample_claimed \<equiv> sample_job\<lparr>pj_state := PurgeClaimed, pj_attempts := 4294967295,
     pj_trash_revision := Some (replicate 32 5)\<rparr>"

abbreviation sample_ready :: StoredPurgeJob where
  "sample_ready \<equiv> sample_claimed\<lparr>pj_state := PurgeReady\<rparr>"

lemma sample_paths_differ: "\<not> path_eq [97] [46, 116]"
  by (simp add: path_eq_def components_def parse_single_component_def has_root_def Let_def
      List.map_filter_simps)

lemma sample_job_new: "validate_new sample_job = Inr ()"
  by (simp add: validate_new_ok validate_stored_path_ok sample_paths_differ)

lemma sample_purges_inv:
  "job_ok j \<Longrightarrow> pj_key j = sample_key \<Longrightarrow> purges_inv [(sample_key, job_row j n c u)]"
  using job_row_ok [of j n c u]
  by (simp add: purges_inv_def tbl_wf_Cons tbl_all_def trash_paths_unique_def tbl_get_def)

lemma sample_claimed_ok: "job_ok sample_claimed" and sample_ready_ok: "job_ok sample_ready"
  by (simp_all add: job_ok_def key_ok_def validate_stored_path_ok sample_paths_differ)

lemma sample_purge_view:
  "job_ok j \<Longrightarrow> pj_key j = sample_key \<Longrightarrow>
    purge_view [(sample_key, job_row j n c u)] sample_key = Some (j, n)"
  using decode_job_row [of j n c u] by (simp add: purge_view_def tbl_get_def)

text \<open>C10: Preparing a purge job.  A valid new job is stored as prepared and due at once exactly
  when its key is free, no job uses its trash path and both capacities have room; the same job
  again is \<open>Existing\<close>, a different job under the key or a taken trash path is a \<open>Conflict\<close>, and
  only an insertion changes the table.  Trash paths stay unique.\<close>

theorem prepare_purge_job_refines:
  assumes "purges_inv t" and "validate_new j = Inr ()" and "key_ok (pj_key j)"
  shows "\<exists>res t'. prepare_purge_job l now j t = Inr (res, t') \<and> purges_inv t'
    \<and> (case purge_view t (pj_key j) of
         Some (ex, _) \<Rightarrow>
           t' = t \<and> res = (if same_purge_binding ex j then PurgeExisting else PurgeConflict)
       | None \<Rightarrow>
           if trash_path_taken (pj_trash_path j) t then t' = t \<and> res = PurgeConflict
           else if \<not> purge_has_room l (pj_key j) t then t' = t \<and> res = PurgeFull
           else res = PurgeInserted \<and> purge_view t' (pj_key j) = Some (j, now))
    \<and> (\<forall>k. k \<noteq> pj_key j \<longrightarrow> purge_view t' k = purge_view t k)"
  using assms by (rule prepare_refines)

theorem prepare_purge_job_refines_witness:
  "\<exists>res t'. prepare_purge_job sample_limits 50 sample_job [] = Inr (res, t')
    \<and> res = PurgeInserted \<and> purge_view t' sample_key = Some (sample_job, 50)"
  using prepare_purge_job_refines [OF purges_inv_Nil sample_job_new, of sample_limits 50]
  by (auto simp: key_ok_def trash_path_taken_def purge_has_room_def tbl_count_def)

text \<open>C7: Claiming.  \<open>claim_due_purge_job\<close> returns nothing exactly when no ready job is due;
  otherwise it claims the least due job in the order of next attempt, creation, owner and id,
  returns it, changes only its state, and a later claim cannot return the same key while it stays
  claimed.\<close>

theorem claim_due_purge_job_least:
  assumes inv: "purges_inv t"
  shows "\<exists>res t'. claim_due_purge_job now t = Inr (res, t') \<and> purges_inv t'
    \<and> (case res of
         None \<Rightarrow> t' = t \<and> (\<forall>k r. tbl_get t k = Some r \<longrightarrow> \<not> purge_due now r)
       | Some job \<Rightarrow> (\<exists>k r j n.
           tbl_get t k = Some r \<and> purge_due now r
           \<and> (\<forall>k' r'. tbl_get t k' = Some r' \<longrightarrow> purge_due now r' \<longrightarrow>
                purge_order (k, r) \<le> purge_order (k', r'))
           \<and> purge_view t k = Some (j, n) \<and> job = j\<lparr>pj_state := PurgeClaimed\<rparr>
           \<and> purge_view t' k = Some (job, n)
           \<and> (\<forall>k'. k' \<noteq> k \<longrightarrow> purge_view t' k' = purge_view t k')
           \<and> (\<forall>later job' t''. claim_due_purge_job later t' = Inr (Some job', t'') \<longrightarrow>
                pj_key job' \<noteq> k)))"
proof -
  have fresh: "pj_key job' \<noteq> k"
    if "purges_inv t'" "purge_view t' k = Some (job, n)" "pj_state job = PurgeClaimed"
      "claim_due_purge_job later t' = Inr (Some job', t'')" for t' k job n later job' t''
  proof -
    from claim_refines [OF that(1), of later] that(4) obtain k' r' j' n' where
      k': "tbl_get t' k' = Some r'" "purge_due later r'" "purge_view t' k' = Some (j', n')"
        "job' = claimed_job j'" by auto
    from that(1) k'(3) obtain c u where row: "tbl_get t' k' = Some (job_row j' n' c u)"
      and key: "pj_key j' = k'" by (rule purge_view_Some)
    from k'(1,2) row have "pj_state j' = PurgeReady"
      by (cases "pj_state j'") (auto simp: purge_due_def)
    with that(2,3) k'(3) have "k' \<noteq> k" by auto
    with key k'(4) show ?thesis by (simp add: claimed_job_def)
  qed
  from claim_refines [OF inv, of now] obtain res t' where
    c: "claim_due_purge_job now t = Inr (res, t')" "purges_inv t'" and
    r: "case res of
         None \<Rightarrow> t' = t \<and> (\<forall>k r. tbl_get t k = Some r \<longrightarrow> \<not> purge_due now r)
       | Some job \<Rightarrow> (\<exists>k r j n.
           tbl_get t k = Some r \<and> purge_due now r
           \<and> (\<forall>k' r'. tbl_get t k' = Some r' \<longrightarrow> purge_due now r' \<longrightarrow>
                purge_order (k, r) \<le> purge_order (k', r'))
           \<and> purge_view t k = Some (j, n) \<and> job = claimed_job j
           \<and> purge_view t' k = Some (job, n)
           \<and> (\<forall>k'. k' \<noteq> k \<longrightarrow> purge_view t' k' = purge_view t k')
           \<and> (\<exists>P f. t' = tbl_update P f t))" by blast
  show ?thesis
  proof (cases res)
    case None
    with c r show ?thesis by auto
  next
    case (Some job)
    with r obtain k rw j n where k: "tbl_get t k = Some rw" "purge_due now rw"
      "\<forall>k' r'. tbl_get t k' = Some r' \<longrightarrow> purge_due now r' \<longrightarrow> purge_order (k, rw) \<le> purge_order (k', r')"
      "purge_view t k = Some (j, n)" "job = claimed_job j" "purge_view t' k = Some (job, n)"
      "\<forall>k'. k' \<noteq> k \<longrightarrow> purge_view t' k' = purge_view t k'" by auto
    have "pj_state job = PurgeClaimed" using k(5) by (simp add: claimed_job_def)
    with fresh [OF c(2) k(6)] have "\<forall>later job' t''.
        claim_due_purge_job later t' = Inr (Some job', t'') \<longrightarrow> pj_key job' \<noteq> k" by blast
    with c k Some show ?thesis unfolding claimed_job_def by auto
  qed
qed

theorem claim_due_purge_job_least_witness:
  "\<exists>res t'. claim_due_purge_job 900 [(sample_key, job_row sample_ready 800 10 20)] = Inr (res, t')
    \<and> purges_inv t' \<and> res \<noteq> None"
proof -
  have inv: "purges_inv [(sample_key, job_row sample_ready 800 10 20)]"
    using sample_ready_ok by (rule sample_purges_inv) simp
  have due: "tbl_get [(sample_key, job_row sample_ready 800 10 20)] sample_key =
      Some (job_row sample_ready 800 10 20)" "purge_due 900 (job_row sample_ready 800 10 20)"
    by (simp_all add: tbl_get_def purge_due_def)
  show ?thesis
    using claim_due_purge_job_least [OF inv, of 900]
  proof (elim exE conjE, goal_cases)
    case (1 res t')
    have "res \<noteq> None"
    proof
      assume "res = None"
      with 1(3) due show False by (simp only: option.case)
    qed
    with 1(1,2) show ?case by blast
  qed
qed

text \<open>Finishing or retrying a claimed job.  Only a claimed job can be completed or retried:
  completion removes it; a retry makes it ready again at \<open>now + delay\<close> with one more attempt,
  saturating at the largest 32-bit count.  Any other job is left as it is and the reply is
  \<open>false\<close>.\<close>

theorem claimed_job_exit:
  assumes inv: "purges_inv t" and time: "is_i64 (now + delay)"
  shows "(\<exists>res t'. complete_purge_job k t = Inr (res, t') \<and> purges_inv t'
      \<and> (case purge_view t k of
           None \<Rightarrow> \<not> res \<and> purge_view t' k = None
         | Some (j, n) \<Rightarrow>
             if pj_state j = PurgeClaimed then res \<and> purge_view t' k = None
             else \<not> res \<and> purge_view t' k = Some (j, n)))
    \<and> (\<exists>res t'. retry_purge_job now k delay t = Inr (res, t') \<and> purges_inv t'
      \<and> (case purge_view t k of
           None \<Rightarrow> \<not> res \<and> purge_view t' k = None
         | Some (j, n) \<Rightarrow>
             if pj_state j = PurgeClaimed
             then res \<and> purge_view t' k =
               Some (j\<lparr>pj_state := PurgeReady,
                       pj_attempts := (if pj_attempts j = 4294967295 then 4294967295
                                       else pj_attempts j + 1)\<rparr>, now + delay)
             else \<not> res \<and> purge_view t' k = Some (j, n)))"
proof -
  have att: "(if pj_attempts j = 4294967295 then 4294967295 else pj_attempts j + 1) =
      retried_attempts (pj_attempts j)" for j :: StoredPurgeJob
    by (simp add: retried_attempts_def)
  from complete_purge_refines [OF inv, of k] retry_refines [OF inv time, of k] show ?thesis
    unfolding att retried_job_def by blast
qed

theorem claimed_job_exit_witness:
  "\<exists>res t'. retry_purge_job 900 sample_key 60
      [(sample_key, job_row sample_claimed 800 10 20)] = Inr (res, t')
    \<and> res \<and> purge_view t' sample_key = Some (sample_ready, 960)"
proof -
  have inv: "purges_inv [(sample_key, job_row sample_claimed 800 10 20)]"
    using sample_claimed_ok by (rule sample_purges_inv) simp
  have view: "purge_view [(sample_key, job_row sample_claimed 800 10 20)] sample_key =
      Some (sample_claimed, 800)"
    using sample_claimed_ok by (rule sample_purge_view) simp
  have "is_i64 (900 + 60)" by (simp add: is_i64_def i64_min_def i64_max_def)
  from claimed_job_exit [OF inv this, of sample_key] view show ?thesis by auto
qed

end
