(* ===== verification/Store_Recovery.thy ===== *)
theory Store_Recovery
  imports Purge_Store
begin

text \<open>
  The state database as the three tables of the stores, and the recovery transaction that runs
  when the server opens it (\<open>recover_database\<close> in \<open>src/src/server/state_store/database.rs\<close>).
\<close>

record Database =
  db_operations :: operations
  db_uploads :: upload_sessions
  db_purges :: purge_jobs_table

definition empty_database :: Database where
  "empty_database = \<lparr>db_operations = [], db_uploads = [], db_purges = []\<rparr>"

section \<open>Recovery\<close>

definition recover_operations :: "i64 \<Rightarrow> i64 \<Rightarrow> operations \<Rightarrow> operations store_result" where
  "recover_operations now expires_at t0 =
     (let t1 = tbl_delete (\<lambda>_ r. op_state r = OPERATION_RESERVED) (purge_expired now t0) in
      result_bind (sql_update ConstraintViolated operation_check
        (\<lambda>_ r. op_state r = OPERATION_COMMIT_STARTED)
        (completed_row uncertain_outcome now expires_at) t1) (\<lambda>(_, t2).
      result_map snd (sql_update ConstraintViolated operation_check
        (\<lambda>_ r. op_state r = OPERATION_COMPLETED
           \<and> (case op_expires_at r of None \<Rightarrow> False | Some e \<Rightarrow> e > expires_at))
        (\<lambda>r. r\<lparr>op_expires_at := Some expires_at\<rparr>) t2)))"

definition recover_uploads :: "i64 \<Rightarrow> i64 \<Rightarrow> upload_sessions \<Rightarrow> upload_sessions store_result" where
  "recover_uploads now expires_at t =
     result_bind (sql_update ConstraintViolated upload_check
       (\<lambda>_ r. ur_state r = upload_state_value UploadCommitStarted)
       (\<lambda>r. r\<lparr>ur_state := upload_state_value UploadUnknown, ur_updated_at := now,
              ur_expires_at := expires_at\<rparr>) t) (\<lambda>(_, t1).
     result_map snd (sql_update ConstraintViolated upload_check
       (\<lambda>_ r. ur_expires_at r > expires_at)
       (\<lambda>r. r\<lparr>ur_expires_at := expires_at\<rparr>) t1))"

definition recover_purges :: "i64 \<Rightarrow> purge_jobs_table \<Rightarrow> purge_jobs_table store_result" where
  "recover_purges now t =
     result_bind (sql_update ConstraintViolated purge_check
       (\<lambda>_ r. pr_state r = purge_state_value PurgeClaimed)
       (\<lambda>r. r\<lparr>pr_state := purge_state_value PurgeReady, pr_next_attempt := now,
              pr_updated_at := now\<rparr>) t) (\<lambda>(_, t1).
     result_map snd (sql_update ConstraintViolated purge_check
       (\<lambda>_ r. pr_state r = purge_state_value PurgeReady \<and> pr_next_attempt r > now)
       (\<lambda>r. r\<lparr>pr_next_attempt := now, pr_updated_at := now\<rparr>) t1))"

definition recover_database :: "i64 \<Rightarrow> i64 \<Rightarrow> i64 \<Rightarrow> Database \<Rightarrow> Database store_result" where
  "recover_database operation_ttl_ms upload_ttl_ms now db =
     result_bind (expiration_time now operation_ttl_ms) (\<lambda>operation_expires_at.
     result_bind (expiration_time now upload_ttl_ms) (\<lambda>upload_expires_at.
     result_bind (recover_operations now operation_expires_at (db_operations db)) (\<lambda>ops.
     result_bind (recover_uploads now upload_expires_at (db_uploads db)) (\<lambda>ups.
     result_bind (recover_purges now (db_purges db)) (\<lambda>pgs.
     Inr \<lparr>db_operations = ops, db_uploads = ups, db_purges = pgs\<rparr>)))))"

section \<open>Invariant of the database\<close>

definition database_inv :: "Database \<Rightarrow> bool" where
  "database_inv db \<longleftrightarrow>
     operations_inv (db_operations db) \<and> uploads_inv (db_uploads db) \<and> purges_inv (db_purges db)"

definition database_bounded :: "Limits \<Rightarrow> Database \<Rightarrow> bool" where
  "database_bounded l db \<longleftrightarrow>
     operations_bounded l (db_operations db) \<and> uploads_bounded l (db_uploads db)
     \<and> purges_bounded l (db_purges db)"

lemma empty_database_inv [simp]: "database_inv empty_database"
  by (simp add: database_inv_def empty_database_def)

lemma empty_database_bounded: "limits_ok l \<Longrightarrow> database_bounded l empty_database"
  by (auto simp: database_bounded_def empty_database_def operations_bounded_def
      uploads_bounded_def purges_bounded_def tbl_count_def limits_ok_def)

section \<open>Specification\<close>

fun spec_recover :: "i64 \<Rightarrow> op_view \<Rightarrow> op_view" where
  "spec_recover e (ReservedBy _ _) = Absent"
| "spec_recover e (CommittingBy fp _) = Done fp uncertain_outcome e"
| "spec_recover e (Done fp out e') = Done fp out (min e' e)"
| "spec_recover e v = v"

definition spec_recover_upload ::
  "i64 \<Rightarrow> StoredUploadSession \<times> i64 \<Rightarrow> StoredUploadSession \<times> i64" where
  "spec_recover_upload e se =
     (if us_state (fst se) = UploadCommitStarted
      then ((fst se)\<lparr>us_state := UploadUnknown\<rparr>, e)
      else (fst se, min (snd se) e))"

definition spec_recover_purge :: "i64 \<Rightarrow> StoredPurgeJob \<times> i64 \<Rightarrow> StoredPurgeJob \<times> i64" where
  "spec_recover_purge now jn =
     (case pj_state (fst jn) of
        PurgePrepared \<Rightarrow> jn
      | PurgeReady \<Rightarrow> (fst jn, min (snd jn) now)
      | PurgeClaimed \<Rightarrow> ((fst jn)\<lparr>pj_state := PurgeReady\<rparr>, now))"

section \<open>Operations\<close>

lemma operations_update:
  assumes inv: "operations_inv t"
    and ok: "\<And>k r. operation_row_ok k r \<Longrightarrow> P r \<Longrightarrow> operation_row_ok k (f r)"
  shows "sql_update e operation_check (\<lambda>_ r. P r) f t =
      Inr (tbl_count (\<lambda>_ r. P r) t, tbl_update (\<lambda>_ r. P r) f t)"
    and "operations_inv (tbl_update (\<lambda>_ r. P r) f t)"
proof -
  have all: "tbl_all operation_row_ok t" and wf: "tbl_wf t"
    using inv by (simp_all add: operations_inv_def)
  have "tbl_all (\<lambda>k r. P r \<longrightarrow> operation_check k (f r)) t"
    using all by (rule tbl_all_mono) (use ok in \<open>auto simp: operation_row_ok_def\<close>)
  then show "sql_update e operation_check (\<lambda>_ r. P r) f t =
      Inr (tbl_count (\<lambda>_ r. P r) t, tbl_update (\<lambda>_ r. P r) f t)"
    by (simp add: sql_update_def)
  have "tbl_all operation_row_ok (tbl_update (\<lambda>_ r. P r) f t)"
    using all by (rule tbl_all_update) (rule ok)
  with wf show "operations_inv (tbl_update (\<lambda>_ r. P r) f t)"
    by (simp add: operations_inv_def wf_intros)
qed

lemma operation_view_update:
  "operation_view (tbl_update (\<lambda>_ r. P r) f t) k =
     (case tbl_get t k of None \<Rightarrow> Absent | Some r \<Rightarrow> row_view (if P r then f r else r))"
  by (simp add: operation_view_def tbl_get_update split: option.split)

lemma into_outcome_expires [simp]: "into_outcome (r\<lparr>op_expires_at := x\<rparr>) = into_outcome r"
  by (simp add: into_outcome_def)

lemma clamp_row_view:
  "op_state r = OPERATION_COMPLETED \<Longrightarrow> into_outcome r = Inr out \<Longrightarrow>
     row_view (r\<lparr>op_expires_at := Some e\<rparr>) = Done (op_fingerprint r) out e"
  by (simp add: row_view_def operation_states)

lemma clamp_row_ok:
  assumes "operation_row_ok k r" and "op_state r = OPERATION_COMPLETED"
  shows "operation_row_ok k (r\<lparr>op_expires_at := Some e\<rparr>)"
proof -
  from assms(1) obtain out where "into_outcome r = Inr out"
    by (cases rule: row_view_cases) (use assms(2) in \<open>auto simp: operation_states\<close>)
  with assms show ?thesis
    by (auto simp: operation_row_ok_def operation_check_def clamp_row_view operation_states)
qed

lemma uncertain_row_ok:
  "operation_row_ok k r \<Longrightarrow> operation_row_ok k (completed_row uncertain_outcome now e r)"
  by (rule completed_row_ok) (simp_all add: operation_row_ok_def)

lemma recover_operations_refines:
  assumes inv: "operations_inv t"
  shows "\<exists>t'. recover_operations now e t = Inr t' \<and> operations_inv t'
    \<and> (\<forall>k. operation_view t' k = spec_recover e (spec_expire now (operation_view t k)))
    \<and> (\<exists>P Q f g. t' = tbl_update Q g (tbl_update P f
          (tbl_delete (\<lambda>_ r. op_state r = OPERATION_RESERVED) (purge_expired now t))))"
proof -
  let ?C = "\<lambda>r. op_state r = OPERATION_COMMIT_STARTED"
  let ?f = "completed_row uncertain_outcome now e"
  let ?L = "\<lambda>r. op_state r = OPERATION_COMPLETED
    \<and> (case op_expires_at r of None \<Rightarrow> False | Some e' \<Rightarrow> e' > e)"
  let ?g = "\<lambda>r. r\<lparr>op_expires_at := Some e\<rparr>"
  define t0 where "t0 = purge_expired now t"
  define t1 where "t1 = tbl_delete (\<lambda>_ r. op_state r = OPERATION_RESERVED) t0"
  define t2 where "t2 = tbl_update (\<lambda>_ r. ?C r) ?f t1"
  define t3 where "t3 = tbl_update (\<lambda>_ r. ?L r) ?g t2"
  have inv0: "operations_inv t0" unfolding t0_def using inv by (rule wf_intros)
  have inv1: "operations_inv t1"
    using inv0 by (simp add: t1_def operations_inv_def wf_intros)
  have u1: "sql_update ConstraintViolated operation_check (\<lambda>_ r. ?C r) ?f t1 =
      Inr (tbl_count (\<lambda>_ r. ?C r) t1, t2)" and inv2: "operations_inv t2"
    unfolding t2_def by (rule operations_update [OF inv1], simp add: uncertain_row_ok)+
  have u2: "sql_update ConstraintViolated operation_check (\<lambda>_ r. ?L r) ?g t2 =
      Inr (tbl_count (\<lambda>_ r. ?L r) t2, t3)" and inv3: "operations_inv t3"
    unfolding t3_def by (rule operations_update [OF inv2], simp add: clamp_row_ok)+
  have "recover_operations now e t = Inr t3"
    using u1 u2 by (simp add: recover_operations_def t0_def [symmetric] t1_def [symmetric] Let_def)
  moreover have "operation_view t3 k = spec_recover e (spec_expire now (operation_view t k))" for k
  proof -
    have v0: "spec_expire now (operation_view t k) = operation_view t0 k"
      unfolding t0_def using inv by (simp add: purge_expired_view)
    have wf0: "tbl_wf t0" using inv0 by (simp add: operations_inv_def)
    show ?thesis
    proof (cases "tbl_get t0 k")
      case None
      then show ?thesis
        unfolding v0 by (simp add: operation_view_def t1_def t2_def t3_def tbl_get_update
            tbl_get_delete [OF wf0])
    next
      case (Some r)
      with inv0 have "operation_row_ok k r" by (rule operations_inv_get)
      then show ?thesis
      proof (cases rule: row_view_cases)
        case reserved
        with Some show ?thesis
          unfolding v0 by (simp add: operation_view_def t1_def t2_def t3_def tbl_get_update
              tbl_get_delete [OF wf0])
      next
        case committing
        have "tbl_get t2 k = Some (?f r)"
          using Some committing(1) by (simp add: t1_def t2_def tbl_get_update
              tbl_get_delete [OF wf0] operation_states)
        moreover have "\<not> ?L (?f r)" by (simp add: completed_row_def)
        ultimately have "tbl_get t3 k = Some (?f r)" by (auto simp: t3_def tbl_get_update)
        with Some committing(2) show ?thesis
          unfolding v0 by (simp add: operation_view_def completed_row_view storable_valid)
      next
        case (done' outcome e')
        have "tbl_get t2 k = Some r"
          using Some done'(1) by (simp add: t1_def t2_def tbl_get_update
              tbl_get_delete [OF wf0] operation_states)
        then have "tbl_get t3 k = Some (if e' > e then ?g r else r)"
          using done' by (simp add: t3_def tbl_get_update)
        with Some done' show ?thesis
          unfolding v0 by (simp add: operation_view_def clamp_row_view min_def)
      qed
    qed
  qed
  ultimately show ?thesis using inv3 unfolding t3_def t2_def t1_def t0_def by blast
qed

section \<open>Uploads\<close>

lemma uploads_update:
  assumes inv: "uploads_inv t"
    and ok: "\<And>k r. upload_row_ok k r \<Longrightarrow> P r \<Longrightarrow> upload_row_ok k (f r)"
    and live: "\<And>r. upload_live (f r) \<Longrightarrow> P r \<Longrightarrow> upload_live r"
    and stage: "\<And>r. ur_stage_path (f r) = ur_stage_path r"
  shows "sql_update e upload_check (\<lambda>_ r. P r) f t =
      Inr (tbl_count (\<lambda>_ r. P r) t, tbl_update (\<lambda>_ r. P r) f t)"
    and "uploads_inv (tbl_update (\<lambda>_ r. P r) f t)"
proof -
  let ?t' = "tbl_update (\<lambda>_ r. P r) f t"
  have all: "tbl_all upload_row_ok t" and wf: "tbl_wf t" and u: "live_stages_unique t"
    using inv by (simp_all add: uploads_inv_def)
  have "tbl_all (\<lambda>k r. P r \<longrightarrow> upload_check k (f r)) t"
    using all by (rule tbl_all_mono) (use ok upload_row_ok_check in blast)
  then show "sql_update e upload_check (\<lambda>_ r. P r) f t =
      Inr (tbl_count (\<lambda>_ r. P r) t, ?t')"
    by (simp add: sql_update_def)
  have "tbl_all upload_row_ok ?t'"
    using all by (rule tbl_all_update) (rule ok)
  moreover have orig: "\<exists>r0. tbl_get t k = Some r0 \<and> upload_live r0 \<and> ur_stage_path r0 = ur_stage_path r"
    if "tbl_get ?t' k = Some r" "upload_live r" for k r
    using that live stage by (auto simp: tbl_get_update split: option.splits if_splits)
  have "live_stages_unique ?t'"
    unfolding live_stages_unique_def
  proof (intro allI impI)
    fix a ra b rb
    assume "tbl_get ?t' a = Some ra" "tbl_get ?t' b = Some rb" "upload_live ra" "upload_live rb"
      "ur_stage_path ra = ur_stage_path rb"
    with orig [of a ra] orig [of b rb] u show "a = b" unfolding live_stages_unique_def by metis
  qed
  ultimately show "uploads_inv ?t'" using wf by (simp add: uploads_inv_def wf_intros)
qed

definition unknown_session :: "StoredUploadSession \<Rightarrow> StoredUploadSession" where
  "unknown_session s = s\<lparr>us_state := UploadUnknown\<rparr>"

lemma unknown_session_ok: "session_ok s \<Longrightarrow> session_ok (unknown_session s)"
  by (auto simp: session_ok_def session_typed_def validate_session_ok unknown_session_def)

lemma unknown_session_row:
  "(session_row s u e)\<lparr>ur_state := upload_state_value UploadUnknown, ur_updated_at := now,
     ur_expires_at := e'\<rparr> = session_row (unknown_session s) now e'"
  by (simp add: session_row_def unknown_session_def)

lemma clamp_session_row:
  "(session_row s u e)\<lparr>ur_expires_at := e'\<rparr> = session_row s u e'"
  by (simp add: session_row_def)

lemma session_row_sel [simp]:
  "ur_state (session_row s u e) = upload_state_value (us_state s)"
  "ur_expires_at (session_row s u e) = e"
  by (simp_all add: session_row_def)

lemma upload_row_ok_cases:
  assumes "upload_row_ok k r"
  obtains s u e where "r = session_row s u e" "us_key s = k" "session_ok s"
  using assms by (rule upload_row_okE) (rule that)

lemma recover_uploads_refines:
  assumes inv: "uploads_inv t"
  shows "\<exists>t'. recover_uploads now e t = Inr t' \<and> uploads_inv t'
    \<and> (\<forall>k. upload_view t' k = map_option (spec_recover_upload e) (upload_view t k))
    \<and> (\<exists>P Q f g. t' = tbl_update Q g (tbl_update P f t))"
proof -
  let ?C = "\<lambda>r. ur_state r = upload_state_value UploadCommitStarted"
  let ?f = "\<lambda>r. r\<lparr>ur_state := upload_state_value UploadUnknown, ur_updated_at := now,
    ur_expires_at := e\<rparr>"
  let ?L = "\<lambda>r. ur_expires_at r > e"
  let ?g = "\<lambda>r. r\<lparr>ur_expires_at := e\<rparr>"
  define t1 where "t1 = tbl_update (\<lambda>_ r. ?C r) ?f t"
  define t2 where "t2 = tbl_update (\<lambda>_ r. ?L r) ?g t1"
  have fok: "upload_row_ok k (?f r)" if "upload_row_ok k r" for k r
    using that
  proof (rule upload_row_ok_cases)
    fix s u e' assume s: "r = session_row s u e'" "us_key s = k" "session_ok s"
    show ?thesis
      unfolding s(1) unknown_session_row
      using session_row_ok [OF unknown_session_ok [OF s(3)], of now e] s(2)
      by (simp add: unknown_session_def)
  qed
  have gok: "upload_row_ok k (?g r)" if "upload_row_ok k r" for k r
    using that
  proof (rule upload_row_ok_cases)
    fix s u e' assume s: "r = session_row s u e'" "us_key s = k" "session_ok s"
    show ?thesis
      unfolding s(1) clamp_session_row using session_row_ok [OF s(3), of u e] s(2) by simp
  qed
  have u1: "sql_update ConstraintViolated upload_check (\<lambda>_ r. ?C r) ?f t =
      Inr (tbl_count (\<lambda>_ r. ?C r) t, t1)" and inv1: "uploads_inv t1"
    unfolding t1_def
    by (rule uploads_update [OF inv]; simp add: fok [simplified] upload_live_def UPLOAD_LIVE_def)+
  have u2: "sql_update ConstraintViolated upload_check (\<lambda>_ r. ?L r) ?g t1 =
      Inr (tbl_count (\<lambda>_ r. ?L r) t1, t2)" and inv2: "uploads_inv t2"
    unfolding t2_def
    by (rule uploads_update [OF inv1]; simp add: gok upload_live_def)+
  have "recover_uploads now e t = Inr t2"
    using u1 u2 by (simp add: recover_uploads_def)
  moreover have "upload_view t2 k = map_option (spec_recover_upload e) (upload_view t k)" for k
  proof (cases "tbl_get t k")
    case None
    then show ?thesis by (simp add: t1_def t2_def tbl_get_update)
  next
    case (Some r)
    with inv obtain s where s: "upload_view t k = Some (s, ur_expires_at r)" "us_key s = k"
      "session_ok s" "r = session_row s (ur_updated_at r) (ur_expires_at r)"
      by (rule upload_view_get)
    define u where "u = ur_updated_at r"
    define x where "x = ur_expires_at r"
    have r: "r = session_row s u x" using s(4) by (simp add: u_def x_def)
    show ?thesis
    proof (cases "us_state s = UploadCommitStarted")
      case True
      have "tbl_get t1 k = Some (session_row (unknown_session s) now e)"
        using Some True unknown_session_row [where s = s and u = u and e = x and now = now and e' = e]
        by (simp add: t1_def tbl_get_update r)
      then have "tbl_get t2 k = Some (session_row (unknown_session s) now e)"
        by (simp add: t2_def tbl_get_update)
      then show ?thesis
        using True s(1,2) decode_session_row [OF unknown_session_ok [OF s(3)], of now e]
        by (simp add: upload_view_def [of t2] spec_recover_upload_def unknown_session_def)
    next
      case False
      then have "tbl_get t1 k = Some (session_row s u x)"
        using Some by (cases "us_state s") (simp_all add: t1_def tbl_get_update r)
      then have "tbl_get t2 k = Some (session_row s u (min x e))"
        by (simp add: t2_def tbl_get_update clamp_session_row min_def)
      then show ?thesis
        using False s(1,2) decode_session_row [OF s(3), of u "min x e"] r
        by (simp add: upload_view_def [of t2] spec_recover_upload_def)
    qed
  qed
  ultimately show ?thesis using inv2 unfolding t2_def t1_def by blast
qed

section \<open>Purge jobs\<close>

lemma purges_update:
  assumes inv: "purges_inv t"
    and ok: "\<And>k r. purge_row_ok k r \<Longrightarrow> P r \<Longrightarrow> purge_row_ok k (f r) \<and> purge_check k (f r)"
    and trash: "\<And>r. pr_trash_path (f r) = pr_trash_path r"
  shows "sql_update e purge_check (\<lambda>_ r. P r) f t =
      Inr (tbl_count (\<lambda>_ r. P r) t, tbl_update (\<lambda>_ r. P r) f t)"
    and "purges_inv (tbl_update (\<lambda>_ r. P r) f t)"
proof -
  let ?t' = "tbl_update (\<lambda>_ r. P r) f t"
  have all: "tbl_all purge_row_ok t" and wf: "tbl_wf t" and u: "trash_paths_unique t"
    using inv by (simp_all add: purges_inv_def)
  have "tbl_all (\<lambda>k r. P r \<longrightarrow> purge_check k (f r)) t"
    using all by (rule tbl_all_mono) (use ok in blast)
  then show "sql_update e purge_check (\<lambda>_ r. P r) f t =
      Inr (tbl_count (\<lambda>_ r. P r) t, ?t')"
    by (simp add: sql_update_def)
  have "tbl_all purge_row_ok ?t'"
    using all by (rule tbl_all_update) (use ok in blast)
  moreover have orig: "\<exists>r0. tbl_get t k = Some r0 \<and> pr_trash_path r0 = pr_trash_path r"
    if "tbl_get ?t' k = Some r" for k r
    using that trash by (auto simp: tbl_get_update split: option.splits if_splits)
  have "trash_paths_unique ?t'"
    unfolding trash_paths_unique_def
  proof (intro allI impI)
    fix a ra b rb
    assume "tbl_get ?t' a = Some ra" "tbl_get ?t' b = Some rb" "pr_trash_path ra = pr_trash_path rb"
    with orig [of a ra] orig [of b rb] u show "a = b" unfolding trash_paths_unique_def by metis
  qed
  ultimately show "purges_inv ?t'" using wf by (simp add: purges_inv_def wf_intros)
qed

definition released_job :: "StoredPurgeJob \<Rightarrow> StoredPurgeJob" where
  "released_job j = j\<lparr>pj_state := PurgeReady\<rparr>"

lemma released_job_row:
  "(job_row j n c u)\<lparr>pr_state := purge_state_value PurgeReady, pr_next_attempt := n',
     pr_updated_at := u'\<rparr> = job_row (released_job j) n' c u'"
  by (simp add: job_row_def released_job_def)

lemma clamp_job_row:
  "(job_row j n c u)\<lparr>pr_next_attempt := n', pr_updated_at := u'\<rparr> = job_row j n' c u'"
  by (simp add: job_row_def)

lemma released_job_ok:
  "job_ok j \<Longrightarrow> pj_state j = PurgeClaimed \<Longrightarrow> job_ok (released_job j)"
  by (auto simp: job_ok_def released_job_def)

lemma purge_state_claimed [simp]: "purge_state_value s = 2 \<longleftrightarrow> s = PurgeClaimed"
  by (cases s) auto

lemma purge_state_ready [simp]: "purge_state_value s = 1 \<longleftrightarrow> s = PurgeReady"
  by (cases s) auto

lemma recover_purges_refines:
  assumes inv: "purges_inv t"
  shows "\<exists>t'. recover_purges now t = Inr t' \<and> purges_inv t'
    \<and> (\<forall>k. purge_view t' k = map_option (spec_recover_purge now) (purge_view t k))
    \<and> (\<exists>P Q f g. t' = tbl_update Q g (tbl_update P f t))"
proof -
  let ?C = "\<lambda>r. pr_state r = purge_state_value PurgeClaimed"
  let ?f = "\<lambda>r. r\<lparr>pr_state := purge_state_value PurgeReady, pr_next_attempt := now,
    pr_updated_at := now\<rparr>"
  let ?L = "\<lambda>r. pr_state r = purge_state_value PurgeReady \<and> pr_next_attempt r > now"
  let ?g = "\<lambda>r. r\<lparr>pr_next_attempt := now, pr_updated_at := now\<rparr>"
  define t1 where "t1 = tbl_update (\<lambda>_ r. ?C r) ?f t"
  define t2 where "t2 = tbl_update (\<lambda>_ r. ?L r) ?g t1"
  have fok: "purge_row_ok k (?f r) \<and> purge_check k (?f r)" if ok: "purge_row_ok k r" and P: "?C r" for k r
  proof -
    from ok obtain j n c u where j: "pj_key j = k" "job_ok j" "r = job_row j n c u"
      by (rule purge_row_okE)
    with P have "job_ok (released_job j)" by (intro released_job_ok) simp_all
    from job_row_ok [OF this, of now c now] job_row_check [OF this, of now c now] show ?thesis
      unfolding j(3) released_job_row using j(1) by (simp add: released_job_def)
  qed
  have gok: "purge_row_ok k (?g r) \<and> purge_check k (?g r)" if "purge_row_ok k r" for k r
  proof -
    from that obtain j n c u where j: "pj_key j = k" "job_ok j" "r = job_row j n c u"
      by (rule purge_row_okE)
    from job_row_ok [OF j(2), of now c now] job_row_check [OF j(2), of now c now] show ?thesis
      unfolding j(3) clamp_job_row using j(1) by simp
  qed
  have u1: "sql_update ConstraintViolated purge_check (\<lambda>_ r. ?C r) ?f t =
      Inr (tbl_count (\<lambda>_ r. ?C r) t, t1)" and inv1: "purges_inv t1"
    unfolding t1_def by (rule purges_update [OF inv fok]; simp)+
  have u2: "sql_update ConstraintViolated purge_check (\<lambda>_ r. ?L r) ?g t1 =
      Inr (tbl_count (\<lambda>_ r. ?L r) t1, t2)" and inv2: "purges_inv t2"
    unfolding t2_def by (rule purges_update [OF inv1 gok]; simp)+
  have "recover_purges now t = Inr t2"
    using u1 u2 by (simp add: recover_purges_def)
  moreover have "purge_view t2 k = map_option (spec_recover_purge now) (purge_view t k)" for k
  proof (cases "tbl_get t k")
    case None
    then show ?thesis by (simp add: t1_def t2_def tbl_get_update)
  next
    case (Some r)
    with inv obtain j n c u where j: "r = job_row j n c u" "pj_key j = k" "job_ok j"
      "purge_view t k = Some (j, n)" by (rule purge_view_get)
    show ?thesis
    proof (cases "pj_state j")
      case PurgePrepared
      then have "tbl_get t2 k = Some (job_row j n c u)"
        using Some by (simp add: t1_def t2_def tbl_get_update j(1))
      with PurgePrepared j decode_job_row [OF j(3), of n c u] show ?thesis
        by (simp add: purge_view_def [of t2] spec_recover_purge_def)
    next
      case PurgeReady
      then have "tbl_get t2 k = Some (job_row j (min n now) c (if n > now then now else u))"
        using Some by (simp add: t1_def t2_def tbl_get_update j(1) clamp_job_row min_def)
      with PurgeReady j decode_job_row [OF j(3), of "min n now" c] show ?thesis
        by (simp add: purge_view_def [of t2] spec_recover_purge_def)
    next
      case PurgeClaimed
      then have "tbl_get t1 k = Some (job_row (released_job j) now c now)"
        using Some released_job_row [where j = j and n = n and c = c and u = u and n' = now and u' = now]
        by (simp add: t1_def tbl_get_update j(1))
      then have "tbl_get t2 k = Some (job_row (released_job j) now c now)"
        by (simp add: t2_def tbl_get_update)
      with PurgeClaimed j decode_job_row [OF released_job_ok [OF j(3) PurgeClaimed], of now c now]
      show ?thesis
        by (simp add: purge_view_def [of t2] spec_recover_purge_def released_job_def)
    qed
  qed
  ultimately show ?thesis using inv2 unfolding t2_def t1_def by blast
qed

section \<open>The whole database\<close>

lemma recover_refines:
  assumes inv: "database_inv db"
    and time: "is_i64 (now + op_ttl)" "is_i64 (now + up_ttl)"
  shows "\<exists>db'. recover_database op_ttl up_ttl now db = Inr db' \<and> database_inv db'
    \<and> (\<forall>k. operation_view (db_operations db') k =
          spec_recover (now + op_ttl) (spec_expire now (operation_view (db_operations db) k)))
    \<and> (\<forall>k. upload_view (db_uploads db') k =
          map_option (spec_recover_upload (now + up_ttl)) (upload_view (db_uploads db) k))
    \<and> (\<forall>k. purge_view (db_purges db') k =
          map_option (spec_recover_purge now) (purge_view (db_purges db) k))
    \<and> (database_bounded l db \<longrightarrow> database_bounded l db')"
proof -
  have i: "operations_inv (db_operations db)" "uploads_inv (db_uploads db)" "purges_inv (db_purges db)"
    using inv by (simp_all add: database_inv_def)
  from recover_operations_refines [OF i(1), of now "now + op_ttl"] obtain o' P1 Q1 f1 g1 where
    o': "recover_operations now (now + op_ttl) (db_operations db) = Inr o'" "operations_inv o'"
      "\<forall>k. operation_view o' k =
        spec_recover (now + op_ttl) (spec_expire now (operation_view (db_operations db) k))"
      "o' = tbl_update Q1 g1 (tbl_update P1 f1
        (tbl_delete (\<lambda>_ r. op_state r = OPERATION_RESERVED) (purge_expired now (db_operations db))))"
    by blast
  from recover_uploads_refines [OF i(2), of now "now + up_ttl"] obtain u' P2 Q2 f2 g2 where
    u': "recover_uploads now (now + up_ttl) (db_uploads db) = Inr u'" "uploads_inv u'"
      "\<forall>k. upload_view u' k = map_option (spec_recover_upload (now + up_ttl)) (upload_view (db_uploads db) k)"
      "u' = tbl_update Q2 g2 (tbl_update P2 f2 (db_uploads db))"
    by blast
  from recover_purges_refines [OF i(3), of now] obtain p' P3 Q3 f3 g3 where
    p': "recover_purges now (db_purges db) = Inr p'" "purges_inv p'"
      "\<forall>k. purge_view p' k = map_option (spec_recover_purge now) (purge_view (db_purges db) k)"
      "p' = tbl_update Q3 g3 (tbl_update P3 f3 (db_purges db))"
    by blast
  let ?db' = "\<lparr>db_operations = o', db_uploads = u', db_purges = p'\<rparr>"
  have "database_bounded l ?db'" if "database_bounded l db"
    using that
    by (simp add: database_bounded_def o'(4) u'(4) p'(4) bounded_update bounded_delete
        purge_expired_def uploads_bounded_update purges_bounded_update)
  moreover have "recover_database op_ttl up_ttl now db = Inr ?db'"
    using time o'(1) u'(1) p'(1) by (simp add: recover_database_def)
  moreover have "database_inv ?db'" using o'(2) u'(2) p'(2) by (simp add: database_inv_def)
  ultimately show ?thesis using o'(3) u'(3) p'(3) by (intro exI [of _ ?db']) simp
qed

section \<open>Properties\<close>

abbreviation sample_committing :: upload_sessions where
  "sample_committing \<equiv> [(sample_key, session_row sample_checkpoint 100 5100)]"

lemma sample_committing_inv: "uploads_inv sample_committing"
  using session_row_ok [OF sample_checkpoint_ok, of 100 5100]
  by (simp add: uploads_inv_def tbl_wf_Cons tbl_all_def live_stages_unique_def tbl_get_def)

lemma sample_committing_view: "upload_view sample_committing sample_key = Some (sample_checkpoint, 5100)"
  using decode_session_row [OF sample_checkpoint_ok, of 100 5100]
  by (simp add: upload_view_def tbl_get_def session_row_def)

abbreviation sample_database :: Database where
  "sample_database \<equiv>
     \<lparr>db_operations = sample_reserved, db_uploads = sample_committing,
      db_purges = [(sample_key, job_row sample_claimed 800 10 20)]\<rparr>"

lemma sample_database_inv: "database_inv sample_database"
  using sample_reserved_inv sample_committing_inv sample_purges_inv [OF sample_claimed_ok, of 800 10 20]
  by (simp add: database_inv_def)

text \<open>C4: Recovery at startup settles everything a crash can leave in flight and loses nothing else.
  An operation that was only reserved is forgotten, one whose commit had started becomes an unknown
  outcome for one TTL, and a finished one that has not expired is kept.  An upload whose commit had
  started becomes \<open>Unknown\<close> for one TTL; every other session is kept as it is.  A claimed purge job
  becomes ready and due at once, a ready job is due now at the latest, a prepared job is kept as it
  is.  No result and no session outlives one TTL from now, and the database stays valid.\<close>

theorem recovery_settles_in_flight_work:
  assumes inv: "database_inv db"
    and time: "is_i64 (now + op_ttl)" "is_i64 (now + up_ttl)"
  shows "\<exists>db'. recover_database op_ttl up_ttl now db = Inr db' \<and> database_inv db'
    \<and> (\<forall>k. operation_view (db_operations db') k =
        (case operation_view (db_operations db) k of
           CommittingBy fp lease \<Rightarrow> Done fp uncertain_outcome (now + op_ttl)
         | Done fp out e \<Rightarrow> if e \<le> now then Absent else Done fp out (min e (now + op_ttl))
         | _ \<Rightarrow> Absent))
    \<and> (\<forall>k. upload_view (db_uploads db') k =
        (case upload_view (db_uploads db) k of
           None \<Rightarrow> None
         | Some (s, e) \<Rightarrow> Some (if us_state s = UploadCommitStarted
             then (s\<lparr>us_state := UploadUnknown\<rparr>, now + up_ttl) else (s, min e (now + up_ttl)))))
    \<and> (\<forall>k. purge_view (db_purges db') k =
        (case purge_view (db_purges db) k of
           None \<Rightarrow> None
         | Some (j, n) \<Rightarrow> Some (case pj_state j of
             PurgePrepared \<Rightarrow> (j, n)
           | PurgeReady \<Rightarrow> (j, min n now)
           | PurgeClaimed \<Rightarrow> (j\<lparr>pj_state := PurgeReady\<rparr>, now))))"
proof -
  from recover_refines [OF inv time] obtain db' where
    r: "recover_database op_ttl up_ttl now db = Inr db'" "database_inv db'"
    and o': "\<forall>k. operation_view (db_operations db') k =
          spec_recover (now + op_ttl) (spec_expire now (operation_view (db_operations db) k))"
    and u': "\<forall>k. upload_view (db_uploads db') k =
          map_option (spec_recover_upload (now + up_ttl)) (upload_view (db_uploads db) k)"
    and p': "\<forall>k. purge_view (db_purges db') k =
          map_option (spec_recover_purge now) (purge_view (db_purges db) k)" by blast
  have corrupt: "operation_view (db_operations db) k \<noteq> Corrupt" for k
    using inv operations_inv_get [of "db_operations db" k]
    by (auto simp: database_inv_def operation_view_def operation_row_ok_def split: option.splits)
  have "operation_view (db_operations db') k =
      (case operation_view (db_operations db) k of
         CommittingBy fp lease \<Rightarrow> Done fp uncertain_outcome (now + op_ttl)
       | Done fp out e \<Rightarrow> if e \<le> now then Absent else Done fp out (min e (now + op_ttl))
       | _ \<Rightarrow> Absent)" for k
    using o' corrupt [of k] by (cases "operation_view (db_operations db) k") auto
  moreover have "upload_view (db_uploads db') k =
      (case upload_view (db_uploads db) k of
         None \<Rightarrow> None
       | Some (s, e) \<Rightarrow> Some (if us_state s = UploadCommitStarted
           then (s\<lparr>us_state := UploadUnknown\<rparr>, now + up_ttl) else (s, min e (now + up_ttl))))" for k
    using u' by (simp add: spec_recover_upload_def split: option.splits)
  moreover have "purge_view (db_purges db') k =
      (case purge_view (db_purges db) k of
         None \<Rightarrow> None
       | Some (j, n) \<Rightarrow> Some (case pj_state j of
           PurgePrepared \<Rightarrow> (j, n)
         | PurgeReady \<Rightarrow> (j, min n now)
         | PurgeClaimed \<Rightarrow> (j\<lparr>pj_state := PurgeReady\<rparr>, now)))" for k
    using p' by (simp add: spec_recover_purge_def split: option.splits StoredPurgeState.splits)
  ultimately show ?thesis using r by blast
qed

theorem recovery_settles_in_flight_work_witness:
  "\<exists>db'. recover_database 1000 5000 400 sample_database = Inr db'
    \<and> operation_view (db_operations db') sample_key = Absent
    \<and> upload_view (db_uploads db') sample_key = Some (sample_checkpoint\<lparr>us_state := UploadUnknown\<rparr>, 5400)
    \<and> purge_view (db_purges db') sample_key = Some (sample_ready, 400)"
proof -
  have "is_i64 (400 + 1000)" "is_i64 (400 + 5000)" by (simp_all add: is_i64_def i64_min_def i64_max_def)
  from recovery_settles_in_flight_work [OF sample_database_inv this, unfolded Database.select_convs]
  show ?thesis
  proof (elim exE conjE, intro exI conjI)
    fix db' assume "recover_database 1000 5000 400 sample_database = Inr db'"
    then show "recover_database 1000 5000 400 sample_database = Inr db'" .
  next
    fix db' assume "\<forall>k. operation_view (db_operations db') k =
      (case operation_view sample_reserved k of
         CommittingBy fp lease \<Rightarrow> Done fp uncertain_outcome (400 + 1000)
       | Done fp out e \<Rightarrow> if e \<le> 400 then Absent else Done fp out (min e (400 + 1000))
       | _ \<Rightarrow> Absent)"
    from this [rule_format, of sample_key] show "operation_view (db_operations db') sample_key = Absent"
      by (simp only: sample_reserved_view op_view.case)
  next
    fix db' assume "\<forall>k. upload_view (db_uploads db') k =
      (case upload_view sample_committing k of
         None \<Rightarrow> None
       | Some (s, e) \<Rightarrow> Some (if us_state s = UploadCommitStarted
           then (s\<lparr>us_state := UploadUnknown\<rparr>, 400 + 5000) else (s, min e (400 + 5000))))"
    from this [rule_format, of sample_key, unfolded sample_committing_view]
    show "upload_view (db_uploads db') sample_key = Some (sample_checkpoint\<lparr>us_state := UploadUnknown\<rparr>, 5400)"
      by simp
  next
    fix db' assume "\<forall>k. purge_view (db_purges db') k =
      (case purge_view [(sample_key, job_row sample_claimed 800 10 20)] k of
         None \<Rightarrow> None
       | Some (j, n) \<Rightarrow> Some (case pj_state j of
           PurgePrepared \<Rightarrow> (j, n)
         | PurgeReady \<Rightarrow> (j, min n 400)
         | PurgeClaimed \<Rightarrow> (j\<lparr>pj_state := PurgeReady\<rparr>, 400)))"
    moreover have "purge_view [(sample_key, job_row sample_claimed 800 10 20)] sample_key = Some (sample_claimed, 800)"
      by (rule sample_purge_view [OF sample_claimed_ok]) simp
    ultimately show "purge_view (db_purges db') sample_key = Some (sample_ready, 400)" by simp
  qed
qed

end
