(* ===== verification/Store_Actor.thy ===== *)
theory Store_Actor
  imports Store_Recovery
begin

text \<open>
  The state-store actor (\<open>src/src/server/state_store/actor.rs\<close>) and its facade
  (\<open>src/src/server/state_store.rs\<close>): the methods of \<open>StateStore\<close> that validate a request and
  put a command on the bounded queue, the worker that executes one command at a time against the
  database, the control channel through which reservations are abandoned, and the deferred
  abandons that are retried at command boundaries.

  What the environment decides at a command is an argument: the readings of both clocks, whether
  SQLite (or the three-second deadline) fails before the clock is read or in the transaction, the
  fresh UUID, and what becomes of the reply.  A failed transaction leaves the database as it was
  (SQLite's atomic commit).
\<close>

section \<open>Commands and requests\<close>

datatype Command =
    Wake
  | ProbeReadiness
  | Begin OperationKey bytes
  | Status OperationKey
  | MarkCommitStarted OperationKey bytes
  | Complete OperationKey bytes StoredOutcome
  | SaveUploadSession StoredUploadSession i64
  | LoadUploadSession UploadSessionKey
  | ListUploadSessionsPageBlocking "UploadSessionKey option" i64
  | ListUploadSessionsPage "UploadSessionKey option" i64
  | RejectUpload UploadSessionKey bytes bytes i64
  | ListExpiredUploadSessions "UploadSessionKey option" i64
  | MatchExpiredUploadSession ExpiredUploadSession
  | RemoveUploadSessionIfMatches StoredUploadSession
  | RemoveExpiredUploadSessionIfMatches ExpiredUploadSession
  | PreparePurgeJob StoredPurgeJob
  | LoadPurgeJob PurgeJobKey
  | ListPreparedPurgeJobs i64
  | ListPurgeJobs i64
  | IsStatePathBoundBlocking bytes
  | ListStateBlockingPaths "StatePathCursor option" i64
  | MarkPurgeJobReady PurgeJobKey bytes
  | ClaimDuePurgeJob
  | RetryPurgeJob PurgeJobKey i64
  | CompletePurgeJob PurgeJobKey
  | RemovePurgeJob PurgeJobKey

datatype ControlCommand = Abandon OperationKey bytes | Shutdown

text \<open>The methods of \<open>StateStore\<close>, with their argument types (\<open>usize\<close> limits and
  \<open>Duration\<close>s), grouped by the table they work on, and the command each one queues.\<close>

datatype OperationRequest =
    RqProbeReadiness
  | RqBegin OperationKey bytes
  | RqStatus OperationKey
  | RqMarkCommitStarted OperationKey bytes
  | RqComplete OperationKey bytes StoredOutcome

datatype UploadRequest =
    RqSaveUploadSession StoredUploadSession duration
  | RqUploadSession UploadSessionKey
  | RqUploadSessionsPageBlocking "UploadSessionKey option" u64
  | RqUploadSessionsPage "UploadSessionKey option" u64
  | RqRejectUploadSession UploadSessionKey bytes bytes duration
  | RqExpiredUploadSessionsPage "UploadSessionKey option" u64
  | RqExpiredUploadSessionMatches ExpiredUploadSession
  | RqRemoveUploadSessionIfMatches StoredUploadSession
  | RqRemoveExpiredUploadSessionIfMatches ExpiredUploadSession

datatype PurgeRequest =
    RqPreparePurgeJob StoredPurgeJob
  | RqPurgeJob PurgeJobKey
  | RqPreparedPurgeJobs u64
  | RqPurgeJobs u64
  | RqStatePathIsBoundBlocking bytes
  | RqStateBlockingPaths "StatePathCursor option" u64
  | RqMarkPurgeJobReady PurgeJobKey bytes
  | RqClaimDuePurgeJob
  | RqRetryPurgeJob PurgeJobKey duration
  | RqCompletePurgeJob PurgeJobKey
  | RqRemovePurgeJob PurgeJobKey

datatype Request =
    OnOperations OperationRequest
  | OnUploads UploadRequest
  | OnPurges PurgeRequest

fun operation_request :: "OperationRequest \<Rightarrow> Command store_result" where
  "operation_request RqProbeReadiness = Inr ProbeReadiness"
| "operation_request (RqBegin k fp) = Inr (Begin k fp)"
| "operation_request (RqStatus k) = Inr (Status k)"
| "operation_request (RqMarkCommitStarted k lease) = Inr (MarkCommitStarted k lease)"
| "operation_request (RqComplete k lease outcome) =
     result_bind (validate_outcome outcome) (\<lambda>_. Inr (Complete k lease outcome))"

definition page_limit :: "u64 \<Rightarrow> i64 store_result" where
  "page_limit limit =
     result_bind (ensure (1 \<le> limit \<and> limit \<le> 64) LimitNotPositive) (\<lambda>_.
     ok_or (i64_of_u64 limit) LimitTooLarge)"

fun upload_request :: "UploadRequest \<Rightarrow> Command store_result" where
  "upload_request (RqSaveUploadSession s ttl) =
     result_bind (validate_session s) (\<lambda>_.
     result_bind (duration_ms ttl) (\<lambda>ttl_ms. Inr (SaveUploadSession s ttl_ms)))"
| "upload_request (RqUploadSession k) = Inr (LoadUploadSession k)"
| "upload_request (RqUploadSessionsPageBlocking after limit) =
     result_map (ListUploadSessionsPageBlocking after) (page_limit limit)"
| "upload_request (RqUploadSessionsPage after limit) =
     result_map (ListUploadSessionsPage after) (page_limit limit)"
| "upload_request (RqRejectUploadSession k target stage ttl) =
     result_bind (validate_stored_path target) (\<lambda>_.
     result_bind (validate_stored_path stage) (\<lambda>_.
     result_bind (duration_ms ttl) (\<lambda>ttl_ms. Inr (RejectUpload k target stage ttl_ms))))"
| "upload_request (RqExpiredUploadSessionsPage after limit) =
     result_map (ListExpiredUploadSessions after) (query_limit limit)"
| "upload_request (RqExpiredUploadSessionMatches x) =
     result_bind (validate_session (eu_session x)) (\<lambda>_. Inr (MatchExpiredUploadSession x))"
| "upload_request (RqRemoveUploadSessionIfMatches s) =
     result_bind (validate_session s) (\<lambda>_. Inr (RemoveUploadSessionIfMatches s))"
| "upload_request (RqRemoveExpiredUploadSessionIfMatches x) =
     result_bind (validate_session (eu_session x)) (\<lambda>_. Inr (RemoveExpiredUploadSessionIfMatches x))"

fun purge_request :: "PurgeRequest \<Rightarrow> Command store_result" where
  "purge_request (RqPreparePurgeJob j) =
     result_bind (validate_new j) (\<lambda>_. Inr (PreparePurgeJob j))"
| "purge_request (RqPurgeJob k) = Inr (LoadPurgeJob k)"
| "purge_request (RqPreparedPurgeJobs limit) =
     result_map ListPreparedPurgeJobs (query_limit limit)"
| "purge_request (RqPurgeJobs limit) = result_map ListPurgeJobs (query_limit limit)"
| "purge_request (RqStatePathIsBoundBlocking p) =
     result_bind (validate_stored_path p) (\<lambda>_. Inr (IsStatePathBoundBlocking p))"
| "purge_request (RqStateBlockingPaths after limit) =
     result_map (ListStateBlockingPaths after) (query_limit limit)"
| "purge_request (RqMarkPurgeJobReady k rv) = Inr (MarkPurgeJobReady k rv)"
| "purge_request RqClaimDuePurgeJob = Inr ClaimDuePurgeJob"
| "purge_request (RqRetryPurgeJob k delay) =
     result_map (RetryPurgeJob k) (duration_ms delay)"
| "purge_request (RqCompletePurgeJob k) = Inr (CompletePurgeJob k)"
| "purge_request (RqRemovePurgeJob k) = Inr (RemovePurgeJob k)"

fun request_command :: "Request \<Rightarrow> Command store_result" where
  "request_command (OnOperations rq) = operation_request rq"
| "request_command (OnUploads rq) = upload_request rq"
| "request_command (OnPurges rq) = purge_request rq"

section \<open>The worker\<close>

datatype Reply =
    ReplyUnit
  | ReplyBegin StoreBegin
  | ReplyStatus StoreStatus
  | ReplyBool bool
  | ReplySave StoreUploadSession
  | ReplySession "StoredUploadSession option"
  | ReplySessions "StoredUploadSession list"
  | ReplyReject RejectUploadSession
  | ReplyExpired "ExpiredUploadSession list"
  | ReplyPurge StorePurgeJob
  | ReplyJob "StoredPurgeJob option"
  | ReplyJobs "StoredPurgeJob list"
  | ReplyPage StatePathPage

datatype sqlite_fault = NoFault | FaultBeforeClock | FaultInTransaction

text \<open>\<open>env_sent\<close>: whether the reply could be put into the reply channel (the requester still
  had its end open).\<close>

record StepEnv =
  env_wall :: "i64 option"
  env_instant :: nat
  env_fault :: sqlite_fault
  env_lease :: bytes
  env_closed :: bool
  env_sent :: bool
  env_probe :: "unit store_result"

record StoreWorker =
  w_db :: Database
  w_clock :: StoreClock
  w_limits :: Limits
  w_deferred :: "(OperationKey \<times> bytes) list"

text \<open>A worker method with and without a clock reading.\<close>

definition run_at ::
  "StepEnv \<Rightarrow> (i64 \<Rightarrow> Database \<Rightarrow> ('a \<times> Database) store_result) \<Rightarrow> StoreWorker \<Rightarrow>
   'a store_result \<times> StoreWorker" where
  "run_at env f w =
     (if env_fault env = FaultBeforeClock then (Inl SqliteFailure, w)
      else (case observe (env_wall env) (env_instant env) (w_clock w) of
        (Inl e, c) \<Rightarrow> (Inl e, w\<lparr>w_clock := c\<rparr>)
      | (Inr now, c) \<Rightarrow>
          if env_fault env = FaultInTransaction then (Inl SqliteFailure, w\<lparr>w_clock := c\<rparr>)
          else (case f now (w_db w) of
            Inl e \<Rightarrow> (Inl e, w\<lparr>w_clock := c\<rparr>)
          | Inr (x, db) \<Rightarrow> (Inr x, w\<lparr>w_clock := c, w_db := db\<rparr>))))"

definition run_plain ::
  "StepEnv \<Rightarrow> (Database \<Rightarrow> ('a \<times> Database) store_result) \<Rightarrow> StoreWorker \<Rightarrow>
   'a store_result \<times> StoreWorker" where
  "run_plain env f w =
     (if env_fault env \<noteq> NoFault then (Inl SqliteFailure, w)
      else (case f (w_db w) of
        Inl e \<Rightarrow> (Inl e, w)
      | Inr (x, db) \<Rightarrow> (Inr x, w\<lparr>w_db := db\<rparr>)))"

definition on_operations ::
  "(operations \<Rightarrow> ('a \<times> operations) store_result) \<Rightarrow> Database \<Rightarrow> ('a \<times> Database) store_result" where
  "on_operations f db = result_map (\<lambda>(x, t). (x, db\<lparr>db_operations := t\<rparr>)) (f (db_operations db))"

definition on_uploads ::
  "(upload_sessions \<Rightarrow> ('a \<times> upload_sessions) store_result) \<Rightarrow> Database \<Rightarrow> ('a \<times> Database) store_result" where
  "on_uploads f db = result_map (\<lambda>(x, t). (x, db\<lparr>db_uploads := t\<rparr>)) (f (db_uploads db))"

definition on_purges ::
  "(purge_jobs_table \<Rightarrow> ('a \<times> purge_jobs_table) store_result) \<Rightarrow> Database \<Rightarrow> ('a \<times> Database) store_result" where
  "on_purges f db = result_map (\<lambda>(x, t). (x, db\<lparr>db_purges := t\<rparr>)) (f (db_purges db))"

definition reading :: "(Database \<Rightarrow> 'a store_result) \<Rightarrow> Database \<Rightarrow> ('a \<times> Database) store_result" where
  "reading f db = result_map (\<lambda>x. (x, db)) (f db)"

definition replying :: "('a \<Rightarrow> Reply) \<Rightarrow> ('a \<times> Database) store_result \<Rightarrow> (Reply \<times> Database) store_result" where
  "replying C = result_map (\<lambda>(x, db). (C x, db))"

text \<open>The transaction of each command.  \<open>now\<close> is unused by the commands that read no clock.\<close>

fun perform ::
  "Limits \<Rightarrow> StepEnv \<Rightarrow> Command \<Rightarrow> i64 \<Rightarrow> Database \<Rightarrow> (Reply \<times> Database) store_result" where
  "perform l env Wake now db = Inr (ReplyUnit, db)"
| "perform l env ProbeReadiness now db = result_map (\<lambda>_. (ReplyUnit, db)) (env_probe env)"
| "perform l env (Begin k fp) now db =
     replying ReplyBegin (on_operations (begin_operation l now (env_lease env) k fp) db)"
| "perform l env (Status k) now db = replying ReplyStatus (on_operations (operation_status now k) db)"
| "perform l env (MarkCommitStarted k lease) now db =
     replying ReplyBool (on_operations (mark_operation_commit_started now k lease) db)"
| "perform l env (Complete k lease outcome) now db =
     replying ReplyBool (on_operations (complete_operation l now k lease outcome) db)"
| "perform l env (SaveUploadSession s ttl) now db =
     replying ReplySave (on_uploads (save_upload_session l now s ttl) db)"
| "perform l env (LoadUploadSession k) now db =
     replying ReplySession (reading (\<lambda>d. load_upload_session k (db_uploads d)) db)"
| "perform l env (ListUploadSessionsPageBlocking after limit) now db =
     replying ReplySessions (reading (\<lambda>d. upload_sessions_page l after limit (db_uploads d)) db)"
| "perform l env (ListUploadSessionsPage after limit) now db =
     replying ReplySessions (reading (\<lambda>d. upload_sessions_page l after limit (db_uploads d)) db)"
| "perform l env (RejectUpload k target stage ttl) now db =
     replying ReplyReject (on_uploads (reject_upload_session (Inr now) k target stage ttl) db)"
| "perform l env (ListExpiredUploadSessions after limit) now db =
     replying ReplyExpired (reading (\<lambda>d. expired_upload_sessions now after limit (db_uploads d)) db)"
| "perform l env (MatchExpiredUploadSession x) now db =
     replying ReplyBool (reading (\<lambda>d. expired_upload_session_matches now x (db_uploads d)) db)"
| "perform l env (RemoveUploadSessionIfMatches s) now db =
     replying ReplyBool (on_uploads (remove_upload_session_if_matches s) db)"
| "perform l env (RemoveExpiredUploadSessionIfMatches x) now db =
     replying ReplyBool (on_uploads (remove_expired_upload_session_if_matches now x) db)"
| "perform l env (PreparePurgeJob j) now db =
     replying ReplyPurge (on_purges (prepare_purge_job l now j) db)"
| "perform l env (LoadPurgeJob k) now db =
     replying ReplyJob (reading (\<lambda>d. load_purge_job k (db_purges d)) db)"
| "perform l env (ListPreparedPurgeJobs limit) now db =
     replying ReplyJobs (reading (\<lambda>d. prepared_purge_jobs limit (db_purges d)) db)"
| "perform l env (ListPurgeJobs limit) now db =
     replying ReplyJobs (reading (\<lambda>d. purge_jobs limit (db_purges d)) db)"
| "perform l env (IsStatePathBoundBlocking p) now db =
     replying ReplyBool (reading (\<lambda>d. Inr (state_path_is_bound p (db_uploads d) (db_purges d))) db)"
| "perform l env (ListStateBlockingPaths after limit) now db =
     replying ReplyPage (reading (\<lambda>d. state_blocking_paths after limit (db_uploads d, db_purges d)) db)"
| "perform l env (MarkPurgeJobReady k rv) now db =
     replying ReplyBool (on_purges (mark_purge_job_ready now k rv) db)"
| "perform l env ClaimDuePurgeJob now db = replying ReplyJob (on_purges (claim_due_purge_job now) db)"
| "perform l env (RetryPurgeJob k delay) now db =
     replying ReplyBool (on_purges (retry_purge_job now k delay) db)"
| "perform l env (CompletePurgeJob k) now db = replying ReplyBool (on_purges (complete_purge_job k) db)"
| "perform l env (RemovePurgeJob k) now db = replying ReplyBool (on_purges (remove_purge_job k) db)"

fun reads_clock :: "Command \<Rightarrow> Database \<Rightarrow> bool" where
  "reads_clock (Begin _ _) db = True"
| "reads_clock (Status _) db = True"
| "reads_clock (MarkCommitStarted _ _) db = True"
| "reads_clock (Complete _ _ _) db = True"
| "reads_clock (SaveUploadSession _ _) db = True"
| "reads_clock (RejectUpload k target stage _) db =
     (case reject_checks k target stage (db_uploads db) of Inr (Inr _) \<Rightarrow> True | _ \<Rightarrow> False)"
| "reads_clock (ListExpiredUploadSessions _ _) db = True"
| "reads_clock (MatchExpiredUploadSession _) db = True"
| "reads_clock (RemoveExpiredUploadSessionIfMatches _) db = True"
| "reads_clock (PreparePurgeJob _) db = True"
| "reads_clock (MarkPurgeJobReady _ _) db = True"
| "reads_clock ClaimDuePurgeJob db = True"
| "reads_clock (RetryPurgeJob _ _) db = True"
| "reads_clock _ db = False"

text \<open>The commands the worker skips when the requester is already gone.\<close>

fun skipped_when_closed :: "Command \<Rightarrow> bool" where
  "skipped_when_closed ProbeReadiness = True"
| "skipped_when_closed (Begin _ _) = True"
| "skipped_when_closed (Status _) = True"
| "skipped_when_closed (LoadUploadSession _) = True"
| "skipped_when_closed (ListUploadSessionsPage _ _) = True"
| "skipped_when_closed (ListExpiredUploadSessions _ _) = True"
| "skipped_when_closed (MatchExpiredUploadSession _) = True"
| "skipped_when_closed (LoadPurgeJob _) = True"
| "skipped_when_closed (ListPreparedPurgeJobs _) = True"
| "skipped_when_closed (ListPurgeJobs _) = True"
| "skipped_when_closed (ListStateBlockingPaths _ _) = True"
| "skipped_when_closed _ = False"

definition run_command :: "StepEnv \<Rightarrow> Command \<Rightarrow> StoreWorker \<Rightarrow> Reply store_result \<times> StoreWorker" where
  "run_command env c w =
     (if reads_clock c (w_db w) then run_at env (perform (w_limits w) env c) w
      else run_plain env (perform (w_limits w) env c (last_ms (w_clock w))) w)"

definition worker_abandon ::
  "StepEnv \<Rightarrow> OperationKey \<Rightarrow> bytes \<Rightarrow> StoreWorker \<Rightarrow> unit store_result \<times> StoreWorker" where
  "worker_abandon env k lease w =
     run_at env (\<lambda>now. on_operations (\<lambda>t.
       result_map (\<lambda>t'. ((), t')) (abandon_operation (w_limits w) now k lease t))) w"

definition defer_abandon :: "OperationKey \<Rightarrow> bytes \<Rightarrow> StoreWorker \<Rightarrow> StoreWorker" where
  "defer_abandon k lease w =
     (if (k, lease) \<in> set (w_deferred w) then w
      else w\<lparr>w_deferred := w_deferred w @ [(k, lease)]\<rparr>)"

text \<open>Abandon now, and remember the reservation when the attempt fails.\<close>

definition abandon_or_defer :: "StepEnv \<Rightarrow> OperationKey \<Rightarrow> bytes \<Rightarrow> StoreWorker \<Rightarrow> StoreWorker" where
  "abandon_or_defer env k lease w =
     (case worker_abandon env k lease w of
        (Inl _, w') \<Rightarrow> defer_abandon k lease w'
      | (Inr _, w') \<Rightarrow> w')"

definition retry_one_deferred_abandon :: "StepEnv \<Rightarrow> StoreWorker \<Rightarrow> StoreWorker" where
  "retry_one_deferred_abandon env w =
     (case w_deferred w of
        [] \<Rightarrow> w
      | (k, lease) # rest \<Rightarrow>
          (case worker_abandon env k lease (w\<lparr>w_deferred := rest\<rparr>) of
             (Inl _, w') \<Rightarrow> w'\<lparr>w_deferred := w_deferred w' @ [(k, lease)]\<rparr>
           | (Inr _, w') \<Rightarrow> w'))"

text \<open>One command, with a second environment for the cleanup of an undeliverable reservation.\<close>

definition exec_command ::
  "StepEnv \<Rightarrow> StepEnv \<Rightarrow> Command \<Rightarrow> StoreWorker \<Rightarrow> Reply store_result option \<times> StoreWorker" where
  "exec_command env env2 c w =
     (if c = Wake \<or> (skipped_when_closed c \<and> env_closed env) then (None, w)
      else
        let (reply, w') = run_command env c w in
        (case (c, reply) of
           (Begin k _, Inr (ReplyBegin (Started lease))) \<Rightarrow>
             if env_sent env then (Some reply, w')
             else (Some reply, abandon_or_defer env2 k lease w')
         | _ \<Rightarrow> (Some reply, w')))"

section \<open>What the types and the facade guarantee of a command\<close>

fun command_ok :: "Command \<Rightarrow> bool" where
  "command_ok (Begin k fp) \<longleftrightarrow> key_ok k \<and> length fp = 32"
| "command_ok (Complete k lease outcome) \<longleftrightarrow> validate_outcome outcome = Inr ()"
| "command_ok (SaveUploadSession s ttl) \<longleftrightarrow> session_ok s"
| "command_ok (PreparePurgeJob j) \<longleftrightarrow> validate_new j = Inr () \<and> key_ok (pj_key j)"
| "command_ok (MarkPurgeJobReady k rv) \<longleftrightarrow> length rv = 32"
| "command_ok _ \<longleftrightarrow> True"

text \<open>The array lengths of the arguments.\<close>

fun request_typed :: "Request \<Rightarrow> bool" where
  "request_typed (OnOperations (RqBegin k fp)) \<longleftrightarrow> key_ok k \<and> length fp = 32"
| "request_typed (OnUploads (RqSaveUploadSession s ttl)) \<longleftrightarrow> session_typed s"
| "request_typed (OnPurges (RqPreparePurgeJob j)) \<longleftrightarrow> key_ok (pj_key j)"
| "request_typed (OnPurges (RqMarkPurgeJobReady k rv)) \<longleftrightarrow> length rv = 32"
| "request_typed _ \<longleftrightarrow> True"

lemma request_command_ok:
  assumes "request_typed rq" and "request_command rq = Inr c"
  shows "command_ok c"
proof (cases rq)
  case (OnOperations q)
  then show ?thesis using assms by (cases q) auto
next
  case (OnUploads q)
  then show ?thesis using assms by (cases q) (auto simp: session_ok_def result_map_Inr)
next
  case (OnPurges q)
  then show ?thesis using assms by (cases q) (auto simp: result_map_Inr)
qed

section \<open>The effect of a command on the operation ledger\<close>

fun holder :: "op_view \<Rightarrow> bytes option" where
  "holder (ReservedBy _ lease) = Some lease"
| "holder (CommittingBy _ lease) = Some lease"
| "holder _ = None"

text \<open>The lease a reply hands out for a key.\<close>

fun started_by :: "Command \<Rightarrow> Reply \<Rightarrow> OperationKey \<Rightarrow> bytes option" where
  "started_by (Begin k fp) (ReplyBegin (Started lease)) k' = (if k' = k then Some lease else None)"
| "started_by _ _ _ = None"

definition view_step :: "Limits \<Rightarrow> i64 \<Rightarrow> bytes option \<Rightarrow> op_view \<Rightarrow> op_view \<Rightarrow> bool" where
  "view_step l now started v v' \<longleftrightarrow>
     (case started of
        Some lease \<Rightarrow> spec_expire now v = Absent \<and> (\<exists>fp. v' = ReservedBy fp lease)
      | None \<Rightarrow> v' = v \<or> v' = spec_expire now v
          \<or> (\<exists>lease. v' = snd (spec_mark lease v))
          \<or> (\<exists>lease out. v' = snd (spec_complete (now + lim_ttl_ms l) out lease v))
          \<or> (\<exists>lease. v' = spec_abandon (now + lim_ttl_ms l) lease v))"

lemma view_step_refl [simp]: "view_step l now None v v"
  by (simp add: view_step_def)

lemma view_step_mark: "v' = snd (spec_mark lease v) \<Longrightarrow> view_step l now None v v'"
  by (auto simp: view_step_def)

lemma view_step_complete:
  "v' = snd (spec_complete (now + lim_ttl_ms l) out lease v) \<Longrightarrow> view_step l now None v v'"
  by (auto simp: view_step_def)

lemma view_step_holder:
  assumes "view_step l now started v v'" and "holder v' = Some lease"
  shows "holder v = Some lease \<or> started = Some lease"
  using assms by (cases started; cases v) (auto simp: view_step_def split: if_splits)

lemma view_step_committed:
  assumes "view_step l now started v v'" and "committed_until h v"
    and "now < h" and "h \<le> now + lim_ttl_ms l"
  shows "committed_until h v' \<and> started = None"
  using assms by (cases started; cases v) (auto simp: view_step_def split: if_splits)

lemma begin_keeps:
  assumes run: "begin_operation l now lease k fp t = Inr (res, t')"
    and inv: "operations_inv t" and room: "operations_bounded l t"
    and args: "key_ok k" "length fp = 32" "length lease = 16"
  shows "operations_inv t' \<and> operations_bounded l t'
    \<and> (\<forall>k'. view_step l now (started_by (Begin k fp) (ReplyBegin res) k')
        (operation_view t k') (operation_view t' k'))"
proof -
  from begin_refines [where l = l and now = now, OF inv args] run
  have inv': "operations_inv t'"
    and here: "(res, operation_view t' k) =
        spec_begin (operation_has_room l k (purge_expired now t)) lease fp
          (spec_expire now (operation_view t k))"
    and there: "\<forall>k'. k' \<noteq> k \<longrightarrow> operation_view t' k' = spec_expire now (operation_view t k')"
    by auto
  have "view_step l now (started_by (Begin k fp) (ReplyBegin res) k)
        (operation_view t k) (operation_view t' k)"
    using here by (cases "spec_expire now (operation_view t k)") (auto simp: view_step_def split: if_splits)
  moreover have "view_step l now (started_by (Begin k fp) (ReplyBegin res) k')
        (operation_view t k') (operation_view t' k')" if "k' \<noteq> k" for k'
    using there that by (cases res) (auto simp: view_step_def)
  ultimately show ?thesis using inv' bounded_begin [OF room run] by metis
qed

lemma status_keeps:
  assumes "operation_status now k t = Inr (res, t')" and "operations_inv t" and "operations_bounded l t"
  shows "operations_inv t' \<and> operations_bounded l t'
    \<and> (\<forall>k'. view_step l now None (operation_view t k') (operation_view t' k'))"
  using assms bounded_status [OF assms(3,1)] status_refines [OF assms(2), of now k]
  by (auto simp: purge_expired_view purge_expired_inv view_step_def)

lemma mark_keeps:
  assumes "mark_operation_commit_started now k lease t = Inr (res, t')"
    and "operations_inv t" and "operations_bounded l t"
  shows "operations_inv t' \<and> operations_bounded l t'
    \<and> (\<forall>k'. view_step l now None (operation_view t k') (operation_view t' k'))"
proof -
  from mark_refines [OF assms(2), of now k lease] assms(1)
  have "operations_inv t'" and here: "(res, operation_view t' k) = spec_mark lease (operation_view t k)"
    and there: "\<forall>k'. k' \<noteq> k \<longrightarrow> operation_view t' k' = operation_view t k'" by auto
  moreover have "view_step l now None (operation_view t k') (operation_view t' k')" for k'
    using there view_step_mark [OF arg_cong [OF here, of snd, unfolded snd_conv]]
    by (cases "k' = k") simp_all
  ultimately show ?thesis using bounded_mark [OF assms(3,1)] by blast
qed

lemma complete_keeps:
  assumes "complete_operation l now k lease outcome t = Inr (res, t')"
    and "operations_inv t" and "operations_bounded l t" and "validate_outcome outcome = Inr ()"
  shows "operations_inv t' \<and> operations_bounded l t'
    \<and> (\<forall>k'. view_step l now None (operation_view t k') (operation_view t' k'))"
proof -
  from complete_success [OF assms(2,4,1)]
  have "operations_inv t'"
    and here: "(res, operation_view t' k) =
      spec_complete (now + lim_ttl_ms l) outcome lease (operation_view t k)"
    and there: "\<forall>k'. k' \<noteq> k \<longrightarrow> operation_view t' k' = operation_view t k'" by auto
  moreover have "view_step l now None (operation_view t k') (operation_view t' k')" for k'
    using there view_step_complete [OF arg_cong [OF here, of snd, unfolded snd_conv]]
    by (cases "k' = k") simp_all
  ultimately show ?thesis using bounded_complete [OF assms(3,1)] by blast
qed

lemma abandon_keeps:
  assumes run: "abandon_operation l now k lease t = Inr t'"
    and inv: "operations_inv t" and room: "operations_bounded l t"
  shows "operations_inv t' \<and> operations_bounded l t'
    \<and> (\<forall>k'. view_step l now None (operation_view t k') (operation_view t' k'))
    \<and> holder (operation_view t' k) \<noteq> Some lease"
proof -
  have time: "is_i64 (now + lim_ttl_ms l)"
    using run by (auto simp: abandon_operation_def split: if_splits)
  from abandon_refines [OF inv time, of k lease] run
  have "operations_inv t'"
    and here: "operation_view t' k = spec_abandon (now + lim_ttl_ms l) lease (operation_view t k)"
    and there: "\<forall>k'. k' \<noteq> k \<longrightarrow> operation_view t' k' = operation_view t k'" by auto
  moreover have "view_step l now None (operation_view t k') (operation_view t' k')" for k'
    using there here by (cases "k' = k") (auto simp: view_step_def)
  moreover have "holder (operation_view t' k) \<noteq> Some lease"
    unfolding here by (cases "operation_view t k") auto
  ultimately show ?thesis using bounded_abandon [OF room run] by blast
qed

section \<open>Every command keeps the database valid and within its capacities\<close>

lemma replying_on_operations:
  "replying C (on_operations f db) = Inr (r, db') \<longleftrightarrow>
     (\<exists>x t. f (db_operations db) = Inr (x, t) \<and> r = C x \<and> db' = db\<lparr>db_operations := t\<rparr>)"
  by (auto simp: replying_def on_operations_def result_map_Inr)

lemma replying_on_uploads:
  "replying C (on_uploads f db) = Inr (r, db') \<longleftrightarrow>
     (\<exists>x t. f (db_uploads db) = Inr (x, t) \<and> r = C x \<and> db' = db\<lparr>db_uploads := t\<rparr>)"
  by (auto simp: replying_def on_uploads_def result_map_Inr)

lemma replying_on_purges:
  "replying C (on_purges f db) = Inr (r, db') \<longleftrightarrow>
     (\<exists>x t. f (db_purges db) = Inr (x, t) \<and> r = C x \<and> db' = db\<lparr>db_purges := t\<rparr>)"
  by (auto simp: replying_def on_purges_def result_map_Inr)

lemma replying_reading:
  "replying C (reading f db) = Inr (r, db') \<longleftrightarrow> (\<exists>x. f db = Inr x \<and> r = C x \<and> db' = db)"
  by (auto simp: replying_def reading_def result_map_Inr)

lemmas replying_simps = replying_on_operations replying_on_uploads replying_on_purges replying_reading

lemma save_keeps:
  assumes run: "save_upload_session l now p ttl t = Inr (res, t')"
    and inv: "uploads_inv t" and room: "uploads_bounded l t" and p: "session_ok p"
  shows "uploads_inv t' \<and> uploads_bounded l t'"
proof -
  have time: "is_i64 (now + ttl)"
    using run by (auto simp: save_upload_session_def split: if_splits)
  from save_refines [where l = l, OF inv p time] run have "uploads_inv t'" by auto
  then show ?thesis using save_bounded [OF _ room run] inv by (simp add: uploads_inv_def)
qed

lemma reject_keeps:
  assumes run: "reject_upload_session (Inr now) k target stage ttl t = Inr (res, t')"
    and inv: "uploads_inv t" and room: "uploads_bounded l t"
  shows "uploads_inv t' \<and> uploads_bounded l t'"
proof (cases "\<exists>reply. reject_checks k target stage t = Inr (Inl reply)")
  case True
  then show ?thesis using reject_unchanged [OF inv] run inv room by auto
next
  case False
  then obtain s e where s: "upload_view t k = Some (s, e)" "us_state s = UploadAwaitingConfirmation"
    "path_eq (us_target_path s) target" "path_eq (us_stage_path s) stage"
    using reject_checks_view [OF inv, of k target stage] by (auto split: option.splits if_splits)
  have "is_i64 (now + ttl)"
    using run False reject_checks_view [OF inv, of k target stage] s
    by (auto simp: reject_upload_session_def split: if_splits)
  from reject_awaiting [OF inv s this] run obtain P f
    where "uploads_inv t'" "t' = tbl_update P f t" by auto
  then show ?thesis using uploads_bounded_update [OF room] by simp
qed

lemma remove_keeps:
  assumes "remove_upload_session_if_matches x t = Inr (res, t')"
    and "uploads_inv t" and "uploads_bounded l t"
  shows "uploads_inv t' \<and> uploads_bounded l t'"
  using assms by (auto simp: remove_view uploads_bounded_delete uploads_inv_delete
      split: option.splits if_splits)

lemma remove_expired_keeps:
  assumes "remove_expired_upload_session_if_matches now x t = Inr (res, t')"
    and "uploads_inv t" and "uploads_bounded l t"
  shows "uploads_inv t' \<and> uploads_bounded l t'"
  using assms by (auto simp: remove_expired_view uploads_bounded_delete uploads_inv_delete
      split: option.splits if_splits)

lemma prepare_keeps:
  assumes "prepare_purge_job l now j t = Inr (res, t')"
    and "purges_inv t" and "purges_bounded l t" and "validate_new j = Inr ()" and "key_ok (pj_key j)"
  shows "purges_inv t' \<and> purges_bounded l t'"
  using prepare_refines [OF assms(2,4,5), of l now] prepare_bounded [OF assms(3,1)] assms(1) by auto

lemma mark_ready_keeps:
  assumes "mark_purge_job_ready now k rv t = Inr (res, t')"
    and "purges_inv t" and "purges_bounded l t" and "length rv = 32"
  shows "purges_inv t' \<and> purges_bounded l t'"
  using mark_ready_refines [OF assms(2,4), of now k] assms(1) purges_bounded_update [OF assms(3)] by auto

lemma claim_keeps:
  assumes "claim_due_purge_job now t = Inr (res, t')" and "purges_inv t" and "purges_bounded l t"
  shows "purges_inv t' \<and> purges_bounded l t'"
proof -
  from claim_refines [OF assms(2), of now] assms(1)
  have "purges_inv t'" "t' = t \<or> (\<exists>P f. t' = tbl_update P f t)"
    by (auto split: option.splits)
  then show ?thesis using assms(3) purges_bounded_update [OF assms(3)] by auto
qed

lemma retry_keeps:
  assumes run: "retry_purge_job now k delay t = Inr (res, t')"
    and inv: "purges_inv t" and room: "purges_bounded l t"
  shows "purges_inv t' \<and> purges_bounded l t'"
proof -
  have "is_i64 (now + delay)" using run by (auto simp: retry_purge_job_def split: if_splits)
  from retry_refines [OF inv this, of k] run show ?thesis using purges_bounded_update [OF room] by auto
qed

lemma complete_purge_keeps:
  assumes "complete_purge_job k t = Inr (res, t')" and "purges_inv t" and "purges_bounded l t"
  shows "purges_inv t' \<and> purges_bounded l t'"
  using complete_purge_refines [OF assms(2), of k] assms(1,3)
  by (auto simp: complete_purge_job_def purges_bounded_delete Let_def)

lemma remove_purge_keeps:
  assumes "remove_purge_job k t = Inr (res, t')" and "purges_inv t" and "purges_bounded l t"
  shows "purges_inv t' \<and> purges_bounded l t'"
  using remove_purge_refines [OF assms(2), of k] assms(1,3)
  by (auto simp: remove_purge_job_def purges_bounded_delete Let_def)

definition database_ok :: "Limits \<Rightarrow> Database \<Rightarrow> bool" where
  "database_ok l db \<longleftrightarrow> database_inv db \<and> database_bounded l db"

lemma database_ok_operations:
  assumes "database_ok l db"
  shows "operations_inv (db_operations db)" and "operations_bounded l (db_operations db)"
    and "operations_inv t \<and> operations_bounded l t \<Longrightarrow> database_ok l (db\<lparr>db_operations := t\<rparr>)"
  using assms by (auto simp: database_ok_def database_inv_def database_bounded_def)

lemma database_ok_uploads:
  assumes "database_ok l db"
  shows "uploads_inv (db_uploads db)" and "uploads_bounded l (db_uploads db)"
    and "uploads_inv u \<and> uploads_bounded l u \<Longrightarrow> database_ok l (db\<lparr>db_uploads := u\<rparr>)"
  using assms by (auto simp: database_ok_def database_inv_def database_bounded_def)

lemma database_ok_purges:
  assumes "database_ok l db"
  shows "purges_inv (db_purges db)" and "purges_bounded l (db_purges db)"
    and "purges_inv p \<and> purges_bounded l p \<Longrightarrow> database_ok l (db\<lparr>db_purges := p\<rparr>)"
  using assms by (auto simp: database_ok_def database_inv_def database_bounded_def)

lemma perform_keeps:
  assumes run: "perform l env c now db = Inr (r, db')" and ok: "database_ok l db"
    and c: "command_ok c" and lease: "length (env_lease env) = 16"
  shows "database_ok l db' \<and> (\<forall>k. view_step l now (started_by c r k)
    (operation_view (db_operations db) k) (operation_view (db_operations db') k))"
proof (cases c)
  case (Begin k fp)
  then show ?thesis using run c begin_keeps [OF _ database_ok_operations(1,2) [OF ok] _ _ lease]
    by (fastforce simp: replying_simps intro: database_ok_operations(3) [OF ok])
next
  case (Status k)
  then show ?thesis using run status_keeps [OF _ database_ok_operations(1,2) [OF ok]]
    by (fastforce simp: replying_simps intro: database_ok_operations(3) [OF ok])
next
  case (MarkCommitStarted k le)
  then show ?thesis using run mark_keeps [OF _ database_ok_operations(1,2) [OF ok]]
    by (fastforce simp: replying_simps intro: database_ok_operations(3) [OF ok])
next
  case (Complete k le out)
  then show ?thesis using run c complete_keeps [OF _ database_ok_operations(1,2) [OF ok]]
    by (fastforce simp: replying_simps intro: database_ok_operations(3) [OF ok])
next
  case (SaveUploadSession s ttl)
  then show ?thesis using run c save_keeps [OF _ database_ok_uploads(1,2) [OF ok]]
    by (auto simp: replying_simps intro!: database_ok_uploads(3) [OF ok])
next
  case (RejectUpload k target stage ttl)
  then show ?thesis using run reject_keeps [OF _ database_ok_uploads(1,2) [OF ok]]
    by (auto simp: replying_simps intro!: database_ok_uploads(3) [OF ok])
next
  case (RemoveUploadSessionIfMatches s)
  then show ?thesis using run remove_keeps [OF _ database_ok_uploads(1,2) [OF ok]]
    by (auto simp: replying_simps intro!: database_ok_uploads(3) [OF ok])
next
  case (RemoveExpiredUploadSessionIfMatches x)
  then show ?thesis using run remove_expired_keeps [OF _ database_ok_uploads(1,2) [OF ok]]
    by (auto simp: replying_simps intro!: database_ok_uploads(3) [OF ok])
next
  case (PreparePurgeJob j)
  then show ?thesis using run c prepare_keeps [OF _ database_ok_purges(1,2) [OF ok]]
    by (auto simp: replying_simps intro!: database_ok_purges(3) [OF ok])
next
  case (MarkPurgeJobReady k rv)
  then show ?thesis using run c mark_ready_keeps [OF _ database_ok_purges(1,2) [OF ok]]
    by (auto simp: replying_simps intro!: database_ok_purges(3) [OF ok])
next
  case ClaimDuePurgeJob
  then show ?thesis using run claim_keeps [OF _ database_ok_purges(1,2) [OF ok]]
    by (auto simp: replying_simps intro!: database_ok_purges(3) [OF ok])
next
  case (RetryPurgeJob k d)
  then show ?thesis using run retry_keeps [OF _ database_ok_purges(1,2) [OF ok]]
    by (auto simp: replying_simps intro!: database_ok_purges(3) [OF ok])
next
  case (CompletePurgeJob k)
  then show ?thesis using run complete_purge_keeps [OF _ database_ok_purges(1,2) [OF ok]]
    by (auto simp: replying_simps intro!: database_ok_purges(3) [OF ok])
next
  case (RemovePurgeJob k)
  then show ?thesis using run remove_purge_keeps [OF _ database_ok_purges(1,2) [OF ok]]
    by (auto simp: replying_simps intro!: database_ok_purges(3) [OF ok])
qed (use run ok in \<open>auto simp: replying_simps result_map_Inr\<close>)

end
