(* ===== verification/Actor_System.thy ===== *)
theory Actor_System
  imports Store_Actor
begin

text \<open>
  The running state store as a transition system: the bounded command queue, the control
  channel, the worker thread with the phases of its loop, the replies in flight and the leases
  that requesters hold.  Clients and the worker interleave freely; every step of the worker is
  one transaction.  The invariants say that the database stays valid and bounded, that no
  reservation is ever forgotten by all parties, and that a started commit blocks a second
  execution for a whole TTL.
\<close>

section \<open>State\<close>

text \<open>Where the loop of \<open>StoreWorker::run\<close> stands: before \<open>retry_one_deferred_abandon\<close>, in the
  \<open>try_recv\<close> loop of \<open>process_controls\<close>, before \<open>recv\<close>, or past the loop.\<close>

datatype phase = Retrying | Draining | Receiving | Exited

record Actor =
  ac_worker :: StoreWorker
  ac_capacity :: nat
  ac_commands :: "Command list"
  ac_controls :: "ControlCommand list"
  ac_phase :: phase
  ac_healthy :: bool
  ac_replies :: "(OperationKey \<times> bytes) list"
  ac_holders :: "(OperationKey \<times> bytes) list"

text \<open>\<open>StateStore::send\<close>, \<open>ActorChannels::send_control\<close> and \<open>StateStore::abandon_operation\<close>.  The
  receiving ends of both channels live as long as the loop.\<close>

definition send :: "Command \<Rightarrow> Actor \<Rightarrow> unit store_result \<times> Actor" where
  "send c a =
     (if \<not> ac_healthy a then (Inl Unavailable, a)
      else if ac_phase a = Exited then (Inl Unavailable, a\<lparr>ac_healthy := False\<rparr>)
      else if length (ac_commands a) < ac_capacity a
      then (Inr (), a\<lparr>ac_commands := ac_commands a @ [c]\<rparr>)
      else (Inl QueueFull, a))"

definition send_control :: "ControlCommand \<Rightarrow> Actor \<Rightarrow> unit store_result \<times> Actor" where
  "send_control ctl a =
     (if ac_phase a = Exited then (Inl Unavailable, a)
      else (Inr (), a\<lparr>ac_controls := ac_controls a @ [ctl],
                      ac_commands := (if length (ac_commands a) < ac_capacity a
                                      then ac_commands a @ [Wake] else ac_commands a)\<rparr>))"

definition abandon_operation_control :: "OperationKey \<Rightarrow> bytes \<Rightarrow> Actor \<Rightarrow> Actor" where
  "abandon_operation_control k lease a =
     (case send_control (Abandon k lease) a of
        (Inl _, a') \<Rightarrow> a'\<lparr>ac_healthy := False\<rparr>
      | (Inr _, a') \<Rightarrow> a')"

text \<open>The start of the worker thread: \<open>StoreClock::new\<close>, the first reading, recovery.\<close>

definition initialize ::
  "Limits \<Rightarrow> i64 \<times> nat \<Rightarrow> i64 option \<times> nat \<Rightarrow> Database \<Rightarrow> StoreWorker store_result" where
  "initialize l anchor reading1 db =
     (case observe (fst reading1) (snd reading1) (clock_new (fst anchor) (snd anchor)) of
        (Inl e, _) \<Rightarrow> Inl e
      | (Inr now, c) \<Rightarrow>
          result_map (\<lambda>db'. \<lparr>w_db = db', w_clock = c, w_limits = l, w_deferred = []\<rparr>)
            (recover_database (lim_ttl_ms l) (lim_upload_ttl_ms l) now db))"

definition start ::
  "nat \<Rightarrow> Limits store_result \<Rightarrow> i64 \<times> nat \<Rightarrow> i64 option \<times> nat \<Rightarrow> Database \<Rightarrow> Actor store_result" where
  "start queue_capacity limits anchor reading1 db =
     result_bind (ensure (queue_capacity > 0) InvalidCapacities) (\<lambda>_.
     result_bind limits (\<lambda>l.
     result_map (\<lambda>w. \<lparr>ac_worker = w, ac_capacity = queue_capacity, ac_commands = [],
       ac_controls = [], ac_phase = Retrying, ac_healthy = True, ac_replies = [], ac_holders = []\<rparr>)
       (initialize l anchor reading1 db)))"

section \<open>Steps\<close>

definition env_ok :: "StepEnv \<Rightarrow> bool" where
  "env_ok env \<longleftrightarrow> length (env_lease env) = 16"

text \<open>The envelope of a started operation stays in the reply channel until the requester takes
  or drops it.\<close>

fun reply_envelope :: "StepEnv \<Rightarrow> Command \<Rightarrow> Reply store_result option \<Rightarrow> (OperationKey \<times> bytes) list" where
  "reply_envelope env (Begin k fp) (Some (Inr (ReplyBegin (Started lease)))) =
     (if env_sent env then [(k, lease)] else [])"
| "reply_envelope env _ _ = []"

inductive actor_step :: "Actor \<Rightarrow> Actor \<Rightarrow> bool" where
  submit: "request_typed rq \<Longrightarrow> request_command rq = Inr c \<Longrightarrow> actor_step a (snd (send c a))"
| retry: "ac_phase a = Retrying \<Longrightarrow> env_ok env \<Longrightarrow>
    actor_step a (a\<lparr>ac_worker := retry_one_deferred_abandon env (ac_worker a), ac_phase := Draining\<rparr>)"
| control: "ac_phase a = Draining \<Longrightarrow> ac_controls a = Abandon k lease # cs \<Longrightarrow> env_ok env \<Longrightarrow>
    actor_step a (a\<lparr>ac_worker := abandon_or_defer env k lease (ac_worker a), ac_controls := cs\<rparr>)"
| shutdown: "ac_phase a = Draining \<Longrightarrow> ac_controls a = Shutdown # cs \<Longrightarrow>
    actor_step a (a\<lparr>ac_phase := Exited, ac_healthy := False\<rparr>)"
| drained: "ac_phase a = Draining \<Longrightarrow> ac_controls a = [] \<Longrightarrow>
    actor_step a (a\<lparr>ac_phase := Receiving\<rparr>)"
| receive: "ac_phase a = Receiving \<Longrightarrow> ac_commands a = c # cs \<Longrightarrow> env_ok env \<Longrightarrow> env_ok env2 \<Longrightarrow>
    exec_command env env2 c (ac_worker a) = (reply, w') \<Longrightarrow>
    actor_step a (a\<lparr>ac_worker := w', ac_commands := cs, ac_phase := Retrying,
                    ac_replies := reply_envelope env c reply @ ac_replies a\<rparr>)"
| deliver: "kl \<in> set (ac_replies a) \<Longrightarrow>
    actor_step a (a\<lparr>ac_replies := remove1 kl (ac_replies a), ac_holders := kl # ac_holders a\<rparr>)"
| drop_reply: "(k, lease) \<in> set (ac_replies a) \<Longrightarrow>
    actor_step a (snd (send_control (Abandon k lease) (a\<lparr>ac_replies := remove1 (k, lease) (ac_replies a)\<rparr>)))"
| abandon: "(k, lease) \<in> set (ac_holders a) \<Longrightarrow>
    actor_step a (abandon_operation_control k lease (a\<lparr>ac_holders := remove1 (k, lease) (ac_holders a)\<rparr>))"
| close: "actor_step a (snd (send_control Shutdown (a\<lparr>ac_healthy := False\<rparr>)))"

section \<open>One step of the worker\<close>

abbreviation op_of :: "StoreWorker \<Rightarrow> OperationKey \<Rightarrow> op_view" where
  "op_of w k \<equiv> operation_view (db_operations (w_db w)) k"

definition ledger_step :: "(OperationKey \<Rightarrow> bytes option) \<Rightarrow> StoreWorker \<Rightarrow> StoreWorker \<Rightarrow> bool" where
  "ledger_step started w w' \<longleftrightarrow>
     w_limits w' = w_limits w
     \<and> last_ms (w_clock w) \<le> last_ms (w_clock w')
     \<and> database_ok (w_limits w) (w_db w')
     \<and> (\<forall>k. view_step (w_limits w) (last_ms (w_clock w')) (started k) (op_of w k) (op_of w' k))"

lemma ledger_step_refl [simp]: "database_ok (w_limits w) (w_db w) \<Longrightarrow> ledger_step (\<lambda>_. None) w w"
  by (simp add: ledger_step_def)

lemma ledger_step_deferred [simp]:
  "ledger_step st w (w'\<lparr>w_deferred := d\<rparr>) \<longleftrightarrow> ledger_step st w w'"
  "ledger_step st (w\<lparr>w_deferred := d\<rparr>) w' \<longleftrightarrow> ledger_step st w w'"
  by (simp_all add: ledger_step_def)

definition started_in :: "Command \<Rightarrow> Reply store_result \<Rightarrow> OperationKey \<Rightarrow> bytes option" where
  "started_in c res k = (case res of Inl _ \<Rightarrow> None | Inr r \<Rightarrow> started_by c r k)"

lemma run_at_step:
  assumes run: "run_at env f w = (res, w')" and ok: "database_ok (w_limits w) (w_db w)"
    and keeps: "\<And>now x db'. f now (w_db w) = Inr (x, db') \<Longrightarrow>
      database_ok (w_limits w) db' \<and> (\<forall>k. view_step (w_limits w) now (st (Inr x) k)
        (op_of w k) (operation_view (db_operations db') k))"
    and none: "\<And>e k. st (Inl e) k = None"
  shows "ledger_step (st res) w w' \<and> w_deferred w' = w_deferred w"
proof (cases "env_fault env = FaultBeforeClock")
  case True
  then show ?thesis using run ok by (auto simp: run_at_def ledger_step_def none)
next
  case False
  obtain r c where obs: "observe (env_wall env) (env_instant env) (w_clock w) = (r, c)" by fastforce
  show ?thesis
  proof (cases r)
    case (Inl e)
    with obs have "c = w_clock w" by (simp add: observe_Inl)
    with run obs Inl False ok show ?thesis by (auto simp: run_at_def ledger_step_def none)
  next
    case (Inr now)
    with obs have now: "last_ms (w_clock w) \<le> now" "last_ms c = now" by (simp_all add: observe_Inr)
    show ?thesis
      using run obs Inr False ok now
      by (auto simp: run_at_def ledger_step_def none keeps split: if_splits sum.splits prod.splits)
  qed
qed

lemma run_command_step:
  assumes run: "run_command env c w = (res, w')" and ok: "database_ok (w_limits w) (w_db w)"
    and c: "command_ok c" and env: "env_ok env"
  shows "ledger_step (started_in c res) w w' \<and> w_deferred w' = w_deferred w"
proof (cases "reads_clock c (w_db w)")
  case True
  with run have "run_at env (perform (w_limits w) env c) w = (res, w')" by (simp add: run_command_def)
  then show ?thesis
    by (rule run_at_step [OF _ ok])
      (use perform_keeps [OF _ ok c] env in \<open>auto simp: started_in_def env_ok_def\<close>)
next
  case False
  with run show ?thesis
    using perform_keeps [OF _ ok c] env ok
    by (auto simp: run_command_def run_plain_def started_in_def env_ok_def ledger_step_def
        split: if_splits sum.splits prod.splits)
qed

lemma worker_abandon_step:
  assumes run: "worker_abandon env k lease w = (res, w')" and ok: "database_ok (w_limits w) (w_db w)"
  shows "ledger_step (\<lambda>_. None) w w'" and "w_deferred w' = w_deferred w"
    and "res = Inr u \<Longrightarrow> holder (op_of w' k) \<noteq> Some lease"
proof -
  note keeps = abandon_keeps [OF _ database_ok_operations(1,2) [OF ok]]
  let ?f = "\<lambda>now. on_operations (\<lambda>t.
    result_map (\<lambda>t'. ((), t')) (abandon_operation (w_limits w) now k lease t))"
  have run': "run_at env ?f w = (res, w')" using run by (simp add: worker_abandon_def)
  have "ledger_step ((\<lambda>_ _. None) res) w w' \<and> w_deferred w' = w_deferred w"
    by (rule run_at_step [OF run' ok])
      (use keeps database_ok_operations(3) [OF ok] in \<open>fastforce simp: on_operations_def result_map_Inr\<close>)+
  then show "ledger_step (\<lambda>_. None) w w'" and "w_deferred w' = w_deferred w" by simp_all
  show "holder (op_of w' k) \<noteq> Some lease" if "res = Inr u"
    using run' that keeps
    by (auto simp: run_at_def on_operations_def result_map_Inr split: if_splits sum.splits prod.splits)
qed

lemma abandon_or_defer_step:
  fixes env :: StepEnv and k :: OperationKey and lease :: bytes
  assumes ok: "database_ok (w_limits w) (w_db w)"
  defines "w' \<equiv> abandon_or_defer env k lease w"
  shows "ledger_step (\<lambda>_. None) w w'" and "set (w_deferred w) \<subseteq> set (w_deferred w')"
    and "holder (op_of w' k) = Some lease \<Longrightarrow> (k, lease) \<in> set (w_deferred w')"
proof -
  obtain res w1 where run: "worker_abandon env k lease w = (res, w1)" by fastforce
  note one = worker_abandon_step [OF run ok]
  show "ledger_step (\<lambda>_. None) w w'" and "set (w_deferred w) \<subseteq> set (w_deferred w')"
    using one run by (auto simp: w'_def abandon_or_defer_def defer_abandon_def split: sum.splits)
  show "(k, lease) \<in> set (w_deferred w')" if "holder (op_of w' k) = Some lease"
    using one(3) run that by (cases res) (auto simp: w'_def abandon_or_defer_def defer_abandon_def)
qed

lemma retry_step:
  fixes env :: StepEnv and k :: OperationKey and lease :: bytes
  assumes ok: "database_ok (w_limits w) (w_db w)"
  defines "w' \<equiv> retry_one_deferred_abandon env w"
  shows "ledger_step (\<lambda>_. None) w w'"
    and "(k, lease) \<in> set (w_deferred w) \<Longrightarrow> holder (op_of w' k) = Some lease \<Longrightarrow>
      (k, lease) \<in> set (w_deferred w')"
proof -
  show "ledger_step (\<lambda>_. None) w w'"
  proof (cases "w_deferred w")
    case Nil
    then show ?thesis using ok by (simp add: w'_def retry_one_deferred_abandon_def)
  next
    case (Cons kl rest)
    obtain k0 l0 where kl: "kl = (k0, l0)" by fastforce
    obtain res w1 where run: "worker_abandon env k0 l0 (w\<lparr>w_deferred := rest\<rparr>) = (res, w1)" by fastforce
    from worker_abandon_step(1) [OF run] ok have "ledger_step (\<lambda>_. None) w w1" by simp
    then show ?thesis using Cons kl run
      by (auto simp: w'_def retry_one_deferred_abandon_def split: sum.splits)
  qed
  show "(k, lease) \<in> set (w_deferred w')"
    if k: "(k, lease) \<in> set (w_deferred w)" and held: "holder (op_of w' k) = Some lease"
  proof (cases "w_deferred w")
    case Nil
    then show ?thesis using k by simp
  next
    case (Cons kl rest)
    obtain k0 l0 where kl: "kl = (k0, l0)" by fastforce
    obtain res w1 where run: "worker_abandon env k0 l0 (w\<lparr>w_deferred := rest\<rparr>) = (res, w1)" by fastforce
    note one = worker_abandon_step(2,3) [OF run]
    show ?thesis using one Cons kl run ok k held
      by (cases res) (auto simp: w'_def retry_one_deferred_abandon_def)
  qed
qed

text \<open>A command is a run of the command and, for a reservation that could not be sent, its
  abandoning.\<close>

lemma exec_command_cases:
  assumes "exec_command env env2 c w = (reply, w')"
  obtains (skip) "reply = None" "w' = w"
  | (plain) res where "run_command env c w = (res, w')" "reply = Some res"
      "\<And>k fp lease. c = Begin k fp \<Longrightarrow> res = Inr (ReplyBegin (Started lease)) \<Longrightarrow> env_sent env"
  | (unsent) k fp lease w1 where "c = Begin k fp" "\<not> env_sent env"
      "run_command env c w = (Inr (ReplyBegin (Started lease)), w1)"
      "reply = Some (Inr (ReplyBegin (Started lease)))" "w' = abandon_or_defer env2 k lease w1"
proof (cases "c = Wake \<or> (skipped_when_closed c \<and> env_closed env)")
  case True
  then show ?thesis using assms skip by (simp add: exec_command_def)
next
  case False
  obtain res w1 where run: "run_command env c w = (res, w1)" by fastforce
  show ?thesis
  proof (cases "\<exists>k fp lease. c = Begin k fp \<and> res = Inr (ReplyBegin (Started lease)) \<and> \<not> env_sent env")
    case True
    then obtain k fp lease where "c = Begin k fp" "res = Inr (ReplyBegin (Started lease))"
      "\<not> env_sent env" by blast
    with assms run False show ?thesis using unsent by (auto simp: exec_command_def)
  next
    case other: False
    have "reply = Some res" "w' = w1"
      using assms run False other
      by (auto simp: exec_command_def split: Command.splits sum.splits Reply.splits StoreBegin.splits)
    with run other show ?thesis using plain by blast
  qed
qed

section \<open>Invariants of the running store\<close>

definition actor_inv :: "Actor \<Rightarrow> bool" where
  "actor_inv a \<longleftrightarrow>
     database_ok (w_limits (ac_worker a)) (w_db (ac_worker a))
     \<and> list_all command_ok (ac_commands a)
     \<and> length (ac_commands a) \<le> ac_capacity a"

text \<open>Who may still release a lease: a requester, a reply in flight, an abandon that waits in the
  control channel or in the deferred queue.\<close>

definition accounted :: "Actor \<Rightarrow> (OperationKey \<times> bytes) set" where
  "accounted a =
     set (ac_holders a) \<union> set (ac_replies a) \<union> set (w_deferred (ac_worker a))
     \<union> {(k, lease). Abandon k lease \<in> set (ac_controls a)}"

definition no_orphans :: "Actor \<Rightarrow> bool" where
  "no_orphans a \<longleftrightarrow> ac_phase a = Exited \<or>
     (\<forall>k lease. holder (op_of (ac_worker a) k) = Some lease \<longrightarrow> (k, lease) \<in> accounted a)"

lemma ledger_step_ok: "ledger_step st w w' \<Longrightarrow> database_ok (w_limits w') (w_db w')"
  by (simp add: ledger_step_def)

lemma exec_command_ok:
  assumes run: "exec_command env env2 c w = (reply, w')" and ok: "database_ok (w_limits w) (w_db w)"
    and c: "command_ok c" and env: "env_ok env"
  shows "w_limits w' = w_limits w \<and> database_ok (w_limits w') (w_db w')
    \<and> last_ms (w_clock w) \<le> last_ms (w_clock w')"
  using run
proof (cases rule: exec_command_cases)
  case (plain res)
  show ?thesis using run_command_step [OF plain(1) ok c env] by (auto simp: ledger_step_def)
next
  case (unsent k fp lease w1)
  note one = conjunct1 [OF run_command_step [OF unsent(3) ok c env]]
  note two = abandon_or_defer_step(1) [OF ledger_step_ok [OF one], of env2 k lease]
  show ?thesis using one two unsent(5) by (auto simp: ledger_step_def)
qed (use ok in simp_all)

lemma send_sel [simp]:
  "ac_worker (snd (send c a)) = ac_worker a" "ac_capacity (snd (send c a)) = ac_capacity a"
  "ac_phase (snd (send c a)) = ac_phase a" "ac_controls (snd (send c a)) = ac_controls a"
  "ac_replies (snd (send c a)) = ac_replies a" "ac_holders (snd (send c a)) = ac_holders a"
  by (simp_all add: send_def)

lemma send_control_sel [simp]:
  "ac_worker (snd (send_control x a)) = ac_worker a"
  "ac_capacity (snd (send_control x a)) = ac_capacity a"
  "ac_phase (snd (send_control x a)) = ac_phase a"
  "ac_replies (snd (send_control x a)) = ac_replies a"
  "ac_holders (snd (send_control x a)) = ac_holders a"
  "ac_phase a \<noteq> Exited \<Longrightarrow> ac_controls (snd (send_control x a)) = ac_controls a @ [x]"
  by (simp_all add: send_control_def)

lemma abandon_control_sel [simp]:
  "ac_worker (abandon_operation_control k l a) = ac_worker a"
  "ac_capacity (abandon_operation_control k l a) = ac_capacity a"
  "ac_phase (abandon_operation_control k l a) = ac_phase a"
  "ac_replies (abandon_operation_control k l a) = ac_replies a"
  "ac_holders (abandon_operation_control k l a) = ac_holders a"
  "ac_phase a \<noteq> Exited \<Longrightarrow>
    ac_controls (abandon_operation_control k l a) = ac_controls a @ [Abandon k l]"
  by (simp_all add: abandon_operation_control_def send_control_def)

lemma send_commands:
  "list_all command_ok (ac_commands a) \<Longrightarrow> length (ac_commands a) \<le> ac_capacity a \<Longrightarrow> command_ok c \<Longrightarrow>
    list_all command_ok (ac_commands (snd (send c a)))
    \<and> length (ac_commands (snd (send c a))) \<le> ac_capacity a"
  by (simp add: send_def)

lemma send_control_commands:
  "list_all command_ok (ac_commands a) \<Longrightarrow> length (ac_commands a) \<le> ac_capacity a \<Longrightarrow>
    list_all command_ok (ac_commands (snd (send_control x a)))
    \<and> length (ac_commands (snd (send_control x a))) \<le> ac_capacity a"
  by (simp add: send_control_def)

lemma abandon_control_commands:
  "ac_commands (abandon_operation_control k l a) = ac_commands (snd (send_control (Abandon k l) a))"
  by (simp add: abandon_operation_control_def split: prod.split sum.split)

lemma actor_step_worker:
  assumes "actor_step a a'" and "actor_inv a"
  shows "w_limits (ac_worker a') = w_limits (ac_worker a)
    \<and> last_ms (w_clock (ac_worker a)) \<le> last_ms (w_clock (ac_worker a'))
    \<and> actor_inv a'"
  using assms
proof (cases rule: actor_step.cases)
  case (submit rq c)
  then show ?thesis using assms(2) send_commands [of a c] request_command_ok
    by (auto simp: actor_inv_def)
next
  case (retry env)
  then show ?thesis using assms(2) retry_step(1) [of "ac_worker a" env]
    by (auto simp: actor_inv_def ledger_step_def)
next
  case (control k lease cs env)
  then show ?thesis using assms(2) abandon_or_defer_step(1) [of "ac_worker a" env k lease]
    by (auto simp: actor_inv_def ledger_step_def)
next
  case (receive c cs env env2 reply w')
  then show ?thesis using assms(2) exec_command_ok [OF receive(6)] by (auto simp: actor_inv_def)
next
  case (drop_reply k lease)
  then show ?thesis
    using assms(2) send_control_commands [of "a\<lparr>ac_replies := remove1 (k, lease) (ac_replies a)\<rparr>"]
    by (auto simp: actor_inv_def)
next
  case (abandon k lease)
  then show ?thesis
    using assms(2) send_control_commands [of "a\<lparr>ac_holders := remove1 (k, lease) (ac_holders a)\<rparr>"]
    by (auto simp: actor_inv_def abandon_control_commands)
next
  case close
  then show ?thesis using assms(2) send_control_commands [of "a\<lparr>ac_healthy := False\<rparr>"]
    by (auto simp: actor_inv_def)
qed (auto simp: actor_inv_def)

lemma no_orphansD:
  "no_orphans a \<Longrightarrow> ac_phase a \<noteq> Exited \<Longrightarrow> holder (op_of (ac_worker a) k) = Some lease \<Longrightarrow>
    (k, lease) \<in> accounted a"
  by (simp add: no_orphans_def)

lemma ledger_step_holder:
  "ledger_step st w w' \<Longrightarrow> holder (op_of w' k) = Some lease \<Longrightarrow>
    holder (op_of w k) = Some lease \<or> st k = Some lease"
  by (auto simp: ledger_step_def dest: view_step_holder)

text \<open>A step that does not touch the worker keeps every accounted lease.\<close>

lemma no_orphans_mono:
  assumes "no_orphans a" and "ac_worker a' = ac_worker a" and "ac_phase a = Exited \<Longrightarrow> ac_phase a' = Exited"
    and "ac_phase a \<noteq> Exited \<Longrightarrow> accounted a \<subseteq> accounted a'"
  shows "no_orphans a'"
  using assms by (auto simp: no_orphans_def)

lemma set_remove1_super: "set xs \<subseteq> insert x (set (remove1 x xs))"
  by (induction xs) auto

lemma receive_no_orphans:
  assumes orph: "no_orphans a" and phase: "ac_phase a \<noteq> Exited"
    and run: "exec_command env env2 c (ac_worker a) = (reply, w')"
    and ok: "database_ok (w_limits (ac_worker a)) (w_db (ac_worker a))"
    and c: "command_ok c" and env: "env_ok env"
    and held: "holder (op_of w' k) = Some lease"
  shows "(k, lease) \<in> accounted (a\<lparr>ac_worker := w', ac_commands := cs, ac_phase := ph,
    ac_replies := reply_envelope env c reply @ ac_replies a\<rparr>)"
  using run
proof (cases rule: exec_command_cases)
  case skip
  then show ?thesis using no_orphansD [OF orph phase] held by (auto simp: accounted_def)
next
  case (plain res)
  note one = run_command_step [OF plain(1) ok c env]
  from ledger_step_holder [OF conjunct1 [OF one] held] show ?thesis
  proof
    assume "holder (op_of (ac_worker a) k) = Some lease"
    then show ?thesis using no_orphansD [OF orph phase] conjunct2 [OF one] by (auto simp: accounted_def)
  next
    assume "started_in c res k = Some lease"
    then obtain fp where "c = Begin k fp" "res = Inr (ReplyBegin (Started lease))"
      by (cases c; cases res) (auto simp: started_in_def elim!: started_by.elims split: if_splits)
    with plain(2,3) show ?thesis by (auto simp: accounted_def)
  qed
next
  case (unsent k0 fp lease0 w1)
  note one = run_command_step [OF unsent(3) ok c env]
  note two = abandon_or_defer_step [OF ledger_step_ok [OF conjunct1 [OF one]], of env2 k0 lease0]
  have "holder (op_of w1 k) = Some lease"
    using ledger_step_holder [OF two(1)] held unsent(5) by blast
  from ledger_step_holder [OF conjunct1 [OF one] this] show ?thesis
  proof
    assume "holder (op_of (ac_worker a) k) = Some lease"
    then show ?thesis using no_orphansD [OF orph phase] conjunct2 [OF one] two(2) unsent(5)
      by (auto simp: accounted_def)
  next
    assume "started_in c (Inr (ReplyBegin (Started lease0))) k = Some lease"
    then have "k = k0" "lease = lease0" using unsent(1) by (auto simp: started_in_def split: if_splits)
    with two(3) held unsent(5) show ?thesis by (auto simp: accounted_def)
  qed
qed

lemma actor_step_no_orphans:
  assumes step: "actor_step a a'" and inv: "actor_inv a" and orph: "no_orphans a"
  shows "no_orphans a'"
  using step
proof (cases rule: actor_step.cases)
  case (submit rq c)
  then show ?thesis by (intro no_orphans_mono [OF orph]) (auto simp: accounted_def)
next
  case (retry env)
  have ok: "database_ok (w_limits (ac_worker a)) (w_db (ac_worker a))"
    using inv by (simp add: actor_inv_def)
  have "(k, lease) \<in> accounted a'" if "holder (op_of (ac_worker a') k) = Some lease" for k lease
  proof -
    have held: "holder (op_of (retry_one_deferred_abandon env (ac_worker a)) k) = Some lease"
      using that retry by simp
    with ledger_step_holder [OF retry_step(1) [OF ok]]
    have "(k, lease) \<in> accounted a" using no_orphansD [OF orph] retry(2) by fastforce
    with retry_step(2) [OF ok _ held] retry(1) show ?thesis by (auto simp: accounted_def)
  qed
  then show ?thesis by (simp add: no_orphans_def)
next
  case (control k0 lease0 cs env)
  have ok: "database_ok (w_limits (ac_worker a)) (w_db (ac_worker a))"
    using inv by (simp add: actor_inv_def)
  note two = abandon_or_defer_step [OF ok, of env k0 lease0]
  have "(k, lease) \<in> accounted a'" if "holder (op_of (ac_worker a') k) = Some lease" for k lease
  proof -
    have held: "holder (op_of (abandon_or_defer env k0 lease0 (ac_worker a)) k) = Some lease"
      using that control by simp
    with ledger_step_holder [OF two(1)]
    have "(k, lease) \<in> accounted a" using no_orphansD [OF orph] control(2) by fastforce
    with two(2,3) held control(1,3) show ?thesis by (auto simp: accounted_def)
  qed
  then show ?thesis by (simp add: no_orphans_def)
next
  case (receive c cs env env2 reply w')
  have "database_ok (w_limits (ac_worker a)) (w_db (ac_worker a))" "command_ok c"
    using inv receive(3) by (auto simp: actor_inv_def)
  then show ?thesis using receive_no_orphans [OF orph _ receive(6)] receive
    by (auto simp: no_orphans_def)
next
  case (deliver kl)
  then show ?thesis using set_remove1_super [of "ac_replies a" kl]
    by (intro no_orphans_mono [OF orph]) (auto simp: accounted_def)
next
  case (drop_reply k lease)
  then show ?thesis using set_remove1_super [of "ac_replies a" "(k, lease)"]
    by (intro no_orphans_mono [OF orph]) (auto simp: accounted_def)
next
  case (abandon k lease)
  then show ?thesis using set_remove1_super [of "ac_holders a" "(k, lease)"]
    by (intro no_orphans_mono [OF orph]) (auto simp: accounted_def)
next
  case close
  then show ?thesis by (intro no_orphans_mono [OF orph]) (auto simp: accounted_def)
qed (use orph in \<open>auto simp: no_orphans_def accounted_def\<close>)

interpretation actor: advancing_steps actor_step actor_inv
    "\<lambda>a a'. w_limits (ac_worker a') = w_limits (ac_worker a)
      \<and> last_ms (w_clock (ac_worker a)) \<le> last_ms (w_clock (ac_worker a'))
      \<and> (no_orphans a \<longrightarrow> no_orphans a')"
proof unfold_locales
  fix a a' assume "actor_step a a'" "actor_inv a"
  then show "actor_inv a'"
    "w_limits (ac_worker a') = w_limits (ac_worker a) \<and> last_ms (w_clock (ac_worker a)) \<le> last_ms (w_clock (ac_worker a'))
      \<and> (no_orphans a \<longrightarrow> no_orphans a')"
    using actor_step_worker [of a a'] actor_step_no_orphans [of a a'] by auto
qed auto

lemma actor_steps_inv:
  assumes "actor_step\<^sup>*\<^sup>* a a'" and "actor_inv a"
  shows "actor_inv a' \<and> w_limits (ac_worker a') = w_limits (ac_worker a)
    \<and> last_ms (w_clock (ac_worker a)) \<le> last_ms (w_clock (ac_worker a'))
    \<and> (no_orphans a \<longrightarrow> no_orphans a')"
  using actor.steps_inv [OF assms] actor.steps_adv [OF assms] by blast

lemma recover_Inr_time:
  "recover_database ttl uttl now db = Inr db' \<Longrightarrow> is_i64 (now + ttl) \<and> is_i64 (now + uttl)"
  by (auto simp: recover_database_def split: if_splits)

lemma start_inv:
  assumes run: "start cap limits anchor reading1 db = Inr a"
    and inv: "database_inv db" and room: "\<And>l. limits = Inr l \<Longrightarrow> database_bounded l db"
  shows "actor_inv a" and "no_orphans a" and "ac_phase a = Retrying"
proof -
  obtain r c where obs: "observe (fst reading1) (snd reading1) (clock_new (fst anchor) (snd anchor)) = (r, c)"
    by fastforce
  from run obs obtain l now db' where l: "limits = Inr l"
    and rec: "recover_database (lim_ttl_ms l) (lim_upload_ttl_ms l) now db = Inr db'"
    and a: "a = \<lparr>ac_worker = \<lparr>w_db = db', w_clock = c, w_limits = l, w_deferred = []\<rparr>,
      ac_capacity = cap, ac_commands = [], ac_controls = [], ac_phase = Retrying,
      ac_healthy = True, ac_replies = [], ac_holders = []\<rparr>"
    by (cases r) (auto simp: start_def initialize_def result_map_Inr)
  from recover_refines [OF inv, of now "lim_ttl_ms l" "lim_upload_ttl_ms l" l] recover_Inr_time [OF rec] rec
  have db': "database_inv db'" "database_bounded l db'"
    and view: "\<forall>k. operation_view (db_operations db') k =
      spec_recover (now + lim_ttl_ms l) (spec_expire now (operation_view (db_operations db) k))"
    using room [OF l] by auto
  have "holder (operation_view (db_operations db') k) = None" for k
    unfolding view [rule_format]
    by (cases "spec_expire now (operation_view (db_operations db) k)") auto
  then show "actor_inv a" "no_orphans a" "ac_phase a = Retrying"
    using db' by (simp_all add: a actor_inv_def database_ok_def no_orphans_def)
qed

section \<open>Protection of a started commit\<close>

lemma ledger_step_committed:
  assumes "ledger_step st w w'" and "committed_until h (op_of w k)"
    and "last_ms (w_clock w') < h" and "h \<le> last_ms (w_clock w) + lim_ttl_ms (w_limits w)"
  shows "committed_until h (op_of w' k) \<and> st k = None"
proof -
  have "h \<le> last_ms (w_clock w') + lim_ttl_ms (w_limits w)"
    using assms by (simp add: ledger_step_def)
  moreover have "view_step (w_limits w) (last_ms (w_clock w')) (st k) (op_of w k) (op_of w' k)"
    using assms(1) by (simp add: ledger_step_def)
  ultimately show ?thesis using view_step_committed assms(2,3) by blast
qed

lemma exec_command_committed:
  assumes run: "exec_command env env2 c w = (reply, w')" and ok: "database_ok (w_limits w) (w_db w)"
    and c: "command_ok c" and env: "env_ok env"
    and com: "committed_until h (op_of w k)" and before: "last_ms (w_clock w') < h"
    and h: "h \<le> last_ms (w_clock w) + lim_ttl_ms (w_limits w)"
  shows "committed_until h (op_of w' k) \<and> (\<forall>res. reply = Some res \<longrightarrow> started_in c res k = None)"
  using run
proof (cases rule: exec_command_cases)
  case (plain res)
  note one = conjunct1 [OF run_command_step [OF plain(1) ok c env]]
  show ?thesis using ledger_step_committed [OF one com before h] plain(2) by simp
next
  case (unsent k0 fp lease w1)
  note one = conjunct1 [OF run_command_step [OF unsent(3) ok c env]]
  note two = abandon_or_defer_step(1) [OF ledger_step_ok [OF one], of env2 k0 lease]
  have w1: "last_ms (w_clock w1) < h" "h \<le> last_ms (w_clock w1) + lim_ttl_ms (w_limits w1)"
    using one two before h unsent(5) by (auto simp: ledger_step_def)
  note mid = ledger_step_committed [OF one com w1(1) h]
  from ledger_step_committed [OF two conjunct1 [OF mid] _ w1(2)] mid before unsent(4,5)
  show ?thesis by auto
qed (use com in simp_all)

lemma actor_step_committed:
  assumes step: "actor_step a a'" and inv: "actor_inv a"
    and com: "committed_until h (op_of (ac_worker a) k)"
    and before: "last_ms (w_clock (ac_worker a')) < h"
    and h: "h \<le> last_ms (w_clock (ac_worker a)) + lim_ttl_ms (w_limits (ac_worker a))"
  shows "committed_until h (op_of (ac_worker a') k)"
proof -
  have ok: "database_ok (w_limits (ac_worker a)) (w_db (ac_worker a))"
    using inv by (simp add: actor_inv_def)
  show ?thesis using step
  proof (cases rule: actor_step.cases)
    case (retry env)
    then show ?thesis using ledger_step_committed [OF retry_step(1) [OF ok] com _ h] before by auto
  next
    case (control k0 lease0 cs env)
    then show ?thesis using ledger_step_committed [OF abandon_or_defer_step(1) [OF ok] com _ h] before
      by auto
  next
    case (receive c cs env env2 reply w')
    then show ?thesis using exec_command_committed [OF receive(6) ok _ _ com _ h] before inv
      by (auto simp: actor_inv_def)
  qed (use com in simp_all)
qed

lemma actor_steps_committed:
  assumes "actor_step\<^sup>*\<^sup>* a a'" and inv: "actor_inv a"
    and "committed_until h (op_of (ac_worker a) k)"
    and "last_ms (w_clock (ac_worker a')) < h"
    and "h \<le> last_ms (w_clock (ac_worker a)) + lim_ttl_ms (w_limits (ac_worker a))"
  shows "committed_until h (op_of (ac_worker a') k)"
  using assms
proof (induction rule: rtranclp_induct)
  case (step b c)
  from actor_steps_inv [OF step(1) inv] have b: "actor_inv b"
    "w_limits (ac_worker b) = w_limits (ac_worker a)"
    "last_ms (w_clock (ac_worker a)) \<le> last_ms (w_clock (ac_worker b))" by auto
  have mono': "last_ms (w_clock (ac_worker b)) \<le> last_ms (w_clock (ac_worker c))"
    using actor_step_worker [OF step(2) b(1)] by simp
  then have "committed_until h (op_of (ac_worker b) k)" using step by simp
  from actor_step_committed [OF step(2) b(1) this] show ?case using step b by simp
qed simp

section \<open>Draining the deferred abandons\<close>

text \<open>So many turns of the worker that only retry.  The queue and the control channel are left out: the
  commands that come between them are steps of the transition system above.\<close>

fun retries :: "StepEnv list \<Rightarrow> StoreWorker \<Rightarrow> StoreWorker" where
  "retries [] w = w"
| "retries (env # envs) w = retries envs (retry_one_deferred_abandon env w)"

text \<open>Neither SQLite nor the clock fails.\<close>

definition works :: "StepEnv \<Rightarrow> StoreWorker \<Rightarrow> bool" where
  "works env w \<longleftrightarrow> env_fault env = NoFault \<and>
     (case fst (observe (env_wall env) (env_instant env) (w_clock w)) of
        Inl _ \<Rightarrow> False | Inr now \<Rightarrow> is_i64 (now + lim_ttl_ms (w_limits w)))"

fun all_work :: "StepEnv list \<Rightarrow> StoreWorker \<Rightarrow> bool" where
  "all_work [] w = True"
| "all_work (env # envs) w \<longleftrightarrow> works env w \<and> all_work envs (retry_one_deferred_abandon env w)"

lemma works_abandons:
  assumes "works env w" and ok: "database_ok (w_limits w) (w_db w)"
  shows "\<exists>w'. worker_abandon env k lease w = (Inr (), w')"
proof -
  obtain now c where obs: "observe (env_wall env) (env_instant env) (w_clock w) = (Inr now, c)"
    and time: "is_i64 (now + lim_ttl_ms (w_limits w))" and fault: "env_fault env = NoFault"
    using assms(1) by (auto simp: works_def split: sum.splits) (metis fst_conv surj_pair)
  from abandon_refines [OF database_ok_operations(1) [OF ok] time, of k lease]
  obtain t' where "abandon_operation (w_limits w) now k lease (db_operations (w_db w)) = Inr t'" by auto
  then show ?thesis using obs fault by (simp add: worker_abandon_def run_at_def on_operations_def)
qed

lemma works_retry:
  assumes "works env w" and ok: "database_ok (w_limits w) (w_db w)"
    and "w_deferred w = (k, lease) # rest"
  shows "w_deferred (retry_one_deferred_abandon env w) = rest"
    and "holder (op_of (retry_one_deferred_abandon env w) k) \<noteq> Some lease"
proof -
  let ?v = "w\<lparr>w_deferred := rest\<rparr>"
  have ok': "database_ok (w_limits ?v) (w_db ?v)" using ok by simp
  have "works env ?v" using assms(1) by (simp add: works_def split: sum.splits)
  from works_abandons [OF this ok', of k lease]
  obtain w' where run: "worker_abandon env k lease ?v = (Inr (), w')" by blast
  then show "w_deferred (retry_one_deferred_abandon env w) = rest"
    "holder (op_of (retry_one_deferred_abandon env w) k) \<noteq> Some lease"
    using worker_abandon_step(2,3) [OF run ok'] assms(3)
    by (simp_all add: retry_one_deferred_abandon_def)
qed

lemma retries_released:
  assumes "database_ok (w_limits w) (w_db w)" and "holder (op_of w k) \<noteq> Some lease"
  shows "holder (op_of (retries envs w) k) \<noteq> Some lease"
  using assms
proof (induction envs arbitrary: w)
  case (Cons env envs)
  from retry_step(1) [OF Cons.prems(1), of env]
  have "database_ok (w_limits (retry_one_deferred_abandon env w)) (w_db (retry_one_deferred_abandon env w))"
    "holder (op_of (retry_one_deferred_abandon env w) k) \<noteq> Some lease"
    using Cons.prems by (auto dest: ledger_step_ok ledger_step_holder)
  then show ?case using Cons.IH by simp
qed simp

lemma retries_drain:
  assumes "database_ok (w_limits w) (w_db w)" and "length envs = length (w_deferred w)"
    and "all_work envs w"
  shows "w_deferred (retries envs w) = []
    \<and> (\<forall>k lease. (k, lease) \<in> set (w_deferred w) \<longrightarrow> holder (op_of (retries envs w) k) \<noteq> Some lease)"
  using assms
proof (induction envs arbitrary: w)
  case (Cons env envs)
  then obtain k lease rest where d: "w_deferred w = (k, lease) # rest"
    by (cases "w_deferred w") auto
  let ?w = "retry_one_deferred_abandon env w"
  have w: "works env w" using Cons.prems by simp
  note one = works_retry [OF w Cons.prems(1) d]
  have ok: "database_ok (w_limits ?w) (w_db ?w)"
    using retry_step(1) [OF Cons.prems(1), of env] by (rule ledger_step_ok)
  from Cons.IH [OF ok] Cons.prems one(1) d
  have "w_deferred (retries envs ?w) = []"
    "\<forall>k lease. (k, lease) \<in> set rest \<longrightarrow> holder (op_of (retries envs ?w) k) \<noteq> Some lease" by auto
  then show ?case using retries_released [OF ok one(2), of envs] d by auto
qed simp

section \<open>Properties\<close>

text \<open>A short run: a store on an empty database, one \<open>begin\<close> and its reply in the channel.\<close>

abbreviation sample_env :: StepEnv where
  "sample_env \<equiv> \<lparr>env_wall = Some 2000, env_instant = 0, env_fault = NoFault,
     env_lease = replicate 16 9, env_closed = False, env_sent = True, env_probe = Inr ()\<rparr>"

abbreviation sample_start :: Actor where
  "sample_start \<equiv> \<lparr>ac_worker = \<lparr>w_db = empty_database,
       w_clock = \<lparr>wall_anchor_ms = 1000, monotonic_anchor = 0, last_ms = 1000\<rparr>,
       w_limits = sample_limits, w_deferred = []\<rparr>,
     ac_capacity = 4, ac_commands = [], ac_controls = [], ac_phase = Retrying, ac_healthy = True,
     ac_replies = [], ac_holders = []\<rparr>"

abbreviation sample_reserved_worker :: StoreWorker where
  "sample_reserved_worker \<equiv>
     \<lparr>w_db = \<lparr>db_operations = [(sample_key, reserved_row (replicate 32 7) (replicate 16 9) 2000)],
             db_uploads = [], db_purges = []\<rparr>,
       w_clock = \<lparr>wall_anchor_ms = 2000, monotonic_anchor = 0, last_ms = 2000\<rparr>,
       w_limits = sample_limits, w_deferred = []\<rparr>"

abbreviation committing_row :: "i64 \<Rightarrow> OperationRow" where
  "committing_row now \<equiv> (reserved_row (replicate 32 7) (replicate 16 9) now)
     \<lparr>op_state := OPERATION_COMMIT_STARTED, op_updated_at := now\<rparr>"

abbreviation sample_committing_worker :: StoreWorker where
  "sample_committing_worker \<equiv> sample_reserved_worker\<lparr>w_db :=
     \<lparr>db_operations = [(sample_key, committing_row 2000)], db_uploads = [], db_purges = []\<rparr>\<rparr>"

abbreviation sample_replied :: Actor where
  "sample_replied \<equiv> sample_start\<lparr>ac_worker := sample_reserved_worker,
     ac_replies := [(sample_key, replicate 16 9)]\<rparr>"

lemma sample_start_run:
  "start 4 (Inr sample_limits) (1000, 0) (Some 1000, 0) empty_database = Inr sample_start"
  by (simp add: start_def initialize_def observe_def clock_new_def Let_def as_millis_def
      i64_checked_add_def is_i64_def i64_max_def i64_min_def recover_database_def expiration_time_def
      ok_or_def empty_database_def recover_operations_def recover_uploads_def recover_purges_def
      purge_expired_def sql_update_def tbl_delete_def tbl_update_def tbl_all_def tbl_count_def)

lemma sample_begin_run:
  "exec_command sample_env sample_env (Begin sample_key (replicate 32 7)) (ac_worker sample_start) =
     (Some (Inr (ReplyBegin (Started (replicate 16 9)))), sample_reserved_worker)"
proof -
  have "begin_operation sample_limits 2000 (replicate 16 9) sample_key (replicate 32 7) [] =
      Inr (Started (replicate 16 9), [(sample_key, reserved_row (replicate 32 7) (replicate 16 9) 2000)])"
    by (simp add: begin_operation_def purge_expired_def tbl_delete_def load_operation_def
        operation_has_room_def tbl_count_def sql_insert_def tbl_get_def reserved_row_ok [unfolded operation_row_ok_def] key_ok_def)
  then show ?thesis
    by (simp add: exec_command_def run_command_def run_at_def observe_def Let_def as_millis_def
        i64_checked_add_def is_i64_def i64_max_def i64_min_def empty_database_def replying_def
        on_operations_def)
qed

lemma sample_limits_ok: "limits_ok sample_limits"
  by (simp add: limits_ok_def is_i64_def i64_max_def i64_min_def)

lemmas sample_database_bounded = empty_database_bounded [OF sample_limits_ok]

lemma sample_steps: "actor_step\<^sup>*\<^sup>* sample_start sample_replied"
proof -
  let ?c = "Begin sample_key (replicate 32 7)"
  let ?q = "sample_start\<lparr>ac_commands := [?c]\<rparr>"
  have "snd (send ?c sample_start) = ?q" by (simp add: send_def)
  then have 1: "actor_step sample_start ?q"
    using actor_step.submit [of "OnOperations (RqBegin sample_key (replicate 32 7))" ?c sample_start]
    by (simp add: key_ok_def)
  have 2: "actor_step ?q (?q\<lparr>ac_phase := Draining\<rparr>)"
    using actor_step.retry [of ?q sample_env] by (simp add: env_ok_def retry_one_deferred_abandon_def)
  have 3: "actor_step (?q\<lparr>ac_phase := Draining\<rparr>) (?q\<lparr>ac_phase := Receiving\<rparr>)"
    using actor_step.drained [of "?q\<lparr>ac_phase := Draining\<rparr>"] by simp
  have 4: "actor_step (?q\<lparr>ac_phase := Receiving\<rparr>) sample_replied"
    using actor_step.receive [of "?q\<lparr>ac_phase := Receiving\<rparr>" ?c "[]" sample_env sample_env]
      sample_begin_run by (simp add: env_ok_def)
  from 1 2 3 4 show ?thesis by (meson converse_rtranclp_into_rtranclp rtranclp.rtrancl_refl)
qed

text \<open>C11: The running store keeps its database valid.  Started on a valid database within its
  capacities, in every state that any interleaving of requests, control messages, faults and
  worker turns can reach, every row of the three tables satisfies the schema and decodes, no two
  live uploads share a stage path, trash paths are unique, the global and per-owner capacities
  are respected, and the command queue never exceeds its bound.\<close>

theorem store_stays_valid:
  assumes "start cap limits anchor reading1 db = Inr a0" and "limits = Inr l"
    and "database_inv db" and "database_bounded l db" and "actor_step\<^sup>*\<^sup>* a0 a"
  shows "database_inv (w_db (ac_worker a)) \<and> database_bounded l (w_db (ac_worker a))
    \<and> length (ac_commands a) \<le> cap"
proof -
  have a0: "actor_inv a0" using start_inv(1) [OF assms(1,3)] assms(2,4) by auto
  have "w_limits (ac_worker a0) = l" "ac_capacity a0 = cap"
    using assms(1,2) by (auto simp: start_def initialize_def result_map_Inr split: prod.splits sum.splits)
  moreover have "ac_capacity a = ac_capacity a0"
    using assms(5)
  proof (induction rule: rtranclp_induct)
    case (step b c)
    from step(2) have "ac_capacity c = ac_capacity b" by cases simp_all
    with step.IH show ?case by simp
  qed simp
  ultimately show ?thesis
    using actor_steps_inv [OF assms(5) a0] by (auto simp: actor_inv_def database_ok_def)
qed

theorem store_stays_valid_witness:
  "database_inv (w_db sample_reserved_worker)
    \<and> database_bounded sample_limits (w_db sample_reserved_worker)"
  using store_stays_valid [OF sample_start_run refl empty_database_inv
      sample_database_bounded sample_steps]
  by simp

text \<open>C12: No reservation is orphaned.  While the worker runs, every operation that is reserved or
  committing has someone who will still settle it: the requester that received the lease, the
  reply that carries it, an abandon waiting in the control channel, or one deferred after a
  database failure; this holds for every interleaving, including requesters that disappear at any
  moment and transactions that fail.\<close>

theorem reservations_accounted_for:
  assumes "start cap limits anchor reading1 db = Inr a0" and "limits = Inr l"
    and "database_inv db" and "database_bounded l db" and "actor_step\<^sup>*\<^sup>* a0 a"
    and "ac_phase a \<noteq> Exited"
    and "operation_view (db_operations (w_db (ac_worker a))) k \<in> {ReservedBy fp lease, CommittingBy fp lease}"
  shows "(k, lease) \<in> set (ac_holders a) \<or> (k, lease) \<in> set (ac_replies a)
    \<or> Abandon k lease \<in> set (ac_controls a) \<or> (k, lease) \<in> set (w_deferred (ac_worker a))"
proof -
  have "actor_inv a0" "no_orphans a0" using start_inv(1,2) [OF assms(1,3)] assms(2,4) by auto
  then have "no_orphans a" using actor_steps_inv [OF assms(5)] by blast
  moreover have "holder (op_of (ac_worker a) k) = Some lease" using assms(7) by auto
  ultimately show ?thesis using no_orphansD [OF _ assms(6)] by (auto simp: accounted_def)
qed

theorem reservations_accounted_for_witness:
  "actor_step\<^sup>*\<^sup>* sample_start sample_replied
    \<and> (sample_key, replicate 16 9) \<in> set (ac_replies sample_replied)"
  using reservations_accounted_for [OF sample_start_run refl empty_database_inv
      sample_database_bounded sample_steps, of sample_key "replicate 32 7" "replicate 16 9"] sample_steps
  by (simp add: operation_view_def tbl_get_def)

text \<open>C13: No second execution.  From a moment where the commit of an operation has started, no
  \<open>begin\<close> for its key hands out a new lease before one operation TTL has passed on the store's
  clock, whatever the requesters, faults and worker turns in between, and the key is not
  forgotten.\<close>

theorem no_second_execution:
  assumes inv: "actor_inv a"
    and com: "operation_view (db_operations (w_db (ac_worker a))) k = CommittingBy fp lease"
    and steps: "actor_step\<^sup>*\<^sup>* a a'"
    and "env_ok env" and "key_ok k" and "length fp' = 32"
    and run: "exec_command env env2 (Begin k fp') (ac_worker a') = (reply, w')"
    and before: "last_ms (w_clock w') <
      last_ms (w_clock (ac_worker a)) + lim_ttl_ms (w_limits (ac_worker a))"
  shows "(\<forall>lease'. reply \<noteq> Some (Inr (ReplyBegin (Started lease'))))
    \<and> operation_view (db_operations (w_db w')) k \<noteq> Absent"
proof -
  let ?h = "last_ms (w_clock (ac_worker a)) + lim_ttl_ms (w_limits (ac_worker a))"
  from actor_steps_inv [OF steps inv] have inv': "actor_inv a'"
    and lim: "w_limits (ac_worker a') = w_limits (ac_worker a)"
    and time: "last_ms (w_clock (ac_worker a)) \<le> last_ms (w_clock (ac_worker a'))" by auto
  have ok: "database_ok (w_limits (ac_worker a')) (w_db (ac_worker a'))"
    using inv' by (simp add: actor_inv_def)
  have c: "command_ok (Begin k fp')" using assms by simp
  have "last_ms (w_clock (ac_worker a')) < ?h"
    using exec_command_ok [OF run ok c \<open>env_ok env\<close>] before by simp
  then have "committed_until ?h (op_of (ac_worker a') k)"
    by (intro actor_steps_committed [OF steps inv]) (simp_all add: com)
  from exec_command_committed [OF run ok c \<open>env_ok env\<close> this before] time lim
  have fin: "committed_until ?h (op_of w' k)"
    and st: "\<forall>res. reply = Some res \<longrightarrow> started_in (Begin k fp') res k = None" by auto
  from fin have "op_of w' k \<noteq> Absent" by auto
  moreover have "reply \<noteq> Some (Inr (ReplyBegin (Started lease')))" for lease'
    using st by (auto simp: started_in_def)
  ultimately show ?thesis by blast
qed

lemma sample_worker_ok:
  "database_ok sample_limits (w_db sample_reserved_worker)"
  "database_ok sample_limits (w_db sample_committing_worker)"
proof -
  have "operation_row_ok sample_key (reserved_row (replicate 32 7) (replicate 16 9) 2000)"
    by (rule reserved_row_ok) (simp_all add: key_ok_def)
  moreover from mark_row_ok [OF this]
  have "operation_row_ok sample_key (committing_row 2000)" by (simp add: reserved_row_def)
  ultimately show "database_ok sample_limits (w_db sample_reserved_worker)"
    "database_ok sample_limits (w_db sample_committing_worker)"
    by (simp_all add: database_ok_def database_inv_def database_bounded_def operations_inv_def
        tbl_all_def operations_bounded_def uploads_bounded_def purges_bounded_def tbl_count_def tbl_wf_def)
qed

theorem no_second_execution_witness:
  "\<exists>reply w'. exec_command sample_env sample_env (Begin sample_key (replicate 32 7))
      sample_committing_worker = (reply, w')
    \<and> (\<forall>lease'. reply \<noteq> Some (Inr (ReplyBegin (Started lease'))))
    \<and> operation_view (db_operations (w_db w')) sample_key \<noteq> Absent"
proof -
  let ?a = "sample_start\<lparr>ac_worker := sample_committing_worker\<rparr>"
  have inv: "actor_inv ?a" using sample_worker_ok(2) by (simp add: actor_inv_def)
  have run: "exec_command sample_env sample_env (Begin sample_key (replicate 32 7)) (ac_worker ?a) =
    (Some (Inr (ReplyBegin BeginRunning)), sample_committing_worker)"
    by (simp add: exec_command_def run_command_def run_at_def observe_def Let_def as_millis_def
        i64_checked_add_def is_i64_def i64_max_def i64_min_def replying_def on_operations_def
        begin_operation_def purge_expired_def tbl_delete_def load_operation_def tbl_get_def
        reserved_row_def operation_expired_def operation_states)
  have view: "operation_view (db_operations (w_db (ac_worker ?a))) sample_key =
    CommittingBy (replicate 32 7) (replicate 16 9)"
    by (simp add: operation_view_def tbl_get_def row_view_def reserved_row_def operation_states)
  have "env_ok sample_env" "key_ok sample_key" "length (replicate 32 (7 :: byte)) = 32"
    by (simp_all add: env_ok_def key_ok_def)
  from no_second_execution [OF inv view rtranclp.rtrancl_refl this run] run show ?thesis by simp
qed

text \<open>C14: Deferred cleanup makes progress.  When SQLite and the clock work for as many worker turns
  as there are deferred abandons, the deferred queue is empty afterwards and none of those leases
  holds its key any more.\<close>

theorem deferred_abandons_drain:
  assumes "database_inv (w_db w)" and "database_bounded (w_limits w) (w_db w)"
    and "length envs = length (w_deferred w)" and "all_work envs w"
  shows "w_deferred (retries envs w) = []
    \<and> (\<forall>(k, lease) \<in> set (w_deferred w). \<forall>fp.
        operation_view (db_operations (w_db (retries envs w))) k
          \<notin> {ReservedBy fp lease, CommittingBy fp lease})"
proof -
  have "database_ok (w_limits w) (w_db w)" using assms by (simp add: database_ok_def)
  from retries_drain [OF this assms(3,4)] show ?thesis by fastforce
qed

theorem deferred_abandons_drain_witness:
  "\<exists>w. w_deferred w = [(sample_key, replicate 16 9)]
    \<and> operation_view (db_operations (w_db w)) sample_key = ReservedBy (replicate 32 7) (replicate 16 9)
    \<and> w_deferred (retries [sample_env] w) = []
    \<and> (\<forall>fp. operation_view (db_operations (w_db (retries [sample_env] w))) sample_key
         \<notin> {ReservedBy fp (replicate 16 9), CommittingBy fp (replicate 16 9)})"
proof -
  let ?w = "sample_reserved_worker\<lparr>w_deferred := [(sample_key, replicate 16 9)]\<rparr>"
  have work: "all_work [sample_env] ?w"
    by (simp add: works_def observe_def Let_def as_millis_def i64_checked_add_def is_i64_def
        i64_max_def i64_min_def)
  have view: "operation_view (db_operations (w_db ?w)) sample_key =
    ReservedBy (replicate 32 7) (replicate 16 9)"
    by (simp add: operation_view_def tbl_get_def)
  show ?thesis
    using deferred_abandons_drain [OF _ _ _ work] sample_worker_ok(1) view
    by (intro exI [of _ ?w]) (simp add: database_ok_def del: retries.simps)
qed

end
