(* ===== verification/Path_Coordinator.thy ===== *)
theory Path_Coordinator
  imports Paths Tables
begin

text \<open>
  The path coordinator (\<open>src/src/server/path_coordinator.rs\<close>): mutation leases over sets of
  paths.  A request registers as a waiter, resolves its paths through the rooted file system and
  acquires a lease when neither a held lease nor an earlier waiter conflicts.  The operations
  under the two mutexes are functions on the coordinator; the loop of \<open>acquire_inner\<close> is a task
  with one phase per atomic action, so that any interleaving of requests is a run of the step
  relation.  Taking a waiter id and inserting the waiter are two actions, as are removing a dropped
  waiter and announcing it.  Resolution goes through the file system and may return anything: its results are
  arguments of the step.  The counters are 64-bit and wrap; the model counts without wrap-around,
  which covers every run of fewer than \<open>2 ^ 64\<close> operations.
\<close>

section \<open>Keys and conflicts\<close>

type_synonym FileIdentity = "u64 \<times> u64"

record ResolvedPathKey =
  resolved_parent :: FileIdentity
  unresolved_tail :: "bytes list"
  ancestor_directories :: "FileIdentity list"
  target_directory :: "FileIdentity option"

record LeaseKey =
  lk_lexical :: bytes
  lk_resolved :: ResolvedPathKey

definition normalize_key :: "bytes \<Rightarrow> bytes" where
  "normalize_key p = foldl push_component [] (components p)"

definition conservative_path_key :: "FileIdentity \<Rightarrow> ResolvedPathKey" where
  "conservative_path_key root_identity =
     \<lparr>resolved_parent = root_identity, unresolved_tail = [],
      ancestor_directories = [root_identity], target_directory = Some root_identity\<rparr>"

definition anchored_tail_is_prefix :: "ResolvedPathKey \<Rightarrow> ResolvedPathKey \<Rightarrow> bool" where
  "anchored_tail_is_prefix l r \<longleftrightarrow>
     resolved_parent l = resolved_parent r
     \<and> length (unresolved_tail l) \<le> length (unresolved_tail r)
     \<and> list_all (\<lambda>(a, b). a = b) (zip (unresolved_tail l) (unresolved_tail r))"

definition target_contains :: "ResolvedPathKey \<Rightarrow> ResolvedPathKey \<Rightarrow> bool" where
  "target_contains l r \<longleftrightarrow>
     (case target_directory l of None \<Rightarrow> False | Some i \<Rightarrow> i \<in> set (ancestor_directories r))"

definition resolved_path_contains :: "ResolvedPathKey \<Rightarrow> ResolvedPathKey \<Rightarrow> bool" where
  "resolved_path_contains ancestor descendant \<longleftrightarrow>
     anchored_tail_is_prefix ancestor descendant \<or> target_contains ancestor descendant"

definition resolved_paths_conflict :: "ResolvedPathKey \<Rightarrow> ResolvedPathKey \<Rightarrow> bool" where
  "resolved_paths_conflict l r \<longleftrightarrow>
     anchored_tail_is_prefix l r \<or> anchored_tail_is_prefix r l
     \<or> target_contains l r \<or> target_contains r l"

definition resolved_path_strictly_contains :: "ResolvedPathKey \<Rightarrow> ResolvedPathKey \<Rightarrow> bool" where
  "resolved_path_strictly_contains ancestor descendant \<longleftrightarrow>
     (length (unresolved_tail ancestor) < length (unresolved_tail descendant)
      \<and> anchored_tail_is_prefix ancestor descendant)
     \<or> target_contains ancestor descendant"

definition lexical_conflict :: "bytes \<Rightarrow> bytes \<Rightarrow> bool" where
  "lexical_conflict l r \<longleftrightarrow> path_starts_with l r \<or> path_starts_with r l"

definition path_keys_conflict :: "LeaseKey \<Rightarrow> LeaseKey \<Rightarrow> bool" where
  "path_keys_conflict l r \<longleftrightarrow>
     path_starts_with (lk_lexical l) (lk_lexical r) \<or> path_starts_with (lk_lexical r) (lk_lexical l)
     \<or> resolved_paths_conflict (lk_resolved l) (lk_resolved r)"

definition paths_conflict :: "LeaseKey list \<Rightarrow> LeaseKey list \<Rightarrow> bool" where
  "paths_conflict ls rs \<longleftrightarrow> list_ex (\<lambda>l. list_ex (\<lambda>r. path_keys_conflict l r) rs) ls"

definition path_strictly_contains :: "LeaseKey \<Rightarrow> LeaseKey \<Rightarrow> bool" where
  "path_strictly_contains ancestor descendant \<longleftrightarrow>
     (\<not> path_eq (lk_lexical ancestor) (lk_lexical descendant)
      \<and> path_starts_with (lk_lexical descendant) (lk_lexical ancestor))
     \<or> resolved_path_strictly_contains (lk_resolved ancestor) (lk_resolved descendant)"

definition paths_identify_same_entry :: "LeaseKey \<Rightarrow> LeaseKey \<Rightarrow> bool" where
  "paths_identify_same_entry l r \<longleftrightarrow>
     path_eq (lk_lexical l) (lk_lexical r)
     \<or> (resolved_parent (lk_resolved l) = resolved_parent (lk_resolved r)
        \<and> unresolved_tail (lk_resolved l) = unresolved_tail (lk_resolved r))"

section \<open>The coordinator\<close>

datatype WaiterState = WaiterResolving "bytes list" | WaiterResolved "LeaseKey list"

record CoordinatorInner =
  co_root :: FileIdentity
  co_leases :: "(nat, LeaseKey list) table"
  co_waiters :: "(nat, WaiterState) table"
  co_next_id :: nat
  co_next_waiter_id :: nat
  co_lease_epoch :: nat
  co_changes :: nat

definition coordinator_new :: "FileIdentity \<Rightarrow> CoordinatorInner" where
  "coordinator_new root =
     \<lparr>co_root = root, co_leases = [], co_waiters = [], co_next_id = 1, co_next_waiter_id = 1,
      co_lease_epoch = 0, co_changes = 0\<rparr>"

fun waiter_conflicts :: "WaiterState \<Rightarrow> LeaseKey list \<Rightarrow> bool" where
  "waiter_conflicts (WaiterResolving lexical_paths) requested \<longleftrightarrow>
     list_ex (\<lambda>l. list_ex (\<lambda>r. path_starts_with l (lk_lexical r) \<or> path_starts_with (lk_lexical r) l)
       requested) lexical_paths"
| "waiter_conflicts (WaiterResolved paths) requested \<longleftrightarrow> paths_conflict paths requested"

fun waiter_lexically_conflicts :: "WaiterState \<Rightarrow> bytes list \<Rightarrow> bool" where
  "waiter_lexically_conflicts (WaiterResolving lexical_paths) requested \<longleftrightarrow>
     list_ex (\<lambda>l. list_ex (\<lambda>r. path_starts_with l r \<or> path_starts_with r l) requested) lexical_paths"
| "waiter_lexically_conflicts (WaiterResolved paths) requested \<longleftrightarrow>
     list_ex (\<lambda>l. list_ex (\<lambda>r. path_starts_with (lk_lexical l) r \<or> path_starts_with r (lk_lexical l))
       requested) paths"

text \<open>\<open>WaiterRegistration::new\<close>, \<open>mark_resolving_if_eligible\<close> and its \<open>Drop\<close>; \<open>earlier\<close> is
  \<open>waiters.range(..id).any(..)\<close>.\<close>

definition earlier :: "(WaiterState \<Rightarrow> bool) \<Rightarrow> nat \<Rightarrow> CoordinatorInner \<Rightarrow> bool" where
  "earlier P n c \<longleftrightarrow> list_ex (\<lambda>(i, w). i < n \<and> P w) (co_waiters c)"

definition waiter_fetch_id :: "CoordinatorInner \<Rightarrow> nat \<times> CoordinatorInner" where
  "waiter_fetch_id c = (co_next_waiter_id c, c\<lparr>co_next_waiter_id := co_next_waiter_id c + 1\<rparr>)"

definition waiter_register :: "nat \<Rightarrow> bytes list \<Rightarrow> CoordinatorInner \<Rightarrow> CoordinatorInner" where
  "waiter_register n lexical_paths c =
     c\<lparr>co_waiters := tbl_put n (WaiterResolving lexical_paths) (co_waiters c)\<rparr>"

definition set_waiter :: "nat \<Rightarrow> WaiterState \<Rightarrow> CoordinatorInner \<Rightarrow> CoordinatorInner" where
  "set_waiter n s c = c\<lparr>co_waiters := tbl_update (\<lambda>i _. i = n) (\<lambda>_. s) (co_waiters c)\<rparr>"

definition mark_resolving_if_eligible ::
  "nat \<Rightarrow> bytes list \<Rightarrow> LeaseKey list option \<Rightarrow> CoordinatorInner \<Rightarrow> bool \<times> CoordinatorInner" where
  "mark_resolving_if_eligible n lexical_paths previous_paths c =
     (if earlier (\<lambda>w. case previous_paths of
           None \<Rightarrow> waiter_lexically_conflicts w lexical_paths
         | Some paths \<Rightarrow> waiter_conflicts w paths) n c
      then (False, c)
      else (True, set_waiter n (WaiterResolving lexical_paths) c))"

definition bump :: "CoordinatorInner \<Rightarrow> CoordinatorInner" where
  "bump c = c\<lparr>co_changes := co_changes c + 1\<rparr>"

text \<open>A dropped registration leaves the map under the lock; when it was there, the change is
  announced after the lock is released.\<close>

definition waiter_drop :: "nat \<Rightarrow> CoordinatorInner \<Rightarrow> bool \<times> CoordinatorInner" where
  "waiter_drop n c =
     (tbl_get (co_waiters c) n \<noteq> None, c\<lparr>co_waiters := tbl_delete (\<lambda>i _. i = n) (co_waiters c)\<rparr>)"

definition lease_drop :: "nat \<Rightarrow> CoordinatorInner \<Rightarrow> CoordinatorInner" where
  "lease_drop n c =
     (if tbl_get (co_leases c) n = None then c
      else bump (c\<lparr>co_leases := tbl_delete (\<lambda>i _. i = n) (co_leases c),
                   co_lease_epoch := co_lease_epoch c + 1\<rparr>))"

datatype AcquireAttempt = Acquired nat | Blocked | Stale

definition is_resolving :: "WaiterState \<Rightarrow> bool" where
  "is_resolving w = (case w of WaiterResolving _ \<Rightarrow> True | WaiterResolved _ \<Rightarrow> False)"

definition try_acquire ::
  "LeaseKey list \<Rightarrow> nat \<Rightarrow> nat \<Rightarrow> CoordinatorInner \<Rightarrow> AcquireAttempt \<times> CoordinatorInner" where
  "try_acquire requested expected_epoch waiter_id c =
     (if co_lease_epoch c \<noteq> expected_epoch then (Stale, c)
      else (case tbl_get (co_waiters c) waiter_id of
        None \<Rightarrow> (Stale, c)
      | Some waiter \<Rightarrow>
          let c1 = set_waiter waiter_id (WaiterResolved requested) c in
          if list_ex (\<lambda>(_, held). paths_conflict held requested) (co_leases c1)
             \<or> earlier (\<lambda>w. waiter_conflicts w requested) waiter_id c1
          then (Blocked, if is_resolving waiter then bump c1 else c1)
          else (Acquired (co_next_id c1),
                bump (c1\<lparr>co_next_id := co_next_id c1 + 1,
                         co_waiters := tbl_delete (\<lambda>i _. i = waiter_id) (co_waiters c1),
                         co_leases := tbl_put (co_next_id c1) requested (co_leases c1)\<rparr>))))"

section \<open>Requests that acquire\<close>

text \<open>\<open>Vec::sort\<close> and \<open>Vec::dedup\<close> on paths.\<close>

fun dedup_paths :: "bytes list \<Rightarrow> bytes list" where
  "dedup_paths (p # q # ps) =
     (if path_eq p q then dedup_paths (p # ps) else p # dedup_paths (q # ps))"
| "dedup_paths ps = ps"

definition acquire_paths :: "bytes list \<Rightarrow> bytes list" where
  "acquire_paths paths = dedup_paths (sort_key components (map normalize_key paths))"

text \<open>The atomic actions of the loop in \<open>acquire_inner\<close>: reading the change counter, loading the
  epoch, marking the waiter, resolving the paths, trying to acquire, waiting for a change.\<close>

datatype task_phase = AtTop | LoadingEpoch | Marking | ResolvingKeys | Trying | Sleeping

record Task =
  tk_lexical :: "bytes list"
  tk_seen :: nat
  tk_expected :: nat
  tk_resolved :: "(nat \<times> LeaseKey list) option"
  tk_phase :: task_phase

text \<open>\<open>cn_registering\<close> are the requests between taking their id and inserting the waiter, \<open>cn_notices\<close>
  counts the dropped waiters whose change is not announced yet.\<close>

record Coordination =
  cn_inner :: CoordinatorInner
  cn_tasks :: "(nat, Task) table"
  cn_registering :: "(nat, bytes list) table"
  cn_notices :: nat

definition resolved_keys :: "FileIdentity \<Rightarrow> bytes list \<Rightarrow> ResolvedPathKey option list \<Rightarrow> LeaseKey list" where
  "resolved_keys root lexical_paths results =
     map (\<lambda>(l, k). \<lparr>lk_lexical = l,
            lk_resolved = (case k of None \<Rightarrow> conservative_path_key root | Some r \<Rightarrow> r)\<rparr>)
       (zip lexical_paths results)"

definition set_task :: "nat \<Rightarrow> Task \<Rightarrow> Coordination \<Rightarrow> Coordination" where
  "set_task n t s = s\<lparr>cn_tasks := tbl_put n t (cn_tasks s)\<rparr>"

definition acquire_begin :: "bytes list \<Rightarrow> Coordination \<Rightarrow> Coordination" where
  "acquire_begin paths s =
     (case waiter_fetch_id (cn_inner s) of (n, c) \<Rightarrow>
        s\<lparr>cn_inner := c, cn_registering := tbl_put n (acquire_paths paths) (cn_registering s)\<rparr>)"

definition acquire_register :: "nat \<Rightarrow> bytes list \<Rightarrow> Coordination \<Rightarrow> Coordination" where
  "acquire_register n lexical_paths s =
     set_task n \<lparr>tk_lexical = lexical_paths, tk_seen = co_changes (cn_inner s), tk_expected = 0,
                 tk_resolved = None, tk_phase = AtTop\<rparr>
       (s\<lparr>cn_inner := waiter_register n lexical_paths (cn_inner s),
          cn_registering := tbl_delete (\<lambda>i _. i = n) (cn_registering s)\<rparr>)"

definition task_borrow :: "CoordinatorInner \<Rightarrow> Task \<Rightarrow> Task" where
  "task_borrow c t = t\<lparr>tk_seen := co_changes c, tk_phase := LoadingEpoch\<rparr>"

definition task_load_epoch :: "CoordinatorInner \<Rightarrow> Task \<Rightarrow> Task" where
  "task_load_epoch c t =
     t\<lparr>tk_expected := co_lease_epoch c,
       tk_phase := (case tk_resolved t of
                      None \<Rightarrow> Marking
                    | Some (epoch, _) \<Rightarrow> if epoch \<noteq> co_lease_epoch c then Marking else Trying)\<rparr>"

definition task_resolve :: "CoordinatorInner \<Rightarrow> ResolvedPathKey option list \<Rightarrow> Task \<Rightarrow> Task" where
  "task_resolve c results t =
     t\<lparr>tk_resolved := Some (tk_expected t, resolved_keys (co_root c) (tk_lexical t) results),
       tk_phase := Trying\<rparr>"

definition task_wake :: "CoordinatorInner \<Rightarrow> Task \<Rightarrow> Task" where
  "task_wake c t = t\<lparr>tk_seen := co_changes c, tk_phase := AtTop\<rparr>"

definition task_mark :: "nat \<Rightarrow> Task \<Rightarrow> Coordination \<Rightarrow> Coordination" where
  "task_mark n t s =
     (case mark_resolving_if_eligible n (tk_lexical t) (map_option snd (tk_resolved t)) (cn_inner s) of
        (eligible, c) \<Rightarrow>
          set_task n (t\<lparr>tk_phase := (if eligible then ResolvingKeys else Sleeping)\<rparr>) (s\<lparr>cn_inner := c\<rparr>))"

definition task_try :: "nat \<Rightarrow> Task \<Rightarrow> Coordination \<Rightarrow> Coordination" where
  "task_try n t s =
     (case tk_resolved t of
        None \<Rightarrow> s
      | Some (_, paths) \<Rightarrow>
          (case try_acquire paths (tk_expected t) n (cn_inner s) of
             (Acquired _, c) \<Rightarrow> s\<lparr>cn_inner := c, cn_tasks := tbl_delete (\<lambda>i _. i = n) (cn_tasks s)\<rparr>
           | (Stale, c) \<Rightarrow> set_task n (t\<lparr>tk_phase := AtTop\<rparr>) (s\<lparr>cn_inner := c\<rparr>)
           | (Blocked, c) \<Rightarrow> set_task n (t\<lparr>tk_phase := Sleeping\<rparr>) (s\<lparr>cn_inner := c\<rparr>)))"

text \<open>The request is dropped while it waits.\<close>

definition task_cancel :: "nat \<Rightarrow> Coordination \<Rightarrow> Coordination" where
  "task_cancel n s =
     (case waiter_drop n (cn_inner s) of (removed, c) \<Rightarrow>
        s\<lparr>cn_inner := c, cn_tasks := tbl_delete (\<lambda>i _. i = n) (cn_tasks s),
          cn_notices := (if removed then cn_notices s + 1 else cn_notices s)\<rparr>)"

inductive co_step :: "Coordination \<Rightarrow> Coordination \<Rightarrow> bool" where
  begin_acquire: "paths \<noteq> [] \<Longrightarrow> co_step s (acquire_begin paths s)"
| register: "tbl_get (cn_registering s) n = Some lexical_paths \<Longrightarrow>
    co_step s (acquire_register n lexical_paths s)"
| borrow: "tbl_get (cn_tasks s) n = Some t \<Longrightarrow> tk_phase t = AtTop \<Longrightarrow>
    co_step s (set_task n (task_borrow (cn_inner s) t) s)"
| load: "tbl_get (cn_tasks s) n = Some t \<Longrightarrow> tk_phase t = LoadingEpoch \<Longrightarrow>
    co_step s (set_task n (task_load_epoch (cn_inner s) t) s)"
| mark: "tbl_get (cn_tasks s) n = Some t \<Longrightarrow> tk_phase t = Marking \<Longrightarrow> co_step s (task_mark n t s)"
| resolve: "tbl_get (cn_tasks s) n = Some t \<Longrightarrow> tk_phase t = ResolvingKeys \<Longrightarrow>
    length results = length (tk_lexical t) \<Longrightarrow>
    co_step s (set_task n (task_resolve (cn_inner s) results t) s)"
| attempt: "tbl_get (cn_tasks s) n = Some t \<Longrightarrow> tk_phase t = Trying \<Longrightarrow> co_step s (task_try n t s)"
| wake: "tbl_get (cn_tasks s) n = Some t \<Longrightarrow> tk_phase t = Sleeping \<Longrightarrow>
    tk_seen t \<noteq> co_changes (cn_inner s) \<Longrightarrow>
    co_step s (set_task n (task_wake (cn_inner s) t) s)"
| cancel: "tbl_get (cn_tasks s) n = Some t \<Longrightarrow> co_step s (task_cancel n s)"
| announce: "0 < cn_notices s \<Longrightarrow>
    co_step s (s\<lparr>cn_inner := bump (cn_inner s), cn_notices := cn_notices s - 1\<rparr>)"
| release: "tbl_get (co_leases (cn_inner s)) n = Some ks \<Longrightarrow>
    co_step s (s\<lparr>cn_inner := lease_drop n (cn_inner s)\<rparr>)"

definition coordination_new :: "FileIdentity \<Rightarrow> Coordination" where
  "coordination_new root =
     \<lparr>cn_inner = coordinator_new root, cn_tasks = [], cn_registering = [], cn_notices = 0\<rparr>"

section \<open>Laws of the conflict relation\<close>

lemma tails_prefix_iff:
  "length xs \<le> length ys \<and> list_all (\<lambda>(a, b). a = b) (zip xs ys) \<longleftrightarrow> (\<exists>zs. ys = xs @ zs)"
proof (induction xs arbitrary: ys)
  case (Cons x xs)
  then show ?case by (cases ys) auto
qed simp

lemma anchored_tail_is_prefix_iff:
  "anchored_tail_is_prefix l r \<longleftrightarrow> resolved_parent l = resolved_parent r
    \<and> (\<exists>zs. unresolved_tail r = unresolved_tail l @ zs)"
  using tails_prefix_iff [of "unresolved_tail l" "unresolved_tail r"]
  by (auto simp: anchored_tail_is_prefix_def)

lemma resolved_paths_conflict_sym: "resolved_paths_conflict l r \<longleftrightarrow> resolved_paths_conflict r l"
  by (auto simp: resolved_paths_conflict_def)

lemma path_keys_conflict_sym: "path_keys_conflict l r \<longleftrightarrow> path_keys_conflict r l"
  by (auto simp: path_keys_conflict_def resolved_paths_conflict_sym)

lemma path_keys_conflict_refl [simp]: "path_keys_conflict l l"
  by (simp add: path_keys_conflict_def)

lemma paths_conflict_iff:
  "paths_conflict ls rs \<longleftrightarrow> (\<exists>l\<in>set ls. \<exists>r\<in>set rs. path_keys_conflict l r)"
  by (auto simp: paths_conflict_def list_ex_iff)

lemma paths_conflict_sym: "paths_conflict ls rs \<longleftrightarrow> paths_conflict rs ls"
  using path_keys_conflict_sym by (fastforce simp: paths_conflict_iff)

lemma components_normalize_key [simp]: "components (normalize_key p) = components p"
  by (simp add: normalize_key_def components_rebuild components_wf)

text \<open>A key that could not be resolved conflicts with every key below the shared root.\<close>

lemma conservative_key_conflicts:
  assumes "root \<in> set (ancestor_directories (lk_resolved k))"
  shows "path_keys_conflict \<lparr>lk_lexical = p, lk_resolved = conservative_path_key root\<rparr> k"
  using assms
  by (simp add: path_keys_conflict_def resolved_paths_conflict_def target_contains_def
      conservative_path_key_def)

section \<open>Laws of the operations\<close>

lemma tbl_ex_get:
  "tbl_wf t \<Longrightarrow> list_ex (\<lambda>(i, x). Q i x) t \<longleftrightarrow> (\<exists>i x. tbl_get t i = Some x \<and> Q i x)"
  by (auto simp: list_ex_iff tbl_get_Some_set)

lemma earlier_iff:
  "tbl_wf (co_waiters c) \<Longrightarrow>
    earlier P n c \<longleftrightarrow> (\<exists>i w. tbl_get (co_waiters c) i = Some w \<and> i < n \<and> P w)"
  by (simp add: earlier_def tbl_ex_get)

lemma set_task_sel [simp]:
  "cn_inner (set_task n t s) = cn_inner s" "cn_registering (set_task n t s) = cn_registering s"
  "cn_notices (set_task n t s) = cn_notices s"
  "tbl_get (cn_tasks (set_task n t s)) m = (if m = n then Some t else tbl_get (cn_tasks s) m)"
  "tbl_wf (cn_tasks s) \<Longrightarrow> tbl_wf (cn_tasks (set_task n t s))"
  by (simp_all add: set_task_def tbl_get_put tbl_wf_put)

lemma set_waiter_sel [simp]:
  "co_leases (set_waiter n w c) = co_leases c" "co_next_id (set_waiter n w c) = co_next_id c"
  "co_next_waiter_id (set_waiter n w c) = co_next_waiter_id c" "co_root (set_waiter n w c) = co_root c"
  "co_lease_epoch (set_waiter n w c) = co_lease_epoch c" "co_changes (set_waiter n w c) = co_changes c"
  "tbl_get (co_waiters (set_waiter n w c)) m =
    (if m = n \<and> tbl_get (co_waiters c) n \<noteq> None then Some w else tbl_get (co_waiters c) m)"
  "tbl_wf (co_waiters c) \<Longrightarrow> tbl_wf (co_waiters (set_waiter n w c))"
  by (auto simp: set_waiter_def tbl_get_update tbl_wf_update split: option.splits)

lemma bump_sel [simp]:
  "co_leases (bump c) = co_leases c" "co_next_id (bump c) = co_next_id c"
  "co_next_waiter_id (bump c) = co_next_waiter_id c" "co_root (bump c) = co_root c"
  "co_lease_epoch (bump c) = co_lease_epoch c" "co_changes (bump c) = Suc (co_changes c)"
  "co_waiters (bump c) = co_waiters c"
  by (simp_all add: bump_def)

lemma tbl_get_delete_key:
  "tbl_wf t \<Longrightarrow> tbl_get (tbl_delete (\<lambda>i _. i = n) t) m = (if m = n then None else tbl_get t m)"
  by (simp add: tbl_get_delete split: option.split)

lemma try_acquire_cases:
  assumes "try_acquire ks e n c = (att, c')" and "tbl_wf (co_waiters c)" and "tbl_wf (co_leases c)"
  obtains (stale) "att = Stale" "c' = c" "co_lease_epoch c \<noteq> e \<or> tbl_get (co_waiters c) n = None"
  | (blocked) w where "att = Blocked" "tbl_get (co_waiters c) n = Some w" "co_lease_epoch c = e"
      "c' = set_waiter n (WaiterResolved ks) c \<or> c' = bump (set_waiter n (WaiterResolved ks) c)"
      "(\<exists>m held. tbl_get (co_leases c) m = Some held \<and> paths_conflict held ks)
        \<or> (\<exists>i w. tbl_get (co_waiters c) i = Some w \<and> i < n \<and> waiter_conflicts w ks)"
  | (acquired) w where "att = Acquired (co_next_id c)" "tbl_get (co_waiters c) n = Some w"
      "co_lease_epoch c = e"
      "\<And>m held. tbl_get (co_leases c) m = Some held \<Longrightarrow> \<not> paths_conflict held ks"
      "\<And>i w. tbl_get (co_waiters c) i = Some w \<Longrightarrow> i < n \<Longrightarrow> \<not> waiter_conflicts w ks"
      "c' = bump ((set_waiter n (WaiterResolved ks) c)\<lparr>co_next_id := co_next_id c + 1,
        co_waiters := tbl_delete (\<lambda>i _. i = n) (co_waiters (set_waiter n (WaiterResolved ks) c)),
        co_leases := tbl_put (co_next_id c) ks (co_leases c)\<rparr>)"
proof (cases "co_lease_epoch c \<noteq> e \<or> tbl_get (co_waiters c) n = None")
  case True
  then show ?thesis using assms(1) stale by (auto simp: try_acquire_def split: if_splits)
next
  case False
  then obtain w where e: "co_lease_epoch c = e" and w: "tbl_get (co_waiters c) n = Some w" by auto
  let ?c1 = "set_waiter n (WaiterResolved ks) c"
  let ?B = "list_ex (\<lambda>(_, held). paths_conflict held ks) (co_leases ?c1)
    \<or> earlier (\<lambda>w. waiter_conflicts w ks) n ?c1"
  have B: "?B \<longleftrightarrow> (\<exists>m held. tbl_get (co_leases c) m = Some held \<and> paths_conflict held ks)
      \<or> (\<exists>i w. tbl_get (co_waiters c) i = Some w \<and> i < n \<and> waiter_conflicts w ks)"
    using assms(2,3) tbl_ex_get [of "co_leases c" "\<lambda>_ held. paths_conflict held ks"]
    by (auto simp: earlier_iff)
  show ?thesis
  proof (cases ?B)
    case True
    with assms(1) e w have "att = Blocked" "c' = (if is_resolving w then bump ?c1 else ?c1)"
      by (simp_all add: try_acquire_def Let_def)
    with blocked e w True B show ?thesis by metis
  next
    case nb: False
    with assms(1) e w show ?thesis
      using acquired [OF _ w e] B by (auto simp: try_acquire_def Let_def)
  qed
qed

section \<open>Invariants\<close>

fun waiter_paths :: "WaiterState \<Rightarrow> bytes list" where
  "waiter_paths (WaiterResolving ps) = ps"
| "waiter_paths (WaiterResolved ks) = map lk_lexical ks"

definition task_ok :: "Coordination \<Rightarrow> nat \<Rightarrow> Task \<Rightarrow> bool" where
  "task_ok s n t \<longleftrightarrow>
     (\<exists>w. tbl_get (co_waiters (cn_inner s)) n = Some w \<and> waiter_paths w = tk_lexical t)
     \<and> (\<forall>e ks. tk_resolved t = Some (e, ks) \<longrightarrow> map lk_lexical ks = tk_lexical t)
     \<and> tk_seen t \<le> co_changes (cn_inner s)
     \<and> (tk_phase t = Trying \<longrightarrow> (\<exists>ks. tk_resolved t = Some (tk_expected t, ks)))"

definition co_wf :: "Coordination \<Rightarrow> bool" where
  "co_wf s \<longleftrightarrow>
     tbl_wf (co_leases (cn_inner s)) \<and> tbl_wf (co_waiters (cn_inner s)) \<and> tbl_wf (cn_tasks s)
     \<and> (\<forall>n ks. tbl_get (co_leases (cn_inner s)) n = Some ks \<longrightarrow> n < co_next_id (cn_inner s))
     \<and> (\<forall>n w. tbl_get (co_waiters (cn_inner s)) n = Some w \<longrightarrow> n < co_next_waiter_id (cn_inner s))
     \<and> (\<forall>n w. tbl_get (co_waiters (cn_inner s)) n = Some w \<longrightarrow> tbl_get (cn_tasks s) n \<noteq> None)
     \<and> (\<forall>n t. tbl_get (cn_tasks s) n = Some t \<longrightarrow> task_ok s n t)
     \<and> tbl_wf (cn_registering s)
     \<and> (\<forall>n ps. tbl_get (cn_registering s) n = Some ps \<longrightarrow>
          n < co_next_waiter_id (cn_inner s) \<and> tbl_get (co_waiters (cn_inner s)) n = None)"

definition exclusive :: "CoordinatorInner \<Rightarrow> bool" where
  "exclusive c \<longleftrightarrow> (\<forall>m n a b. tbl_get (co_leases c) m = Some a \<longrightarrow> tbl_get (co_leases c) n = Some b \<longrightarrow>
     m \<noteq> n \<longrightarrow> \<not> paths_conflict a b)"

text \<open>A task that sleeps and has not been notified since it last looked has a reason to sleep: a
  waiter in front of it, or a held lease that conflicts with the keys it resolved.\<close>

definition sleeps_with_reason :: "Coordination \<Rightarrow> nat \<Rightarrow> Task \<Rightarrow> bool" where
  "sleeps_with_reason s n t \<longleftrightarrow>
     tk_phase t = Sleeping \<longrightarrow> tk_seen t = co_changes (cn_inner s) \<longrightarrow>
       (\<exists>i w. i < n \<and> tbl_get (co_waiters (cn_inner s)) i = Some w)
       \<or> (\<exists>e ks m held. tk_resolved t = Some (e, ks)
            \<and> tbl_get (co_leases (cn_inner s)) m = Some held \<and> paths_conflict held ks)"

text \<open>An announcement that is still to come wakes every sleeper.\<close>

definition no_lost_wakeup :: "Coordination \<Rightarrow> bool" where
  "no_lost_wakeup s \<longleftrightarrow> cn_notices s = 0 \<longrightarrow>
     (\<forall>n t. tbl_get (cn_tasks s) n = Some t \<longrightarrow> sleeps_with_reason s n t)"

definition co_inv :: "Coordination \<Rightarrow> bool" where
  "co_inv s \<longleftrightarrow> co_wf s \<and> exclusive (cn_inner s) \<and> no_lost_wakeup s"

lemma co_inv_new: "co_inv (coordination_new root)"
  by (simp add: co_inv_def co_wf_def exclusive_def no_lost_wakeup_def coordination_new_def
      coordinator_new_def)

lemma co_wfD:
  assumes "co_wf s"
  shows "tbl_wf (co_leases (cn_inner s))" "tbl_wf (co_waiters (cn_inner s))" "tbl_wf (cn_tasks s)"
    "tbl_get (co_leases (cn_inner s)) n = Some ks \<Longrightarrow> n < co_next_id (cn_inner s)"
    "tbl_get (co_waiters (cn_inner s)) n = Some w \<Longrightarrow> n < co_next_waiter_id (cn_inner s)"
    "tbl_get (cn_tasks s) n = Some t \<Longrightarrow> task_ok s n t"
  using assms by (auto simp: co_wf_def)

text \<open>Steps that only move the local state of a task.\<close>

lemma task_seen:
  "co_wf s \<Longrightarrow> tbl_get (cn_tasks s) n = Some t \<Longrightarrow> co_changes (cn_inner s) \<le> k \<Longrightarrow> tk_seen t \<le> k"
  using co_wfD(6) [where s = s and n = n and t = t] by (fastforce simp: task_ok_def)

lemma local_step:
  assumes inv: "co_inv s" and t: "tbl_get (cn_tasks s) n = Some t"
    and ok: "task_ok s n t'" and sleep: "tk_phase t' \<noteq> Sleeping"
  shows "co_inv (set_task n t' s)"
  using assms
  by (auto simp: co_inv_def co_wf_def no_lost_wakeup_def sleeps_with_reason_def task_ok_def)

lemma sleepers_keep:
  assumes nl: "no_lost_wakeup s"
    and notices: "cn_notices s' = 0 \<Longrightarrow> cn_notices s = 0"
    and keep: "\<And>n t. tbl_get (cn_tasks s') n = Some t \<Longrightarrow> tk_phase t = Sleeping \<Longrightarrow>
      tk_seen t = co_changes (cn_inner s') \<Longrightarrow>
      (tbl_get (cn_tasks s) n = Some t \<and> co_changes (cn_inner s') = co_changes (cn_inner s))
      \<or> sleeps_with_reason s' n t"
    and waiters: "\<And>i w. co_changes (cn_inner s') = co_changes (cn_inner s) \<Longrightarrow>
      tbl_get (co_waiters (cn_inner s)) i = Some w \<Longrightarrow> tbl_get (co_waiters (cn_inner s')) i \<noteq> None"
    and leases: "\<And>m held. co_changes (cn_inner s') = co_changes (cn_inner s) \<Longrightarrow>
      tbl_get (co_leases (cn_inner s)) m = Some held \<Longrightarrow>
      tbl_get (co_leases (cn_inner s')) m = Some held"
  shows "no_lost_wakeup s'"
  unfolding no_lost_wakeup_def
proof (intro allI impI)
  fix n t
  assume "cn_notices s' = 0" and t: "tbl_get (cn_tasks s') n = Some t"
  then have none: "cn_notices s = 0" using notices by simp
  show "sleeps_with_reason s' n t"
  proof (cases "tk_phase t = Sleeping \<and> tk_seen t = co_changes (cn_inner s')
      \<and> \<not> sleeps_with_reason s' n t")
    case True
    with keep [OF t] have "tbl_get (cn_tasks s) n = Some t"
      and same: "co_changes (cn_inner s') = co_changes (cn_inner s)" by auto
    with nl none have "sleeps_with_reason s n t" by (simp add: no_lost_wakeup_def)
    then consider (front) i w where "i < n" "tbl_get (co_waiters (cn_inner s)) i = Some w"
      | (held) e ks m held where "tk_resolved t = Some (e, ks)"
          "tbl_get (co_leases (cn_inner s)) m = Some held" "paths_conflict held ks"
      using True same unfolding sleeps_with_reason_def by metis
    then show ?thesis
    proof cases
      case front
      then show ?thesis using waiters [OF same front(2)] by (auto simp: sleeps_with_reason_def)
    next
      case held
      then show ?thesis using leases [OF same held(2)] by (auto simp: sleeps_with_reason_def)
    qed
  next
    case False
    then show ?thesis by (auto simp: sleeps_with_reason_def)
  qed
qed

lemma acquire_begin_inv:
  assumes inv: "co_inv s" shows "co_inv (acquire_begin paths s)"
proof -
  let ?n = "co_next_waiter_id (cn_inner s)"
  have fresh: "tbl_get (co_waiters (cn_inner s)) ?n = None" using inv by (force simp: co_inv_def co_wf_def)
  note defs = acquire_begin_def waiter_fetch_id_def
  have "co_wf (acquire_begin paths s)"
    using inv fresh unfolding co_inv_def co_wf_def defs
    by (auto simp: tbl_get_put tbl_wf_put less_Suc_eq task_ok_def)
  moreover have "exclusive (cn_inner (acquire_begin paths s))"
    using inv by (simp add: co_inv_def exclusive_def defs)
  moreover have "no_lost_wakeup (acquire_begin paths s)"
    by (rule sleepers_keep [of s]) (use inv in \<open>auto simp: co_inv_def defs\<close>)
  ultimately show ?thesis by (simp add: co_inv_def)
qed

lemma acquire_register_inv:
  assumes inv: "co_inv s" and reg: "tbl_get (cn_registering s) n = Some ps"
  shows "co_inv (acquire_register n ps s)"
proof -
  have fresh: "tbl_get (co_waiters (cn_inner s)) n = None" "n < co_next_waiter_id (cn_inner s)"
    and wf: "tbl_wf (cn_registering s)" using inv reg by (simp_all add: co_inv_def co_wf_def)
  then have task: "tbl_get (cn_tasks s) n = None" using inv by (force simp: co_inv_def co_wf_def task_ok_def)
  note defs = acquire_register_def waiter_register_def
  have "co_wf (acquire_register n ps s)"
    using inv fresh unfolding co_inv_def co_wf_def defs
    by (auto simp: tbl_get_put tbl_wf_put tbl_wf_delete task_ok_def tbl_get_delete_key [OF wf] split: if_splits)
  moreover have "exclusive (cn_inner (acquire_register n ps s))"
    using inv by (simp add: co_inv_def exclusive_def defs)
  moreover have "no_lost_wakeup (acquire_register n ps s)"
    by (rule sleepers_keep [of s]) (use inv task fresh in \<open>auto simp: co_inv_def defs tbl_get_put split: if_splits\<close>)
  ultimately show ?thesis by (simp add: co_inv_def)
qed

lemma mark_inv:
  assumes inv: "co_inv s" and t: "tbl_get (cn_tasks s) n = Some t" and ph: "tk_phase t = Marking"
  shows "co_inv (task_mark n t s)"
proof -
  have wf: "co_wf s" using inv by (simp add: co_inv_def)
  note ok = co_wfD(6) [OF wf t]
  obtain el c where m: "mark_resolving_if_eligible n (tk_lexical t) (map_option snd (tk_resolved t))
    (cn_inner s) = (el, c)" by fastforce
  show ?thesis
  proof (cases el)
    case True
    with m have c: "c = set_waiter n (WaiterResolving (tk_lexical t)) (cn_inner s)"
      by (auto simp: mark_resolving_if_eligible_def split: if_splits)
    have s': "task_mark n t s = set_task n (t\<lparr>tk_phase := ResolvingKeys\<rparr>) (s\<lparr>cn_inner := c\<rparr>)"
      using m True by (simp add: task_mark_def)
    have "co_inv (s\<lparr>cn_inner := c\<rparr>)"
      unfolding co_inv_def
    proof (intro conjI)
      show "co_wf (s\<lparr>cn_inner := c\<rparr>)"
        using wf t unfolding co_wf_def c by (auto simp: task_ok_def)
      show "exclusive (cn_inner (s\<lparr>cn_inner := c\<rparr>))"
        using inv by (simp add: co_inv_def exclusive_def c)
      show "no_lost_wakeup (s\<lparr>cn_inner := c\<rparr>)"
        by (rule sleepers_keep [of s]) (use inv in \<open>auto simp: co_inv_def c\<close>)
    qed
    then show ?thesis unfolding s'
      by (rule local_step [where t = t]) (use t ok in \<open>auto simp: task_ok_def c\<close>)
  next
    case False
    with m have c: "c = cn_inner s" and
      early: "\<exists>i w. tbl_get (co_waiters (cn_inner s)) i = Some w \<and> i < n"
      using co_wfD(2) [OF wf]
      by (auto simp: mark_resolving_if_eligible_def earlier_iff split: if_splits option.splits)
    have s': "task_mark n t s = set_task n (t\<lparr>tk_phase := Sleeping\<rparr>) s"
      using m False c by (simp add: task_mark_def)
    show ?thesis
      unfolding s' co_inv_def
    proof (intro conjI)
      show "co_wf (set_task n (t\<lparr>tk_phase := Sleeping\<rparr>) s)"
        using wf ok unfolding co_wf_def by (auto simp: task_ok_def)
      show "exclusive (cn_inner (set_task n (t\<lparr>tk_phase := Sleeping\<rparr>) s))"
        using inv by (simp add: co_inv_def)
      show "no_lost_wakeup (set_task n (t\<lparr>tk_phase := Sleeping\<rparr>) s)"
        by (rule sleepers_keep [of s])
          (use inv early in \<open>auto simp: co_inv_def sleeps_with_reason_def split: if_splits\<close>)
    qed
  qed
qed

lemma blocked_inv:
  assumes inv: "co_inv s" and t: "tbl_get (cn_tasks s) n = Some t"
    and res: "tk_resolved t = Some (e, ks)"
    and c: "c = set_waiter n (WaiterResolved ks) (cn_inner s)
      \<or> c = bump (set_waiter n (WaiterResolved ks) (cn_inner s))"
    and why: "(\<exists>m held. tbl_get (co_leases (cn_inner s)) m = Some held \<and> paths_conflict held ks)
      \<or> (\<exists>i w. tbl_get (co_waiters (cn_inner s)) i = Some w \<and> i < n \<and> waiter_conflicts w ks)"
  shows "co_inv (set_task n (t\<lparr>tk_phase := Sleeping\<rparr>) (s\<lparr>cn_inner := c\<rparr>))"
  unfolding co_inv_def
proof (intro conjI)
  have wf: "co_wf s" using inv by (simp add: co_inv_def)
  note ok = co_wfD(6) [OF wf t]
  let ?s = "set_task n (t\<lparr>tk_phase := Sleeping\<rparr>) (s\<lparr>cn_inner := c\<rparr>)"
  have w: "tbl_get (co_waiters c) i = (if i = n then Some (WaiterResolved ks)
      else tbl_get (co_waiters (cn_inner s)) i)" for i
    using c ok by (auto simp: task_ok_def)
  have same: "co_leases c = co_leases (cn_inner s)" "co_next_id c = co_next_id (cn_inner s)"
    "co_next_waiter_id c = co_next_waiter_id (cn_inner s)" "tbl_wf (co_waiters c)"
    "co_changes (cn_inner s) \<le> co_changes c"
    using c co_wfD(2) [OF wf] by auto
  have "n < co_next_waiter_id (cn_inner s)" using ok wf by (auto simp: task_ok_def co_wf_def)
  moreover have "tbl_get (cn_registering s) n = None"
    using wf ok by (cases "tbl_get (cn_registering s) n") (auto simp: co_wf_def task_ok_def)
  ultimately show "co_wf ?s"
    using wf ok res task_seen [OF wf _ same(5)] t unfolding co_wf_def
    by (auto simp: same w task_ok_def)
  show "exclusive (cn_inner ?s)"
    using inv by (simp add: co_inv_def exclusive_def same)
  show "no_lost_wakeup ?s"
  proof (rule sleepers_keep [of s])
    fix m t'
    assume t': "tbl_get (cn_tasks ?s) m = Some t'" and seen: "tk_seen t' = co_changes (cn_inner ?s)"
    show "(tbl_get (cn_tasks s) m = Some t' \<and> co_changes (cn_inner ?s) = co_changes (cn_inner s))
      \<or> sleeps_with_reason ?s m t'"
    proof (cases "m = n")
      case True
      with t' have "t' = t\<lparr>tk_phase := Sleeping\<rparr>" by simp
      then show ?thesis using why res True by (auto simp: sleeps_with_reason_def same w)
    next
      case False
      with t' have old: "tbl_get (cn_tasks s) m = Some t'" by simp
      then show ?thesis using task_seen [OF wf old order_refl] seen same(5) by simp
    qed
  qed (use inv in \<open>auto simp: co_inv_def same w\<close>)
qed

lemma acquired_inv:
  assumes inv: "co_inv s" and t: "tbl_get (cn_tasks s) n = Some t"
    and free: "\<And>m held. tbl_get (co_leases (cn_inner s)) m = Some held \<Longrightarrow> \<not> paths_conflict held ks"
    and c: "c = bump ((set_waiter n (WaiterResolved ks) (cn_inner s))\<lparr>co_next_id := co_next_id (cn_inner s) + 1,
        co_waiters := tbl_delete (\<lambda>i _. i = n) (co_waiters (set_waiter n (WaiterResolved ks) (cn_inner s))),
        co_leases := tbl_put (co_next_id (cn_inner s)) ks (co_leases (cn_inner s))\<rparr>)"
  shows "co_inv (s\<lparr>cn_inner := c, cn_tasks := tbl_delete (\<lambda>i _. i = n) (cn_tasks s)\<rparr>)"
  unfolding co_inv_def
proof (intro conjI)
  have wf: "co_wf s" using inv by (simp add: co_inv_def)
  let ?s = "s\<lparr>cn_inner := c, cn_tasks := tbl_delete (\<lambda>i _. i = n) (cn_tasks s)\<rparr>"
  have w: "tbl_get (co_waiters c) i = (if i = n then None else tbl_get (co_waiters (cn_inner s)) i)" for i
    using c co_wfD(2) [OF wf] by (simp add: tbl_get_delete_key)
  have l: "tbl_get (co_leases c) m =
      (if m = co_next_id (cn_inner s) then Some ks else tbl_get (co_leases (cn_inner s)) m)" for m
    using c by (simp add: tbl_get_put)
  have same: "co_next_id c = Suc (co_next_id (cn_inner s))"
    "co_next_waiter_id c = co_next_waiter_id (cn_inner s)" "tbl_wf (co_waiters c)" "tbl_wf (co_leases c)"
    "co_changes c = Suc (co_changes (cn_inner s))"
    using c co_wfD(1,2) [OF wf] by (simp_all add: tbl_wf_delete tbl_wf_put)
  show "co_wf ?s"
    using wf task_seen [OF wf, of _ _ "Suc (co_changes (cn_inner s))"] unfolding co_wf_def
    by (auto simp: same w l task_ok_def tbl_get_delete_key tbl_wf_delete less_Suc_eq split: if_splits)
  show "exclusive (cn_inner ?s)"
    using inv free paths_conflict_sym by (auto simp: co_inv_def exclusive_def l)
  show "no_lost_wakeup ?s"
    by (rule sleepers_keep [of s])
      (use inv in \<open>fastforce simp: co_inv_def co_wf_def task_ok_def same tbl_get_delete_key split: if_splits\<close>)+
qed

lemma try_inv:
  assumes inv: "co_inv s" and t: "tbl_get (cn_tasks s) n = Some t" and ph: "tk_phase t = Trying"
  shows "co_inv (task_try n t s)"
proof -
  have wf: "co_wf s" using inv by (simp add: co_inv_def)
  note ok = co_wfD(6) [OF wf t]
  from ok ph obtain ks where res: "tk_resolved t = Some (tk_expected t, ks)"
    by (auto simp: task_ok_def)
  obtain att c where run: "try_acquire ks (tk_expected t) n (cn_inner s) = (att, c)" by fastforce
  from run co_wfD(2,1) [OF wf] show ?thesis
  proof (cases rule: try_acquire_cases)
    case stale
    then have "task_try n t s = set_task n (t\<lparr>tk_phase := AtTop\<rparr>) s"
      using res run by (simp add: task_try_def)
    then show ?thesis using local_step [OF inv t, of "t\<lparr>tk_phase := AtTop\<rparr>"] ok
      by (simp add: task_ok_def)
  next
    case (blocked w)
    then have "task_try n t s = set_task n (t\<lparr>tk_phase := Sleeping\<rparr>) (s\<lparr>cn_inner := c\<rparr>)"
      using res run by (simp add: task_try_def)
    then show ?thesis using blocked_inv [OF inv t res blocked(4,5)] by simp
  next
    case (acquired w)
    then have "task_try n t s = s\<lparr>cn_inner := c, cn_tasks := tbl_delete (\<lambda>i _. i = n) (cn_tasks s)\<rparr>"
      using res run by (simp add: task_try_def)
    then show ?thesis using acquired_inv [OF inv t acquired(4) acquired(6)] by simp
  qed
qed

lemma cancel_inv:
  assumes inv: "co_inv s" and t: "tbl_get (cn_tasks s) n = Some t"
  shows "co_inv (task_cancel n s)"
  unfolding co_inv_def
proof (intro conjI)
  have wf: "co_wf s" using inv by (simp add: co_inv_def)
  have c: "task_cancel n s = s\<lparr>cn_inner := (cn_inner s)\<lparr>co_waiters :=
      tbl_delete (\<lambda>i _. i = n) (co_waiters (cn_inner s))\<rparr>,
      cn_tasks := tbl_delete (\<lambda>i _. i = n) (cn_tasks s), cn_notices := cn_notices s + 1\<rparr>"
    using co_wfD(6) [OF wf t] by (auto simp: task_cancel_def waiter_drop_def task_ok_def)
  show "co_wf (task_cancel n s)"
    using wf unfolding co_wf_def c
    by (auto simp: task_ok_def tbl_get_delete_key tbl_wf_delete split: if_splits)
  show "exclusive (cn_inner (task_cancel n s))" using inv by (simp add: co_inv_def exclusive_def c)
  show "no_lost_wakeup (task_cancel n s)" by (simp add: no_lost_wakeup_def c)
qed

lemma announce_inv:
  assumes inv: "co_inv s"
  shows "co_inv (s\<lparr>cn_inner := bump (cn_inner s), cn_notices := k\<rparr>)" (is "co_inv ?s")
  unfolding co_inv_def
proof (intro conjI)
  have wf: "co_wf s" using inv by (simp add: co_inv_def)
  note seen = task_seen [OF wf _ order_refl]
  show "co_wf ?s"
    using wf task_seen [OF wf, of _ _ "Suc (co_changes (cn_inner s))"] unfolding co_wf_def
    by (auto simp: task_ok_def)
  show "exclusive (cn_inner ?s)" using inv by (simp add: co_inv_def exclusive_def)
  have "tk_seen t \<noteq> co_changes (cn_inner ?s)" if "tbl_get (cn_tasks s) n = Some t" for n t
    using seen [OF that] by simp
  then show "no_lost_wakeup ?s" by (simp add: no_lost_wakeup_def sleeps_with_reason_def)
qed

lemma release_inv:
  assumes inv: "co_inv s" and l: "tbl_get (co_leases (cn_inner s)) n = Some ks"
  shows "co_inv (s\<lparr>cn_inner := lease_drop n (cn_inner s)\<rparr>)" (is "co_inv ?s")
  unfolding co_inv_def
proof (intro conjI)
  have wf: "co_wf s" using inv by (simp add: co_inv_def)
  have c: "lease_drop n (cn_inner s) =
    bump ((cn_inner s)\<lparr>co_leases := tbl_delete (\<lambda>i _. i = n) (co_leases (cn_inner s)),
      co_lease_epoch := co_lease_epoch (cn_inner s) + 1\<rparr>)"
    using l by (auto simp: lease_drop_def)
  show "co_wf ?s"
    using wf task_seen [OF wf, of _ _ "Suc (co_changes (cn_inner s))"] unfolding co_wf_def c
    by (auto simp: task_ok_def tbl_get_delete_key tbl_wf_delete split: if_splits)
  show "exclusive (cn_inner ?s)"
    using inv co_wfD(1) [OF wf] by (auto simp: co_inv_def exclusive_def c tbl_get_delete_key)
  show "no_lost_wakeup ?s"
    by (rule sleepers_keep [of s])
      (use inv in \<open>fastforce simp: co_inv_def co_wf_def task_ok_def c split: if_splits\<close>)+
qed

lemma co_step_inv:
  assumes step: "co_step s s'" and inv: "co_inv s"
  shows "co_inv s'"
proof -
  have ok: "tbl_get (cn_tasks s) n = Some t \<Longrightarrow> task_ok s n t" for n t
    using inv by (simp add: co_inv_def co_wfD)
  show ?thesis using step
  proof (cases rule: co_step.cases)
    case (begin_acquire paths)
    then show ?thesis using acquire_begin_inv [OF inv] by simp
  next
    case (register n ps)
    then show ?thesis using acquire_register_inv [OF inv] by simp
  next
    case (borrow n t)
    then show ?thesis using local_step [OF inv borrow(2)] ok by (simp add: task_ok_def task_borrow_def)
  next
    case (load n t)
    have "task_ok s n (task_load_epoch (cn_inner s) t)"
      using ok [OF load(2)] by (auto simp: task_ok_def task_load_epoch_def split: option.splits)
    then show ?thesis using local_step [OF inv load(2)] load
      by (simp add: task_load_epoch_def split: option.splits)
  next
    case (mark n t)
    then show ?thesis using mark_inv [OF inv] by simp
  next
    case (resolve n t results)
    have "map lk_lexical (resolved_keys (co_root (cn_inner s)) (tk_lexical t) results) = tk_lexical t"
      using resolve(4) by (simp add: resolved_keys_def case_prod_beta comp_def)
    then show ?thesis using local_step [OF inv resolve(2)] ok [OF resolve(2)] resolve
      by (simp add: task_ok_def task_resolve_def)
  next
    case (attempt n t)
    then show ?thesis using try_inv [OF inv] by simp
  next
    case (wake n t)
    then show ?thesis using local_step [OF inv wake(2)] ok by (simp add: task_ok_def task_wake_def)
  next
    case (cancel n t)
    then show ?thesis using cancel_inv [OF inv] by simp
  next
    case announce
    then show ?thesis using announce_inv [OF inv] by simp
  next
    case (release n ks)
    then show ?thesis using release_inv [OF inv] by simp
  qed
qed

interpretation coordinator: invariant_steps co_step co_inv
  by unfold_locales (rule co_step_inv)

section \<open>Progress of the first waiter\<close>

text \<open>The next action of one task when only this task runs.  \<open>resolve\<close> is what the file system
  answers if the action is a resolution.  A task that sleeps and was not notified does nothing.\<close>

definition own_step ::
  "nat \<Rightarrow> (bytes \<Rightarrow> ResolvedPathKey option) \<Rightarrow> Coordination \<Rightarrow> Coordination" where
  "own_step n resolve s =
     (case tbl_get (cn_tasks s) n of
        None \<Rightarrow> s
      | Some t \<Rightarrow>
          (case tk_phase t of
             AtTop \<Rightarrow> set_task n (task_borrow (cn_inner s) t) s
           | LoadingEpoch \<Rightarrow> set_task n (task_load_epoch (cn_inner s) t) s
           | Marking \<Rightarrow> task_mark n t s
           | ResolvingKeys \<Rightarrow> set_task n (task_resolve (cn_inner s) (map resolve (tk_lexical t)) t) s
           | Trying \<Rightarrow> task_try n t s
           | Sleeping \<Rightarrow>
               if tk_seen t \<noteq> co_changes (cn_inner s) then set_task n (task_wake (cn_inner s) t) s else s))"

lemma own_step_is_step: "own_step n resolve s = s \<or> co_step s (own_step n resolve s)"
  by (auto simp: own_step_def split: option.splits task_phase.splits intro: co_step.intros)

lemma own_step_inv: "co_inv s \<Longrightarrow> co_inv (own_step n resolve s)"
  using own_step_is_step [of n resolve s] co_step_inv by metis

text \<open>No lease is held, nothing is left to announce, and \<open>n\<close> is the first waiter.\<close>

definition head :: "Coordination \<Rightarrow> nat \<Rightarrow> bool" where
  "head s n \<longleftrightarrow> co_inv s \<and> co_leases (cn_inner s) = [] \<and> cn_notices s = 0
     \<and> (\<forall>i<n. tbl_get (co_waiters (cn_inner s)) i = None)"

text \<open>How many of its own actions the first waiter is away from its lease.  A key resolved under an
  older epoch costs another round.\<close>

definition distance :: "CoordinatorInner \<Rightarrow> Task \<Rightarrow> nat" where
  "distance c t =
     (let late = (if tk_expected t = co_lease_epoch c then 0 else 5) in
      case tk_phase t of
        Trying \<Rightarrow> 1 + late
      | ResolvingKeys \<Rightarrow> 2 + late
      | Marking \<Rightarrow> 3 + late
      | LoadingEpoch \<Rightarrow> 4
      | AtTop \<Rightarrow> 5
      | Sleeping \<Rightarrow> 6)"

lemma head_not_early: "head s n \<Longrightarrow> \<not> earlier P n (cn_inner s)"
  by (auto simp: head_def co_inv_def co_wf_def earlier_iff)

lemma head_local:
  assumes "head s n" and "co_inv (set_task n t' s)" and "tk_lexical t' = tk_lexical t"
    and "distance (cn_inner s) t' < distance (cn_inner s) t"
  shows "head (set_task n t' s) n \<and> co_next_id (cn_inner (set_task n t' s)) = co_next_id (cn_inner s)
    \<and> (\<exists>t''. tbl_get (cn_tasks (set_task n t' s)) n = Some t'' \<and> tk_lexical t'' = tk_lexical t
      \<and> distance (cn_inner (set_task n t' s)) t'' < distance (cn_inner s) t)"
  using assms by (simp add: head_def)

lemma head_try:
  assumes h: "head s n" and t: "tbl_get (cn_tasks s) n = Some t" and ph: "tk_phase t = Trying"
  shows "(tk_expected t = co_lease_epoch (cn_inner s) \<and> tbl_get (cn_tasks (task_try n t s)) n = None
      \<and> (\<exists>ks. co_leases (cn_inner (task_try n t s)) = [(co_next_id (cn_inner s), ks)]
          \<and> map lk_lexical ks = tk_lexical t))
    \<or> (tk_expected t \<noteq> co_lease_epoch (cn_inner s) \<and> task_try n t s = set_task n (t\<lparr>tk_phase := AtTop\<rparr>) s)"
proof -
  have wf: "co_wf s" using h by (simp add: head_def co_inv_def)
  note ok = co_wfD(6) [OF wf t]
  from ok ph obtain ks where res: "tk_resolved t = Some (tk_expected t, ks)"
    and lex: "map lk_lexical ks = tk_lexical t" by (auto simp: task_ok_def)
  show ?thesis
  proof (cases "tk_expected t = co_lease_epoch (cn_inner s)")
    case False
    then show ?thesis using res by (simp add: task_try_def try_acquire_def)
  next
    case True
    obtain att c where run: "try_acquire ks (tk_expected t) n (cn_inner s) = (att, c)" by fastforce
    from run co_wfD(2,1) [OF wf] show ?thesis
    proof (cases rule: try_acquire_cases)
      case stale
      then show ?thesis using ok True by (auto simp: task_ok_def)
    next
      case (blocked w)
      then show ?thesis using h by (auto simp: head_def)
    next
      case (acquired w)
      then show ?thesis using res run True lex h co_wfD(3) [OF wf]
        by (simp add: task_try_def tbl_get_delete_key head_def)
    qed
  qed
qed

lemma own_step_progress:
  fixes resolve :: "bytes \<Rightarrow> ResolvedPathKey option"
  assumes h: "head s n" and t: "tbl_get (cn_tasks s) n = Some t"
  defines "s' \<equiv> own_step n resolve s"
  shows "(tbl_get (cn_tasks s') n = None
      \<and> (\<exists>ks. co_leases (cn_inner s') = [(co_next_id (cn_inner s), ks)] \<and> map lk_lexical ks = tk_lexical t))
    \<or> head s' n \<and> co_next_id (cn_inner s') = co_next_id (cn_inner s)
      \<and> (\<exists>t'. tbl_get (cn_tasks s') n = Some t' \<and> tk_lexical t' = tk_lexical t
          \<and> distance (cn_inner s') t' < distance (cn_inner s) t)"
proof -
  have inv: "co_inv s'" unfolding s'_def using h by (simp add: head_def own_step_inv)
  note own = s'_def own_step_def t
  show ?thesis
  proof (cases "tk_phase t")
    case AtTop
    then have s': "s' = set_task n (task_borrow (cn_inner s) t) s" by (simp add: own)
    show ?thesis using head_local [OF h inv [unfolded s'], of t] AtTop unfolding s'
      by (simp add: task_borrow_def distance_def)
  next
    case LoadingEpoch
    then have s': "s' = set_task n (task_load_epoch (cn_inner s) t) s" by (simp add: own)
    show ?thesis using head_local [OF h inv [unfolded s'], of t] LoadingEpoch unfolding s'
      by (simp add: task_load_epoch_def distance_def split: option.splits)
  next
    case Marking
    let ?c = "set_waiter n (WaiterResolving (tk_lexical t)) (cn_inner s)"
    have s': "s' = set_task n (t\<lparr>tk_phase := ResolvingKeys\<rparr>) (s\<lparr>cn_inner := ?c\<rparr>)"
      using Marking head_not_early [OF h] by (simp add: own task_mark_def mark_resolving_if_eligible_def)
    then show ?thesis using h inv Marking by (auto simp: head_def distance_def)
  next
    case ResolvingKeys
    then have s': "s' = set_task n (task_resolve (cn_inner s) (map resolve (tk_lexical t)) t) s" by (simp add: own)
    show ?thesis using head_local [OF h inv [unfolded s'], of t] ResolvingKeys unfolding s'
      by (simp add: task_resolve_def distance_def Let_def)
  next
    case Trying
    then have s': "s' = task_try n t s" by (simp add: own)
    from head_try [OF h t Trying] show ?thesis unfolding s' [symmetric]
    proof (elim disjE conjE)
      assume "tbl_get (cn_tasks s') n = None" "\<exists>ks. co_leases (cn_inner s') = [(co_next_id (cn_inner s), ks)]
        \<and> map lk_lexical ks = tk_lexical t"
      then show ?thesis by (intro disjI1 conjI)
    next
      assume late: "tk_expected t \<noteq> co_lease_epoch (cn_inner s)" and eq: "s' = set_task n (t\<lparr>tk_phase := AtTop\<rparr>) s"
      show ?thesis using head_local [OF h inv [unfolded eq], of t] Trying late unfolding eq
        by (simp add: distance_def)
    qed
  next
    case Sleeping
    have "sleeps_with_reason s n t" using h t by (simp add: head_def co_inv_def no_lost_wakeup_def)
    then have "tk_seen t \<noteq> co_changes (cn_inner s)"
      using h Sleeping by (auto simp: sleeps_with_reason_def head_def)
    then have s': "s' = set_task n (task_wake (cn_inner s) t) s" using Sleeping by (simp add: own)
    show ?thesis using head_local [OF h inv [unfolded s'], of t] Sleeping unfolding s'
      by (simp add: task_wake_def distance_def)
  qed
qed

text \<open>A run of the task alone; every action gets its own answer of the file system.\<close>

fun own_run :: "nat \<Rightarrow> (bytes \<Rightarrow> ResolvedPathKey option) list \<Rightarrow> Coordination \<Rightarrow> Coordination" where
  "own_run n [] s = s"
| "own_run n (resolve # answers) s = own_run n answers (own_step n resolve s)"

lemma own_run_done: "tbl_get (cn_tasks s) n = None \<Longrightarrow> own_run n answers s = s"
  by (induction answers) (simp_all add: own_step_def)

lemma own_run_acquires:
  assumes "head s n" and "tbl_get (cn_tasks s) n = Some t" and "distance (cn_inner s) t \<le> length answers"
  shows "tbl_get (cn_tasks (own_run n answers s)) n = None
    \<and> (\<exists>ks. co_leases (cn_inner (own_run n answers s)) = [(co_next_id (cn_inner s), ks)]
        \<and> map lk_lexical ks = tk_lexical t)"
  using assms
proof (induction answers arbitrary: s t)
  case Nil
  then show ?case by (simp add: distance_def Let_def split: task_phase.splits)
next
  case (Cons resolve answers)
  let ?s = "own_step n resolve s"
  from own_step_progress [OF Cons.prems(1,2), of resolve] show ?case
  proof (elim disjE conjE exE)
    fix ks assume "tbl_get (cn_tasks ?s) n = None" "co_leases (cn_inner ?s) = [(co_next_id (cn_inner s), ks)]"
      "map lk_lexical ks = tk_lexical t"
    then show ?thesis by (simp add: own_run_done)
  next
    fix t' assume "head ?s n" "tbl_get (cn_tasks ?s) n = Some t'" "tk_lexical t' = tk_lexical t"
      "co_next_id (cn_inner ?s) = co_next_id (cn_inner s)" "distance (cn_inner ?s) t' < distance (cn_inner s) t"
    then show ?thesis using Cons.IH [of ?s t'] Cons.prems(3) by simp
  qed
qed

lemma distance_bound: "distance c t \<le> 8"
  by (simp add: distance_def Let_def split: task_phase.splits)

section \<open>Running the coordinator\<close>

text \<open>The step relation as a function of a chosen action, for concrete runs.\<close>

datatype action =
    ActBegin "bytes list" | ActRegister nat | ActBorrow nat | ActLoad nat | ActMark nat
  | ActResolve nat "ResolvedPathKey option list" | ActTry nat | ActWake nat | ActCancel nat
  | ActAnnounce | ActRelease nat

definition at_phase :: "Coordination \<Rightarrow> nat \<Rightarrow> task_phase \<Rightarrow> Task option" where
  "at_phase s n ph =
     (case tbl_get (cn_tasks s) n of None \<Rightarrow> None | Some t \<Rightarrow> if tk_phase t = ph then Some t else None)"

fun act :: "action \<Rightarrow> Coordination \<Rightarrow> Coordination option" where
  "act (ActBegin paths) s = (if paths = [] then None else Some (acquire_begin paths s))"
| "act (ActRegister n) s = map_option (\<lambda>ps. acquire_register n ps s) (tbl_get (cn_registering s) n)"
| "act (ActBorrow n) s = map_option (\<lambda>t. set_task n (task_borrow (cn_inner s) t) s) (at_phase s n AtTop)"
| "act (ActLoad n) s = map_option (\<lambda>t.
     set_task n (task_load_epoch (cn_inner s) t) s) (at_phase s n LoadingEpoch)"
| "act (ActMark n) s = map_option (\<lambda>t. task_mark n t s) (at_phase s n Marking)"
| "act (ActResolve n results) s = Option.bind (at_phase s n ResolvingKeys) (\<lambda>t.
     if length results = length (tk_lexical t)
     then Some (set_task n (task_resolve (cn_inner s) results t) s)
     else None)"
| "act (ActTry n) s = map_option (\<lambda>t. task_try n t s) (at_phase s n Trying)"
| "act (ActWake n) s = Option.bind (at_phase s n Sleeping) (\<lambda>t.
     if tk_seen t \<noteq> co_changes (cn_inner s)
     then Some (set_task n (task_wake (cn_inner s) t) s) else None)"
| "act (ActCancel n) s = map_option (\<lambda>_. task_cancel n s) (tbl_get (cn_tasks s) n)"
| "act ActAnnounce s = (if 0 < cn_notices s
     then Some (s\<lparr>cn_inner := bump (cn_inner s), cn_notices := cn_notices s - 1\<rparr>) else None)"
| "act (ActRelease n) s = map_option (\<lambda>_. s\<lparr>cn_inner := lease_drop n (cn_inner s)\<rparr>)
     (tbl_get (co_leases (cn_inner s)) n)"

fun acts :: "action list \<Rightarrow> Coordination \<Rightarrow> Coordination option" where
  "acts [] s = Some s"
| "acts (a # as) s = Option.bind (act a s) (acts as)"

lemma at_phase_Some: "at_phase s n ph = Some t \<longleftrightarrow> tbl_get (cn_tasks s) n = Some t \<and> tk_phase t = ph"
  by (auto simp: at_phase_def split: option.splits if_splits)

lemma act_step: "act a s = Some s' \<Longrightarrow> co_step s s'"
  by (cases a) (auto simp: at_phase_Some bind_eq_Some_conv split: if_splits intro: co_step.intros co_step.announce [simplified])

lemma acts_steps: "acts as s = Some s' \<Longrightarrow> co_step\<^sup>*\<^sup>* s s'"
proof (induction as arbitrary: s)
  case (Cons a as)
  then show ?case
    by (auto simp: bind_eq_Some_conv dest!: act_step intro: converse_rtranclp_into_rtranclp)
qed simp

section \<open>Properties\<close>

text \<open>Concrete runs for the witnesses: requests for \<open>/a\<close> and \<open>/b\<close> below the root.\<close>

abbreviation sample_resolved :: "byte \<Rightarrow> ResolvedPathKey" where
  "sample_resolved b \<equiv> \<lparr>resolved_parent = (0, 1), unresolved_tail = [[b]],
     ancestor_directories = [(0, 1)], target_directory = None\<rparr>"

abbreviation sample_lease_key :: "byte \<Rightarrow> LeaseKey" where
  "sample_lease_key b \<equiv> \<lparr>lk_lexical = [47, b], lk_resolved = sample_resolved b\<rparr>"

abbreviation sample_actions :: "action list" where
  "sample_actions \<equiv>
     [ActBegin [[47, 97]], ActRegister 1, ActBorrow 1, ActLoad 1, ActMark 1,
      ActResolve 1 [Some (sample_resolved 97)], ActTry 1, ActBegin [[47, 98]], ActRegister 2, ActBorrow 2, ActLoad 2, ActMark 2,
      ActResolve 2 [Some (sample_resolved 98)], ActTry 2]"

lemma sample_two_run:
  "map_option (\<lambda>s. co_leases (cn_inner s)) (acts sample_actions (coordination_new (0, 1))) =
     Some [(1, [sample_lease_key 97]), (2, [sample_lease_key 98])]"
  by code_simp

abbreviation sample_overtake :: "action list" where
  "sample_overtake \<equiv>
     [ActBegin [[47, 97]], ActBegin [[47, 98]], ActRegister 2, ActRegister 1, ActBorrow 2, ActLoad 2, ActMark 2,
      ActResolve 2 [Some (sample_resolved 98)]]"

lemma sample_overtake_run:
  "case acts sample_overtake (coordination_new (0, 1)) of
     None \<Rightarrow> False
   | Some s \<Rightarrow> (case (tbl_get (cn_tasks s) 1, tbl_get (cn_tasks s) 2) of
       (Some u, Some t) \<Rightarrow> tk_lexical u = [[47, 97]] \<and> tk_lexical t = [[47, 98]]
         \<and> tk_phase t = Trying \<and> tbl_get (cn_tasks (task_try 2 t s)) 2 = None
     | _ \<Rightarrow> False)"
  by code_simp

text \<open>The second request sleeps behind the lease of the first, which is then released.\<close>

abbreviation sample_waiting :: "action list" where
  "sample_waiting \<equiv>
     [ActBegin [[47, 97]], ActRegister 1, ActBorrow 1, ActLoad 1, ActMark 1,
      ActResolve 1 [Some (sample_resolved 97)], ActTry 1, ActBegin [[47, 97]], ActRegister 2, ActBorrow 2,
      ActLoad 2, ActMark 2, ActResolve 2 [Some (sample_resolved 97)], ActTry 2, ActRelease 1]"

lemma sample_waiting_run:
  "case acts sample_waiting (coordination_new (0, 1)) of
     None \<Rightarrow> False
   | Some s \<Rightarrow> co_leases (cn_inner s) = [] \<and> cn_notices s = 0
       \<and> tbl_get (cn_tasks s) 0 = None \<and> tbl_get (cn_tasks s) 1 = None
       \<and> (case tbl_get (cn_tasks s) 2 of
            Some t \<Rightarrow> tk_lexical t = [[47, 97]] \<and> tk_phase t = Sleeping | None \<Rightarrow> False)"
  by code_simp

text \<open>C15: Mutual exclusion.  In every state that concurrent requests can reach, the keys of two
  different held leases never overlap: no path of one is a prefix of a path of the other,
  component-wise, and neither their resolved entries nor their target directories contain each
  other.\<close>

theorem leases_mutually_exclusive:
  assumes "co_step\<^sup>*\<^sup>* (coordination_new root) s"
    and "tbl_get (co_leases (cn_inner s)) m = Some held"
    and "tbl_get (co_leases (cn_inner s)) n = Some held'" and "m \<noteq> n"
    and "l \<in> set held" and "r \<in> set held'"
  shows "\<not> path_starts_with (lk_lexical l) (lk_lexical r)
    \<and> \<not> path_starts_with (lk_lexical r) (lk_lexical l)
    \<and> \<not> resolved_path_contains (lk_resolved l) (lk_resolved r)
    \<and> \<not> resolved_path_contains (lk_resolved r) (lk_resolved l)"
proof -
  have "\<not> paths_conflict held held'"
    using coordinator.steps_inv [OF assms(1) co_inv_new] assms(2-4) by (auto simp: co_inv_def exclusive_def)
  then have "\<not> path_keys_conflict l r" using assms(5,6) by (auto simp: paths_conflict_iff)
  then show ?thesis
    by (auto simp: path_keys_conflict_def resolved_paths_conflict_def resolved_path_contains_def)
qed

theorem leases_mutually_exclusive_witness:
  "\<exists>s. co_step\<^sup>*\<^sup>* (coordination_new (0, 1)) s
    \<and> map fst (co_leases (cn_inner s)) = [1, 2]
    \<and> \<not> path_starts_with [47, 97] [47, 98] \<and> \<not> path_starts_with [47, 98] [47, 97]"
proof -
  from sample_two_run obtain s where run: "acts sample_actions (coordination_new (0, 1)) = Some s"
    and l: "co_leases (cn_inner s) = [(1, [sample_lease_key 97]), (2, [sample_lease_key 98])]"
    by auto
  from l have "tbl_get (co_leases (cn_inner s)) 1 = Some [sample_lease_key 97]"
    "tbl_get (co_leases (cn_inner s)) 2 = Some [sample_lease_key 98]" by (simp_all add: tbl_get_def)
  from leases_mutually_exclusive [OF acts_steps [OF run] this, of "sample_lease_key 97" "sample_lease_key 98"]
  show ?thesis using acts_steps [OF run] l by auto
qed

text \<open>C17: Conflicting requests are served in order.  When a waiting request acquires its lease, no
  request that registered earlier and is still waiting has a lexically overlapping path.\<close>

theorem conflicting_waiters_in_order:
  assumes reach: "co_step\<^sup>*\<^sup>* (coordination_new root) s"
    and t: "tbl_get (cn_tasks s) n = Some t" and ph: "tk_phase t = Trying"
    and gone: "tbl_get (cn_tasks (task_try n t s)) n = None"
    and u: "tbl_get (cn_tasks s) i = Some u" and "i < n"
    and "p \<in> set (tk_lexical u)" and "q \<in> set (tk_lexical t)"
  shows "\<not> path_starts_with p q \<and> \<not> path_starts_with q p"
proof -
  have wf: "co_wf s" using coordinator.steps_inv [OF reach co_inv_new] by (simp add: co_inv_def)
  from co_wfD(6) [OF wf t] ph obtain ks where res: "tk_resolved t = Some (tk_expected t, ks)"
    and lex: "map lk_lexical ks = tk_lexical t" by (auto simp: task_ok_def)
  from co_wfD(6) [OF wf u] obtain w where w: "tbl_get (co_waiters (cn_inner s)) i = Some w"
    and lexu: "waiter_paths w = tk_lexical u" by (auto simp: task_ok_def)
  obtain att c where run: "try_acquire ks (tk_expected t) n (cn_inner s) = (att, c)" by fastforce
  from run co_wfD(2,1) [OF wf] have "\<not> waiter_conflicts w ks"
  proof (cases rule: try_acquire_cases)
    case (acquired w')
    then show ?thesis using w \<open>i < n\<close> by blast
  qed (use gone res run in \<open>auto simp: task_try_def\<close>)
  moreover have "q \<in> set (map lk_lexical ks)" using assms(8) by (simp only: lex)
  then obtain k where "k \<in> set ks" "q = lk_lexical k" by auto
  moreover have "p \<in> set (waiter_paths w)" using assms(7) by (simp only: lexu)
  ultimately show ?thesis
    by (cases w) (auto simp: list_ex_iff paths_conflict_iff path_keys_conflict_def)
qed

theorem conflicting_waiters_in_order_witness:
  "\<exists>s t u. co_step\<^sup>*\<^sup>* (coordination_new (0, 1)) s \<and> tbl_get (cn_tasks s) 2 = Some t
    \<and> tbl_get (cn_tasks s) 1 = Some u \<and> tbl_get (cn_tasks (task_try 2 t s)) 2 = None
    \<and> \<not> path_starts_with [47, 97] [47, 98]"
proof -
  from sample_overtake_run obtain s t u
    where run: "acts sample_overtake (coordination_new (0, 1)) = Some s"
    and t: "tbl_get (cn_tasks s) 2 = Some t" "tk_phase t = Trying" "tk_lexical t = [[47, 98]]"
    and u: "tbl_get (cn_tasks s) 1 = Some u" "tk_lexical u = [[47, 97]]"
    and gone: "tbl_get (cn_tasks (task_try 2 t s)) 2 = None"
    by (auto split: option.splits)
  from conflicting_waiters_in_order [OF acts_steps [OF run] t(1,2) gone u(1), of "[47, 97]" "[47, 98]"]
  show ?thesis using acts_steps [OF run] t u gone by auto
qed

text \<open>C16: The first waiter is never stuck.  Take any reachable state in which no lease is held and
  every dropped waiter has been announced.  Then the request that waits longest, running alone and
  whatever point of its loop it has reached, holds a lease for exactly its paths after eight of its
  own actions, whatever the file system answers.  In particular it is not asleep with a lost
  wake-up.\<close>

theorem first_waiter_can_acquire:
  assumes reach: "co_step\<^sup>*\<^sup>* (coordination_new root) s"
    and free: "co_leases (cn_inner s) = []" "cn_notices s = 0"
    and first: "tbl_get (cn_tasks s) n = Some t" "\<forall>i<n. tbl_get (cn_tasks s) i = None"
    and answers: "length answers \<ge> 8"
  shows "tbl_get (cn_tasks (own_run n answers s)) n = None
    \<and> (\<exists>ks. co_leases (cn_inner (own_run n answers s)) = [(co_next_id (cn_inner s), ks)]
        \<and> map lk_lexical ks = tk_lexical t)"
proof -
  have inv: "co_inv s" using coordinator.steps_inv [OF reach co_inv_new] .
  then have "\<forall>i<n. tbl_get (co_waiters (cn_inner s)) i = None"
    using first(2) by (fastforce simp: co_inv_def co_wf_def)
  then have "head s n" using inv free by (simp add: head_def)
  from own_run_acquires [OF this first(1)] show ?thesis
    using distance_bound [of "cn_inner s" t] answers by simp
qed

theorem first_waiter_can_acquire_witness:
  "\<exists>s ks. acts sample_waiting (coordination_new (0, 1)) = Some s
    \<and> map_option tk_phase (tbl_get (cn_tasks s) 2) = Some Sleeping
    \<and> co_leases (cn_inner (own_run 2 (replicate 8 (\<lambda>_. None)) s)) = [(co_next_id (cn_inner s), ks)]
    \<and> map lk_lexical ks = [[47, 97]]"
proof -
  from sample_waiting_run obtain s t
    where run: "acts sample_waiting (coordination_new (0, 1)) = Some s"
    and l: "co_leases (cn_inner s) = []" "cn_notices s = 0"
    and lex: "tk_lexical t = [[47, 97]]" "tk_phase t = Sleeping"
    and t: "tbl_get (cn_tasks s) 2 = Some t"
    and z: "tbl_get (cn_tasks s) 0 = None" "tbl_get (cn_tasks s) 1 = None"
    by (auto split: option.splits)
  have "tbl_get (cn_tasks s) i = None" if "i < 2" for i
    using that z by (cases "i = 0") (simp_all add: less_2_cases_iff)
  then have "\<forall>i<2. tbl_get (cn_tasks s) i = None" by blast
  from first_waiter_can_acquire [OF acts_steps [OF run] l t this, of "replicate 8 (\<lambda>_. None)"] show ?thesis
    using run lex t by auto
qed

text \<open>Failing closed.  A request whose path cannot be resolved is given the key of the shared
  root, which conflicts with every key below that root, so it is serialised with every other
  mutation.\<close>

theorem unresolved_key_conflicts_with_all:
  assumes "root \<in> set (ancestor_directories (lk_resolved k))"
    and "length results = length lexical_paths" and "i < length results" and "results ! i = None"
  shows "paths_conflict (resolved_keys root lexical_paths results) [k]"
proof -
  let ?key = "\<lparr>lk_lexical = lexical_paths ! i, lk_resolved = conservative_path_key root\<rparr>"
  have "resolved_keys root lexical_paths results ! i = ?key"
    using assms(2-4) by (simp add: resolved_keys_def)
  then have "?key \<in> set (resolved_keys root lexical_paths results)"
    using assms(2,3) by (metis (no_types, lifting) length_map length_zip min.idem nth_mem resolved_keys_def)
  then show ?thesis using conservative_key_conflicts [OF assms(1)] by (auto simp: paths_conflict_iff)
qed

theorem unresolved_key_conflicts_with_all_witness:
  "paths_conflict (resolved_keys (0, 1) [[47, 98]] [None]) [sample_lease_key 97]"
  using unresolved_key_conflicts_with_all [of "(0, 1)" "sample_lease_key 97" "[None]" "[[47, 98]]" 0]
  by simp

end
