(* ===== verification/State_Path_Scan.thy ===== *)
theory State_Path_Scan
  imports Path_Coordinator Purge_Store
begin

text \<open>
  The admission scan over durable state paths: \<open>StatePathScanner::page_conflicts\<close>
  (\<open>src/src/server/path_coordinator.rs\<close>) and the paging loops \<open>has_persisted_path_conflict\<close> and
  \<open>has_persisted_path_descendant\<close> (\<open>src/src/server.rs\<close>) over the state store's blocking paths.
  Resolving a path touches the file system and is an argument (\<open>None\<close> is an I/O error).  Other
  commands may run between two pages, so the loop consumes a list of snapshots of the two tables,
  one per page.
\<close>

section \<open>Model\<close>

datatype StatePathScanRelation = SymmetricConflict | StrictDescendant

record StatePathScanner =
  sc_sources :: "bytes list"
  sc_resolved_sources :: "LeaseKey list option"
  sc_relation :: StatePathScanRelation

definition decode_relative_path :: "bytes \<Rightarrow> bytes \<Rightarrow> bytes option" where
  "decode_relative_path root_path encoded =
     (if encoded = [] \<or> 0 \<in> set encoded then None
      else if list_ex (\<lambda>c. case c of Normal _ \<Rightarrow> False | _ \<Rightarrow> True) (components encoded) then None
      else Some (path_push root_path encoded))"

definition resolve_state_path :: "bytes \<Rightarrow> bytes \<Rightarrow> bytes option" where
  "resolve_state_path root_path relative = decode_relative_path root_path relative"

definition state_path_conflict_scanner :: "bytes list \<Rightarrow> StatePathScanner" where
  "state_path_conflict_scanner sources =
     \<lparr>sc_sources = map normalize_key sources, sc_resolved_sources = None,
      sc_relation = SymmetricConflict\<rparr>"

definition state_path_descendant_scanner :: "bytes \<Rightarrow> StatePathScanner" where
  "state_path_descendant_scanner ancestor =
     \<lparr>sc_sources = [normalize_key ancestor], sc_resolved_sources = None,
      sc_relation = StrictDescendant\<rparr>"

definition resolved_path_keys_for_state_scan ::
  "(bytes \<Rightarrow> ResolvedPathKey option) \<Rightarrow> bytes list \<Rightarrow> ResolvedPathKey list option" where
  "resolved_path_keys_for_state_scan fs paths = those (map fs paths)"

definition lease_keys :: "bytes list \<Rightarrow> ResolvedPathKey list \<Rightarrow> LeaseKey list" where
  "lease_keys lexicals keys = map (\<lambda>(l, k). \<lparr>lk_lexical = l, lk_resolved = k\<rparr>) (zip lexicals keys)"

definition candidate_paths :: "bytes \<Rightarrow> StateBlockingPath list \<Rightarrow> (bytes \<times> bool) list option" where
  "candidate_paths root_path paths =
     those (map (\<lambda>p. map_option (\<lambda>x. (normalize_key x, sb_allows_exact_replacement p))
       (resolve_state_path root_path (sb_path p))) paths)"

definition candidate_conflicts :: "StatePathScanRelation \<Rightarrow> LeaseKey list \<Rightarrow> LeaseKey \<Rightarrow> bool \<Rightarrow> bool" where
  "candidate_conflicts rel sources candidate allows_exact_replacement =
     (case rel of
        SymmetricConflict \<Rightarrow> list_ex (\<lambda>source. path_keys_conflict source candidate) sources
      | StrictDescendant \<Rightarrow>
          if paths_identify_same_entry (hd sources) candidate then \<not> allows_exact_replacement
          else path_strictly_contains (hd sources) candidate)"

definition page_conflicts ::
  "(bytes \<Rightarrow> ResolvedPathKey option) \<Rightarrow> bytes \<Rightarrow> StateBlockingPath list \<Rightarrow> StatePathScanner \<Rightarrow>
   bool \<times> StatePathScanner" where
  "page_conflicts fs root_path paths sc =
     (if paths = [] then (False, sc)
      else case candidate_paths root_path paths of
        None \<Rightarrow> (True, sc)
      | Some candidates \<Rightarrow>
          let batch_sources = (if sc_resolved_sources sc = None then sc_sources sc else []) in
          (case resolved_path_keys_for_state_scan fs (batch_sources @ map fst candidates) of
             None \<Rightarrow> (True, sc)
           | Some resolved \<Rightarrow>
               let sources = (case sc_resolved_sources sc of
                     Some keys \<Rightarrow> keys
                   | None \<Rightarrow> lease_keys (sc_sources sc) resolved);
                   candidate_keys = lease_keys (map fst candidates)
                     (drop (length batch_sources) resolved)
               in (list_ex (\<lambda>(k, allows). candidate_conflicts (sc_relation sc) sources k allows)
                     (zip candidate_keys (map snd candidates)),
                   sc\<lparr>sc_resolved_sources := Some sources\<rparr>)))"

definition STATE_PATH_ADMISSION_PAGE_SIZE :: i64 where
  "STATE_PATH_ADMISSION_PAGE_SIZE = 256"

datatype scan_error = ScanAtCapacity | ScanStore store_error

text \<open>The loop: \<open>None\<close> means that the given snapshots are used up before it returns.\<close>

fun scan_pages ::
  "(bytes \<Rightarrow> ResolvedPathKey option) \<Rightarrow> bytes \<Rightarrow> StatePathScanner \<Rightarrow> StatePathCursor option \<Rightarrow>
   (upload_sessions \<times> purge_jobs_table) list \<Rightarrow> (scan_error + bool) option" where
  "scan_pages fs root_path sc after [] = None"
| "scan_pages fs root_path sc after (db # dbs) =
     (case state_blocking_paths after STATE_PATH_ADMISSION_PAGE_SIZE db of
        Inl e \<Rightarrow> Some (Inl (ScanStore e))
      | Inr page \<Rightarrow>
          (case page_conflicts fs root_path (sp_paths page) sc of
             (True, _) \<Rightarrow> Some (Inr True)
           | (False, sc') \<Rightarrow>
               (case sp_next page of
                  None \<Rightarrow> Some (Inr False)
                | Some next \<Rightarrow> scan_pages fs root_path sc' (Some next) dbs)))"

text \<open>\<open>admitted\<close>: whether one of the four scan slots is free.\<close>

definition has_persisted_path_conflict ::
  "(bytes \<Rightarrow> ResolvedPathKey option) \<Rightarrow> bytes \<Rightarrow> bool \<Rightarrow> bytes list \<Rightarrow>
   (upload_sessions \<times> purge_jobs_table) list \<Rightarrow> (scan_error + bool) option" where
  "has_persisted_path_conflict fs root_path admitted paths dbs =
     (if \<not> admitted then Some (Inl ScanAtCapacity)
      else scan_pages fs root_path (state_path_conflict_scanner paths) None dbs)"

definition has_persisted_path_descendant ::
  "(bytes \<Rightarrow> ResolvedPathKey option) \<Rightarrow> bytes \<Rightarrow> bool \<Rightarrow> bytes \<Rightarrow>
   (upload_sessions \<times> purge_jobs_table) list \<Rightarrow> (scan_error + bool) option" where
  "has_persisted_path_descendant fs root_path admitted path dbs =
     (if \<not> admitted then Some (Inl ScanAtCapacity)
      else scan_pages fs root_path (state_path_descendant_scanner path) None dbs)"

section \<open>Specification of one row\<close>

text \<open>A row blocks when its path or a source cannot be resolved, or when its key conflicts.\<close>

definition row_blocks ::
  "(bytes \<Rightarrow> ResolvedPathKey option) \<Rightarrow> bytes \<Rightarrow> StatePathScanRelation \<Rightarrow> bytes list \<Rightarrow>
   StateBlockingPath \<Rightarrow> bool" where
  "row_blocks fs root_path rel sources p \<longleftrightarrow>
     (case those (map fs sources) of
        None \<Rightarrow> True
      | Some source_keys \<Rightarrow>
          (case resolve_state_path root_path (sb_path p) of
             None \<Rightarrow> True
           | Some x \<Rightarrow>
               (case fs (normalize_key x) of
                  None \<Rightarrow> True
                | Some k \<Rightarrow> candidate_conflicts rel (lease_keys sources source_keys)
                    \<lparr>lk_lexical = normalize_key x, lk_resolved = k\<rparr>
                    (sb_allows_exact_replacement p))))"

text \<open>The scanner before its first and after its first non-empty page.\<close>

definition scanner_ok :: "(bytes \<Rightarrow> ResolvedPathKey option) \<Rightarrow> bytes list \<Rightarrow> StatePathScanRelation \<Rightarrow>
    StatePathScanner \<Rightarrow> bool" where
  "scanner_ok fs sources rel sc \<longleftrightarrow>
     sc_sources sc = sources \<and> sc_relation sc = rel
     \<and> (case sc_resolved_sources sc of
          None \<Rightarrow> True
        | Some keys \<Rightarrow> (\<exists>ks. those (map fs sources) = Some ks \<and> keys = lease_keys sources ks))"

lemma those_append: "those (xs @ ys) =
  (case those xs of None \<Rightarrow> None | Some a \<Rightarrow> (case those ys of None \<Rightarrow> None | Some b \<Rightarrow> Some (a @ b)))"
  by (induction xs) (auto split: option.splits)

lemma those_length: "those xs = Some ys \<Longrightarrow> length ys = length xs"
  by (induction xs arbitrary: ys) (auto split: option.splits)

lemma lease_keys_append:
  "length ls = length ks \<Longrightarrow> lease_keys ls (ks @ rest) = lease_keys ls ks"
  by (simp add: lease_keys_def zip_append2)

section \<open>One page\<close>

text \<open>What a single candidate contributes once the sources are resolved.\<close>

definition candidate_blocks ::
  "(bytes \<Rightarrow> ResolvedPathKey option) \<Rightarrow> bytes \<Rightarrow> (LeaseKey \<Rightarrow> bool \<Rightarrow> bool) \<Rightarrow> StateBlockingPath \<Rightarrow> bool" where
  "candidate_blocks fs root_path P p \<longleftrightarrow>
     (case resolve_state_path root_path (sb_path p) of
        None \<Rightarrow> True
      | Some x \<Rightarrow>
          (case fs (normalize_key x) of
             None \<Rightarrow> True
           | Some k \<Rightarrow> P \<lparr>lk_lexical = normalize_key x, lk_resolved = k\<rparr> (sb_allows_exact_replacement p)))"

lemma candidate_paths_Cons:
  "candidate_paths root_path (p # paths) =
    (case resolve_state_path root_path (sb_path p) of
       None \<Rightarrow> None
     | Some x \<Rightarrow> map_option ((#) (normalize_key x, sb_allows_exact_replacement p))
         (candidate_paths root_path paths))"
  by (auto simp: candidate_paths_def split: option.splits)

lemma candidate_paths_None:
  "candidate_paths root_path paths = None \<Longrightarrow> list_ex (candidate_blocks fs root_path P) paths"
proof (induction paths)
  case (Cons p paths)
  then show ?case
    by (auto simp: candidate_paths_Cons candidate_blocks_def [of _ _ _ p] split: option.splits)
qed (simp add: candidate_paths_def)

lemma candidates_unresolved:
  "candidate_paths root_path paths = Some cs \<Longrightarrow> those (map fs (map fst cs)) = None \<Longrightarrow>
    list_ex (candidate_blocks fs root_path P) paths"
proof (induction paths arbitrary: cs)
  case (Cons p paths)
  then show ?case
    by (auto simp: candidate_paths_Cons candidate_blocks_def [of _ _ _ p] split: option.splits)
qed (simp add: candidate_paths_def)

lemma candidates_resolved:
  "candidate_paths root_path paths = Some cs \<Longrightarrow> those (map fs (map fst cs)) = Some ks \<Longrightarrow>
    list_ex (\<lambda>(k, allows). P k allows) (zip (lease_keys (map fst cs) ks) (map snd cs)) \<longleftrightarrow>
    list_ex (candidate_blocks fs root_path P) paths"
proof (induction paths arbitrary: cs ks)
  case (Cons p paths)
  then show ?case
    by (auto simp: candidate_paths_Cons candidate_blocks_def [of _ _ _ p] lease_keys_def
        split: option.splits)
qed (simp add: candidate_paths_def lease_keys_def)

lemma row_blocks_resolved:
  "those (map fs sources) = Some ks \<Longrightarrow>
    row_blocks fs root_path rel sources =
    candidate_blocks fs root_path (candidate_conflicts rel (lease_keys sources ks))"
  by (intro ext) (simp add: row_blocks_def candidate_blocks_def)

lemma row_blocks_unresolved:
  "those (map fs sources) = None \<Longrightarrow> row_blocks fs root_path rel sources p"
  by (simp add: row_blocks_def)

text \<open>A page is decided exactly by its rows, and the cached source keys stay right.\<close>

lemma page_conflicts_correct:
  assumes ok: "scanner_ok fs sources rel sc"
    and run: "page_conflicts fs root_path paths sc = (b, sc')"
  shows "b = list_ex (row_blocks fs root_path rel sources) paths
    \<and> (\<not> b \<longrightarrow> scanner_ok fs sources rel sc')"
proof (cases "paths = []")
  case True
  then show ?thesis using run ok by (auto simp: page_conflicts_def)
next
  case ne: False
  note src = ok [unfolded scanner_ok_def]
  show ?thesis
  proof (cases "those (map fs sources)")
    case None
    then have unresolved: "sc_resolved_sources sc = None" using src by (auto split: option.splits)
    have "list_ex (row_blocks fs root_path rel sources) paths"
      using ne row_blocks_unresolved [OF None] by (cases paths) auto
    moreover have b
      using run ne unresolved None src
      by (auto simp: page_conflicts_def resolved_path_keys_for_state_scan_def those_append Let_def
          split: option.splits)
    ultimately show ?thesis by simp
  next
    case (Some sks)
    note rb = row_blocks_resolved [OF Some, of root_path rel]
    let ?P = "candidate_conflicts rel (lease_keys sources sks)"
    show ?thesis
    proof (cases "candidate_paths root_path paths")
      case None
      then show ?thesis using run ne candidate_paths_None [of root_path paths fs ?P]
        by (simp add: page_conflicts_def rb)
    next
      case cs: (Some cs)
      have len: "length sks = length sources" using those_length [OF Some] by simp
      show ?thesis
      proof (cases "those (map fs (map fst cs))")
        case None
        then have "those (map fs (xs @ map fst cs)) = None" for xs
          by (auto simp: those_append split: option.splits)
        then have b using run ne cs
          by (simp add: page_conflicts_def resolved_path_keys_for_state_scan_def Let_def)
        then show ?thesis using candidates_unresolved [OF cs None, of ?P] by (simp add: rb)
      next
        case ks: (Some ks)
        from candidates_resolved [OF cs ks, of ?P] run ne cs ks Some src len
        show ?thesis
          by (auto simp: page_conflicts_def resolved_path_keys_for_state_scan_def Let_def those_append
              rb lease_keys_append scanner_ok_def split: option.splits)
      qed
    qed
  qed
qed

section \<open>The whole scan\<close>

lemma first_page_all:
  assumes "length (keyset_page key after n rows) \<noteq> n"
  shows "keyset_page key after n rows = filter (\<lambda>r. beyond after (key r)) rows"
  using assms by (auto simp: keyset_page_def)

text \<open>A row that is in every snapshot and lies beyond the cursor is seen.\<close>

lemma scan_sees:
  assumes "scan_pages fs root_path sc after dbs = Some (Inr False)"
    and "scanner_ok fs sources rel sc"
    and "list_all (\<lambda>db. uploads_inv (fst db) \<and> purges_inv (snd db) \<and> r \<in> set (state_path_rows db)) dbs"
    and "beyond after (sr_cursor r)"
  shows "\<not> row_blocks fs root_path rel sources (blocking_path r)"
  using assms
proof (induction dbs arbitrary: sc after)
  case (Cons db dbs)
  obtain us ps where db: "db = (us, ps)" by fastforce
  have inv: "uploads_inv us" "purges_inv ps" and r: "r \<in> set (state_path_rows (us, ps))"
    using Cons.prems(3) db by auto
  let ?rows = "state_path_rows (us, ps)"
  let ?page = "keyset_page sr_cursor after 256 ?rows"
  note page = state_blocking_paths_page [OF inv, of after STATE_PATH_ADMISSION_PAGE_SIZE]
  obtain b sc' where run: "page_conflicts fs root_path (map blocking_path ?page) sc = (b, sc')"
    by fastforce
  have nb: "\<not> b" using Cons.prems(1) page run db
    by (auto simp: STATE_PATH_ADMISSION_PAGE_SIZE_def)
  from page_conflicts_correct [OF Cons.prems(2) run] nb
  have none: "\<not> list_ex (row_blocks fs root_path rel sources) (map blocking_path ?page)"
    and ok': "scanner_ok fs sources rel sc'" by auto
  show ?case
  proof (cases "r \<in> set ?page")
    case True
    then show ?thesis using none by (auto simp: list_ex_iff)
  next
    case False
    have "r \<in> set (filter (\<lambda>r. beyond after (sr_cursor r)) ?rows)" using r Cons.prems(4) by simp
    then have full: "length ?page = 256"
      using False first_page_all [of sr_cursor after 256 ?rows] by metis
    then have "?page \<noteq> []" by auto
    have wf: "state_tables_wf (us, ps)" using inv
      by (simp add: state_tables_wf_def uploads_inv_def purges_inv_def)
    have "r \<in> set (state_page.remaining after (us, ps))"
      using r Cons.prems(4) by (simp add: state_page.remaining_def)
    with False have "r \<in> set (drop 256 (state_page.remaining after (us, ps)))"
      unfolding state_page.page_take by (metis append_take_drop_id Un_iff set_append)
    then have "r \<in> set (state_page.remaining (Some (sr_cursor (last ?page))) (us, ps))"
      using state_page.remaining_full_page [OF wf _ full] by simp
    then have "beyond (Some (sr_cursor (last ?page))) (sr_cursor r)"
      by (simp add: state_page.remaining_def)
    moreover have "scan_pages fs root_path sc' (Some (sr_cursor (last ?page))) dbs = Some (Inr False)"
      using Cons.prems(1) page run db nb full \<open>?page \<noteq> []\<close>
      by (auto simp: STATE_PATH_ADMISSION_PAGE_SIZE_def)
    ultimately show ?thesis using Cons.IH [OF _ ok'] Cons.prems(3) by simp
  qed
qed simp

text \<open>On an unchanged store the scan returns, and decides by all rows.\<close>

lemma scan_decides:
  assumes "scanner_ok fs sources rel sc" and inv: "uploads_inv us" "purges_inv ps"
    and "length (state_page.remaining after (us, ps)) div 256 < n"
  shows "scan_pages fs root_path sc after (replicate n (us, ps)) =
    Some (Inr (list_ex (\<lambda>r. row_blocks fs root_path rel sources (blocking_path r))
      (state_page.remaining after (us, ps))))"
  using assms(1,4)
proof (induction n arbitrary: sc after)
  case (Suc n)
  let ?rows = "state_path_rows (us, ps)" and ?rem = "state_page.remaining after (us, ps)"
  let ?page = "keyset_page sr_cursor after 256 ?rows"
  have tk: "?page = take 256 ?rem" by (simp add: state_page.page_take)
  note page = state_blocking_paths_page [OF inv, of after STATE_PATH_ADMISSION_PAGE_SIZE]
  obtain b sc' where run: "page_conflicts fs root_path (map blocking_path ?page) sc = (b, sc')"
    by fastforce
  from page_conflicts_correct [OF Suc.prems(1) run]
  have b: "b = list_ex (\<lambda>r. row_blocks fs root_path rel sources (blocking_path r)) ?page"
    and ok': "\<not> b \<longrightarrow> scanner_ok fs sources rel sc'"
    by (auto simp: list_ex_iff)
  have split: "list_ex Q ?rem \<longleftrightarrow> list_ex Q ?page \<or> list_ex Q (drop 256 ?rem)" for Q
    unfolding tk by (metis append_take_drop_id list_ex_append)
  show ?case
  proof (cases b)
    case True
    then show ?thesis using page run b split by (simp add: STATE_PATH_ADMISSION_PAGE_SIZE_def)
  next
    case nb: False
    show ?thesis
    proof (cases "length ?page = 256")
      case False
      then have "drop 256 ?rem = []" unfolding tk by simp
      then show ?thesis using page run b split nb False
        by (simp add: STATE_PATH_ADMISSION_PAGE_SIZE_def)
    next
      case full: True
      have wf: "state_tables_wf (us, ps)" using inv
        by (simp add: state_tables_wf_def uploads_inv_def purges_inv_def)
      note rem = state_page.remaining_full_page [OF wf _ full, simplified]
      have "256 \<le> length ?rem" using full unfolding tk by simp
      then have "length (drop 256 ?rem) div 256 < n" using Suc.prems(2) by auto
      then have "scan_pages fs root_path sc' (Some (sr_cursor (last ?page))) (replicate n (us, ps)) =
        Some (Inr (list_ex (\<lambda>r. row_blocks fs root_path rel sources (blocking_path r)) (drop 256 ?rem)))"
        using Suc.IH [of sc' "Some (sr_cursor (last ?page))"] ok' nb rem by simp
      moreover have "?page \<noteq> []" using full by auto
      ultimately show ?thesis using page run b split nb full
        by (simp add: STATE_PATH_ADMISSION_PAGE_SIZE_def)
    qed
  qed
qed simp

section \<open>Properties\<close>

lemma conflict_scanner_ok:
  "scanner_ok fs (map normalize_key paths) SymmetricConflict (state_path_conflict_scanner paths)"
  "scanner_ok fs [normalize_key path] StrictDescendant (state_path_descendant_scanner path)"
  by (simp_all add: scanner_ok_def state_path_conflict_scanner_def state_path_descendant_scanner_def)

text \<open>C18: The admission scan is exact.  On an unchanged valid store, with one snapshot per page,
  both scans return after finitely many pages, and they answer true exactly when some live
  upload target or stage, prepared purge target or trash path conflicts with a source (or a path
  involved cannot be resolved), as if all rows had been compared at once.\<close>

theorem persisted_path_scan_exact:
  assumes "uploads_inv us" and "purges_inv ps"
    and "length (state_path_rows (us, ps)) div 256 < n"
  shows "has_persisted_path_conflict fs root_path True paths (replicate n (us, ps)) =
      Some (Inr (\<exists>r\<in>set (state_path_rows (us, ps)).
        row_blocks fs root_path SymmetricConflict (map normalize_key paths) (blocking_path r)))
    \<and> has_persisted_path_descendant fs root_path True path (replicate n (us, ps)) =
      Some (Inr (\<exists>r\<in>set (state_path_rows (us, ps)).
        row_blocks fs root_path StrictDescendant [normalize_key path] (blocking_path r)))"
  using scan_decides [where after = None and n = n, OF conflict_scanner_ok(1) assms(1,2)]
    scan_decides [where after = None and n = n, OF conflict_scanner_ok(2) assms(1,2)] assms(3)
  by (simp add: has_persisted_path_conflict_def has_persisted_path_descendant_def list_ex_iff)

text \<open>A file system in which every path is an entry of the root directory.\<close>

abbreviation sample_fs :: "bytes \<Rightarrow> ResolvedPathKey option" where
  "sample_fs p \<equiv> Some \<lparr>resolved_parent = (0, 1), unresolved_tail = [p],
     ancestor_directories = [(0, 1)], target_directory = None\<rparr>"

lemma sample_state_rows:
  "state_path_rows (sample_uploads, []) =
     [\<lparr>sr_cursor = cursor_of 0 sample_key 0, sr_path = us_target_path sample_session,
       sr_allows_exact_replacement = 1\<rparr>,
      \<lparr>sr_cursor = cursor_of 0 sample_key 1, sr_path = us_stage_path sample_session,
       sr_allows_exact_replacement = 0\<rparr>]"
  by code_simp

lemma sample_rows_free:
  "\<not> (\<exists>r\<in>set (state_path_rows (sample_uploads, [])).
     row_blocks sample_fs [47] SymmetricConflict (map normalize_key [[47, 122]]) (blocking_path r))"
  unfolding sample_state_rows by code_simp

theorem persisted_path_scan_exact_witness:
  "has_persisted_path_conflict sample_fs [47] True [[47, 122]] [(sample_uploads, [])] = Some (Inr False)"
  using persisted_path_scan_exact [OF sample_uploads_inv purges_inv_Nil, of 1 sample_fs "[47]" "[[47, 122]]"]
    sample_rows_free by (simp add: sample_state_rows)

text \<open>C19: The scan never misses a persistent obligation.  While other commands change the store
  between the pages, a scan that answers false has seen every row that stayed in the store
  throughout, and none of them conflicts with the sources.\<close>

theorem persisted_path_scan_never_misses:
  assumes "has_persisted_path_conflict fs root_path admitted paths dbs = Some (Inr False)"
    and "\<forall>db\<in>set dbs. uploads_inv (fst db) \<and> purges_inv (snd db)"
    and "\<forall>db\<in>set dbs. r \<in> set (state_path_rows db)"
  shows "\<not> row_blocks fs root_path SymmetricConflict (map normalize_key paths) (blocking_path r)"
proof -
  have "scan_pages fs root_path (state_path_conflict_scanner paths) None dbs = Some (Inr False)"
    using assms(1) by (simp add: has_persisted_path_conflict_def split: if_splits)
  from scan_sees [OF this conflict_scanner_ok(1)] assms(2,3) show ?thesis
    by (auto simp: list_all_iff)
qed

theorem persisted_path_scan_never_misses_witness:
  "\<exists>r. r \<in> set (state_path_rows (sample_uploads, []))
    \<and> has_persisted_path_conflict sample_fs [47] True [[47, 122]] [(sample_uploads, [])] = Some (Inr False)
    \<and> \<not> row_blocks sample_fs [47] SymmetricConflict (map normalize_key [[47, 122]]) (blocking_path r)"
proof -
  let ?r = "hd (state_path_rows (sample_uploads, []))"
  have r: "?r \<in> set (state_path_rows (sample_uploads, []))" by (simp add: sample_state_rows)
  have run: "has_persisted_path_conflict sample_fs [47] True [[47, 122]] [(sample_uploads, [])] =
    Some (Inr False)"
    using scan_decides [where after = None and n = 1 and root_path = "[47]",
        OF conflict_scanner_ok(1) [of sample_fs "[[47, 122]]"] sample_uploads_inv purges_inv_Nil]
      sample_rows_free
    by (simp add: has_persisted_path_conflict_def sample_state_rows)
  from persisted_path_scan_never_misses [OF run, of ?r] r show ?thesis
    using sample_uploads_inv run by auto
qed

text \<open>For the directional relation, refusing a page with an unresolvable candidate is stricter than
  giving the candidate the key of the shared root: that key is neither the same entry as the source
  nor strictly below it.\<close>

theorem root_key_is_no_descendant:
  fixes root :: FileIdentity
  defines "source \<equiv> \<lparr>resolved_parent = root, unresolved_tail = [[97]], ancestor_directories = [root],
      target_directory = None\<rparr>"
  shows "fst (page_conflicts (\<lambda>q. if q = [47, 97] then Some source else None) [47]
        [\<lparr>sb_path = [98], sb_allows_exact_replacement = allows\<rparr>] (state_path_descendant_scanner [47, 97]))
    \<and> \<not> candidate_conflicts StrictDescendant [\<lparr>lk_lexical = [47, 97], lk_resolved = source\<rparr>]
        \<lparr>lk_lexical = [47, 98], lk_resolved = conservative_path_key root\<rparr> allows"
proof -
  have res: "resolve_state_path [47] [98] = Some [47, 98]" "normalize_key [47, 98] = [47, 98]"
    "normalize_key [47, 97] = [47, 97]" by code_simp+
  have lex: "\<not> path_eq [47, 97] [47, 98]" "\<not> path_starts_with [47, 98] [47, 97]" by code_simp+
  have "\<not> candidate_conflicts StrictDescendant [\<lparr>lk_lexical = [47, 97], lk_resolved = source\<rparr>]
        \<lparr>lk_lexical = [47, 98], lk_resolved = conservative_path_key root\<rparr> allows"
    by (simp add: candidate_conflicts_def lex paths_identify_same_entry_def path_strictly_contains_def
        conservative_path_key_def resolved_path_strictly_contains_def target_contains_def source_def)
  then show ?thesis
    by (simp add: page_conflicts_def candidate_paths_def res state_path_descendant_scanner_def
        resolved_path_keys_for_state_scan_def Let_def)
qed

end
