(* ===== verification/Wire_Text.thy ===== *)
theory Wire_Text
  imports Prelude
begin

text \<open>
  Text that crosses the wire (\<open>src/src/utils.rs\<close>): the hexadecimal codec, the byte-range parser
  of downloads, and the parts of Rust's string library they rest on: decimal conversion of
  \<open>u64\<close>, \<open>split_once\<close>, \<open>trim\<close> and ASCII case folding.  A Rust string is the list of its
  UTF-8 bytes.
\<close>

section \<open>Characters\<close>

abbreviation code_of :: "char \<Rightarrow> nat" where
  "code_of c \<equiv> of_char c"

definition is_ascii_digit :: "char \<Rightarrow> bool" where
  "is_ascii_digit c \<longleftrightarrow> 48 \<le> code_of c \<and> code_of c \<le> 57"

definition is_lower_hex :: "char \<Rightarrow> bool" where
  "is_lower_hex c \<longleftrightarrow> is_ascii_digit c \<or> (97 \<le> code_of c \<and> code_of c \<le> 102)"

definition to_ascii_lower :: "char \<Rightarrow> char" where
  "to_ascii_lower c = (if 65 \<le> code_of c \<and> code_of c \<le> 90 then char_of (code_of c + 32) else c)"

definition eq_ignore_ascii_case :: "string \<Rightarrow> string \<Rightarrow> bool" where
  "eq_ignore_ascii_case a b \<longleftrightarrow> map to_ascii_lower a = map to_ascii_lower b"

text \<open>\<open>str::split_once\<close> on a character.\<close>

fun split_once :: "'a \<Rightarrow> 'a list \<Rightarrow> ('a list \<times> 'a list) option" where
  "split_once c [] = None"
| "split_once c (x # xs) =
     (if x = c then Some ([], xs)
      else (case split_once c xs of None \<Rightarrow> None | Some (a, b) \<Rightarrow> Some (x # a, b)))"

text \<open>\<open>str::trim\<close>: the UTF-8 encodings of the characters with the Unicode property
  \<open>White_Space\<close>.\<close>

definition white_space :: "string list" where
  "white_space =
     map (\<lambda>n. [char_of (n :: nat)]) [9, 10, 11, 12, 13, 32]
     @ map (map char_of) ([[194, 133], [194, 160], [225, 154, 128]] :: nat list list)
     @ map (\<lambda>n. map char_of [226, 128, n :: nat]) [128..<139]
     @ map (map char_of) ([[226, 128, 168], [226, 128, 169], [226, 128, 175], [226, 129, 159],
         [227, 128, 128]] :: nat list list)"

fun strip_any :: "string list \<Rightarrow> string \<Rightarrow> string option" where
  "strip_any [] s = None"
| "strip_any (w # ws) s = (case strip_prefix w s of Some r \<Rightarrow> Some r | None \<Rightarrow> strip_any ws s)"

lemma strip_any_Some: "strip_any ws s = Some r \<Longrightarrow> \<exists>w\<in>set ws. s = w @ r"
  by (induction ws s rule: strip_any.induct) (auto simp: strip_prefix_Some split: option.splits)

lemma white_space_nonempty: "[] \<notin> set white_space"
  by (auto simp: white_space_def)

lemma strip_any_shorter:
  assumes "strip_any ws s = Some r" and "[] \<notin> set ws" shows "length r < length s"
proof -
  from strip_any_Some [OF assms(1)] obtain w where "w \<in> set ws" "s = w @ r" by blast
  with assms(2) show ?thesis by (cases w) auto
qed

lemma strip_white_shorter:
  "strip_any white_space s = Some r \<Longrightarrow> length r < length s"
  "strip_any (map rev white_space) s = Some r \<Longrightarrow> length r < length s"
  using white_space_nonempty by (auto elim!: strip_any_shorter)

function trim_start :: "string \<Rightarrow> string" where
  "trim_start s = (case strip_any white_space s of None \<Rightarrow> s | Some r \<Rightarrow> trim_start r)"
  by auto
termination
  by (relation "measure length") (auto dest: strip_white_shorter)

function trim_start_rev :: "string \<Rightarrow> string" where
  "trim_start_rev s =
     (case strip_any (map rev white_space) s of None \<Rightarrow> s | Some r \<Rightarrow> trim_start_rev r)"
  by auto
termination
  by (relation "measure length") (auto dest: strip_white_shorter)

definition trim :: "string \<Rightarrow> string" where
  "trim s = rev (trim_start_rev (rev (trim_start s)))"

declare trim_start.simps [simp del] trim_start_rev.simps [simp del]

section \<open>Decimal numbers\<close>

definition digit_char :: "nat \<Rightarrow> char" where
  "digit_char d = char_of (48 + d)"

definition digit_value :: "char \<Rightarrow> nat" where
  "digit_value c = code_of c - 48"

text \<open>\<open>u64::to_string\<close>.\<close>

fun decimal :: "nat \<Rightarrow> string" where
  "decimal n = (if n < 10 then [digit_char n] else decimal (n div 10) @ [digit_char (n mod 10)])"

declare decimal.simps [simp del]

text \<open>\<open>str::parse::<u64>\<close>: an optional plus sign, then digits, with checked arithmetic.\<close>

fun parse_digits :: "u64 \<Rightarrow> string \<Rightarrow> u64 option" where
  "parse_digits acc [] = Some acc"
| "parse_digits acc (c # cs) =
     (if \<not> is_ascii_digit c then None
      else (case u64_checked_mul acc 10 of
        None \<Rightarrow> None
      | Some m \<Rightarrow>
          (case u64_checked_add m (of_nat (digit_value c)) of
             None \<Rightarrow> None
           | Some acc' \<Rightarrow> parse_digits acc' cs)))"

definition parse_u64 :: "string \<Rightarrow> u64 option" where
  "parse_u64 s =
     (case s of
        [] \<Rightarrow> None
      | [c] \<Rightarrow> if c = CHR ''+'' \<or> c = CHR ''-'' then None else parse_digits 0 s
      | c # cs \<Rightarrow> if c = CHR ''+'' then parse_digits 0 cs else parse_digits 0 s)"

fun digits_value :: "nat \<Rightarrow> string \<Rightarrow> nat" where
  "digits_value acc [] = acc"
| "digits_value acc (c # cs) = digits_value (10 * acc + digit_value c) cs"

lemma digit_char_simps:
  assumes "d < 10"
  shows "is_ascii_digit (digit_char d)" "digit_value (digit_char d) = d"
    "code_of (digit_char d) = 48 + d"
  using assms by (simp_all add: is_ascii_digit_def digit_char_def digit_value_def)

lemma digit_char_value: "is_ascii_digit c \<Longrightarrow> digit_char (digit_value c) = c"
  by (simp add: is_ascii_digit_def digit_char_def digit_value_def)

lemma digit_value_lt: "is_ascii_digit c \<Longrightarrow> digit_value c < 10"
  by (auto simp: is_ascii_digit_def digit_value_def)

lemma digits_value_append: "digits_value acc (s @ t) = digits_value (digits_value acc s) t"
  by (induction acc s rule: digits_value.induct) auto

lemma digits_value_ge: "acc \<le> digits_value acc s"
  by (induction acc s rule: digits_value.induct) (auto intro: order_trans [rotated])

lemma decimal_digits: "list_all is_ascii_digit (decimal n)"
proof (induction n rule: decimal.induct)
  case (1 n)
  then show ?case by (subst decimal.simps) (auto simp: digit_char_simps)
qed

lemma decimal_not_Nil [simp]: "decimal n \<noteq> []"
  by (subst decimal.simps) simp

lemma digits_value_decimal: "digits_value 0 (decimal n) = n"
proof (induction n rule: decimal.induct)
  case (1 n)
  then show ?case by (subst decimal.simps) (auto simp: digits_value_append digit_char_simps)
qed

lemma parse_digits_Some:
  "parse_digits acc s = Some r \<longleftrightarrow>
     list_all is_ascii_digit s \<and> digits_value (unat acc) s < 2 ^ 64
     \<and> r = of_nat (digits_value (unat acc) s)"
proof (induction acc s rule: parse_digits.induct)
  case (1 acc)
  show ?case using unsigned_less [of acc] by auto
next
  case (2 acc c cs)
  show ?case
  proof (cases "is_ascii_digit c")
    case True
    let ?v = "10 * unat acc + digit_value c"
    have d: "unat (of_nat (digit_value c) :: u64) = digit_value c"
      using digit_value_lt [OF True] by (simp add: unat_of_nat)
    show ?thesis
    proof (cases "?v < 2 ^ 64")
      case fits: True
      then have m: "u64_checked_mul acc 10 = Some (acc * 10)"
        by (simp add: u64_checked_mul_def)
      then have um: "unat (acc * 10) = unat acc * 10" by (auto dest: u64_checked_mul_Some)
      with fits d have a: "u64_checked_add (acc * 10) (of_nat (digit_value c)) =
          Some (acc * 10 + of_nat (digit_value c))"
        by (simp add: u64_checked_add_def)
      from u64_checked_add_Some [OF this] um d
      have "unat (acc * 10 + of_nat (digit_value c)) = ?v" by simp
      with 2 [OF _ m a] True m a show ?thesis by simp
    next
      case False
      then have "\<not> digits_value ?v cs < 2 ^ 64"
        using digits_value_ge [of ?v cs] by linarith
      moreover have "(case u64_checked_mul acc 10 of None \<Rightarrow> None
        | Some m \<Rightarrow> (case u64_checked_add m (of_nat (digit_value c)) of
             None \<Rightarrow> None | Some acc' \<Rightarrow> parse_digits acc' cs)) = None"
        using False d by (auto simp: u64_checked_add_def dest!: u64_checked_mul_Some split: option.splits)
      ultimately show ?thesis using True by simp
    qed
  qed simp
qed

lemma digits_no_sign: "list_all is_ascii_digit (c # cs) \<Longrightarrow> c \<noteq> CHR ''+'' \<and> c \<noteq> CHR ''-''"
  by (auto simp: is_ascii_digit_def)

text \<open>On plain digits \<open>parse::<u64>\<close> computes the number they denote, or fails above
  \<open>u64::MAX\<close>.\<close>

lemma parse_u64_digits:
  assumes "list_all is_ascii_digit s" and "s \<noteq> []"
  shows "parse_u64 s =
    (if digits_value 0 s < 2 ^ 64 then Some (of_nat (digits_value 0 s)) else None)"
proof -
  have p: "parse_digits 0 s =
      (if digits_value 0 s < 2 ^ 64 then Some (of_nat (digits_value 0 s)) else None)"
    using assms(1) parse_digits_Some [of 0 s]
    by (cases "parse_digits 0 s") auto
  have "parse_u64 s = parse_digits 0 s"
    using assms digits_no_sign [of "hd s" "tl s"]
    by (auto simp: parse_u64_def split: list.splits)
  with p show ?thesis by simp
qed

lemma parse_decimal [simp]: "parse_u64 (decimal (unat w)) = Some w"
  using unsigned_less [of w]
  by (simp add: parse_u64_digits decimal_digits digits_value_decimal)

text \<open>The canonical spelling: no leading zero.\<close>

definition canonical_digits :: "string \<Rightarrow> bool" where
  "canonical_digits s \<longleftrightarrow>
     \<not> (s = [] \<or> \<not> list_all is_ascii_digit s \<or> (1 < length s \<and> hd s = CHR ''0''))"

lemma decimal_digits_value_snoc:
  assumes "is_ascii_digit c" and "0 < n"
  shows "decimal (10 * n + digit_value c) = decimal n @ [c]"
  using digit_value_lt [OF assms(1)] digit_char_value [OF assms(1)] assms(2)
  by (subst decimal.simps) auto

lemma digits_value_pos:
  "is_ascii_digit c \<Longrightarrow> c \<noteq> CHR ''0'' \<Longrightarrow> 0 < digits_value 0 (c # cs)"
proof -
  assume c: "is_ascii_digit c" "c \<noteq> CHR ''0''"
  have "code_of c \<noteq> code_of (CHR ''0'')" using c(2) by (simp only: of_char_eq_iff not_False_eq_True)
  with c(1) have "digit_value c \<noteq> 0" by (auto simp: digit_value_def is_ascii_digit_def)
  with digits_value_ge [of "digit_value c" cs] show ?thesis by simp
qed

lemma decimal_of_digits:
  "canonical_digits s \<Longrightarrow> decimal (digits_value 0 s) = s"
proof (induction s rule: rev_induct)
  case (snoc c s)
  show ?case
  proof (cases "s = []")
    case True
    with snoc.prems have "is_ascii_digit c" by (auto simp: canonical_digits_def)
    with True digit_value_lt [of c] digit_char_value [of c] show ?thesis
      by (subst decimal.simps) simp
  next
    case False
    with snoc.prems have "canonical_digits s" and c: "is_ascii_digit c"
      and hd: "hd s \<noteq> CHR ''0''" "is_ascii_digit (hd s)"
      by (auto simp: canonical_digits_def hd_append list_all_iff)
    with snoc.IH have ih: "decimal (digits_value 0 s) = s" by simp
    have "0 < digits_value 0 s"
      using digits_value_pos [OF hd(2) hd(1), of "tl s"] False by simp
    with decimal_digits_value_snoc [OF c] ih show ?thesis
      by (simp add: digits_value_append)
  qed
qed (simp add: canonical_digits_def)

lemma decimal_leading: "1 < length (decimal n) \<Longrightarrow> hd (decimal n) \<noteq> CHR ''0''"
proof (induction n rule: decimal.induct)
  case (1 n)
  show ?case
  proof (cases "n < 10")
    case False
    then have d: "decimal n = decimal (n div 10) @ [digit_char (n mod 10)]"
      by (subst decimal.simps) simp
    show ?thesis
    proof (cases "1 < length (decimal (n div 10))")
      case True
      with 1(1) [OF False True] d show ?thesis by (simp add: hd_append)
    next
      case short: False
      then have "n div 10 < 10"
        by (subst (asm) decimal.simps) (auto split: if_splits)
      with False have "0 < n div 10" "decimal (n div 10) = [digit_char (n div 10)]"
        by (auto simp: decimal.simps)
      with \<open>n div 10 < 10\<close> digit_char_simps(3) [of "n div 10"] d show ?thesis
        by auto
    qed
  qed (use 1 in \<open>simp add: decimal.simps\<close>)
qed

lemma decimal_canonical: "canonical_digits (decimal n)"
  using decimal_leading [of n] by (auto simp: canonical_digits_def decimal_digits)

section \<open>Hexadecimal text\<close>

definition hex_digit :: "byte \<Rightarrow> char" where
  "hex_digit n = ''0123456789abcdef'' ! unat n"

definition encode_hex :: "bytes \<Rightarrow> string" where
  "encode_hex bs = concat (map (\<lambda>b. [hex_digit (drop_bit 4 b), hex_digit (b AND 0x0F)]) bs)"

definition hex_nibble :: "char \<Rightarrow> byte option" where
  "hex_nibble c =
     (if is_ascii_digit c then Some (of_char c - 48)
      else if 97 \<le> code_of c \<and> code_of c \<le> 102 then Some (of_char c - 97 + 10)
      else if 65 \<le> code_of c \<and> code_of c \<le> 70 then Some (of_char c - 65 + 10)
      else None)"

fun decode_pairs :: "string \<Rightarrow> bytes option" where
  "decode_pairs (h # l # rest) =
     (case hex_nibble h of
        None \<Rightarrow> None
      | Some high \<Rightarrow>
          (case hex_nibble l of
             None \<Rightarrow> None
           | Some low \<Rightarrow> map_option ((#) (push_bit 4 high OR low)) (decode_pairs rest)))"
| "decode_pairs _ = Some []"

text \<open>The output slice has \<open>n\<close> bytes; its contents after a failure are never used.\<close>

definition decode_hex_to_slice :: "string \<Rightarrow> nat \<Rightarrow> bytes option" where
  "decode_hex_to_slice input n = (if length input \<noteq> 2 * n then None else decode_pairs input)"

lemma length_encode_hex [simp]: "length (encode_hex bs) = 2 * length bs"
  by (induction bs) (auto simp: encode_hex_def)

lemma encode_hex_Cons:
  "encode_hex (b # bs) = hex_digit (drop_bit 4 b) # hex_digit (b AND 0x0F) # encode_hex bs"
  by (simp add: encode_hex_def)

lemma small_numbers:
  fixes k :: nat
  shows "k < 16 \<Longrightarrow> k = 0 \<or> k = 1 \<or> k = 2 \<or> k = 3 \<or> k = 4 \<or> k = 5 \<or> k = 6 \<or> k = 7
    \<or> k = 8 \<or> k = 9 \<or> k = 10 \<or> k = 11 \<or> k = 12 \<or> k = 13 \<or> k = 14 \<or> k = 15"
    and "48 \<le> k \<and> k \<le> 57 \<or> 97 \<le> k \<and> k \<le> 102 \<Longrightarrow>
    k = 48 \<or> k = 49 \<or> k = 50 \<or> k = 51 \<or> k = 52 \<or> k = 53 \<or> k = 54 \<or> k = 55 \<or> k = 56
    \<or> k = 57 \<or> k = 97 \<or> k = 98 \<or> k = 99 \<or> k = 100 \<or> k = 101 \<or> k = 102"
  by presburger+

lemma nibble_cases:
  fixes n :: byte
  assumes "n < 16"
  shows "n = 0 \<or> n = 1 \<or> n = 2 \<or> n = 3 \<or> n = 4 \<or> n = 5 \<or> n = 6 \<or> n = 7
    \<or> n = 8 \<or> n = 9 \<or> n = 10 \<or> n = 11 \<or> n = 12 \<or> n = 13 \<or> n = 14 \<or> n = 15"
proof -
  from assms have "unat n < 16" by (simp add: word_less_nat_alt)
  from small_numbers(1) [OF this] show ?thesis
    by - (elim disjE; simp add: word_unat_eq_iff)
qed

lemma hex_nibble_digit:
  "n < 16 \<Longrightarrow> hex_nibble (hex_digit n) = Some n"
  "n < 16 \<Longrightarrow> is_lower_hex (hex_digit n)"
  by (drule nibble_cases,
      elim disjE; simp add: hex_digit_def hex_nibble_def is_ascii_digit_def is_lower_hex_def)+

lemma byte_nibbles:
  fixes b :: byte
  shows "drop_bit 4 b < 16" "b AND 0x0F < 16" "push_bit 4 (drop_bit 4 b) OR (b AND 0x0F) = b"
proof -
  have "unat b < 256" using unsigned_less [of b] by simp
  then show "drop_bit 4 b < 16"
    by (simp only: word_less_nat_alt unsigned_drop_bit_eq) (simp add: drop_bit_eq_div take_bit_eq_mod)
  have m: "b AND 0x0F = take_bit 4 b"
    by (simp add: take_bit_eq_mask mask_eq_exp_minus_1)
  have "unat (take_bit 4 b) = unat b mod 16"
    by (simp only: unsigned_take_bit_eq) (simp add: take_bit_eq_mod)
  then show "b AND 0x0F < 16" by (simp add: m word_less_nat_alt)
  show "push_bit 4 (drop_bit 4 b) OR (b AND 0x0F) = b"
    unfolding m by (rule bit_word_eqI) (auto simp: bit_simps)
qed

lemma decode_encode_pairs: "decode_pairs (encode_hex bs) = Some bs"
proof (induction bs)
  case (Cons b bs)
  then show ?case
    using hex_nibble_digit(1) [OF byte_nibbles(1) [of b]] hex_nibble_digit(1) [OF byte_nibbles(2) [of b]]
    by (simp add: encode_hex_Cons byte_nibbles(3))
qed (simp add: encode_hex_def)

lemma decode_encode_hex [codec_simps]:
  "length bs = n \<Longrightarrow> decode_hex_to_slice (encode_hex bs) n = Some bs"
  by (simp add: decode_hex_to_slice_def decode_encode_pairs)

lemma encode_hex_lower: "list_all is_lower_hex (encode_hex bs)"
proof (induction bs)
  case (Cons b bs)
  then show ?case
    using hex_nibble_digit(2) [OF byte_nibbles(1) [of b]] hex_nibble_digit(2) [OF byte_nibbles(2) [of b]]
    by (simp add: encode_hex_Cons)
qed (simp add: encode_hex_def)

lemma encode_hex_inject [simp]: "encode_hex a = encode_hex b \<longleftrightarrow> a = b"
  by (metis decode_encode_pairs option.inject)

lemma char_of_code: "code_of c = n \<Longrightarrow> c = char_of n"
  by auto

text \<open>On lower-case text the digits of the decoded nibble are the text itself.\<close>

lemma hex_digit_nibble:
  assumes "is_lower_hex c"
  shows "\<exists>n. hex_nibble c = Some n \<and> n < 16 \<and> hex_digit n = c"
proof -
  from assms have "48 \<le> code_of c \<and> code_of c \<le> 57 \<or> 97 \<le> code_of c \<and> code_of c \<le> 102"
    by (auto simp: is_lower_hex_def is_ascii_digit_def)
  from small_numbers(2) [OF this] show ?thesis
    by - (elim disjE; drule char_of_code; simp add: char_of_def bit_0 hex_nibble_def hex_digit_def is_ascii_digit_def)
qed

lemma nibbles_byte:
  fixes h l :: byte
  assumes "h < 16" and "l < 16"
  shows "drop_bit 4 (push_bit 4 h OR l) = h" "(push_bit 4 h OR l) AND 0x0F = l"
  using nibble_cases [OF assms(1)] nibble_cases [OF assms(2)]
  by (elim disjE; simp)+

lemma encode_decode_pairs:
  "even (length s) \<Longrightarrow> list_all is_lower_hex s \<Longrightarrow>
    \<exists>bs. decode_pairs s = Some bs \<and> encode_hex bs = s \<and> 2 * length bs = length s"
proof (induction s rule: decode_pairs.induct)
  case (1 h l rest)
  obtain hn where h: "hex_nibble h = Some hn" "hn < 16" "hex_digit hn = h"
    using 1(3) hex_digit_nibble [of h] by auto
  obtain ln where l: "hex_nibble l = Some ln" "ln < 16" "hex_digit ln = l"
    using 1(3) hex_digit_nibble [of l] by auto
  obtain bs where "decode_pairs rest = Some bs" "encode_hex bs = rest" "2 * length bs = length rest"
    using 1 h(1) l(1) by auto
  with h l nibbles_byte [OF h(2) l(2)] show ?case
    by (simp add: encode_hex_Cons)
qed (auto simp: encode_hex_def)

section \<open>Byte ranges\<close>

datatype ParsedRange = RangeIgnore | Satisfiable u64 u64 | Unsatisfiable

definition parse_range :: "string \<Rightarrow> u64 \<Rightarrow> ParsedRange" where
  "parse_range header fsize =
     (case split_once (CHR ''='') header of
        None \<Rightarrow> Unsatisfiable
      | Some (unit, spec) \<Rightarrow>
          if \<not> eq_ignore_ascii_case unit ''bytes'' then RangeIgnore
          else if CHR '','' \<in> set spec then Unsatisfiable
          else (case split_once (CHR ''-'') (trim spec) of
            None \<Rightarrow> Unsatisfiable
          | Some (start, end) \<Rightarrow>
              if start = [] then
                (case parse_u64 end of
                   None \<Rightarrow> Unsatisfiable
                 | Some len \<Rightarrow>
                     if len = 0 \<or> fsize = 0 then Unsatisfiable
                     else let len = min len fsize in Satisfiable (fsize - len) (fsize - 1))
              else
                (case parse_u64 start of
                   None \<Rightarrow> Unsatisfiable
                 | Some start \<Rightarrow>
                     if start \<ge> fsize then Unsatisfiable
                     else if end = [] then Satisfiable start (fsize - 1)
                     else (case parse_u64 end of
                       None \<Rightarrow> Unsatisfiable
                     | Some end \<Rightarrow>
                         if start > end then Unsatisfiable
                         else Satisfiable start (min end (fsize - 1))))))"

lemma split_once_Some: "split_once c xs = Some (a, b) \<Longrightarrow> xs = a @ c # b \<and> c \<notin> set a"
  by (induction c xs arbitrary: a b rule: split_once.induct) (auto split: if_splits option.splits)

lemma split_once_append: "c \<notin> set a \<Longrightarrow> split_once c (a @ c # b) = Some (a, b)"
  by (induction a) auto

text \<open>Printable ASCII characters are no part of a white-space character.\<close>

definition is_plain :: "char \<Rightarrow> bool" where
  "is_plain c \<longleftrightarrow> 33 \<le> code_of c \<and> code_of c < 128"

lemma white_space_not_plain:
  "w \<in> set white_space \<Longrightarrow> \<not> is_plain (hd w) \<and> \<not> is_plain (last w)"
  by (auto simp: white_space_def is_plain_def)

lemma strip_white_plain:
  assumes "s = [] \<or> is_plain (hd s)"
  shows "strip_any white_space s = None" "strip_any (map rev white_space) s = None"
proof -
  have none: "strip_any ws s = None" if ws: "\<forall>w\<in>set ws. w \<noteq> [] \<and> \<not> is_plain (hd w)" for ws
  proof (rule ccontr)
    assume "strip_any ws s \<noteq> None"
    then obtain r where "strip_any ws s = Some r" by blast
    from strip_any_Some [OF this] ws obtain w where "s = w @ r" "w \<noteq> []" "\<not> is_plain (hd w)"
      by blast
    with assms show False by auto
  qed
  have ne: "w \<noteq> []" if "w \<in> set white_space" for w
    using that white_space_nonempty by auto
  show "strip_any white_space s = None"
    by (rule none) (use ne white_space_not_plain in blast)
  show "strip_any (map rev white_space) s = None"
    by (rule none) (use ne white_space_not_plain in \<open>auto simp: hd_rev\<close>)
qed

lemma trim_start_plain:
  assumes "s = [] \<or> is_plain (hd s)"
  shows "trim_start s = s" "trim_start_rev s = s"
  using strip_white_plain [OF assms]
  by (subst trim_start.simps trim_start_rev.simps, simp)+

lemma trim_plain: "s = [] \<or> is_plain (hd s) \<and> is_plain (last s) \<Longrightarrow> trim s = s"
  by (auto simp: trim_def trim_start_plain hd_rev)

lemma digit_plain: "is_ascii_digit c \<Longrightarrow> is_plain c \<and> c \<noteq> CHR '','' \<and> c \<noteq> CHR ''-''"
  by (auto simp: is_ascii_digit_def is_plain_def)

lemma decimal_plain:
  "is_plain (hd (decimal n))" "is_plain (last (decimal n))"
  "CHR '','' \<notin> set (decimal n)" "CHR ''-'' \<notin> set (decimal n)"
  using decimal_digits [of n] hd_in_set [of "decimal n"] last_in_set [of "decimal n"] digit_plain
  by (auto simp: list_all_iff)

lemma parse_range_bytes:
  assumes "CHR '','' \<notin> set (a @ b)" and "CHR ''-'' \<notin> set a"
    and "a = [] \<or> is_plain (hd a)" and "b = [] \<or> is_plain (last b)"
  shows "split_once (CHR ''='') (''bytes='' @ a @ ''-'' @ b) = Some (''bytes'', a @ ''-'' @ b)"
    and "CHR '','' \<notin> set (a @ ''-'' @ b)"
    and "split_once (CHR ''-'') (trim (a @ ''-'' @ b)) = Some (a, b)"
proof -
  show "split_once (CHR ''='') (''bytes='' @ a @ ''-'' @ b) = Some (''bytes'', a @ ''-'' @ b)"
    by simp
  show "CHR '','' \<notin> set (a @ ''-'' @ b)" using assms(1) by auto
  have "is_plain (CHR ''-'')" by (simp add: is_plain_def)
  with assms(3,4) have "trim (a @ ''-'' @ b) = a @ ''-'' @ b"
    by (intro trim_plain) (auto simp: hd_append)
  with assms(2) show "split_once (CHR ''-'') (trim (a @ ''-'' @ b)) = Some (a, b)"
    by (simp add: split_once_append)
qed

lemma eq_ignore_refl [simp]: "eq_ignore_ascii_case s s"
  by (simp add: eq_ignore_ascii_case_def)

lemma range_closed:
  "parse_range (''bytes='' @ decimal (unat a) @ ''-'' @ decimal (unat b)) fsize =
     (if a < fsize \<and> a \<le> b then Satisfiable a (min b (fsize - 1)) else Unsatisfiable)"
  using decimal_plain [of "unat a"] decimal_plain [of "unat b"]
    parse_range_bytes [of "decimal (unat a)" "decimal (unat b)"]
  by (auto simp: parse_range_def not_le)

lemma range_opened:
  "parse_range (''bytes='' @ decimal (unat a) @ ''-'') fsize =
     (if a < fsize then Satisfiable a (fsize - 1) else Unsatisfiable)"
  using decimal_plain [of "unat a"] parse_range_bytes [of "decimal (unat a)" "[]"]
  by (auto simp: parse_range_def not_le)

lemma range_suffix:
  "parse_range (''bytes=-'' @ decimal (unat b)) fsize =
     (if b = 0 \<or> fsize = 0 then Unsatisfiable
      else Satisfiable (fsize - min b fsize) (fsize - 1))"
  using decimal_plain [of "unat b"] parse_range_bytes [of "[]" "decimal (unat b)"]
  by (simp add: parse_range_def Let_def)

lemma unat_pred: "fsize \<noteq> 0 \<Longrightarrow> unat (fsize - 1) = unat (fsize :: u64) - 1"
  by (subst unat_sub) (auto simp: word_le_nat_alt Suc_le_eq unat_gt_0)

lemma word_pred_bounds:
  assumes "s < (fsize :: u64)" shows "s \<le> fsize - 1 \<and> fsize - 1 < fsize"
proof -
  from assms have "fsize \<noteq> 0" by auto
  with assms unat_pred [OF this] show ?thesis by (auto simp: word_le_nat_alt word_less_nat_alt)
qed

lemma word_suffix_bounds:
  assumes "n \<noteq> 0" and "(fsize :: u64) \<noteq> 0"
  shows "fsize - min n fsize \<le> fsize - 1 \<and> fsize - 1 < fsize"
proof -
  from assms have n: "0 < unat (min n fsize)" "0 < unat fsize"
    by (simp_all add: unat_gt_0 min_def)
  have "unat (fsize - min n fsize) = unat fsize - unat (min n fsize)"
    by (rule unat_sub) simp
  with n unat_pred [OF assms(2)] show ?thesis by (simp add: word_le_nat_alt word_less_nat_alt)
qed

lemma word_cut_bounds:
  assumes "s < (fsize :: u64)" and "\<not> e < s"
  shows "s \<le> min e (fsize - 1) \<and> min e (fsize - 1) < fsize"
  using word_pred_bounds [OF assms(1)] assms by (auto simp: min_def not_less)

text \<open>A byte range that the parser accepts lies inside the file: its first position is at most
  its last one, and the last one is below the size.  Whatever the header says, the subtractions
  \<open>size - length\<close> and \<open>size - 1\<close> do not wrap.\<close>

theorem range_within_file:
  assumes "parse_range header fsize = Satisfiable first final"
  shows "first \<le> final \<and> final < fsize"
proof -
  consider (suffix) n where "n \<noteq> 0" "fsize \<noteq> 0" "first = fsize - min n fsize" "final = fsize - 1"
    | (opened) "first < fsize" "final = fsize - 1"
    | (closed) e where "first < fsize" "\<not> e < first" "final = min e (fsize - 1)"
    using assms by (auto simp: parse_range_def Let_def not_le split: option.splits if_splits)
  then show ?thesis
    by cases (simp_all add: word_suffix_bounds word_pred_bounds word_cut_bounds
        del: min_less_iff_disj min.bounded_iff)
qed

theorem range_within_file_witness:
  "parse_range ''bytes=2-99'' 10 = Satisfiable 2 9 \<and> (2 :: u64) \<le> 9 \<and> (9 :: u64) < 10"
proof -
  have "decimal (unat (2 :: u64)) = ''2''" "decimal (unat (99 :: u64)) = ''99''"
    by (simp_all add: decimal.simps digit_char_def char_of_def bit_0)
  with range_closed [of 2 99 10] have "parse_range ''bytes=2-99'' 10 = Satisfiable 2 9"
    by simp
  with range_within_file [OF this] show ?thesis by blast
qed

text \<open>The three forms of a single byte range, with decimal positions of any size: a closed
  range is cut at the end of the file, an open one runs to its end, and a suffix length selects the
  last bytes, the whole file if it is longer than that.  Ranges that start behind the end, that are
  reversed, or that select nothing are reported as unsatisfiable.\<close>

theorem range_forms:
  "parse_range (''bytes='' @ decimal (unat a) @ ''-'' @ decimal (unat b)) fsize =
     (if a < fsize \<and> a \<le> b then Satisfiable a (min b (fsize - 1)) else Unsatisfiable)
   \<and> parse_range (''bytes='' @ decimal (unat a) @ ''-'') fsize =
     (if a < fsize then Satisfiable a (fsize - 1) else Unsatisfiable)
   \<and> parse_range (''bytes=-'' @ decimal (unat b)) fsize =
     (if b = 0 \<or> fsize = 0 then Unsatisfiable
      else Satisfiable (fsize - min b fsize) (fsize - 1))"
  by (intro conjI range_closed range_opened range_suffix)

end
