(* ===== verification/Path_Text.thy ===== *)
theory Path_Text
  imports Paths Wire_Text
begin

text \<open>
  The seam between paths and text in Rust's standard library: UTF-8 validation and lossy
  conversion (\<open>Path::to_str\<close>, \<open>OsStr::to_string_lossy\<close>), and the accessors \<open>parent\<close>,
  \<open>file_name\<close>, \<open>join\<close> and \<open>strip_prefix\<close> of \<open>std::path::Path\<close> on Unix, byte for byte.
\<close>

section \<open>UTF-8\<close>

definition utf8_width :: "byte \<Rightarrow> nat" where
  "utf8_width b =
     (if b < 0x80 then 1
      else if 0xC2 \<le> b \<and> b \<le> 0xDF then 2
      else if 0xE0 \<le> b \<and> b \<le> 0xEF then 3
      else if 0xF0 \<le> b \<and> b \<le> 0xF4 then 4
      else 0)"

definition continuation :: "byte \<Rightarrow> bool" where
  "continuation b \<longleftrightarrow> 0x80 \<le> b \<and> b \<le> 0xBF"

definition second_ok :: "byte \<Rightarrow> byte \<Rightarrow> bool" where
  "second_ok b0 b1 \<longleftrightarrow>
     (if b0 = 0xE0 then 0xA0 \<le> b1 \<and> b1 \<le> 0xBF
      else if b0 = 0xED then 0x80 \<le> b1 \<and> b1 \<le> 0x9F
      else if b0 = 0xF0 then 0x90 \<le> b1 \<and> b1 \<le> 0xBF
      else if b0 = 0xF4 then 0x80 \<le> b1 \<and> b1 \<le> 0x8F
      else continuation b1)"

text \<open>The first chunk of a byte string: how many bytes it has, and whether they are one character
  or an invalid sequence.\<close>

fun utf8_chunk :: "bytes \<Rightarrow> nat \<times> bool" where
  "utf8_chunk [] = (1, True)"
| "utf8_chunk (b0 # rest) =
     (if utf8_width b0 = 0 then (1, False)
      else if utf8_width b0 = 1 then (1, True)
      else (case rest of
        b1 # rest1 \<Rightarrow>
          if \<not> second_ok b0 b1 then (1, False)
          else if utf8_width b0 = 2 then (2, True)
          else (case rest1 of
            b2 # rest2 \<Rightarrow>
              if \<not> continuation b2 then (2, False)
              else if utf8_width b0 = 3 then (3, True)
              else (case rest2 of
                b3 # _ \<Rightarrow> if continuation b3 then (4, True) else (3, False)
              | [] \<Rightarrow> (3, False))
          | [] \<Rightarrow> (2, False))
      | [] \<Rightarrow> (1, False)))"

lemma utf8_chunk_pos: "(n, ok) = utf8_chunk bs \<Longrightarrow> 0 < n"
  by (cases bs) (auto split: if_splits list.splits)

function is_utf8 :: "bytes \<Rightarrow> bool" where
  "is_utf8 bs =
     (if bs = [] then True
      else case utf8_chunk bs of (n, ok) \<Rightarrow> ok \<and> is_utf8 (drop n bs))"
  by auto
termination
  by (relation "measure length") (auto dest: utf8_chunk_pos)

text \<open>\<open>String::from_utf8_lossy\<close>: every invalid sequence becomes U+FFFD.\<close>

function from_utf8_lossy :: "bytes \<Rightarrow> bytes" where
  "from_utf8_lossy bs =
     (if bs = [] then []
      else case utf8_chunk bs of (n, ok) \<Rightarrow>
        (if ok then take n bs else [0xEF, 0xBF, 0xBD]) @ from_utf8_lossy (drop n bs))"
  by auto
termination
  by (relation "measure length") (auto dest: utf8_chunk_pos)

declare is_utf8.simps [simp del] from_utf8_lossy.simps [simp del]

lemma lossy_of_utf8: "is_utf8 bs \<Longrightarrow> from_utf8_lossy bs = bs"
proof (induction bs rule: from_utf8_lossy.induct)
  case (1 bs)
  show ?case
  proof (cases "bs = []")
    case False
    obtain n ok where c: "utf8_chunk bs = (n, ok)" by fastforce
    with 1(2) False have "ok" "is_utf8 (drop n bs)" by (auto simp: is_utf8.simps [of bs])
    with 1(1) [OF False c [symmetric]] c False show ?thesis
      by (subst from_utf8_lossy.simps) simp
  qed (simp add: from_utf8_lossy.simps)
qed

text \<open>The text of a path, as characters.\<close>

definition bytes_str :: "bytes \<Rightarrow> string" where
  "bytes_str bs = map (\<lambda>b. char_of (unat b)) bs"

definition to_str :: "bytes \<Rightarrow> string option" where
  "to_str bs = (if is_utf8 bs then Some (bytes_str bs) else None)"

definition to_string_lossy :: "bytes \<Rightarrow> string" where
  "to_string_lossy bs = bytes_str (from_utf8_lossy bs)"

lemma of_char_byte: "(of_char c :: byte) = of_nat (code_of c)"
  by (simp add: of_nat_of_char)

lemma char_byte [simp]: "char_of (unat (of_char c :: byte)) = c"
proof -
  have "code_of c < 256" by simp
  then have "unat (of_nat (code_of c) :: byte) = code_of c" by (simp add: unat_of_nat)
  then show ?thesis by (simp only: of_char_byte) simp
qed

lemma byte_char [simp]: "(of_char (char_of (unat b)) :: byte) = b"
proof -
  have "unat b < 256" using unsigned_less [of b] by simp
  then show ?thesis by (simp only: of_char_byte of_char_of) simp
qed

lemma bytes_str_str_bytes [simp]: "bytes_str (str_bytes s) = s"
  by (induction s) (simp_all add: bytes_str_def str_bytes_def)

lemma str_bytes_bytes_str [simp]: "str_bytes (bytes_str bs) = bs"
  by (induction bs) (simp_all add: bytes_str_def str_bytes_def)

lemma length_str_bytes [simp]: "length (str_bytes s) = length s" "length (bytes_str bs) = length bs"
  by (simp_all add: str_bytes_def bytes_str_def)

lemma str_bytes_inject [simp]: "str_bytes a = str_bytes b \<longleftrightarrow> a = b"
  by (metis bytes_str_str_bytes)

lemma str_bytes_append [simp]: "str_bytes (a @ b) = str_bytes a @ str_bytes b"
  by (simp add: str_bytes_def)

lemma str_bytes_Nil [simp]: "str_bytes [] = []" "str_bytes s = [] \<longleftrightarrow> s = []"
  by (simp_all add: str_bytes_def)

lemma set_str_bytes: "b \<in> set (str_bytes s) \<longleftrightarrow> char_of (unat b) \<in> set s"
  by (auto simp: str_bytes_def image_iff) (metis byte_char)

lemma slash_str_bytes [simp]: "slash \<in> set (str_bytes s) \<longleftrightarrow> CHR ''/'' \<in> set s"
  by (simp add: set_str_bytes char_of_def bit_0)

lemma split_on_str_bytes:
  "split_on slash (str_bytes s) = map str_bytes (split_on (CHR ''/'') s)"
proof (induction s)
  case (Cons c s)
  obtain p ps where p: "split_on (CHR ''/'') s = p # ps" by (cases "split_on (CHR ''/'') s") auto
  have "(of_char (CHR ''/'') :: byte) = slash" by simp
  then have "(of_char c :: byte) = slash \<longleftrightarrow> c = CHR ''/''" by (metis char_byte)
  with Cons p show ?case by (simp add: str_bytes_def)
qed simp

section \<open>Accessors\<close>

text \<open>The bytes before the first component: a root separator or a leading \<open>.\<close>.\<close>

definition has_cur_dir :: "bytes \<Rightarrow> bool" where
  "has_cur_dir p \<longleftrightarrow> \<not> has_root p \<and> hd (split_on slash p) = [dot]"

definition before_body :: "bytes \<Rightarrow> nat" where
  "before_body p = (if has_root p \<or> has_cur_dir p then 1 else 0)"

text \<open>Parts that are no component: empty ones and \<open>.\<close>.\<close>

abbreviation no_part :: "bytes \<Rightarrow> bool" where
  "no_part s \<equiv> parse_single_component s = None"

definition trim_right_parts :: "bytes list \<Rightarrow> bytes list" where
  "trim_right_parts parts = rev (dropWhile no_part (rev parts))"

definition body_parts :: "bytes \<Rightarrow> bytes list" where
  "body_parts p = split_on slash (drop (before_body p) p)"

definition path_parent :: "bytes \<Rightarrow> bytes option" where
  "path_parent p =
     (let parts = trim_right_parts (body_parts p) in
      if parts = [] then (if has_cur_dir p then Some [] else None)
      else Some (take (before_body p) p @ join_on slash (trim_right_parts (butlast parts))))"

definition path_file_name :: "bytes \<Rightarrow> bytes option" where
  "path_file_name p =
     (if components p = [] then None
      else case last (components p) of Normal s \<Rightarrow> Some s | _ \<Rightarrow> None)"

definition path_join :: "bytes \<Rightarrow> bytes \<Rightarrow> bytes" where
  "path_join p q = path_push p q"

text \<open>The remaining parts after \<open>k\<close> components have been consumed from the front.\<close>

fun drop_components :: "nat \<Rightarrow> bytes list \<Rightarrow> bytes list" where
  "drop_components k [] = []"
| "drop_components k (s # parts) =
     (if no_part s then drop_components k parts
      else if k = 0 then s # parts
      else drop_components (k - 1) parts)"

definition path_strip_prefix :: "bytes \<Rightarrow> bytes \<Rightarrow> bytes option" where
  "path_strip_prefix p base =
     (let k = length (components base) in
      if \<not> path_starts_with p base then None
      else if k = 0
      then Some (take (before_body p) p @ join_on slash (trim_right_parts (body_parts p)))
      else Some (join_on slash
        (trim_right_parts (drop_components (k - before_body p) (body_parts p)))))"

lemma components_body:
  "components p =
     (if has_root p then [RootDir] else if has_cur_dir p then [CurDir] else [])
     @ List.map_filter parse_single_component (body_parts p)"
proof (cases "has_root p")
  case True
  then obtain q where "p = slash # q" by (cases p) (auto simp: has_root_def)
  with True show ?thesis
    by (simp add: components_def body_parts_def before_body_def Let_def List.map_filter_simps
        parse_single_component_def)
next
  case False
  obtain s rest where sp: "split_on slash p = s # rest" by (cases "split_on slash p") auto
  show ?thesis
  proof (cases "has_cur_dir p")
    case True
    with False sp have s: "s = [dot]" by (simp add: has_cur_dir_def)
    then have p: "p = dot # drop 1 p" "split_on slash (drop 1 p) = [] # rest"
      using sp by (cases p; auto split: if_splits list.splits)+
    with True False sp s show ?thesis
      by (simp add: components_def body_parts_def before_body_def List.map_filter_simps
          parse_single_component_def)
  next
    case no: False
    with False sp show ?thesis
      by (auto simp: components_def body_parts_def before_body_def has_cur_dir_def)
  qed
qed

lemma map_filter_trim_right:
  "List.map_filter parse_single_component (trim_right_parts parts) =
   List.map_filter parse_single_component parts"
proof (induction parts rule: rev_induct)
  case (snoc s parts)
  then show ?case
    by (cases "parse_single_component s")
      (auto simp: trim_right_parts_def map_filter_append List.map_filter_simps)
qed (simp add: trim_right_parts_def)

lemma trim_right_parts_snoc [simp]:
  "trim_right_parts (parts @ [s]) = (if no_part s then trim_right_parts parts else parts @ [s])"
  by (simp add: trim_right_parts_def)

lemma trim_right_parts_Nil [simp]: "trim_right_parts [] = []"
  by (simp add: trim_right_parts_def)

lemma trim_right_parts_prefix: "\<exists>more. parts = trim_right_parts parts @ more"
proof (induction parts rule: rev_induct)
  case (snoc s parts)
  then show ?case by (metis append.assoc append_Nil2 trim_right_parts_snoc)
qed simp

lemma trim_right_parts_last:
  "trim_right_parts parts \<noteq> [] \<Longrightarrow> \<not> no_part (last (trim_right_parts parts))"
  by (induction parts rule: rev_induct) (auto split: if_splits)

lemma no_sep_trim_right:
  "\<forall>s\<in>set parts. slash \<notin> set s \<Longrightarrow> \<forall>s\<in>set (trim_right_parts parts). slash \<notin> set s"
  using trim_right_parts_prefix [of parts] by (metis in_set_conv_decomp_last Un_iff set_append)

lemma map_filter_split_join:
  assumes "\<forall>s\<in>set parts. slash \<notin> set s"
  shows "List.map_filter parse_single_component (split_on slash (join_on slash parts)) =
    List.map_filter parse_single_component parts"
proof (cases "parts = []")
  case False
  with assms show ?thesis by (simp add: split_join_on)
qed (simp add: List.map_filter_simps parse_single_component_def)

text \<open>The components of the bytes before the body followed by a part of the body.\<close>

lemma components_rejoin:
  assumes body: "body_parts p = rest @ more"
    and last: "rest = [] \<or> \<not> no_part (last rest)"
  shows "components (take (before_body p) p @ join_on slash rest) =
    (if has_root p then [RootDir] else if has_cur_dir p then [CurDir] else [])
    @ List.map_filter parse_single_component rest"
proof -
  have clean: "\<forall>s\<in>set rest. slash \<notin> set s"
    using split_on_no_sep [of slash "drop (before_body p) p"] body by (auto simp: body_parts_def)
  note mf = map_filter_split_join [OF clean]
  consider (root) "has_root p" | (cur) "\<not> has_root p" "has_cur_dir p"
    | (plain) "\<not> has_root p" "\<not> has_cur_dir p" by blast
  then show ?thesis
  proof cases
    case root
    then have "take (before_body p) p = [slash]"
      by (cases p) (auto simp: before_body_def has_root_def)
    with root mf show ?thesis
      by (simp add: components_def has_root_def Let_def List.map_filter_simps parse_single_component_def)
  next
    case cur
    obtain r where sp: "split_on slash p = [dot] # r"
      using cur by (cases "split_on slash p") (auto simp: has_cur_dir_def)
    then have p: "p = dot # drop 1 p" "split_on slash (drop 1 p) = [] # r"
      by (cases p; auto split: if_splits list.splits)+
    with cur have "take (before_body p) p = [dot]" by (cases p) (auto simp: before_body_def)
    moreover have "rest = [] \<or> (\<exists>rest'. rest = [] # rest' \<and> rest' \<noteq> [])"
      using body last p(2) cur by (cases rest)
        (auto simp: body_parts_def before_body_def parse_single_component_def split: if_splits)
    ultimately show ?thesis
      using cur clean
      by (auto simp: components_def has_root_def List.map_filter_simps parse_single_component_def
          split_join_on neq_Nil_conv)
  next
    case plain
    have "rest = [] \<or> (\<exists>s rest'. rest = s # rest' \<and> s \<noteq> [dot] \<and> s \<noteq> [])"
    proof (cases "p = []")
      case True
      with body last show ?thesis
        by (cases rest) (auto simp: body_parts_def before_body_def parse_single_component_def)
    next
      case False
      with plain(1) have "hd (split_on slash p) \<noteq> []"
        by (cases p) (auto simp: has_root_def split: list.splits)
      with plain body show ?thesis
        by (cases rest) (auto simp: body_parts_def before_body_def has_cur_dir_def)
    qed
    then show ?thesis
    proof
      assume "rest = []"
      with plain show ?thesis by (simp add: before_body_def List.map_filter_simps)
    next
      assume "\<exists>s rest'. rest = s # rest' \<and> s \<noteq> [dot] \<and> s \<noteq> []"
      then obtain s rest' where r: "rest = s # rest'" "s \<noteq> [dot]" "s \<noteq> []" by blast
      with clean have sp: "split_on slash (join_on slash rest) = rest" by (simp add: split_join_on)
      have "\<not> has_root (join_on slash rest)"
        using r clean by (cases rest'; cases s) (auto simp: has_root_def)
      with plain r sp show ?thesis by (simp add: components_def before_body_def)
    qed
  qed
qed

text \<open>The parent of a path has its components but the last.\<close>

lemma components_parent:
  assumes "path_parent p = Some q"
  shows "components p \<noteq> [] \<and> components q = butlast (components p)"
proof -
  let ?parts = "trim_right_parts (body_parts p)"
  show ?thesis
  proof (cases "?parts = []")
    case True
    then have "List.map_filter parse_single_component (body_parts p) = []"
      using map_filter_trim_right [of "body_parts p"] by (simp add: List.map_filter_simps)
    moreover from True assms have "has_cur_dir p" "q = []"
      by (auto simp: path_parent_def split: if_splits)
    ultimately show ?thesis using components_body [of p] by (simp add: has_cur_dir_def)
  next
    case False
    then obtain qs s where parts: "?parts = qs @ [s]" by (metis append_butlast_last_id)
    then obtain c where c: "parse_single_component s = Some c"
      using trim_right_parts_last [of "body_parts p"] by auto
    let ?rest = "trim_right_parts qs"
    from assms parts have q: "q = take (before_body p) p @ join_on slash ?rest"
      by (auto simp: path_parent_def)
    obtain m1 m2 where "body_parts p = ?parts @ m1" "qs = ?rest @ m2"
      using trim_right_parts_prefix [of "body_parts p"] trim_right_parts_prefix [of qs] by blast
    with parts have "body_parts p = ?rest @ (m2 @ [s] @ m1)" by simp
    from components_rejoin [OF this] trim_right_parts_last [of qs]
    have "components q =
        (if has_root p then [RootDir] else if has_cur_dir p then [CurDir] else [])
        @ List.map_filter parse_single_component ?rest"
      unfolding q by blast
    moreover have "List.map_filter parse_single_component (body_parts p) =
        List.map_filter parse_single_component ?rest @ [c]"
      using map_filter_trim_right [of "body_parts p"] map_filter_trim_right [of qs] parts c
      by (simp add: map_filter_append List.map_filter_simps)
    ultimately show ?thesis using components_body [of p] by (simp add: butlast_append)
  qed
qed

end
