(* ===== verification/Http_Library.thy ===== *)
theory Http_Library
  imports Wire_Text
begin

text \<open>
  The third-party interfaces the request handling rests on, as parameters: status codes, header
  values and header maps of the \<open>http\<close> crate, UUIDs of the \<open>uuid\<close> crate, and the text form of
  JSON documents.  A definition that uses them takes them as an argument; \<open>http_laws\<close> and
  \<open>uuid_laws\<close> state the documented behaviour the server relies on.  A concrete instance of each
  shows that the laws can be met.
\<close>

section \<open>HTTP\<close>

text \<open>A status code is its number, a header value its bytes.  \<open>'h\<close> is the type of header maps;
  \<open>http_get_all\<close> lists the values of a name in the order in which they were added.\<close>

record 'h HttpLib =
  http_from_u16 :: "u16 \<Rightarrow> u16 option"
  http_is_success :: "u16 \<Rightarrow> bool"
  http_canonical_reason :: "u16 \<Rightarrow> string option"
  http_to_str :: "string \<Rightarrow> string option"
  http_value_from_str :: "string \<Rightarrow> string option"
  http_get_all :: "'h \<Rightarrow> string \<Rightarrow> string list"
  http_insert :: "string \<Rightarrow> string \<Rightarrow> 'h \<Rightarrow> 'h"
  http_remove :: "string \<Rightarrow> 'h \<Rightarrow> 'h"

definition is_printable :: "char \<Rightarrow> bool" where
  "is_printable c \<longleftrightarrow> 32 \<le> code_of c \<and> code_of c < 127"

definition status_laws :: "'h HttpLib \<Rightarrow> bool" where
  "status_laws lib \<longleftrightarrow>
     (\<forall>s. http_from_u16 lib s = (if 100 \<le> s \<and> s \<le> 999 then Some s else None))
     \<and> (\<forall>s. http_is_success lib s \<longleftrightarrow> 200 \<le> s \<and> s \<le> 299)"

definition header_laws :: "'h HttpLib \<Rightarrow> bool" where
  "header_laws lib \<longleftrightarrow>
     (\<forall>v s. http_to_str lib v = Some s \<longrightarrow> s = v)
     \<and> (\<forall>v. list_all is_printable v \<longrightarrow> http_to_str lib v = Some v)
     \<and> (\<forall>v. list_all is_printable v \<longrightarrow> http_value_from_str lib v = Some v)
     \<and> (\<forall>h n v m. http_get_all lib (http_insert lib n v h) m =
          (if m = n then [v] else http_get_all lib h m))
     \<and> (\<forall>h n m. http_get_all lib (http_remove lib n h) m =
          (if m = n then [] else http_get_all lib h m))"

definition http_laws :: "'h HttpLib \<Rightarrow> bool" where
  "http_laws lib \<longleftrightarrow> status_laws lib \<and> header_laws lib"

lemma http_status:
  assumes "http_laws lib"
  shows "http_from_u16 lib s = (if 100 \<le> s \<and> s \<le> 999 then Some s else None)"
    and "http_is_success lib s \<longleftrightarrow> 200 \<le> s \<and> s \<le> 299"
  using assms by (simp_all add: http_laws_def status_laws_def)

lemma http_headers:
  assumes "http_laws lib"
  shows "http_to_str lib v = Some s \<Longrightarrow> s = v"
    and "list_all is_printable v \<Longrightarrow> http_to_str lib v = Some v"
    and "list_all is_printable v \<Longrightarrow> http_value_from_str lib v = Some v"
    and "http_get_all lib (http_insert lib n v h) m = (if m = n then [v] else http_get_all lib h m)"
    and "http_get_all lib (http_remove lib n h) m = (if m = n then [] else http_get_all lib h m)"
  using assms by (simp_all add: http_laws_def header_laws_def)

text \<open>Header maps as lists of pairs.\<close>

definition sample_http :: "(string \<times> string) list HttpLib" where
  "sample_http =
     \<lparr>http_from_u16 = (\<lambda>s. if 100 \<le> s \<and> s \<le> 999 then Some s else None),
      http_is_success = (\<lambda>s. 200 \<le> s \<and> s \<le> 299),
      http_canonical_reason = (\<lambda>s. if s = 409 then Some ''Conflict'' else None),
      http_to_str = (\<lambda>v. if list_all is_printable v then Some v else None),
      http_value_from_str = (\<lambda>v. if list_all is_printable v then Some v else None),
      http_get_all = (\<lambda>h n. map snd (filter (\<lambda>(m, _). m = n) h)),
      http_insert = (\<lambda>n v h. (n, v) # filter (\<lambda>(m, _). m \<noteq> n) h),
      http_remove = (\<lambda>n h. filter (\<lambda>(m, _). m \<noteq> n) h)\<rparr>"

lemma filter_other_key: "filter (\<lambda>(k, _). k = m) (filter (\<lambda>(k, _). k \<noteq> n) h) =
    (if m = n then [] else filter (\<lambda>(k, _). k = m) h)"
  by (induction h) auto

lemma sample_http_laws: "http_laws sample_http"
  unfolding http_laws_def status_laws_def header_laws_def
  by (auto simp: sample_http_def filter_other_key simp del: filter_filter split: if_splits)

lemma decimal_printable [simp]: "list_all is_printable (decimal n)"
  using decimal_digits [of n] by (auto simp: list_all_iff is_printable_def is_ascii_digit_def)

record 'h Response =
  res_status :: u16
  res_headers :: 'h
  res_body :: bytes

section \<open>UUIDs\<close>

text \<open>A UUID is its 16 bytes.  \<open>uuid_hyphenated\<close> is the lower-case text in groups of
  8, 4, 4, 4 and 12 digits, which is also what \<open>Display\<close> prints.\<close>

record UuidLib =
  uuid_parse_str :: "string \<Rightarrow> bytes option"
  uuid_hyphenated :: "bytes \<Rightarrow> string"

definition uuid_layout :: "string \<Rightarrow> bool" where
  "uuid_layout s \<longleftrightarrow>
     (let groups = split_on (CHR ''-'') s in
      map length groups = [8, 4, 4, 4, 12] \<and> list_all (list_all is_lower_hex) groups)"

definition uuid_laws :: "UuidLib \<Rightarrow> bool" where
  "uuid_laws lib \<longleftrightarrow>
     (\<forall>u. length u = 16 \<longrightarrow>
        uuid_parse_str lib (uuid_hyphenated lib u) = Some u \<and> uuid_layout (uuid_hyphenated lib u))
     \<and> (\<forall>s u. uuid_parse_str lib s = Some u \<longrightarrow> length u = 16)
     \<and> (\<forall>s. uuid_layout s \<longrightarrow>
        (\<exists>u. uuid_parse_str lib s = Some u \<and> uuid_hyphenated lib u = s))"

lemma uuid_text:
  assumes "uuid_laws lib"
  shows "length u = 16 \<Longrightarrow> uuid_parse_str lib (uuid_hyphenated lib u) = Some u"
    and "length u = 16 \<Longrightarrow> uuid_layout (uuid_hyphenated lib u)"
    and "uuid_parse_str lib s = Some u \<Longrightarrow> length u = 16"
    and "uuid_layout s \<Longrightarrow> \<exists>u. uuid_parse_str lib s = Some u \<and> uuid_hyphenated lib u = s"
  using assms by (auto simp: uuid_laws_def)

definition hex_groups :: "string \<Rightarrow> string list" where
  "hex_groups h = [take 8 h, take 4 (drop 8 h), take 4 (drop 12 h), take 4 (drop 16 h), drop 20 h]"

definition sample_uuid :: UuidLib where
  "sample_uuid =
     \<lparr>uuid_parse_str = (\<lambda>s.
        if uuid_layout s then decode_hex_to_slice (concat (split_on (CHR ''-'') s)) 16 else None),
      uuid_hyphenated = (\<lambda>u. join_on (CHR ''-'') (hex_groups (encode_hex u)))\<rparr>"

lemma concat_hex_groups [simp]: "concat (hex_groups h) = h"
proof -
  have "take 4 (drop 16 h) @ drop 20 h = drop 16 h" "take 4 (drop 12 h) @ drop 16 h = drop 12 h"
    "take 4 (drop 8 h) @ drop 12 h = drop 8 h"
    using append_take_drop_id [of 4 "drop 16 h"] append_take_drop_id [of 4 "drop 12 h"]
      append_take_drop_id [of 4 "drop 8 h"]
    by simp_all
  then show ?thesis by (simp add: hex_groups_def)
qed

lemma hex_groups_concat:
  assumes "map length gs = [8, 4, 4, 4, 12]" shows "hex_groups (concat gs) = gs"
proof -
  from assms obtain a b c d e where "gs = [a, b, c, d, e]" "length a = 8" "length b = 4"
    "length c = 4" "length d = 4" "length e = 12"
    by (auto simp: map_eq_Cons_conv)
  then show ?thesis by (simp add: hex_groups_def)
qed

lemma lower_hex_no_hyphen: "list_all is_lower_hex s \<Longrightarrow> CHR ''-'' \<notin> set s"
  by (auto simp: list_all_iff is_lower_hex_def is_ascii_digit_def)

lemma hex_groups_lower:
  "list_all is_lower_hex h \<Longrightarrow> list_all (list_all is_lower_hex) (hex_groups h)"
  by (auto simp: hex_groups_def list_all_iff dest: in_set_takeD in_set_dropD)

lemma split_hex_groups:
  assumes "list_all is_lower_hex h"
  shows "split_on (CHR ''-'') (join_on (CHR ''-'') (hex_groups h)) = hex_groups h"
  using hex_groups_lower [OF assms] lower_hex_no_hyphen
  by (intro split_join_on) (auto simp: hex_groups_def)

lemma hyphenated_layout:
  assumes "list_all is_lower_hex h" and "length h = 32"
  shows "uuid_layout (join_on (CHR ''-'') (hex_groups h))"
  using split_hex_groups [OF assms(1)] hex_groups_lower [OF assms(1)] assms(2)
  by (simp add: uuid_layout_def) (simp add: hex_groups_def)

lemma layout_concat:
  assumes "uuid_layout s"
  shows "list_all is_lower_hex (concat (split_on (CHR ''-'') s))"
    and "length (concat (split_on (CHR ''-'') s)) = 32"
proof -
  from assms have len: "map length (split_on (CHR ''-'') s) = [8, 4, 4, 4, 12]"
    and low: "list_all (list_all is_lower_hex) (split_on (CHR ''-'') s)"
    by (auto simp: uuid_layout_def Let_def)
  from low show "list_all is_lower_hex (concat (split_on (CHR ''-'') s))"
    by (auto simp: list_all_iff)
  show "length (concat (split_on (CHR ''-'') s)) = 32" by (simp add: length_concat len)
qed

lemma sample_uuid_laws: "uuid_laws sample_uuid"
  unfolding uuid_laws_def
proof (intro conjI allI impI)
  fix u :: bytes assume u: "length u = 16"
  note low = encode_hex_lower [of u]
  show "uuid_layout (uuid_hyphenated sample_uuid u)"
    using hyphenated_layout [OF low] u by (simp add: sample_uuid_def)
  then show "uuid_parse_str sample_uuid (uuid_hyphenated sample_uuid u) = Some u"
    using split_hex_groups [OF low] u by (simp add: sample_uuid_def codec_simps)
next
  fix s u assume p: "uuid_parse_str sample_uuid s = Some u"
  then have l: "uuid_layout s" and d: "decode_pairs (concat (split_on (CHR ''-'') s)) = Some u"
    by (auto simp: sample_uuid_def decode_hex_to_slice_def split: if_splits)
  from encode_decode_pairs [OF _ layout_concat(1) [OF l]] layout_concat(2) [OF l] d
  show "length u = 16" by auto
next
  fix s assume l: "uuid_layout s"
  from encode_decode_pairs [OF _ layout_concat(1) [OF l]] layout_concat(2) [OF l]
  obtain u where u: "decode_pairs (concat (split_on (CHR ''-'') s)) = Some u"
    "encode_hex u = concat (split_on (CHR ''-'') s)"
    by auto
  moreover have "hex_groups (concat (split_on (CHR ''-'') s)) = split_on (CHR ''-'') s"
    using l by (intro hex_groups_concat) (simp add: uuid_layout_def Let_def)
  ultimately show "\<exists>u. uuid_parse_str sample_uuid s = Some u \<and> uuid_hyphenated sample_uuid u = s"
    using l layout_concat(2) [OF l] by (auto simp: sample_uuid_def decode_hex_to_slice_def)
qed

end
