(* ===== verification/Internal_Names.thy ===== *)
theory Internal_Names
  imports Path_Text Http_Library
begin

text \<open>
  The names the server reserves for itself in the shared tree
  (\<open>src/src/server/internal_names.rs\<close>): upload stages, delete trash, quarantine and readiness
  files, how they are generated and how they are recognised.  SHA-256 and the UUID text form are
  parameters.
\<close>

section \<open>Generated names\<close>

definition UPLOAD_TEMP_PREFIX :: string where
  "UPLOAD_TEMP_PREFIX = ''.xczs-upload-''"

definition UPLOAD_TEMP_SUFFIX :: string where
  "UPLOAD_TEMP_SUFFIX = ''.part''"

definition UPLOAD_STAGE_DIRECTORY :: string where
  "UPLOAD_STAGE_DIRECTORY = ''.xczs-upload-stages''"

definition READINESS_PROBE_ANCHOR :: string where
  "READINESS_PROBE_ANCHOR = ''.xczs-readiness.probe''"

definition READINESS_PREFIX :: string where
  "READINESS_PREFIX = ''.xczs-readiness-''"

definition READINESS_SUFFIX :: string where
  "READINESS_SUFFIX = ''.probe''"

definition DELETE_TRASH_PREFIX :: string where
  "DELETE_TRASH_PREFIX = ''.xczs-upload-delete-''"

definition DELETE_TRASH_SUFFIX :: string where
  "DELETE_TRASH_SUFFIX = ''.trash''"

definition QUARANTINE_PREFIX :: string where
  "QUARANTINE_PREFIX = ''.xczs-quarantine-''"

definition QUARANTINE_SUFFIX :: string where
  "QUARANTINE_SUFFIX = ''.hold''"

lemmas internal_name_parts =
  UPLOAD_TEMP_PREFIX_def UPLOAD_TEMP_SUFFIX_def UPLOAD_STAGE_DIRECTORY_def
  READINESS_PROBE_ANCHOR_def READINESS_PREFIX_def READINESS_SUFFIX_def DELETE_TRASH_PREFIX_def
  DELETE_TRASH_SUFFIX_def QUARANTINE_PREFIX_def QUARANTINE_SUFFIX_def

definition upload_stage_name :: "UuidLib \<Rightarrow> string \<Rightarrow> bytes \<Rightarrow> string" where
  "upload_stage_name ul target_tag upload_id =
     UPLOAD_TEMP_PREFIX @ target_tag @ ''-'' @ uuid_hyphenated ul upload_id @ UPLOAD_TEMP_SUFFIX"

definition delete_trash_name :: "UuidLib \<Rightarrow> bytes \<Rightarrow> string" where
  "delete_trash_name ul trash_id =
     DELETE_TRASH_PREFIX @ uuid_hyphenated ul trash_id @ DELETE_TRASH_SUFFIX"

definition quarantine_name :: "UuidLib \<Rightarrow> bytes \<Rightarrow> string" where
  "quarantine_name ul quarantine_id =
     QUARANTINE_PREFIX @ uuid_hyphenated ul quarantine_id @ QUARANTINE_SUFFIX"

datatype stage_error = NoParentDirectory | NoFileName

definition upload_temp_path ::
  "(bytes \<Rightarrow> bytes) \<Rightarrow> UuidLib \<Rightarrow> bytes \<Rightarrow> bytes \<Rightarrow> stage_error + bytes" where
  "upload_temp_path sha256 ul path upload_id =
     result_bind (ok_or (path_parent path) NoParentDirectory) (\<lambda>parent.
     result_bind (ok_or (path_file_name path) NoFileName) (\<lambda>file_name.
     let target_tag = encode_hex (sha256 (str_bytes (to_string_lossy file_name))) in
     Inr (path_join (path_join parent (str_bytes UPLOAD_STAGE_DIRECTORY))
       (str_bytes (upload_stage_name ul target_tag upload_id)))))"

definition is_upload_temp_path ::
  "(bytes \<Rightarrow> bytes) \<Rightarrow> UuidLib \<Rightarrow> bytes \<Rightarrow> bytes \<Rightarrow> bytes \<Rightarrow> stage_error + bool" where
  "is_upload_temp_path sha256 ul target upload_id stage =
     result_map (\<lambda>p. path_eq p stage) (upload_temp_path sha256 ul target upload_id)"

definition upload_stage_directory :: "bytes \<Rightarrow> bytes option" where
  "upload_stage_directory path =
     (case path_parent path of
        None \<Rightarrow> None
      | Some directory \<Rightarrow>
          (case path_file_name directory of
             None \<Rightarrow> None
           | Some name \<Rightarrow>
               (case to_str name of
                  None \<Rightarrow> None
                | Some text \<Rightarrow>
                    if text = UPLOAD_STAGE_DIRECTORY then Some directory else None)))"

section \<open>Recognised names\<close>

datatype InternalEntryName = StageDirectory | Readiness | DeleteTrash | Quarantine

definition is_canonical_uuid :: "UuidLib \<Rightarrow> string \<Rightarrow> bool" where
  "is_canonical_uuid ul value =
     (case uuid_parse_str ul value of
        None \<Rightarrow> False
      | Some uuid \<Rightarrow> uuid_hyphenated ul uuid = value)"

text \<open>A name between a prefix and a suffix.\<close>

definition between :: "string \<Rightarrow> string \<Rightarrow> string \<Rightarrow> string option" where
  "between prefix suffix name =
     (case strip_prefix prefix name of
        None \<Rightarrow> None
      | Some value \<Rightarrow> strip_suffix suffix value)"

definition is_readiness_name :: "UuidLib \<Rightarrow> string \<Rightarrow> bool" where
  "is_readiness_name ul file_name =
     (case between READINESS_PREFIX READINESS_SUFFIX file_name of
        None \<Rightarrow> False | Some v \<Rightarrow> is_canonical_uuid ul v)"

definition is_delete_trash_name :: "UuidLib \<Rightarrow> string \<Rightarrow> bool" where
  "is_delete_trash_name ul file_name =
     (case between DELETE_TRASH_PREFIX DELETE_TRASH_SUFFIX file_name of
        None \<Rightarrow> False | Some v \<Rightarrow> is_canonical_uuid ul v)"

definition is_quarantine_name :: "UuidLib \<Rightarrow> string \<Rightarrow> bool" where
  "is_quarantine_name ul file_name =
     (case between QUARANTINE_PREFIX QUARANTINE_SUFFIX file_name of
        None \<Rightarrow> False | Some v \<Rightarrow> is_canonical_uuid ul v)"

definition classify_internal_name :: "UuidLib \<Rightarrow> string \<Rightarrow> InternalEntryName option" where
  "classify_internal_name ul file_name =
     (if file_name = UPLOAD_STAGE_DIRECTORY then Some StageDirectory
      else if file_name = READINESS_PROBE_ANCHOR then Some Readiness
      else if is_quarantine_name ul file_name then Some Quarantine
      else if is_delete_trash_name ul file_name then Some DeleteTrash
      else if is_readiness_name ul file_name then Some Readiness
      else None)"

definition is_internal_name :: "UuidLib \<Rightarrow> string \<Rightarrow> bool" where
  "is_internal_name ul file_name \<longleftrightarrow> classify_internal_name ul file_name \<noteq> None"

text \<open>\<open>str::get\<close> with a range: nothing when an end is out of bounds or inside a character, that
  is, in front of a continuation byte.\<close>

definition is_char_boundary :: "string \<Rightarrow> nat \<Rightarrow> bool" where
  "is_char_boundary s i \<longleftrightarrow>
     i = length s \<or> i < length s \<and> \<not> (128 \<le> code_of (s ! i) \<and> code_of (s ! i) < 192)"

definition str_get :: "string \<Rightarrow> nat \<Rightarrow> nat \<Rightarrow> string option" where
  "str_get s i j =
     (if i \<le> j \<and> j \<le> length s \<and> is_char_boundary s i \<and> is_char_boundary s j
      then Some (take (j - i) (drop i s)) else None)"

definition is_upload_stage_name :: "UuidLib \<Rightarrow> string \<Rightarrow> bool" where
  "is_upload_stage_name ul file_name =
     (case between UPLOAD_TEMP_PREFIX UPLOAD_TEMP_SUFFIX file_name of
        None \<Rightarrow> False
      | Some value \<Rightarrow>
          (case str_get value 0 64 of
             None \<Rightarrow> False
           | Some target_tag \<Rightarrow>
               if \<not> list_all is_lower_hex target_tag then False
               else str_get value 64 65 = Some ''-''
                 \<and> (case str_get value 65 (length value) of
                      None \<Rightarrow> False | Some v \<Rightarrow> is_canonical_uuid ul v)))"

section \<open>Generated names are recognised\<close>

lemma between_Some: "between prefix suffix name = Some v \<longleftrightarrow> name = prefix @ v @ suffix"
  by (auto simp: between_def strip_prefix_Some strip_suffix_Some split: option.splits)

lemma canonical_uuid:
  assumes "uuid_laws ul" shows "is_canonical_uuid ul v \<longleftrightarrow> (\<exists>u. length u = 16 \<and> v = uuid_hyphenated ul u)"
  using uuid_text(1,3) [OF assms] by (fastforce simp: is_canonical_uuid_def split: option.splits)

lemma generated_names:
  assumes "uuid_laws ul"
  shows "is_quarantine_name ul name \<longleftrightarrow> (\<exists>u. length u = 16 \<and> name = quarantine_name ul u)"
    and "is_delete_trash_name ul name \<longleftrightarrow> (\<exists>u. length u = 16 \<and> name = delete_trash_name ul u)"
    and "is_readiness_name ul name \<longleftrightarrow>
      (\<exists>u. length u = 16 \<and> name = READINESS_PREFIX @ uuid_hyphenated ul u @ READINESS_SUFFIX)"
proof -
  have "(case between p s name of None \<Rightarrow> False | Some v \<Rightarrow> is_canonical_uuid ul v) \<longleftrightarrow>
      (\<exists>u. length u = 16 \<and> name = p @ uuid_hyphenated ul u @ s)" for p s
    using canonical_uuid [OF assms] between_Some [of p s name]
    by (cases "between p s name") auto
  then show "is_quarantine_name ul name \<longleftrightarrow> (\<exists>u. length u = 16 \<and> name = quarantine_name ul u)"
    and "is_delete_trash_name ul name \<longleftrightarrow> (\<exists>u. length u = 16 \<and> name = delete_trash_name ul u)"
    and "is_readiness_name ul name \<longleftrightarrow>
      (\<exists>u. length u = 16 \<and> name = READINESS_PREFIX @ uuid_hyphenated ul u @ READINESS_SUFFIX)"
    by (simp_all add: is_quarantine_name_def is_delete_trash_name_def is_readiness_name_def
        quarantine_name_def delete_trash_name_def)
qed

lemma uuid_hyphenated_inject:
  "uuid_laws ul \<Longrightarrow> length u = 16 \<Longrightarrow> length v = 16 \<Longrightarrow>
    uuid_hyphenated ul u = uuid_hyphenated ul v \<longleftrightarrow> u = v"
  by (metis uuid_text(1) option.inject)

lemma layout_chars: "uuid_layout s \<Longrightarrow> list_all (\<lambda>c. is_lower_hex c \<or> c = CHR ''-'') s"
proof -
  assume l: "uuid_layout s"
  have join: "list_all P (join_on c ps)" if "\<forall>p\<in>set ps. list_all P p" "P c" for P c and ps :: "string list"
    using that by (induction c ps rule: join_on.induct) auto
  have "list_all (\<lambda>c. is_lower_hex c \<or> c = CHR ''-'') (join_on (CHR ''-'') (split_on (CHR ''-'') s))"
    using l by (intro join) (auto simp: uuid_layout_def Let_def list_all_iff)
  then show ?thesis by simp
qed

lemma length_join: "ps \<noteq> [] \<Longrightarrow> length (join_on c ps) = sum_list (map length ps) + length ps - 1"
  by (induction c ps rule: join_on.induct) auto

lemma layout_length: "uuid_layout s \<Longrightarrow> length s = 36"
proof -
  assume l: "uuid_layout s"
  then have m: "map length (split_on (CHR ''-'') s) = [8, 4, 4, 4, 12]"
    by (simp add: uuid_layout_def Let_def)
  have n: "length (split_on (CHR ''-'') s) = 5" using arg_cong [OF m, of length] by simp
  have "length s = length (join_on (CHR ''-'') (split_on (CHR ''-'') s))" by simp
  also have "\<dots> = 36" by (subst length_join) (simp_all add: m n)
  finally show ?thesis .
qed

text \<open>The families of reserved names do not overlap: the recogniser answers a class exactly for
  the names generated for it, so the order of its tests does not matter.\<close>

lemma classify_exact:
  assumes "uuid_laws ul"
  shows "classify_internal_name ul name = Some StageDirectory \<longleftrightarrow> name = UPLOAD_STAGE_DIRECTORY"
    and "classify_internal_name ul name = Some Quarantine \<longleftrightarrow>
      (\<exists>u. length u = 16 \<and> name = quarantine_name ul u)"
    and "classify_internal_name ul name = Some DeleteTrash \<longleftrightarrow>
      (\<exists>u. length u = 16 \<and> name = delete_trash_name ul u)"
    and "classify_internal_name ul name = Some Readiness \<longleftrightarrow>
      name = READINESS_PROBE_ANCHOR
      \<or> (\<exists>u. length u = 16 \<and> name = READINESS_PREFIX @ uuid_hyphenated ul u @ READINESS_SUFFIX)"
  by (auto simp: classify_internal_name_def generated_names [OF assms] quarantine_name_def
      delete_trash_name_def) (simp_all add: internal_name_parts)

section \<open>Stage paths\<close>

definition plain_name :: "string \<Rightarrow> bool" where
  "plain_name s \<longleftrightarrow> s \<noteq> [] \<and> s \<noteq> ''.'' \<and> s \<noteq> ''..'' \<and> CHR ''/'' \<notin> set s"

lemma plain_name_part: "plain_name s \<Longrightarrow> wf_part (Normal (str_bytes s))"
proof -
  have "str_bytes ''.'' = [dot]" "str_bytes ''..'' = [dot, dot]" by (simp_all add: str_bytes_def)
  then have "str_bytes s = [dot] \<longleftrightarrow> s = ''.''" "str_bytes s = [dot, dot] \<longleftrightarrow> s = ''..''"
    by (metis str_bytes_inject)+
  then show "plain_name s \<Longrightarrow> ?thesis" by (simp add: plain_name_def wf_part_def)
qed

lemma components_join_name:
  "plain_name s \<Longrightarrow> components (path_join p (str_bytes s)) = components p @ [Normal (str_bytes s)]"
  using components_push_component [OF plain_name_part, of s p]
  by (simp add: path_join_def push_component_def)

lemma stage_names_plain:
  assumes "uuid_laws ul" and "length u = 16" and "list_all is_lower_hex tag"
  shows "plain_name UPLOAD_STAGE_DIRECTORY" "plain_name (upload_stage_name ul tag u)"
proof -
  show "plain_name UPLOAD_STAGE_DIRECTORY" by (simp add: plain_name_def internal_name_parts)
  have hex: "CHR ''/'' \<notin> set x" if "list_all (\<lambda>c. is_lower_hex c \<or> c = CHR ''-'') x" for x
    using that by (auto simp: list_all_iff is_lower_hex_def is_ascii_digit_def)
  have "CHR ''/'' \<notin> set (uuid_hyphenated ul u)"
    by (rule hex) (rule layout_chars [OF uuid_text(2) [OF assms(1,2)]])
  moreover have "CHR ''/'' \<notin> set tag"
    using assms(3) by (intro hex) (auto simp: list_all_iff)
  ultimately show "plain_name (upload_stage_name ul tag u)"
    by (auto simp: plain_name_def upload_stage_name_def internal_name_parts)
qed

lemma ascii_boundary:
  assumes "list_all (\<lambda>c. code_of c < 128) s" and "i \<le> length s"
  shows "is_char_boundary s i"
proof (cases "i = length s")
  case False
  with assms have "i < length s" "code_of (s ! i) < 128" by (auto simp: list_all_length)
  then show ?thesis by (simp add: is_char_boundary_def)
qed (simp add: is_char_boundary_def)

lemma lower_hex_ascii: "is_lower_hex c \<or> c = CHR ''-'' \<Longrightarrow> code_of c < 128"
  by (auto simp: is_lower_hex_def is_ascii_digit_def)

lemma stage_name_recognised:
  assumes "uuid_laws ul" and "length u = 16" and "list_all is_lower_hex tag" and "length tag = 64"
  shows "is_upload_stage_name ul (upload_stage_name ul tag u)"
    and "classify_internal_name ul (upload_stage_name ul tag u) = None"
proof -
  let ?id = "uuid_hyphenated ul u" and ?body = "tag @ ''-'' @ uuid_hyphenated ul u"
  have b: "between UPLOAD_TEMP_PREFIX UPLOAD_TEMP_SUFFIX (upload_stage_name ul tag u) = Some ?body"
    by (simp add: between_Some upload_stage_name_def)
  have "list_all (\<lambda>c. is_lower_hex c \<or> c = CHR ''-'') ?body"
    using assms(3) layout_chars [OF uuid_text(2) [OF assms(1,2)]] by (auto simp: list_all_iff)
  then have ascii: "list_all (\<lambda>c. code_of c < 128) ?body"
    using lower_hex_ascii by (auto simp: list_all_iff)
  then have "str_get ?body 0 64 = Some tag" "str_get ?body 64 65 = Some ''-''"
    "str_get ?body 65 (length ?body) = Some ?id"
    using assms(4) ascii_boundary [OF ascii] by (simp_all add: str_get_def)
  moreover have "is_canonical_uuid ul ?id"
    using canonical_uuid [OF assms(1)] assms(2) by blast
  ultimately show "is_upload_stage_name ul (upload_stage_name ul tag u)"
    using b assms(3) by (simp add: is_upload_stage_name_def)
  obtain a b c cs where tag: "tag = a # b # c # cs"
    using assms(4) by (auto simp: length_Suc_conv numeral_eq_Suc)
  with assms(3) have hex: "is_lower_hex a" "is_lower_hex c" by auto
  then have "a \<noteq> CHR ''s''" "c \<noteq> CHR ''l''" by (auto simp: is_lower_hex_def is_ascii_digit_def)
  then have ne: "upload_stage_name ul tag u \<noteq> UPLOAD_STAGE_DIRECTORY"
    "upload_stage_name ul tag u \<noteq> READINESS_PROBE_ANCHOR"
    "\<And>v. upload_stage_name ul tag u \<noteq> quarantine_name ul v"
    "\<And>v. upload_stage_name ul tag u \<noteq> delete_trash_name ul v"
    "\<And>v. upload_stage_name ul tag u \<noteq> READINESS_PREFIX @ v @ READINESS_SUFFIX"
    by (simp_all add: upload_stage_name_def quarantine_name_def delete_trash_name_def
        internal_name_parts tag)
  then show "classify_internal_name ul (upload_stage_name ul tag u) = None"
    by (auto simp: classify_internal_name_def generated_names [OF assms(1)])
qed

definition target_tag :: "(bytes \<Rightarrow> bytes) \<Rightarrow> bytes \<Rightarrow> string" where
  "target_tag sha256 fname = encode_hex (sha256 (str_bytes (to_string_lossy fname)))"

text \<open>The shape of every stage path.\<close>

lemma upload_temp_path_components:
  assumes "uuid_laws ul" and "length upload_id = 16"
    and "upload_temp_path sha256 ul target upload_id = Inr stage"
  shows "\<exists>dir fname. components target = dir @ [Normal fname]
    \<and> components stage = dir @ [Normal (str_bytes UPLOAD_STAGE_DIRECTORY),
        Normal (str_bytes (upload_stage_name ul (target_tag sha256 fname) upload_id))]"
proof -
  from assms(3) obtain parent fname where pf: "path_parent target = Some parent"
    "path_file_name target = Some fname"
    and stage: "stage = path_join (path_join parent (str_bytes UPLOAD_STAGE_DIRECTORY))
      (str_bytes (upload_stage_name ul (target_tag sha256 fname) upload_id))"
    by (auto simp: upload_temp_path_def target_tag_def Let_def)
  from components_parent [OF pf(1)] have ne: "components target \<noteq> []"
    and par: "components parent = butlast (components target)" by auto
  from pf(2) ne have "last (components target) = Normal fname"
    by (auto simp: path_file_name_def split: component.splits)
  with ne par have "components target = components parent @ [Normal fname]"
    by (metis append_butlast_last_id)
  moreover have "list_all is_lower_hex (target_tag sha256 fname)"
    by (simp add: target_tag_def encode_hex_lower)
  ultimately show ?thesis
    using stage_names_plain [OF assms(1,2)] unfolding stage
    by (intro exI [of _ "components parent"] exI [of _ fname]) (simp add: components_join_name)
qed

lemma upload_stage_name_inject:
  assumes "uuid_laws ul" "length u = 16" "length v = 16" "length s = length t"
  shows "upload_stage_name ul s u = upload_stage_name ul t v \<longleftrightarrow> s = t \<and> u = v"
  using assms uuid_hyphenated_inject [OF assms(1-3)] by (auto simp: upload_stage_name_def)

lemma to_str_ascii:
  assumes "list_all (\<lambda>c. code_of c < 128) s" shows "to_str (str_bytes s) = Some s"
proof -
  have "is_utf8 (str_bytes s)"
    using assms
  proof (induction s)
    case (Cons c s)
    have "(of_char c :: byte) < 0x80"
      using Cons.prems by (simp add: word_less_nat_alt of_char_byte unat_of_nat)
    then have "utf8_width (of_char c) = 1" by (simp add: utf8_width_def)
    with Cons show ?case by (subst is_utf8.simps) (simp add: str_bytes_def)
  qed (simp add: is_utf8.simps str_bytes_def)
  then show ?thesis by (simp add: to_str_def)
qed

section \<open>Properties\<close>

text \<open>C38: The reserved names are recognised exactly.  A name is classified as quarantine, delete
  trash or readiness file if and only if the server generates it for some UUID (or it is the
  readiness anchor), and as the stage directory if and only if it is that name; no name belongs to
  two classes, so the order of the tests does not matter, and a spelling that merely resembles a
  generated name, such as an upper-case UUID, stays available to users.\<close>

theorem reserved_names_exact:
  assumes "uuid_laws ul"
  shows "(classify_internal_name ul name = Some StageDirectory \<longleftrightarrow> name = UPLOAD_STAGE_DIRECTORY)
    \<and> (classify_internal_name ul name = Some Quarantine \<longleftrightarrow>
        (\<exists>u. length u = 16 \<and> name = quarantine_name ul u))
    \<and> (classify_internal_name ul name = Some DeleteTrash \<longleftrightarrow>
        (\<exists>u. length u = 16 \<and> name = delete_trash_name ul u))
    \<and> (classify_internal_name ul name = Some Readiness \<longleftrightarrow> name = READINESS_PROBE_ANCHOR
        \<or> (\<exists>u. length u = 16 \<and> name = READINESS_PREFIX @ uuid_hyphenated ul u @ READINESS_SUFFIX))
    \<and> (is_internal_name ul name \<longleftrightarrow> (\<exists>c. classify_internal_name ul name = Some c))"
  by (intro conjI classify_exact [OF assms]) (auto simp: is_internal_name_def)

theorem reserved_names_exact_witness:
  "classify_internal_name sample_uuid (delete_trash_name sample_uuid (replicate 16 0)) = Some DeleteTrash"
  using reserved_names_exact [OF sample_uuid_laws,
      of "delete_trash_name sample_uuid (replicate 16 0)"]
    length_replicate [of 16 "0 :: byte"] by blast

lemma components_stage_dir:
  assumes "path_parent stage = Some directory" and "components stage = cs @ [a, b]"
  shows "components directory = cs @ [a]"
  using components_parent [OF assms(1)] assms(2) by (simp add: butlast_append)

lemma parent_exists:
  assumes "components p = cs @ [Normal n]" shows "\<exists>q. path_parent p = Some q"
proof (rule ccontr)
  assume "\<not> ?thesis"
  then have "trim_right_parts (body_parts p) = []" by (auto simp: path_parent_def Let_def split: if_splits)
  then have "List.map_filter parse_single_component (body_parts p) = []"
    using map_filter_trim_right [of "body_parts p"] by (simp add: List.map_filter_simps)
  with assms components_body [of p] show False by (auto split: if_splits)
qed

text \<open>C39: A stage path is bound to its target and upload.  It lies in the stage directory next to
  the target, its name is recognised as a stage name and belongs to no other reserved class, the
  stage directory is found again from it.  It passes as the stage path of another target or upload
  only if the upload id is the same, the target is in the same directory, and the digests of the
  lossy texts of the two file names are equal.  So two targets with UTF-8 names, the only ones a
  request can name, share it only if they are the same path or the hash of their names collides.\<close>

theorem stage_path_bound_to_target:
  assumes ul: "uuid_laws ul" and sha: "\<forall>x. length (sha256 x) = 32"
    and uid: "length upload_id = 16"
    and stage: "upload_temp_path sha256 ul target upload_id = Inr stage"
  shows "\<exists>dir fname name d.
    components target = dir @ [Normal fname]
    \<and> components stage = dir @ [Normal (str_bytes UPLOAD_STAGE_DIRECTORY), Normal (str_bytes name)]
    \<and> is_upload_stage_name ul name \<and> classify_internal_name ul name = None
    \<and> upload_stage_directory stage = Some d
    \<and> components d = dir @ [Normal (str_bytes UPLOAD_STAGE_DIRECTORY)]
    \<and> (\<forall>target' id'. length id' = 16 \<and>
          is_upload_temp_path sha256 ul target' id' stage = Inr True \<longrightarrow>
        id' = upload_id \<and> (\<exists>fname'. components target' = dir @ [Normal fname']
          \<and> sha256 (from_utf8_lossy fname') = sha256 (from_utf8_lossy fname)
          \<and> (is_utf8 fname \<and> is_utf8 fname' \<longrightarrow>
              path_eq target' target \<or> fname' \<noteq> fname \<and> sha256 fname' = sha256 fname)))"
proof -
  obtain dir fname where t: "components target = dir @ [Normal fname]"
    and s: "components stage = dir @ [Normal (str_bytes UPLOAD_STAGE_DIRECTORY),
        Normal (str_bytes (upload_stage_name ul (target_tag sha256 fname) upload_id))]"
    using upload_temp_path_components [OF ul uid stage] by blast
  have tag: "list_all is_lower_hex (target_tag sha256 f)" "length (target_tag sha256 f) = 64" for f
    using sha by (simp_all add: target_tag_def encode_hex_lower)
  obtain d where d: "path_parent stage = Some d" using s parent_exists [of stage] by force
  have cd: "components d = dir @ [Normal (str_bytes UPLOAD_STAGE_DIRECTORY)]"
    using components_stage_dir [OF d s] .
  have "upload_stage_directory stage = Some d"
    using d cd to_str_ascii [of UPLOAD_STAGE_DIRECTORY]
    by (simp add: upload_stage_directory_def path_file_name_def UPLOAD_STAGE_DIRECTORY_def)
  moreover have "id' = upload_id \<and> (\<exists>fname'. components target' = dir @ [Normal fname']
          \<and> sha256 (from_utf8_lossy fname') = sha256 (from_utf8_lossy fname)
          \<and> (is_utf8 fname \<and> is_utf8 fname' \<longrightarrow>
              path_eq target' target \<or> fname' \<noteq> fname \<and> sha256 fname' = sha256 fname))"
    if uid': "length id' = 16" and same: "is_upload_temp_path sha256 ul target' id' stage = Inr True"
    for target' id'
  proof -
    from same obtain st where st: "upload_temp_path sha256 ul target' id' = Inr st" "path_eq st stage"
      by (auto simp: is_upload_temp_path_def)
    with upload_temp_path_components [OF ul uid' st(1)] s tag upload_stage_name_inject [OF ul uid uid']
    obtain fname' where "id' = upload_id" and t': "components target' = dir @ [Normal fname']"
      and "target_tag sha256 fname' = target_tag sha256 fname" by (auto simp: path_eq_def)
    then have eq: "id' = upload_id" "sha256 (from_utf8_lossy fname') = sha256 (from_utf8_lossy fname)"
      by (simp_all add: target_tag_def to_string_lossy_def)
    have "path_eq target' target \<or> fname' \<noteq> fname \<and> sha256 fname' = sha256 fname"
      if "is_utf8 fname" "is_utf8 fname'"
      using eq(2) t t' by (auto simp: path_eq_def lossy_of_utf8 [OF that(1)] lossy_of_utf8 [OF that(2)])
    with eq t' show ?thesis by blast
  qed
  ultimately show ?thesis
    using t s cd stage_name_recognised [OF ul uid tag] by blast
qed

theorem stage_path_bound_to_target_witness:
  "\<exists>stage d. upload_temp_path (\<lambda>_. replicate 32 1) sample_uuid (str_bytes ''a/b'') (replicate 16 2) = Inr stage
    \<and> upload_stage_directory stage = Some d"
proof -
  have "path_parent (str_bytes ''a/b'') = Some (str_bytes ''a'')" "path_file_name (str_bytes ''a/b'') = Some (str_bytes ''b'')"
    by (simp_all add: str_bytes_def path_parent_def path_file_name_def body_parts_def before_body_def
        has_root_def has_cur_dir_def trim_right_parts_def parse_single_component_def components_def
        List.map_filter_simps)
  then obtain stage where st: "upload_temp_path (\<lambda>_. replicate 32 1) sample_uuid (str_bytes ''a/b'')
      (replicate 16 2) = Inr stage"
    by (auto simp: upload_temp_path_def Let_def)
  from stage_path_bound_to_target [OF sample_uuid_laws _ _ st]
  have "\<exists>d. upload_stage_directory stage = Some d" by (elim exE conjE meta_impE) auto
  with st show ?thesis by blast
qed

end
