(* ===== verification/Path_Policy.thy ===== *)
theory Path_Policy
  imports Internal_Names
begin

text \<open>
  The lexical path rules shared by the router and the browser API
  (\<open>src/src/server/path_policy.rs\<close>).  Percent coding (the \<open>percent_encoding\<close> crate) and the
  list of platform paths (the \<open>xcss\<close> crate) are parameters.
\<close>

section \<open>The policy\<close>

text \<open>\<open>uri_decode\<close> is percent decoding followed by UTF-8 validation; \<open>uri_encode_part\<close> encodes
  one path segment.\<close>

record UriLib =
  uri_decode :: "string \<Rightarrow> string option"
  uri_encode_part :: "string \<Rightarrow> string"
  platform_paths :: "string list"

definition encode_uri :: "UriLib \<Rightarrow> string \<Rightarrow> string" where
  "encode_uri uri v = join_on (CHR ''/'') (map (uri_encode_part uri) (split_on (CHR ''/'') v))"

definition decode_uri :: "UriLib \<Rightarrow> string \<Rightarrow> string option" where
  "decode_uri uri v = uri_decode uri v"

definition BROWSER_COMPONENT_BYTES_LIMIT :: nat where
  "BROWSER_COMPONENT_BYTES_LIMIT = 255"

definition BROWSER_RELATIVE_PATH_BYTES_LIMIT :: nat where
  "BROWSER_RELATIVE_PATH_BYTES_LIMIT = 4095"

definition TAG_API_PATH :: string where
  "TAG_API_PATH = ''api/v1/file-tags''"

record PathPolicy =
  pp_root :: bytes
  pp_assets_component :: string

definition path_policy :: "bytes \<Rightarrow> string \<Rightarrow> PathPolicy" where
  "path_policy root assets_prefix =
     \<lparr>pp_root = root,
      pp_assets_component = (case strip_suffix ''/'' assets_prefix of
        Some s \<Rightarrow> s | None \<Rightarrow> assets_prefix)\<rparr>"

definition starts_with_slash :: "string \<Rightarrow> bool" where
  "starts_with_slash s \<longleftrightarrow> (case s of [] \<Rightarrow> False | c # _ \<Rightarrow> c = CHR ''/'')"

definition trim_start_slashes :: "string \<Rightarrow> string" where
  "trim_start_slashes s = dropWhile (\<lambda>c. c = CHR ''/'') s"

definition trim_slashes :: "string \<Rightarrow> string" where
  "trim_slashes s = rev (trim_start_slashes (rev (trim_start_slashes s)))"

text \<open>\<open>relative\<close> is \<open>root\<close> itself or below it.\<close>

definition at_or_below :: "string \<Rightarrow> string \<Rightarrow> bool" where
  "at_or_below root relative \<longleftrightarrow>
     relative = root
     \<or> (case strip_prefix root relative of None \<Rightarrow> False | Some tail \<Rightarrow> starts_with_slash tail)"

definition is_platform_path :: "UriLib \<Rightarrow> string \<Rightarrow> bool" where
  "is_platform_path uri relative \<longleftrightarrow>
     at_or_below TAG_API_PATH relative
     \<or> list_ex (\<lambda>root. at_or_below (trim_start_slashes root) relative) (platform_paths uri)"

definition strictly_above :: "string \<Rightarrow> string \<Rightarrow> bool" where
  "strictly_above relative root \<longleftrightarrow>
     (case strip_prefix relative root of None \<Rightarrow> False | Some tail \<Rightarrow> starts_with_slash tail)"

definition is_platform_ancestor :: "UriLib \<Rightarrow> string \<Rightarrow> bool" where
  "is_platform_ancestor uri relative \<longleftrightarrow>
     relative \<noteq> []
     \<and> (strictly_above relative TAG_API_PATH
        \<or> list_ex (\<lambda>root. strictly_above relative (trim_start_slashes root)) (platform_paths uri))"

definition is_reserved_component :: "UriLib \<Rightarrow> PathPolicy \<Rightarrow> string \<Rightarrow> bool" where
  "is_reserved_component uri pol c \<longleftrightarrow>
     c = ''__xczs__'' \<or> c = pp_assets_component pol \<or> is_platform_path uri c"

text \<open>The loop over the components of a route.\<close>

fun route_parts :: "UuidLib \<Rightarrow> component list \<Rightarrow> string list option" where
  "route_parts ul [] = Some []"
| "route_parts ul (Normal v # cs) =
     (let s = to_string_lossy v in
      if length s > BROWSER_COMPONENT_BYTES_LIMIT \<or> is_internal_name ul s then None
      else map_option ((#) s) (route_parts ul cs))"
| "route_parts ul (_ # cs) = None"

definition parse_route :: "UriLib \<Rightarrow> UuidLib \<Rightarrow> PathPolicy \<Rightarrow> string \<Rightarrow> string option" where
  "parse_route uri ul pol raw_path =
     (case decode_uri uri raw_path of
        None \<Rightarrow> None
      | Some path \<Rightarrow>
          if CHR 0x00 \<in> set path then None
          else (case route_parts ul (components (str_bytes (trim_slashes path))) of
            None \<Rightarrow> None
          | Some parts \<Rightarrow>
              let normalized = join_on (CHR ''/'') parts in
              if length normalized > BROWSER_RELATIVE_PATH_BYTES_LIMIT then None
              else if (is_platform_path uri normalized
                    \<or> is_reserved_component uri pol (hd (split_on (CHR ''/'') normalized)))
                  \<and> raw_path \<noteq> ''/'' @ encode_uri uri normalized then None
              else Some normalized))"

text \<open>The loop over the segments of a browser target, from index \<open>i\<close>.\<close>

fun browser_push ::
  "UriLib \<Rightarrow> UuidLib \<Rightarrow> PathPolicy \<Rightarrow> nat \<Rightarrow> string list \<Rightarrow> bytes \<Rightarrow> bytes option" where
  "browser_push uri ul pol i [] resolved = Some resolved"
| "browser_push uri ul pol i (c # cs) resolved =
     (if c = [] \<or> c = ''.'' \<or> c = ''..''
         \<or> length c > BROWSER_COMPONENT_BYTES_LIMIT
         \<or> is_internal_name ul c
         \<or> (i = 0 \<and> is_reserved_component uri pol c) then None
      else browser_push uri ul pol (i + 1) cs (path_push resolved (str_bytes c)))"

definition parse_browser_target ::
  "UriLib \<Rightarrow> UuidLib \<Rightarrow> PathPolicy \<Rightarrow> string \<Rightarrow> bytes option" where
  "parse_browser_target uri ul pol v =
     (case strip_prefix ''/'' v of
        None \<Rightarrow> None
      | Some relative \<Rightarrow>
          if relative = [] \<or> is_platform_path uri relative
             \<or> length relative > BROWSER_RELATIVE_PATH_BYTES_LIMIT
             \<or> CHR 0x00 \<in> set relative then None
          else browser_push uri ul pol 0 (split_on (CHR ''/'') relative) (pp_root pol))"

definition parse_list_target ::
  "UriLib \<Rightarrow> UuidLib \<Rightarrow> PathPolicy \<Rightarrow> string \<Rightarrow> bytes option" where
  "parse_list_target uri ul pol v =
     (if v = ''/'' then Some (pp_root pol) else parse_browser_target uri ul pol v)"

definition resolve_route :: "PathPolicy \<Rightarrow> string \<Rightarrow> bytes" where
  "resolve_route pol path =
     (if path = [] then pp_root pol else path_join (pp_root pol) (str_bytes path))"

definition is_managed_root :: "PathPolicy \<Rightarrow> bytes \<Rightarrow> bool" where
  "is_managed_root pol path \<longleftrightarrow> path_eq path (pp_root pol)"

definition protects_platform_namespace :: "UriLib \<Rightarrow> PathPolicy \<Rightarrow> bytes \<Rightarrow> bool" where
  "protects_platform_namespace uri pol path =
     (case path_strip_prefix path (pp_root pol) of
        None \<Rightarrow> False
      | Some rest \<Rightarrow>
          (case to_str rest of
             None \<Rightarrow> False
           | Some relative \<Rightarrow>
               is_platform_path uri relative \<or> is_platform_ancestor uri relative))"

section \<open>Lossy text of a component\<close>

lemma lossy_set: "set (from_utf8_lossy bs) \<subseteq> set bs \<union> {0xEF, 0xBF, 0xBD}"
proof (induction bs rule: from_utf8_lossy.induct)
  case (1 bs)
  show ?case
  proof (cases "bs = []")
    case False
    obtain n ok where c: "utf8_chunk bs = (n, ok)" by fastforce
    with 1 [OF False c [symmetric]] False show ?thesis
      by (subst from_utf8_lossy.simps) (auto dest: in_set_takeD in_set_dropD)
  qed (simp add: from_utf8_lossy.simps)
qed

lemma lossy_step:
  assumes "bs \<noteq> []" and "utf8_chunk bs = (n, ok)"
  shows "from_utf8_lossy bs =
    (if ok then take n bs else [0xEF, 0xBF, 0xBD]) @ from_utf8_lossy (drop n bs)"
  using assms by (subst from_utf8_lossy.simps) simp

lemma lossy_same: "from_utf8_lossy bs = bs \<or> 0xEF \<in> set (from_utf8_lossy bs)"
proof (induction bs rule: from_utf8_lossy.induct)
  case (1 bs)
  show ?case
  proof (cases "bs = []")
    case False
    obtain n ok where c: "utf8_chunk bs = (n, ok)" by fastforce
    with 1 [OF False c [symmetric]] show ?thesis
      unfolding lossy_step [OF False c] by auto
  qed (simp add: from_utf8_lossy.simps)
qed

lemma str_bytes_dots [simp]:
  "str_bytes s = [dot] \<longleftrightarrow> s = ''.''" "str_bytes s = [dot, dot] \<longleftrightarrow> s = ''..''"
proof -
  have "str_bytes ''.'' = [dot]" "str_bytes ''..'' = [dot, dot]" by (simp_all add: str_bytes_def)
  then show "str_bytes s = [dot] \<longleftrightarrow> s = ''.''" "str_bytes s = [dot, dot] \<longleftrightarrow> s = ''..''"
    by (metis str_bytes_inject)+
qed

lemma plain_name_iff: "plain_name s \<longleftrightarrow> wf_part (Normal (str_bytes s))"
  by (simp add: plain_name_def wf_part_def)

lemma lossy_plain:
  assumes "wf_part (Normal v)" shows "plain_name (to_string_lossy v)"
  using lossy_same [of v] lossy_set [of v] assms
  by (auto simp: plain_name_iff to_string_lossy_def wf_part_def)

section \<open>Accepted paths\<close>

text \<open>What both parsers demand of a segment.\<close>

definition segment_ok :: "UuidLib \<Rightarrow> string \<Rightarrow> bool" where
  "segment_ok ul s \<longleftrightarrow>
     plain_name s \<and> length s \<le> BROWSER_COMPONENT_BYTES_LIMIT \<and> \<not> is_internal_name ul s"

abbreviation segment_components :: "string list \<Rightarrow> component list" where
  "segment_components segs \<equiv> map (\<lambda>s. Normal (str_bytes s)) segs"

lemma browser_push_iff:
  assumes "\<forall>c\<in>set cs. CHR ''/'' \<notin> set c"
  shows "browser_push uri ul pol i cs r =
    (if list_all (segment_ok ul) cs \<and> (i = 0 \<longrightarrow> cs = [] \<or> \<not> is_reserved_component uri pol (hd cs))
     then Some (foldl push_component r (segment_components cs)) else None)"
  using assms
proof (induction uri ul pol i cs r rule: browser_push.induct)
  case (2 uri ul pol i c cs resolved)
  then show ?case
    by (auto simp: segment_ok_def [of ul c] plain_name_def [of c]
        push_component_def [of resolved "Normal (str_bytes c)"])
qed simp

lemma components_pushed:
  "list_all (segment_ok ul) cs \<Longrightarrow>
    components (foldl push_component r (segment_components cs)) = components r @ segment_components cs"
  by (rule components_foldl_push) (auto simp: list_all_iff segment_ok_def plain_name_iff)

lemma strip_slash: "strip_prefix ''/'' v = Some rel \<longleftrightarrow> v = CHR ''/'' # rel"
  by (simp add: strip_prefix_Some)

lemma split_no_slash: "\<forall>c\<in>set (split_on (CHR ''/'') s). CHR ''/'' \<notin> set c"
  by (rule split_on_no_sep)

lemma browser_target_iff:
  "parse_browser_target uri ul pol v = Some p \<longleftrightarrow>
    (\<exists>segs. segs = split_on (CHR ''/'') (tl v) \<and> v = CHR ''/'' # join_on (CHR ''/'') segs
      \<and> tl v \<noteq> [] \<and> \<not> is_platform_path uri (tl v)
      \<and> length (tl v) \<le> BROWSER_RELATIVE_PATH_BYTES_LIMIT \<and> CHR 0x00 \<notin> set (tl v)
      \<and> list_all (segment_ok ul) segs \<and> \<not> is_reserved_component uri pol (hd segs)
      \<and> p = foldl push_component (pp_root pol) (segment_components segs))"
proof (cases "strip_prefix ''/'' v")
  case None
  then have "\<nexists>rel. v = CHR ''/'' # rel" by (metis strip_slash option.distinct(1))
  with None show ?thesis by (auto simp: parse_browser_target_def)
next
  case (Some rel)
  then have "v = CHR ''/'' # rel" by (simp add: strip_slash)
  with Some show ?thesis
    by (auto simp: parse_browser_target_def browser_push_iff [OF split_no_slash])
qed

lemma route_parts_Some:
  "route_parts ul cs = Some parts \<Longrightarrow> list_all wf_part cs \<or> wf_components cs \<Longrightarrow>
    \<exists>vs. cs = map Normal vs \<and> parts = map to_string_lossy vs \<and> list_all (segment_ok ul) parts"
proof (induction ul cs arbitrary: parts rule: route_parts.induct)
  case (2 ul v cs)
  from 2(2) obtain qs where v: "length (to_string_lossy v) \<le> BROWSER_COMPONENT_BYTES_LIMIT"
    "\<not> is_internal_name ul (to_string_lossy v)"
    and rest: "route_parts ul cs = Some qs" and parts: "parts = to_string_lossy v # qs"
    by (auto simp: Let_def split: if_splits)
  from 2(3) have wf: "wf_part (Normal v)" "list_all wf_part cs"
    by (auto simp: wf_components_def)
  obtain vs where vs: "cs = map Normal vs" "qs = map to_string_lossy vs" "list_all (segment_ok ul) qs"
    using 2(1) [OF refl _ rest] v wf(2) by auto
  have "segment_ok ul (to_string_lossy v)" using v lossy_plain [OF wf(1)] by (simp add: segment_ok_def)
  with vs parts show ?case by (intro exI [of _ "v # vs"]) simp
qed auto

lemma join_not_Nil: "segs \<noteq> [] \<Longrightarrow> \<forall>s\<in>set segs. s \<noteq> [] \<Longrightarrow> join_on c segs \<noteq> []"
  by (induction c segs rule: join_on.induct) auto

lemma split_join_segments:
  assumes "list_all (segment_ok ul) segs" and "segs \<noteq> []"
  shows "split_on (CHR ''/'') (join_on (CHR ''/'') segs) = segs"
  using assms by (intro split_join_on) (auto simp: list_all_iff segment_ok_def plain_name_def)

lemma set_join: "x \<in> set (join_on c ps) \<Longrightarrow> x = c \<or> (\<exists>p\<in>set ps. x \<in> set p)"
  by (induction c ps rule: join_on.induct) auto

lemma map_filter_set: "x \<in> set (List.map_filter f xs) \<Longrightarrow> \<exists>y\<in>set xs. f y = Some x"
  by (auto simp: List.map_filter_def)

lemma set_split: "p \<in> set (split_on c xs) \<Longrightarrow> set p \<subseteq> set xs"
proof (induction xs arbitrary: p)
  case (Cons x xs)
  then show ?case by (auto split: if_splits list.splits) blast+
qed simp

lemma components_Normal:
  "Normal v \<in> set (components p) \<Longrightarrow>
    Normal v \<in> set (List.map_filter parse_single_component (split_on slash p))"
  by (cases "split_on slash p")
    (simp_all add: components_def Let_def del: List.map_filter_simps split: if_splits)

lemma component_bytes_subset:
  assumes "Normal v \<in> set (components p)" shows "set v \<subseteq> set p"
proof -
  obtain s where s: "s \<in> set (split_on slash p)" "parse_single_component s = Some (Normal v)"
    using map_filter_set [OF components_Normal [OF assms]] by blast
  then have "s = v" by (simp add: parse_single_component_def split: if_splits)
  with set_split [OF s(1)] show ?thesis by simp
qed

lemma trim_start_slashes_subset: "set (trim_start_slashes s) \<subseteq> set s"
  unfolding trim_start_slashes_def by (rule subsetI) (erule set_dropWhileD)

lemma trim_slashes_subset: "set (trim_slashes s) \<subseteq> set s"
  using trim_start_slashes_subset [of "rev (trim_start_slashes s)"] trim_start_slashes_subset [of s]
  by (simp add: trim_slashes_def)

lemma nul_lossy:
  assumes "0 \<notin> set v" shows "CHR 0x00 \<notin> set (to_string_lossy v)"
proof
  assume "CHR 0x00 \<in> set (to_string_lossy v)"
  then have "(of_char (CHR 0x00) :: byte) \<in> set (str_bytes (to_string_lossy v))"
    unfolding str_bytes_def set_map by (rule imageI)
  then have "0 \<in> set (from_utf8_lossy v)" by (simp add: to_string_lossy_def)
  with lossy_set [of v] assms show False by auto
qed

lemma route_Some:
  assumes "parse_route uri ul pol raw = Some r"
  shows "\<exists>segs. r = join_on (CHR ''/'') segs \<and> list_all (segment_ok ul) segs
    \<and> CHR 0x00 \<notin> set r \<and> length r \<le> BROWSER_RELATIVE_PATH_BYTES_LIMIT
    \<and> (is_platform_path uri r \<or> is_reserved_component uri pol (hd (split_on (CHR ''/'') r)) \<longrightarrow>
        raw = ''/'' @ encode_uri uri r)"
proof -
  from assms obtain path parts where
    nul: "CHR 0x00 \<notin> set path"
    and parts: "route_parts ul (components (str_bytes (trim_slashes path))) = Some parts"
    and r: "r = join_on (CHR ''/'') parts"
      "length r \<le> BROWSER_RELATIVE_PATH_BYTES_LIMIT"
      "is_platform_path uri r \<or> is_reserved_component uri pol (hd (split_on (CHR ''/'') r)) \<longrightarrow>
        raw = ''/'' @ encode_uri uri r"
    by (auto simp: parse_route_def Let_def not_less split: option.splits if_splits)
  obtain vs where vs: "components (str_bytes (trim_slashes path)) = map Normal vs"
    "parts = map to_string_lossy vs" and ok: "list_all (segment_ok ul) parts"
    using route_parts_Some [OF parts] components_wf by blast
  have "CHR 0x00 \<notin> set s" if "s \<in> set parts" for s
  proof -
    from that vs obtain v where v: "s = to_string_lossy v"
      "Normal v \<in> set (components (str_bytes (trim_slashes path)))" by auto
    have "0 \<notin> set (str_bytes (trim_slashes path))"
      using nul trim_slashes_subset [of path] by (auto simp: set_str_bytes char_of_def)
    with component_bytes_subset [OF v(2)] v(1) nul_lossy [of v] show ?thesis by auto
  qed
  then have "CHR 0x00 \<notin> set r" using set_join [of "CHR 0x00" "CHR ''/''" parts] r(1) by auto
  with r ok show ?thesis by blast
qed

text \<open>Pushing a joined list of segments at once is pushing them one by one, to the byte.\<close>

lemma path_push_two:
  "s \<noteq> [] \<Longrightarrow> last s \<noteq> slash \<Longrightarrow> \<not> has_root s \<Longrightarrow> \<not> has_root q \<Longrightarrow>
    path_push p (s @ slash # q) = path_push (path_push p s) q"
  by (cases s) (auto simp: path_push_def has_root_def)

lemma segment_bytes:
  assumes "segment_ok ul s"
  shows "str_bytes s \<noteq> []" "slash \<notin> set (str_bytes s)" "\<not> has_root (str_bytes s)"
    "last (str_bytes s) \<noteq> slash"
proof -
  show ne: "str_bytes s \<noteq> []" and sl: "slash \<notin> set (str_bytes s)"
    using assms by (simp_all add: segment_ok_def plain_name_def)
  show "\<not> has_root (str_bytes s)" using ne sl by (cases "str_bytes s") (auto simp: has_root_def)
  show "last (str_bytes s) \<noteq> slash" using last_in_set [OF ne] sl by auto
qed

lemma str_bytes_join: "str_bytes (join_on (CHR ''/'') segs) = join_on slash (map str_bytes segs)"
  by (induction "CHR ''/''" segs rule: join_on.induct) (simp_all add: str_bytes_def)

lemma join_no_root:
  "list_all (segment_ok ul) segs \<Longrightarrow> \<not> has_root (join_on slash (map str_bytes segs))"
proof (cases segs)
  case (Cons s rest)
  moreover assume "list_all (segment_ok ul) segs"
  ultimately show ?thesis
    using segment_bytes [of ul s] by (cases rest; cases "str_bytes s") (auto simp: has_root_def)
qed (simp add: has_root_def)

lemma push_joined:
  "list_all (segment_ok ul) segs \<Longrightarrow> segs \<noteq> [] \<Longrightarrow>
    path_push p (join_on slash (map str_bytes segs)) =
      foldl push_component p (segment_components segs)"
proof (induction segs arbitrary: p)
  case (Cons s segs)
  then show ?case
    using segment_bytes [of ul s] join_no_root [of ul segs]
    by (cases segs) (simp_all add: push_component_def path_push_two)
qed simp

lemma resolve_joined:
  assumes "list_all (segment_ok ul) segs"
  shows "resolve_route pol (join_on (CHR ''/'') segs) =
    foldl push_component (pp_root pol) (segment_components segs)"
proof (cases "segs = []")
  case False
  have "join_on (CHR ''/'') segs \<noteq> []"
    using assms False by (intro join_not_Nil) (auto simp: list_all_iff segment_ok_def plain_name_def)
  with push_joined [OF assms False] show ?thesis
    by (simp add: resolve_route_def path_join_def str_bytes_join)
qed (simp add: resolve_route_def)

section \<open>Properties\<close>

text \<open>C23: A browser target stays below the shared root.  Every path that the mutation API accepts is
  the root followed by at least one ordinary component per segment of the request: no empty, \<open>.\<close>
  or \<open>..\<close> segment, nothing longer than the file system allows, no NUL, no platform path, no
  reserved first segment, and no segment that is a reserved internal name, so stages, trash and
  quarantine entries cannot be named.  The root itself is never a mutation target; the listing
  parser accepts the same paths and the root.\<close>

theorem browser_target_confined:
  assumes "parse_browser_target uri ul pol v = Some p"
  shows "\<exists>segs. v = CHR ''/'' # join_on (CHR ''/'') segs \<and> segs \<noteq> []
    \<and> components p = components (pp_root pol) @ segment_components segs
    \<and> list_all (segment_ok ul) segs
    \<and> \<not> is_reserved_component uri pol (hd segs) \<and> \<not> is_platform_path uri (tl v)
    \<and> CHR 0x00 \<notin> set v \<and> length v \<le> BROWSER_RELATIVE_PATH_BYTES_LIMIT + 1
    \<and> path_starts_with p (pp_root pol) \<and> \<not> is_managed_root pol p
    \<and> parse_list_target uri ul pol v = Some p"
proof -
  obtain segs where v: "v = CHR ''/'' # join_on (CHR ''/'') segs" "segs = split_on (CHR ''/'') (tl v)"
    and ne: "tl v \<noteq> []" and ok: "list_all (segment_ok ul) segs"
    and rest: "\<not> is_platform_path uri (tl v)" "length (tl v) \<le> BROWSER_RELATIVE_PATH_BYTES_LIMIT"
      "CHR 0x00 \<notin> set (tl v)" "\<not> is_reserved_component uri pol (hd segs)"
    and p: "p = foldl push_component (pp_root pol) (segment_components segs)"
    using assms browser_target_iff by blast
  have c: "components p = components (pp_root pol) @ segment_components segs"
    unfolding p by (rule components_pushed [OF ok])
  moreover have "segs \<noteq> []" using v(2) by simp
  moreover have "v \<noteq> ''/''" using v(1) ne by auto
  moreover have "CHR 0x00 \<notin> set v \<and> length v \<le> BROWSER_RELATIVE_PATH_BYTES_LIMIT + 1"
    using rest(2,3) v(1) by (cases v) auto
  ultimately show ?thesis
    using v(1) ok rest assms
    by (intro exI [of _ segs])
      (auto simp: path_starts_with_def is_managed_root_def path_eq_def parse_list_target_def
        component_prefix_iff)
qed

definition sample_uri :: UriLib where
  "sample_uri = \<lparr>uri_decode = Some, uri_encode_part = (\<lambda>s. s), platform_paths = [''/healthz'']\<rparr>"

definition sample_policy :: PathPolicy where
  "sample_policy = path_policy (str_bytes ''/srv'') ''assets/''"

lemma sample_segment_ok: "segment_ok sample_uuid ''a''" "segment_ok sample_uuid ''b''"
  by (simp_all add: segment_ok_def plain_name_def BROWSER_COMPONENT_BYTES_LIMIT_def is_internal_name_def
      classify_internal_name_def is_quarantine_name_def is_delete_trash_name_def is_readiness_name_def
      between_def internal_name_parts)

lemma sample_not_reserved:
  "\<not> is_reserved_component sample_uri sample_policy ''a''" "\<not> is_platform_path sample_uri ''a/b''"
  by (simp_all add: is_reserved_component_def is_platform_path_def at_or_below_def TAG_API_PATH_def
      sample_uri_def trim_start_slashes_def sample_policy_def path_policy_def strip_suffix_def
      starts_with_slash_def)

lemma sample_route: "parse_route sample_uri sample_uuid sample_policy ''//a/b/'' = Some ''a/b''"
proof -
  have t: "trim_slashes ''//a/b/'' = ''a/b''" by (simp add: trim_slashes_def trim_start_slashes_def)
  have "components (str_bytes ''a/b'') = [Normal (str_bytes ''a''), Normal (str_bytes ''b'')]"
    by (simp add: components_def str_bytes_def has_root_def List.map_filter_simps
        parse_single_component_def)
  moreover have "to_string_lossy (str_bytes ''a'') = ''a''" "to_string_lossy (str_bytes ''b'') = ''b''"
    by (simp_all add: to_string_lossy_def str_bytes_def from_utf8_lossy.simps bytes_str_def
        utf8_width_def char_of_def bit_0)
  ultimately have "route_parts sample_uuid (components (str_bytes (trim_slashes ''//a/b/''))) =
      Some [''a'', ''b'']"
    using sample_segment_ok unfolding t by (simp add: segment_ok_def)
  with sample_not_reserved show ?thesis
    by (simp add: parse_route_def decode_uri_def sample_uri_def [THEN arg_cong [of _ _ uri_decode]]
        BROWSER_RELATIVE_PATH_BYTES_LIMIT_def)
qed

theorem browser_target_confined_witness:
  "\<exists>p. parse_browser_target sample_uri sample_uuid sample_policy ''/a/b'' = Some p
    \<and> path_starts_with p (pp_root sample_policy) \<and> \<not> is_managed_root sample_policy p"
proof -
  obtain p where p: "parse_browser_target sample_uri sample_uuid sample_policy ''/a/b'' = Some p"
    using browser_target_iff [of sample_uri sample_uuid sample_policy "''/a/b''"] sample_segment_ok
      sample_not_reserved
    by (auto simp: BROWSER_RELATIVE_PATH_BYTES_LIMIT_def)
  from browser_target_confined [OF p] p show ?thesis by blast
qed

text \<open>C24: A request path selects an entry at or below the shared root.  The normalised route has only
  ordinary components (so percent-encoded traversal or separators gain nothing), none of them a
  reserved internal name, no NUL and a bounded length; and a route into a reserved namespace is
  accepted only in its canonical encoding, so that a prefix check on it cannot be bypassed.\<close>

theorem route_confined:
  assumes "parse_route uri ul pol raw = Some r"
  shows "\<exists>segs. r = join_on (CHR ''/'') segs
    \<and> components (resolve_route pol r) = components (pp_root pol) @ segment_components segs
    \<and> list_all (segment_ok ul) segs
    \<and> CHR 0x00 \<notin> set r \<and> length r \<le> BROWSER_RELATIVE_PATH_BYTES_LIMIT
    \<and> path_starts_with (resolve_route pol r) (pp_root pol)
    \<and> (is_platform_path uri r \<or> is_reserved_component uri pol (hd (split_on (CHR ''/'') r)) \<longrightarrow>
        raw = ''/'' @ encode_uri uri r)"
proof -
  obtain segs where segs: "r = join_on (CHR ''/'') segs" "list_all (segment_ok ul) segs"
    and rest: "CHR 0x00 \<notin> set r" "length r \<le> BROWSER_RELATIVE_PATH_BYTES_LIMIT"
      "is_platform_path uri r \<or> is_reserved_component uri pol (hd (split_on (CHR ''/'') r)) \<longrightarrow>
        raw = ''/'' @ encode_uri uri r"
    using route_Some [OF assms] by blast
  have c: "components (resolve_route pol r) = components (pp_root pol) @ segment_components segs"
    unfolding segs(1) resolve_joined [OF segs(2)] by (rule components_pushed [OF segs(2)])
  moreover have "path_starts_with (resolve_route pol r) (pp_root pol)"
    unfolding path_starts_with_def c component_prefix_iff by blast
  ultimately show ?thesis using segs rest by blast
qed

theorem route_confined_witness:
  "parse_route sample_uri sample_uuid sample_policy ''//a/b/'' = Some ''a/b''
    \<and> path_starts_with (resolve_route sample_policy ''a/b'') (pp_root sample_policy)"
  using route_confined [OF sample_route] sample_route by blast

text \<open>C25: The two parsers agree.  A non-root route that is neither a platform path nor in a reserved
  namespace is also a valid browser target, and both resolve it to the same path: what a browser
  downloads at a URL is what the mutation API names by the same text.\<close>

theorem route_and_target_agree:
  assumes "parse_route uri ul pol raw = Some r" and "r \<noteq> []"
    and "\<not> is_platform_path uri r"
    and "\<not> is_reserved_component uri pol (hd (split_on (CHR ''/'') r))"
  shows "parse_browser_target uri ul pol (''/'' @ r) = Some (resolve_route pol r)"
proof -
  obtain segs where segs: "r = join_on (CHR ''/'') segs" "list_all (segment_ok ul) segs"
    and rest: "CHR 0x00 \<notin> set r" "length r \<le> BROWSER_RELATIVE_PATH_BYTES_LIMIT"
    using route_Some [OF assms(1)] by blast
  have "segs \<noteq> []" using segs(1) assms(2) by auto
  with segs have sp: "split_on (CHR ''/'') r = segs" by (simp add: split_join_segments)
  with assms(2-4) segs rest browser_target_iff [of uri ul pol "''/'' @ r"] resolve_joined [OF segs(2), of pol]
  show ?thesis by simp
qed

theorem route_and_target_agree_witness:
  "parse_route sample_uri sample_uuid sample_policy ''//a/b/'' = Some ''a/b''
    \<and> parse_browser_target sample_uri sample_uuid sample_policy ''/a/b'' =
        Some (resolve_route sample_policy ''a/b'')"
  using route_and_target_agree [OF sample_route] sample_route sample_not_reserved by simp

end
