(* ===== verification/Problem_Details.thy ===== *)
theory Problem_Details
  imports Http_Library
begin

text \<open>
  The public error vocabulary (\<open>src/src/server/protocol.rs\<close>, \<open>src/src/server/problem.rs\<close>):
  the wire names of operation and upload states, the catalogue of error codes with its validity
  check, the recovery advice, and the rendering of an error as an RFC 9457 problem document.
  A document is a list of JSON members; its text form is a parameter.
\<close>

section \<open>Public states\<close>

datatype OperationPublicState =
  OperationRunning | OperationSucceeded | OperationFailed | OperationRejected | OperationUnknown

fun operation_wire_name :: "OperationPublicState \<Rightarrow> string" where
  "operation_wire_name OperationRunning = ''running''"
| "operation_wire_name OperationSucceeded = ''succeeded''"
| "operation_wire_name OperationFailed = ''failed''"
| "operation_wire_name OperationRejected = ''rejected''"
| "operation_wire_name OperationUnknown = ''unknown''"

datatype UploadPublicState =
    UploadStateRunning
  | UploadStateAwaitingConfirmation
  | UploadStateCommitted
  | UploadStateRejected
  | UploadStateNotSeen
  | UploadStateNotStarted
  | UploadStateUnknown

fun upload_wire_name :: "UploadPublicState \<Rightarrow> string" where
  "upload_wire_name UploadStateRunning = ''running''"
| "upload_wire_name UploadStateAwaitingConfirmation = ''awaiting-confirmation''"
| "upload_wire_name UploadStateCommitted = ''committed''"
| "upload_wire_name UploadStateRejected = ''rejected''"
| "upload_wire_name UploadStateNotSeen = ''not-seen''"
| "upload_wire_name UploadStateNotStarted = ''not-started''"
| "upload_wire_name UploadStateUnknown = ''unknown''"

lemma operation_wire_name_inject [simp]:
  "operation_wire_name a = operation_wire_name b \<longleftrightarrow> a = b"
  by (cases a; cases b) simp_all

lemma upload_wire_name_inject [simp]: "upload_wire_name a = upload_wire_name b \<longleftrightarrow> a = b"
  by (cases a; cases b) simp_all

section \<open>Error codes\<close>

type_synonym ErrorCode = string

text \<open>The compile-time assertions of \<open>ErrorCode::checked\<close>.\<close>

definition is_lower :: "char \<Rightarrow> bool" where
  "is_lower c \<longleftrightarrow> 97 \<le> code_of c \<and> code_of c \<le> 122"

definition error_code_checked :: "string \<Rightarrow> bool" where
  "error_code_checked value \<longleftrightarrow>
     value \<noteq> [] \<and> length value \<le> 64
     \<and> is_lower (hd value)
     \<and> list_all (\<lambda>c. is_lower c \<or> is_ascii_digit c \<or> c = CHR ''_'') (tl value)"

definition ErrorCode_ALL :: "ErrorCode list" where
  "ErrorCode_ALL =
     [''api_endpoint_not_found'', ''delete_not_committed'', ''delete_state_conflict'',
      ''delete_target_changed'', ''destination_changed'', ''destination_exists'',
      ''destination_directory_not_found'', ''destination_not_directory'',
      ''directory_access_forbidden'', ''directory_changed'', ''directory_depth_limit'',
      ''directory_entry_limit'', ''directory_into_itself'', ''directory_memory_limit'',
      ''directory_operation_failed'', ''directory_operation_limit'',
      ''directory_operation_timeout'', ''directory_overwrite_forbidden'',
      ''directory_sort_limit'', ''directory_symlink_loop'', ''filesystem_timeout'',
      ''insufficient_storage'', ''internal_error'', ''invalid_destination_path'',
      ''invalid_destination_revision'', ''invalid_job_id'', ''invalid_json'',
      ''invalid_list_cursor'', ''invalid_list_limit'', ''invalid_list_path'',
      ''invalid_tag_filter'', ''tag_lookup_failed'', ''invalid_move_path'',
      ''invalid_operation_id'', ''invalid_path'', ''invalid_rename_name'',
      ''invalid_rename_path'', ''invalid_request'', ''invalid_request_body'',
      ''invalid_source_path'', ''invalid_source_revision'', ''invalid_upload_id'',
      ''invalid_upload_length'', ''invalid_upload_offset'', ''invalid_upload_overwrite'',
      ''invalid_target_revision'', ''job_not_found'', ''job_store_unavailable'',
      ''list_cursor_unavailable'', ''list_path_not_directory'', ''list_path_not_found'',
      ''list_snapshot_limit'', ''method_not_allowed'', ''mkdir_state_conflict'',
      ''mkdir_state_unavailable'', ''move_state_conflict'', ''move_state_unavailable'',
      ''operation_id_conflict'', ''operation_in_progress'', ''operation_not_committed'',
      ''operation_registry_full'', ''operation_result_unknown'', ''operation_store_unavailable'',
      ''outcome_uncertain'', ''path_wait_concurrency_limit'', ''path_exists'',
      ''purge_backlog_full'', ''purge_state_unavailable'', ''request_body_too_large'',
      ''request_conflict'', ''request_forbidden'', ''request_not_found'', ''request_timeout'',
      ''source_changed'', ''source_revision_required'', ''destination_revision_required'',
      ''rename_state_conflict'', ''rename_state_unavailable'', ''root_delete_forbidden'',
      ''search_query_too_long'', ''search_result_limit'', ''server_stopping'',
      ''source_equals_destination'', ''source_not_found'', ''target_not_found'',
      ''unsupported_filename'', ''unsupported_media_type'',
      ''upload_body_exceeds_remaining_length'', ''upload_checkpoint_persist_failed'',
      ''upload_committed_length_mismatch'', ''upload_concurrency_limit'', ''upload_id_rejected'',
      ''upload_idle_timeout'', ''upload_in_progress'', ''upload_insufficient_storage'',
      ''upload_length_changed'', ''upload_length_mismatch'',
      ''upload_metadata_preservation_refused'', ''upload_not_published'',
      ''upload_offset_changed'', ''upload_outcome_unknown'', ''upload_path_wait_timeout'',
      ''upload_precommit_failed'', ''upload_preflight_concurrency_limit'',
      ''upload_publication_durability_unknown'', ''upload_publication_outcome_unknown'',
      ''upload_result_unknown'', ''upload_session_conflict'', ''upload_session_not_found'',
      ''upload_session_store_full'', ''upload_size_limit_exceeded'', ''upload_stage_conflict'',
      ''upload_stage_invalid'', ''upload_state_conflict'', ''upload_state_unavailable'',
      ''upload_target_changed'', ''upload_target_inspection_timeout'',
      ''upload_target_not_found'', ''upload_terminal_record_failed'']"

section \<open>Recovery advice\<close>

datatype RecoveryAdvice =
    NoAdvice
  | AdviseRetry
  | RetryAfterSeconds u64
  | RetryWithNewId
  | ResumeUpload
  | QueryJob
  | QueryUpload
  | QueryUploadAfterSeconds u64
  | RefreshTarget

fun advice_wire_name :: "RecoveryAdvice \<Rightarrow> string option" where
  "advice_wire_name NoAdvice = None"
| "advice_wire_name AdviseRetry = Some ''retry''"
| "advice_wire_name (RetryAfterSeconds _) = Some ''retry''"
| "advice_wire_name RetryWithNewId = Some ''retry_with_new_id''"
| "advice_wire_name ResumeUpload = Some ''resume_upload''"
| "advice_wire_name QueryJob = Some ''query_job''"
| "advice_wire_name QueryUpload = Some ''query_upload''"
| "advice_wire_name (QueryUploadAfterSeconds _) = Some ''query_upload''"
| "advice_wire_name RefreshTarget = Some ''refresh_target''"

fun retry_after_seconds :: "RecoveryAdvice \<Rightarrow> u64 option" where
  "retry_after_seconds (RetryAfterSeconds s) = Some s"
| "retry_after_seconds (QueryUploadAfterSeconds s) = Some s"
| "retry_after_seconds _ = None"

section \<open>Errors\<close>

record OperationProblemContext =
  oc_operation_id :: string
  oc_state :: OperationPublicState
  oc_http_status :: "u16 option"

record UploadProblemContext =
  uc_upload_id :: string
  uc_state :: UploadPublicState
  uc_upload_length :: "u64 option"
  uc_upload_offset :: "u64 option"

record ApiError =
  ae_status :: u16
  ae_code :: ErrorCode
  ae_detail :: string
  ae_source :: "string option"
  ae_recovery :: RecoveryAdvice
  ae_operation :: "OperationProblemContext option"
  ae_upload :: "UploadProblemContext option"

definition api_error :: "u16 \<Rightarrow> ErrorCode \<Rightarrow> string \<Rightarrow> ApiError" where
  "api_error status code detail =
     \<lparr>ae_status = status, ae_code = code, ae_detail = detail, ae_source = None,
      ae_recovery = NoAdvice, ae_operation = None, ae_upload = None\<rparr>"

definition with_recovery :: "RecoveryAdvice \<Rightarrow> ApiError \<Rightarrow> ApiError" where
  "with_recovery advice e = e\<lparr>ae_recovery := advice\<rparr>"

definition with_operation :: "OperationProblemContext \<Rightarrow> ApiError \<Rightarrow> ApiError" where
  "with_operation ctx e = e\<lparr>ae_operation := Some ctx, ae_upload := None\<rparr>"

definition with_upload :: "UploadProblemContext \<Rightarrow> ApiError \<Rightarrow> ApiError" where
  "with_upload ctx e = e\<lparr>ae_upload := Some ctx, ae_operation := None\<rparr>"

text \<open>The fields of \<open>ApiError\<close> are private: the errors that exist are built by these
  functions.\<close>

inductive api_error_built :: "ApiError \<Rightarrow> bool" where
  built_new: "api_error_built (api_error status code detail)"
| built_source: "api_error_built e \<Longrightarrow> api_error_built (e\<lparr>ae_source := src\<rparr>)"
| built_recovery: "api_error_built e \<Longrightarrow> api_error_built (with_recovery advice e)"
| built_operation: "api_error_built e \<Longrightarrow> api_error_built (with_operation oc e)"
| built_upload: "api_error_built e \<Longrightarrow> api_error_built (with_upload uc e)"

lemmas api_error_builders = api_error_def with_recovery_def with_operation_def with_upload_def

section \<open>Problem documents\<close>

record ProblemDetails =
  pd_type :: string
  pd_title :: string
  pd_status :: u16
  pd_detail :: string
  pd_code :: ErrorCode
  pd_recovery :: "string option"
  pd_retry_after :: "u64 option"
  pd_operation_id :: "string option"
  pd_upload_id :: "string option"
  pd_state :: "string option"
  pd_upload_state :: "string option"
  pd_http_status :: "u16 option"
  pd_upload_length :: "u64 option"
  pd_upload_offset :: "u64 option"

text \<open>\<open>None\<close> is the branch declared unreachable.\<close>

definition problem_details :: "'h HttpLib \<Rightarrow> ApiError \<Rightarrow> ProblemDetails option" where
  "problem_details lib e =
     (let build = (\<lambda>operation_id upload_id state upload_state http_status upload_length upload_offset.
        \<lparr>pd_type = ''urn:xczs:problem:'' @ ae_code e,
         pd_title = (case http_canonical_reason lib (ae_status e) of
             Some t \<Rightarrow> t | None \<Rightarrow> ''Request Failed''),
         pd_status = ae_status e,
         pd_detail = ae_detail e,
         pd_code = ae_code e,
         pd_recovery = advice_wire_name (ae_recovery e),
         pd_retry_after = retry_after_seconds (ae_recovery e),
         pd_operation_id = operation_id, pd_upload_id = upload_id, pd_state = state,
         pd_upload_state = upload_state, pd_http_status = http_status,
         pd_upload_length = upload_length, pd_upload_offset = upload_offset\<rparr>)
      in (case (ae_operation e, ae_upload e) of
            (Some c, None) \<Rightarrow>
              Some (build (Some (oc_operation_id c)) None (Some (operation_wire_name (oc_state c)))
                None (oc_http_status c) None None)
          | (None, Some c) \<Rightarrow>
              Some (build None (Some (uc_upload_id c)) None (Some (upload_wire_name (uc_state c)))
                None (uc_upload_length c) (uc_upload_offset c))
          | (None, None) \<Rightarrow> Some (build None None None None None None None)
          | (Some _, Some _) \<Rightarrow> None))"

datatype json = JString string | JNumber nat

text \<open>The derived serialisation: members in field order, absent options left out.\<close>

definition opt_member :: "string \<Rightarrow> ('a \<Rightarrow> json) \<Rightarrow> 'a option \<Rightarrow> (string \<times> json) list" where
  "opt_member name f x = (case x of None \<Rightarrow> [] | Some v \<Rightarrow> [(name, f v)])"

definition problem_members :: "ProblemDetails \<Rightarrow> (string \<times> json) list" where
  "problem_members d =
     [(''type'', JString (pd_type d)), (''title'', JString (pd_title d)),
      (''status'', JNumber (unat (pd_status d))), (''detail'', JString (pd_detail d)),
      (''code'', JString (pd_code d))]
     @ opt_member ''recovery'' JString (pd_recovery d)
     @ opt_member ''retry_after'' (\<lambda>n. JNumber (unat n)) (pd_retry_after d)
     @ opt_member ''operation_id'' JString (pd_operation_id d)
     @ opt_member ''upload_id'' JString (pd_upload_id d)
     @ opt_member ''state'' JString (pd_state d)
     @ opt_member ''upload_state'' JString (pd_upload_state d)
     @ opt_member ''http_status'' (\<lambda>n. JNumber (unat n)) (pd_http_status d)
     @ opt_member ''upload_length'' (\<lambda>n. JNumber (unat n)) (pd_upload_length d)
     @ opt_member ''upload_offset'' (\<lambda>n. JNumber (unat n)) (pd_upload_offset d)"

datatype render_error = RenderPanic | RenderSerialize | RenderHeaderValue

text \<open>\<open>to_vec\<close> stands for \<open>serde_json::to_vec\<close>.  The response is returned as it is when the
  function returns, also on an error.\<close>

type_synonym json_text = "(string \<times> json) list \<Rightarrow> bytes option"

definition render_problem ::
  "'h HttpLib \<Rightarrow> json_text \<Rightarrow> ApiError \<Rightarrow> 'h Response \<Rightarrow> (render_error + unit) \<times> 'h Response" where
  "render_problem lib to_vec e res =
     (case problem_details lib e of
        None \<Rightarrow> (Inl RenderPanic, res)
      | Some d \<Rightarrow>
          (case to_vec (problem_members d) of
             None \<Rightarrow> (Inl RenderSerialize, res)
           | Some out \<Rightarrow>
               let res1 = res\<lparr>res_status := ae_status e,
                     res_headers := http_insert lib ''content-type'' ''application/problem+json''
                       (res_headers res)\<rparr>
               in (case retry_after_seconds (ae_recovery e) of
                     Some seconds \<Rightarrow>
                       (case http_value_from_str lib (decimal (unat seconds)) of
                          None \<Rightarrow> (Inl RenderHeaderValue, res1)
                        | Some v \<Rightarrow> (Inr (), res1\<lparr>res_headers :=
                              http_insert lib ''retry-after'' v (res_headers res1),
                              res_body := out\<rparr>))
                   | None \<Rightarrow> (Inr (), res1\<lparr>res_headers :=
                              http_remove lib ''retry-after'' (res_headers res1),
                              res_body := out\<rparr>))))"

section \<open>Properties\<close>

lemma built_contexts:
  "api_error_built e \<Longrightarrow> ae_operation e = None \<or> ae_upload e = None"
  by (induction rule: api_error_built.induct) (auto simp: api_error_builders)

lemma problem_details_built:
  assumes "api_error_built e"
  shows "\<exists>d. problem_details lib e = Some d \<and> pd_status d = ae_status e \<and> pd_code d = ae_code e
    \<and> pd_retry_after d = retry_after_seconds (ae_recovery e)"
  using built_contexts [OF assms]
  by (auto simp: problem_details_def Let_def split: option.splits)

lemma problem_details_source [simp]: "problem_details lib (e\<lparr>ae_source := src\<rparr>) = problem_details lib e"
  by (simp add: problem_details_def)

lemma render_problem_source [simp]:
  "render_problem lib to_vec (e\<lparr>ae_source := src\<rparr>) res = render_problem lib to_vec e res"
  by (simp add: render_problem_def cong: option.case_cong)

text \<open>The effect of \<open>render_problem\<close> when it succeeds, as one update of the response.\<close>

definition problem_response ::
  "'h HttpLib \<Rightarrow> ApiError \<Rightarrow> bytes \<Rightarrow> 'h Response \<Rightarrow> 'h Response" where
  "problem_response lib e out res =
     (let h = http_insert lib ''content-type'' ''application/problem+json'' (res_headers res) in
      res\<lparr>res_status := ae_status e,
          res_headers := (case retry_after_seconds (ae_recovery e) of
              Some s \<Rightarrow> http_insert lib ''retry-after'' (decimal (unat s)) h
            | None \<Rightarrow> http_remove lib ''retry-after'' h),
          res_body := out\<rparr>)"

lemma render_problem_ok:
  assumes "http_laws lib" and "api_error_built e" and total: "\<forall>ms. to_vec ms \<noteq> None"
  shows "\<exists>d out. problem_details lib e = Some d \<and> to_vec (problem_members d) = Some out
    \<and> pd_retry_after d = retry_after_seconds (ae_recovery e)
    \<and> render_problem lib to_vec e res = (Inr (), problem_response lib e out res)"
proof -
  obtain d where d: "problem_details lib e = Some d"
    "pd_retry_after d = retry_after_seconds (ae_recovery e)"
    using problem_details_built [OF assms(2)] by blast
  obtain out where "to_vec (problem_members d) = Some out" using total by blast
  with d show ?thesis
    using http_headers(3) [OF assms(1) decimal_printable]
    by (auto simp: render_problem_def problem_response_def Let_def split: option.splits)
qed

lemma problem_response_sel [simp]:
  "res_status (problem_response lib e out res) = ae_status e"
  "res_body (problem_response lib e out res) = out"
  by (simp_all add: problem_response_def Let_def)

lemma problem_response_headers:
  assumes "http_laws lib"
  shows "http_get_all lib (res_headers (problem_response lib e out res)) name =
    (if name = ''retry-after'' then
       (case retry_after_seconds (ae_recovery e) of Some s \<Rightarrow> [decimal (unat s)] | None \<Rightarrow> [])
     else if name = ''content-type'' then [''application/problem+json'']
     else http_get_all lib (res_headers res) name)"
  by (auto simp: problem_response_def Let_def http_headers [OF assms] split: option.splits)

text \<open>Every error the handlers can build is rendered: the branch for two contexts is never
  reached and the response carries the status of the error, the problem media type and a body that
  is the JSON text of the document.  The \<open>Retry-After\<close> header is present exactly when the document
  has a \<open>retry_after\<close> member, with the same number, and a value left by an earlier stage is
  removed; the other headers stay.  The diagnostic source of the error has no influence on the
  response.\<close>

theorem problem_rendering:
  assumes lib: "http_laws lib" and built: "api_error_built e"
    and total: "\<forall>ms. to_vec ms \<noteq> None"
  shows "\<exists>d out res'.
    render_problem lib to_vec e res = (Inr (), res')
    \<and> problem_details lib e = Some d \<and> to_vec (problem_members d) = Some out
    \<and> res_status res' = ae_status e \<and> res_body res' = out
    \<and> http_get_all lib (res_headers res') ''content-type'' = [''application/problem+json'']
    \<and> http_get_all lib (res_headers res') ''retry-after'' =
        (case pd_retry_after d of Some s \<Rightarrow> [decimal (unat s)] | None \<Rightarrow> [])
    \<and> (\<forall>name. name \<notin> {''content-type'', ''retry-after''} \<longrightarrow>
         http_get_all lib (res_headers res') name = http_get_all lib (res_headers res) name)
    \<and> (\<forall>src. render_problem lib to_vec (e\<lparr>ae_source := src\<rparr>) res = (Inr (), res'))"
proof -
  obtain d out where d: "problem_details lib e = Some d"
    "to_vec (problem_members d) = Some out"
    "pd_retry_after d = retry_after_seconds (ae_recovery e)"
    and r: "render_problem lib to_vec e res = (Inr (), problem_response lib e out res)"
    using render_problem_ok [OF assms] by blast
  show ?thesis
    by (intro exI conjI, rule r, rule d(1), rule d(2))
      (auto simp: problem_response_headers [OF lib] d(3) r)
qed

definition sample_error :: ApiError where
  "sample_error =
     with_operation \<lparr>oc_operation_id = ''id'', oc_state = OperationRejected, oc_http_status = None\<rparr>
       (with_recovery (RetryAfterSeconds 1) (api_error 503 ''operation_registry_full'' ''full''))"

lemma sample_error_built: "api_error_built sample_error"
  unfolding sample_error_def by (intro api_error_built.intros)

theorem problem_rendering_witness:
  "\<exists>res'. render_problem sample_http (\<lambda>_. Some [1]) sample_error
      \<lparr>res_status = 200, res_headers = [(''retry-after'', ''9'')], res_body = []\<rparr> = (Inr (), res')
    \<and> res_status res' = 503
    \<and> http_get_all sample_http (res_headers res') ''retry-after'' = [decimal (unat (1 :: u64))]"
proof -
  let ?res = "\<lparr>res_status = 200, res_headers = [(''retry-after'', ''9'')], res_body = []\<rparr>"
  obtain d out res' where r: "render_problem sample_http (\<lambda>_. Some [1]) sample_error ?res = (Inr (), res')"
    and d: "problem_details sample_http sample_error = Some d" and s: "res_status res' = ae_status sample_error"
    and h: "http_get_all sample_http (res_headers res') ''retry-after'' =
      (case pd_retry_after d of Some s \<Rightarrow> [decimal (unat s)] | None \<Rightarrow> [])"
    using problem_rendering [OF sample_http_laws sample_error_built, of "\<lambda>_. Some [1]" ?res] by auto
  from d have "pd_retry_after d = Some 1"
    by (auto simp: sample_error_def api_error_builders problem_details_def Let_def)
  with r s h show ?thesis by (auto simp: sample_error_def api_error_builders)
qed

lemma catalog_distinct: "distinct ErrorCode_ALL"
  by (simp add: ErrorCode_ALL_def)

lemma catalog_checked: "list_all error_code_checked ErrorCode_ALL"
  by (simp add: ErrorCode_ALL_def error_code_checked_def is_lower_def is_ascii_digit_def)

text \<open>The error codes form a catalogue of distinct names, and each of them passes the
  assertions under which the constants are declared: one to 64 characters, a lower-case letter
  first, then lower-case letters, digits and underscores only.\<close>

theorem error_code_catalog:
  "distinct ErrorCode_ALL \<and> list_all error_code_checked ErrorCode_ALL"
  by (intro conjI catalog_distinct catalog_checked)

end
