(* ===== verification/Listing_Problem.thy ===== *)
theory Listing_Problem
  imports Path_Policy Problem_Details
begin

text \<open>
  The failures of directory listings (\<open>src/src/server/listing.rs\<close>): the closed catalogue of
  public problems, the diagnostic error with its escaped path, and the problem response.
\<close>

section \<open>The catalogue\<close>

datatype ListingProblem =
    UnsupportedFilename
  | DirectoryAccessForbidden
  | DirectoryChanged
  | DirectoryOperationTimeout
  | DirectoryOperationFailed
  | ServerStopping
  | DirectorySymlinkLoop
  | DirectoryListingEntryLimit
  | DirectoryWalkEntryLimit
  | DirectoryDepthLimit
  | DirectoryMemoryLimit
  | SearchResultLimit
  | ListSnapshotLimit
  | ListSnapshotAllocationFailed
  | DirectorySortLimit

definition listing_status :: "ListingProblem \<Rightarrow> u16" where
  "listing_status p = (case p of
       UnsupportedFilename \<Rightarrow> 409 | DirectoryChanged \<Rightarrow> 409 | DirectorySymlinkLoop \<Rightarrow> 409
     | DirectoryAccessForbidden \<Rightarrow> 403
     | DirectoryOperationTimeout \<Rightarrow> 504
     | DirectoryOperationFailed \<Rightarrow> 500
     | ServerStopping \<Rightarrow> 503
     | _ \<Rightarrow> 413)"

definition listing_public_message :: "ListingProblem \<Rightarrow> string" where
  "listing_public_message p = (case p of
       UnsupportedFilename \<Rightarrow> ''The folder contains an unsupported non-UTF-8 name. Rename it on Linux.''
     | DirectoryAccessForbidden \<Rightarrow> ''Forbidden''
     | DirectoryChanged \<Rightarrow> ''The folder changed during traversal. Try again.''
     | DirectoryOperationTimeout \<Rightarrow> ''Directory operation timed out''
     | DirectoryOperationFailed \<Rightarrow> ''Directory operation failed''
     | ServerStopping \<Rightarrow> ''Server is stopping''
     | DirectorySymlinkLoop \<Rightarrow> ''Directory symlink loop detected''
     | DirectoryListingEntryLimit \<Rightarrow> ''Directory listing exceeded its entry limit''
     | DirectoryWalkEntryLimit \<Rightarrow> ''Directory operation exceeded its entry limit''
     | DirectoryDepthLimit \<Rightarrow> ''Directory traversal exceeded its depth limit''
     | DirectoryMemoryLimit \<Rightarrow> ''Directory traversal exceeds the memory limit''
     | SearchResultLimit \<Rightarrow> ''Search results exceed the memory limit''
     | ListSnapshotLimit \<Rightarrow> ''Directory listing exceeds the snapshot capacity''
     | ListSnapshotAllocationFailed \<Rightarrow> ''Directory listing exceeds the snapshot capacity''
     | DirectorySortLimit \<Rightarrow> ''Directory sorting exceeds the memory limit'')"

definition listing_code :: "ListingProblem \<Rightarrow> ErrorCode" where
  "listing_code p = (case p of
       UnsupportedFilename \<Rightarrow> ''unsupported_filename''
     | DirectoryAccessForbidden \<Rightarrow> ''directory_access_forbidden''
     | DirectoryChanged \<Rightarrow> ''directory_changed''
     | DirectoryOperationTimeout \<Rightarrow> ''directory_operation_timeout''
     | ServerStopping \<Rightarrow> ''server_stopping''
     | DirectorySymlinkLoop \<Rightarrow> ''directory_symlink_loop''
     | DirectoryListingEntryLimit \<Rightarrow> ''directory_entry_limit''
     | DirectoryWalkEntryLimit \<Rightarrow> ''directory_entry_limit''
     | DirectoryDepthLimit \<Rightarrow> ''directory_depth_limit''
     | DirectoryMemoryLimit \<Rightarrow> ''directory_memory_limit''
     | SearchResultLimit \<Rightarrow> ''search_result_limit''
     | ListSnapshotLimit \<Rightarrow> ''list_snapshot_limit''
     | ListSnapshotAllocationFailed \<Rightarrow> ''list_snapshot_limit''
     | DirectorySortLimit \<Rightarrow> ''directory_sort_limit''
     | DirectoryOperationFailed \<Rightarrow> ''directory_operation_failed'')"

definition listing_recovery :: "ListingProblem \<Rightarrow> RecoveryAdvice" where
  "listing_recovery p = (case p of
       UnsupportedFilename \<Rightarrow> RefreshTarget | DirectoryChanged \<Rightarrow> RefreshTarget
     | DirectorySymlinkLoop \<Rightarrow> RefreshTarget
     | DirectoryOperationTimeout \<Rightarrow> AdviseRetry
     | ServerStopping \<Rightarrow> RetryAfterSeconds 1
     | _ \<Rightarrow> NoAdvice)"

section \<open>Diagnostics\<close>

text \<open>\<open>std::io::ErrorKind\<close>, as far as the code tells kinds apart; other kinds keep their name.\<close>

datatype ErrorKind =
    PermissionDenied | InvalidData | NotFound | NotADirectory | TimedOut | OtherKind string

fun error_kind_name :: "ErrorKind \<Rightarrow> string" where
  "error_kind_name PermissionDenied = ''PermissionDenied''"
| "error_kind_name InvalidData = ''InvalidData''"
| "error_kind_name NotFound = ''NotFound''"
| "error_kind_name NotADirectory = ''NotADirectory''"
| "error_kind_name TimedOut = ''TimedOut''"
| "error_kind_name (OtherKind name) = name"

record io_error =
  io_kind :: ErrorKind
  io_raw_os_error :: "int option"

definition int_text :: "int \<Rightarrow> string" where
  "int_text n = (if n < 0 then CHR ''-'' # decimal (nat (- n)) else decimal (nat n))"

definition escape_byte :: "byte \<Rightarrow> string" where
  "escape_byte b =
     (if b = 0x2F then ''/''
      else if b = 0x5C then [CHR 0x5C, CHR 0x5C]
      else if b = 0x22 then [CHR 0x5C, CHR 0x22]
      else if 0x20 \<le> b \<and> b \<le> 0x7E then [char_of (unat b)]
      else [CHR 0x5C, CHR ''x''] @ encode_hex [b])"

definition escape_path_bytes :: "bytes \<Rightarrow> string" where
  "escape_path_bytes bs = concat (map escape_byte bs)"

definition safe_relative_path :: "bytes \<Rightarrow> bytes \<Rightarrow> string" where
  "safe_relative_path path serve_root =
     (case path_strip_prefix path serve_root of
        None \<Rightarrow> ''<outside-root>''
      | Some relative \<Rightarrow> if relative = [] then ''.'' else escape_path_bytes relative)"

record ListingError =
  le_operation :: string
  le_relative_path :: string
  le_reason :: string
  le_problem :: ListingProblem

text \<open>How a step of a listing fails: with an error for the client, or by a panic.\<close>

datatype listing_failure = ListingFailed ListingError | ListingPanic

definition le_unsupported_name :: "string \<Rightarrow> bytes \<Rightarrow> bytes \<Rightarrow> ListingError" where
  "le_unsupported_name operation path root =
     \<lparr>le_operation = operation, le_relative_path = safe_relative_path path root,
      le_reason = ''unsupported_filename_encoding'', le_problem = UnsupportedFilename\<rparr>"

definition io_problem :: "ErrorKind \<Rightarrow> ListingProblem" where
  "io_problem k = (case k of
       PermissionDenied \<Rightarrow> DirectoryAccessForbidden
     | InvalidData \<Rightarrow> UnsupportedFilename
     | NotFound \<Rightarrow> DirectoryChanged
     | NotADirectory \<Rightarrow> DirectoryChanged
     | TimedOut \<Rightarrow> DirectoryOperationTimeout
     | OtherKind _ \<Rightarrow> DirectoryOperationFailed)"

definition le_io :: "string \<Rightarrow> bytes \<Rightarrow> bytes \<Rightarrow> io_error \<Rightarrow> ListingError" where
  "le_io operation path root e =
     \<lparr>le_operation = operation, le_relative_path = safe_relative_path path root,
      le_reason = ''io_kind='' @ error_kind_name (io_kind e) @ '' raw_os_error='' @
        (case io_raw_os_error e of Some n \<Rightarrow> int_text n | None \<Rightarrow> ''-''),
      le_problem = io_problem (io_kind e)\<rparr>"

definition le_cancelled :: "string \<Rightarrow> bytes \<Rightarrow> bytes \<Rightarrow> ListingError" where
  "le_cancelled operation path root =
     \<lparr>le_operation = operation, le_relative_path = safe_relative_path path root,
      le_reason = ''server_stopping'', le_problem = ServerStopping\<rparr>"

definition le_symlink_loop :: "string \<Rightarrow> bytes \<Rightarrow> bytes \<Rightarrow> ListingError" where
  "le_symlink_loop operation path root =
     \<lparr>le_operation = operation, le_relative_path = safe_relative_path path root,
      le_reason = ''ancestor_symlink_loop'', le_problem = DirectorySymlinkLoop\<rparr>"

definition le_limit :: "string \<Rightarrow> bytes \<Rightarrow> bytes \<Rightarrow> string \<Rightarrow> ListingProblem \<Rightarrow> ListingError" where
  "le_limit operation path root reason problem =
     \<lparr>le_operation = operation, le_relative_path = safe_relative_path path root,
      le_reason = reason, le_problem = problem\<rparr>"

definition le_invariant :: "string \<Rightarrow> bytes \<Rightarrow> bytes \<Rightarrow> ListingError" where
  "le_invariant operation path root =
     \<lparr>le_operation = operation, le_relative_path = safe_relative_path path root,
      le_reason = ''path_outside_expected_base'', le_problem = DirectoryOperationFailed\<rparr>"

definition le_display :: "ListingError \<Rightarrow> string" where
  "le_display e = ''directory operation failed operation='' @ le_operation e @ '' path='' @
     [CHR 0x22] @ le_relative_path e @ [CHR 0x22] @ '' reason='' @ le_reason e"

section \<open>Responses\<close>

definition respond_list_api_problem ::
  "'h HttpLib \<Rightarrow> json_text \<Rightarrow> u16 \<Rightarrow> ErrorCode \<Rightarrow> string \<Rightarrow> RecoveryAdvice \<Rightarrow> 'h Response \<Rightarrow>
    (render_error + unit) \<times> 'h Response" where
  "respond_list_api_problem lib to_vec status code detail recovery res =
     render_problem lib to_vec (with_recovery recovery (api_error status code detail)) res"

definition respond_list_api_listing_error ::
  "'h HttpLib \<Rightarrow> json_text \<Rightarrow> ListingError \<Rightarrow> 'h Response \<Rightarrow> (render_error + unit) \<times> 'h Response" where
  "respond_list_api_listing_error lib to_vec e res =
     respond_list_api_problem lib to_vec (listing_status (le_problem e)) (listing_code (le_problem e))
       (listing_public_message (le_problem e)) (listing_recovery (le_problem e)) res"

section \<open>File names\<close>

definition strict_file_name :: "bytes \<Rightarrow> string \<Rightarrow> bytes \<Rightarrow> ListingError + string" where
  "strict_file_name path operation serve_root =
     ok_or
       (case path_file_name path of
          None \<Rightarrow> None
        | Some name \<Rightarrow>
            (case to_str name of None \<Rightarrow> None | Some s \<Rightarrow> if s = [] then None else Some s))
       (le_unsupported_name operation path serve_root)"

definition strict_relative_path :: "bytes \<Rightarrow> bytes \<Rightarrow> string \<Rightarrow> bytes \<Rightarrow> ListingError + string" where
  "strict_relative_path path base_path operation serve_root =
     result_bind (ok_or (path_strip_prefix path base_path) (le_invariant operation path serve_root))
       (\<lambda>relative. ok_or (to_str relative) (le_unsupported_name operation path serve_root))"

section \<open>Lemmas\<close>

definition printable :: "char \<Rightarrow> bool" where
  "printable c \<longleftrightarrow> 32 \<le> code_of c \<and> code_of c \<le> 126"

text \<open>A quoted log field ends at the first quote that is not escaped.\<close>

fun no_bare_quote :: "string \<Rightarrow> bool" where
  "no_bare_quote [] = True"
| "no_bare_quote [c] \<longleftrightarrow> c \<noteq> CHR 0x5C \<and> c \<noteq> CHR 0x22"
| "no_bare_quote (c # d # s) \<longleftrightarrow>
     (if c = CHR 0x5C then no_bare_quote s else c \<noteq> CHR 0x22 \<and> no_bare_quote (d # s))"

text \<open>Reading an escaped path back.\<close>

fun unescape :: "string \<Rightarrow> bytes option" where
  "unescape [] = Some []"
| "unescape [c] = Some [of_char c]"
| "unescape (c # d # s) =
     (if c = CHR 0x5C then
        (if d = CHR ''x'' then
           (case decode_pairs (take 2 s) of
              Some [b] \<Rightarrow> map_option ((#) b) (unescape (drop 2 s))
            | _ \<Rightarrow> None)
         else map_option ((#) (of_char d)) (unescape s))
      else map_option ((#) (of_char c)) (unescape (d # s)))"

lemma plain_step:
  assumes "c \<noteq> CHR 0x5C"
  shows "unescape (c # s) = map_option ((#) (of_char c)) (unescape s)"
    and "no_bare_quote (c # s) \<longleftrightarrow> c \<noteq> CHR 0x22 \<and> no_bare_quote s"
  using assms by (cases s; simp)+

lemma escaped_step:
  "d \<noteq> CHR ''x'' \<Longrightarrow> unescape (CHR 0x5C # d # s) = map_option ((#) (of_char d)) (unescape s)"
  "unescape (CHR 0x5C # CHR ''x'' # encode_hex [b] @ s) = map_option ((#) b) (unescape s)"
  using decode_encode_pairs [of "[b]"] length_encode_hex [of "[b]"] by auto

lemma hex_not_special: "is_lower_hex c \<Longrightarrow> c \<noteq> CHR 0x5C \<and> c \<noteq> CHR 0x22 \<and> printable c"
  by (auto simp: is_lower_hex_def is_ascii_digit_def printable_def)

lemma char_of_byte:
  "char_of (unat b) = CHR 0x5C \<longleftrightarrow> b = 0x5C" "char_of (unat b) = CHR 0x22 \<longleftrightarrow> b = 0x22"
  "code_of (char_of (unat (b :: byte))) = unat b"
proof -
  have "(of_char (CHR 0x5C) :: byte) = 0x5C" "(of_char (CHR 0x22) :: byte) = 0x22" by simp_all
  then show "char_of (unat b) = CHR 0x5C \<longleftrightarrow> b = 0x5C" "char_of (unat b) = CHR 0x22 \<longleftrightarrow> b = 0x22"
    by (metis byte_char char_byte)+
  have "unat b < 256" using unsigned_less [of b, where 'a = nat] by simp
  then show "code_of (char_of (unat b)) = unat b" by simp
qed

lemma escape_byte_step:
  "unescape (escape_byte b @ s) = map_option ((#) b) (unescape s)
    \<and> no_bare_quote (escape_byte b @ s) = no_bare_quote s \<and> list_all printable (escape_byte b)"
proof -
  consider "b = 0x2F" | "b = 0x5C" | "b = 0x22" | "b \<notin> {0x2F, 0x5C, 0x22}" "0x20 \<le> b" "b \<le> 0x7E"
    | "b \<notin> {0x2F, 0x5C, 0x22}" "\<not> (0x20 \<le> b \<and> b \<le> 0x7E)" by blast
  then show ?thesis
  proof cases
    case 4
    then have "32 \<le> unat b" "unat b \<le> 126" by (simp_all add: word_le_nat_alt)
    with 4 show ?thesis
      by (simp add: escape_byte_def plain_step char_of_byte printable_def)
  next
    case 5
    obtain h l where hl: "encode_hex [b] = [h, l]" by (simp add: encode_hex_def)
    with encode_hex_lower [of "[b]"] have "is_lower_hex h" "is_lower_hex l" by auto
    with 5 hl escaped_step(2) [of b s] show ?thesis
      by (auto simp: escape_byte_def plain_step hex_not_special printable_def [of "CHR 0x5C"]
          printable_def [of "CHR ''x''"])
  qed (simp_all add: escape_byte_def plain_step escaped_step printable_def)
qed

lemma unescape_escape: "unescape (escape_path_bytes bs) = Some bs"
  by (induction bs) (simp_all add: escape_path_bytes_def escape_byte_step)

lemma escape_log_safe:
  "list_all printable (escape_path_bytes bs) \<and> no_bare_quote (escape_path_bytes bs)"
  by (induction bs) (simp_all add: escape_path_bytes_def escape_byte_step)

lemma listing_codes_catalogued:
  "listing_code p \<in> set ErrorCode_ALL"
  by (cases p) (simp_all add: listing_code_def ErrorCode_ALL_def)

lemma render_list_problem:
  assumes lib: "http_laws lib" and total: "\<forall>ms. to_vec ms \<noteq> None"
  shows "\<exists>d res'. respond_list_api_problem lib to_vec status code detail recovery res = (Inr (), res')
    \<and> problem_details lib (with_recovery recovery (api_error status code detail)) = Some d
    \<and> res_status res' = status \<and> to_vec (problem_members d) = Some (res_body res')"
proof -
  have "api_error_built (with_recovery recovery (api_error status code detail))"
    by (intro api_error_built.intros)
  from render_problem_ok [OF lib this total] show ?thesis
    unfolding respond_list_api_problem_def
    by (fastforce simp: problem_response_sel with_recovery_def api_error_def)
qed

end
