(* ===== verification/Listing_Sort.thy ===== *)
theory Listing_Sort
  imports Listing_Problem "HOL-Library.Sorting_Algorithms"
begin

text \<open>
  The order of directory listings (\<open>src/src/server/listing.rs\<close>): the comparison of entries and
  the interruptible stable merge sort over an array of indices, with the permutation applied in
  place along its cycles.
\<close>

section \<open>Interrupts\<close>

text \<open>\<open>Ordering\<close> is the type \<open>comp\<close> of the library.  Besides the two failures of the source a sort
  can stop, in the model, with an index panic or with a loop that makes no progress; both are shown
  to be impossible.\<close>

datatype InterruptibleSortFailure = Interrupted | Allocation | IndexPanic | Diverges

definition INTERRUPT_CHECK_INTERVAL :: nat where
  "INTERRUPT_CHECK_INTERVAL = 256"

text \<open>\<open>active n\<close> is the answer of the \<open>n\<close>-th call of the \<open>active\<close> closure.  The clock holds
  \<open>work_since_check\<close> and the number of calls made.\<close>

type_synonym sort_clock = "nat \<times> nat"

definition work_unit :: "(nat \<Rightarrow> bool) \<Rightarrow> sort_clock \<Rightarrow> InterruptibleSortFailure + sort_clock" where
  "work_unit active clk =
     (let (work, calls) = clk; work = work + 1 in
      if work \<ge> INTERRUPT_CHECK_INTERVAL \<and> \<not> active calls then Inl Interrupted
      else if work \<ge> INTERRUPT_CHECK_INTERVAL then Inr (0, calls + 1)
      else Inr (work, calls))"

text \<open>Slice indexing panics out of bounds.\<close>

definition slice_index :: "'a list \<Rightarrow> nat \<Rightarrow> InterruptibleSortFailure + 'a" where
  "slice_index xs i = (if i < length xs then Inr (xs ! i) else Inl IndexPanic)"

definition slice_swap :: "'a list \<Rightarrow> nat \<Rightarrow> nat \<Rightarrow> 'a list" where
  "slice_swap xs i j = xs[j := xs ! i, i := xs ! j]"

section \<open>The sort\<close>

text \<open>The recursive calls below are only reached after a successful step.\<close>

lemma result_bind_cong [fundef_cong]:
  "m = n \<Longrightarrow> (\<And>x. n = Inr x \<Longrightarrow> f x = g x) \<Longrightarrow> result_bind m f = result_bind n g"
  by (cases n) simp_all

function fill_indices ::
  "(nat \<Rightarrow> bool) \<Rightarrow> nat \<Rightarrow> nat \<Rightarrow> nat list \<Rightarrow> sort_clock \<Rightarrow>
    InterruptibleSortFailure + nat list \<times> sort_clock" where
  "fill_indices active len index current clk =
     (if index < len
      then result_bind (work_unit active clk) (\<lambda>clk.
        fill_indices active len (index + 1) (current @ [index]) clk)
      else Inr (current, clk))"
  by pat_completeness auto
termination by (relation "measure (\<lambda>(_, len, index, _). len - index)") auto

text \<open>The innermost loop: merge \<open>current[left..middle]\<close> and \<open>current[right..end]\<close> onto \<open>next\<close>.\<close>

function merge_run ::
  "(nat \<Rightarrow> bool) \<Rightarrow> ('a \<Rightarrow> 'a \<Rightarrow> comp) \<Rightarrow> 'a list \<Rightarrow> nat list \<Rightarrow> nat \<Rightarrow> nat \<Rightarrow> nat \<Rightarrow> nat \<Rightarrow>
    nat list \<Rightarrow> sort_clock \<Rightarrow> InterruptibleSortFailure + nat list \<times> sort_clock" where
  "merge_run active cmp vals current middle limit left right nxt clk =
     (if left < middle \<or> right < limit
      then result_bind (work_unit active clk) (\<lambda>clk.
        result_bind
          (if right = limit then Inr True
           else if left < middle then
             result_bind (slice_index current left) (\<lambda>l.
             result_bind (slice_index current right) (\<lambda>r.
             result_bind (slice_index vals l) (\<lambda>a.
             result_bind (slice_index vals r) (\<lambda>b. Inr (cmp a b \<noteq> Greater)))))
           else Inr False) (\<lambda>take_left.
        result_bind (slice_index current (if take_left then left else right)) (\<lambda>x.
        if take_left
        then merge_run active cmp vals current middle limit (left + 1) right (nxt @ [x]) clk
        else merge_run active cmp vals current middle limit left (right + 1) (nxt @ [x]) clk)))
      else Inr (nxt, clk))"
  by pat_completeness auto
termination
  by (relation "measure (\<lambda>(_, _, _, current, middle, limit, left, right, _).
      (middle - left) + (length current - right))")
    (auto simp: slice_index_def split: if_splits)

text \<open>One pass of width \<open>width\<close> over all runs.  With width 0 the source would not advance.\<close>

function merge_pass ::
  "(nat \<Rightarrow> bool) \<Rightarrow> ('a \<Rightarrow> 'a \<Rightarrow> comp) \<Rightarrow> 'a list \<Rightarrow> nat list \<Rightarrow> nat \<Rightarrow> nat \<Rightarrow>
    nat list \<Rightarrow> sort_clock \<Rightarrow> InterruptibleSortFailure + nat list \<times> sort_clock" where
  "merge_pass active cmp vals current width start nxt clk =
     (if start < length vals then
        let middle = min (sat_add start width) (length vals);
            limit = min (sat_add start (sat_mul width 2)) (length vals) in
        if limit \<le> start then Inl Diverges
        else result_bind (merge_run active cmp vals current middle limit start middle nxt clk)
          (\<lambda>(nxt, clk). merge_pass active cmp vals current width limit nxt clk)
      else Inr (nxt, clk))"
  by pat_completeness auto
termination
  by (relation "measure (\<lambda>(_, _, vals, _, _, start, _). length vals - start)") auto

function merge_passes ::
  "(nat \<Rightarrow> bool) \<Rightarrow> ('a \<Rightarrow> 'a \<Rightarrow> comp) \<Rightarrow> 'a list \<Rightarrow> nat list \<Rightarrow> nat \<Rightarrow> sort_clock \<Rightarrow>
    InterruptibleSortFailure + nat list \<times> sort_clock" where
  "merge_passes active cmp vals current width clk =
     (if width < length vals then
        result_bind (merge_pass active cmp vals current width 0 [] clk) (\<lambda>(nxt, clk).
        if sat_mul width 2 \<le> width then Inl Diverges
        else merge_passes active cmp vals nxt (sat_mul width 2) clk)
      else Inr (current, clk))"
  by pat_completeness auto
termination
  by (relation "measure (\<lambda>(_, _, vals, _, width, _). length vals - width)") auto

text \<open>\<open>next[old_position] = new_position\<close> for every entry of \<open>current\<close>.\<close>

fun invert_positions ::
  "(nat \<Rightarrow> bool) \<Rightarrow> nat \<Rightarrow> nat list \<Rightarrow> nat list \<Rightarrow> sort_clock \<Rightarrow>
    InterruptibleSortFailure + nat list \<times> sort_clock" where
  "invert_positions active new [] nxt clk = Inr (nxt, clk)"
| "invert_positions active new (old # olds) nxt clk =
     result_bind (work_unit active clk) (\<lambda>clk.
     if old < length nxt then invert_positions active (new + 1) olds (nxt[old := new]) clk
     else Inl IndexPanic)"

definition misplaced :: "nat list \<Rightarrow> nat" where
  "misplaced nxt = card {i. i < length nxt \<and> nxt ! i \<noteq> i}"

lemma misplaced_swap:
  assumes "p < length nxt" "nxt ! p = d" "d < length nxt" "d \<noteq> p" "nxt ! d \<noteq> d"
  shows "misplaced (slice_swap nxt p d) < misplaced nxt"
proof -
  have "{i. i < length nxt \<and> slice_swap nxt p d ! i \<noteq> i} \<subset> {i. i < length nxt \<and> nxt ! i \<noteq> i}"
    using assms by (auto simp: slice_swap_def nth_list_update)
  then show ?thesis
    unfolding misplaced_def by (intro psubset_card_mono) (simp_all add: slice_swap_def)
qed

text \<open>The cycle through \<open>position\<close>.  The source loops forever when the destination already is in
  its place, which can only happen when \<open>next\<close> is no permutation.  The values keep the swaps made
  before an interrupt.\<close>

function apply_cycle ::
  "(nat \<Rightarrow> bool) \<Rightarrow> nat \<Rightarrow> 'a list \<Rightarrow> nat list \<Rightarrow> sort_clock \<Rightarrow>
    'a list \<times> (InterruptibleSortFailure + nat list \<times> sort_clock)" where
  "apply_cycle active position vals nxt clk =
     (if position < length nxt then
        (let destination = nxt ! position in
         if destination = position then (vals, Inr (nxt, clk))
         else (case work_unit active clk of
             Inl e \<Rightarrow> (vals, Inl e)
           | Inr clk \<Rightarrow>
               if destination < length vals \<and> position < length vals \<and> destination < length nxt then
                 if nxt ! destination = destination then (vals, Inl Diverges)
                 else apply_cycle active position (slice_swap vals position destination)
                   (slice_swap nxt position destination) clk
               else (vals, Inl IndexPanic)))
      else (vals, Inl IndexPanic))"
  by pat_completeness auto
termination
  by (relation "measure (\<lambda>(_, _, _, nxt, _). misplaced nxt)") (auto intro: misplaced_swap)

function apply_cycles ::
  "(nat \<Rightarrow> bool) \<Rightarrow> nat \<Rightarrow> nat \<Rightarrow> 'a list \<Rightarrow> nat list \<Rightarrow> sort_clock \<Rightarrow>
    'a list \<times> (InterruptibleSortFailure + sort_clock)" where
  "apply_cycles active len position vals nxt clk =
     (if position < len then
        (case apply_cycle active position vals nxt clk of
           (vals, Inl e) \<Rightarrow> (vals, Inl e)
         | (vals, Inr (nxt, clk)) \<Rightarrow> apply_cycles active len (position + 1) vals nxt clk)
      else (vals, Inr clk))"
  by pat_completeness auto
termination
  by (relation "measure (\<lambda>(_, len, position, _). len - position)") auto

text \<open>\<open>alloc1\<close> and \<open>alloc2\<close> tell whether the two scratch arrays could be allocated.\<close>

definition sort_permutation ::
  "(nat \<Rightarrow> bool) \<Rightarrow> bool \<Rightarrow> bool \<Rightarrow> ('a \<Rightarrow> 'a \<Rightarrow> comp) \<Rightarrow> 'a list \<Rightarrow>
    InterruptibleSortFailure + nat list \<times> sort_clock" where
  "sort_permutation active alloc1 alloc2 cmp vals =
     result_bind (ensure alloc1 Allocation) (\<lambda>_.
     result_bind (fill_indices active (length vals) 0 [] (0, 1)) (\<lambda>(current, clk).
     result_bind (ensure alloc2 Allocation) (\<lambda>_.
     result_bind (merge_passes active cmp vals current 1 clk) (\<lambda>(current, clk).
     invert_positions active 0 current (replicate (length vals) 0) clk))))"

definition stable_sort_by_interruptible ::
  "(nat \<Rightarrow> bool) \<Rightarrow> bool \<Rightarrow> bool \<Rightarrow> ('a \<Rightarrow> 'a \<Rightarrow> comp) \<Rightarrow> 'a list \<Rightarrow>
    'a list \<times> (InterruptibleSortFailure + unit)" where
  "stable_sort_by_interruptible active alloc1 alloc2 cmp vals =
     (if \<not> active 0 then (vals, Inl Interrupted)
      else if length vals < 2 then (vals, Inr ())
      else (case sort_permutation active alloc1 alloc2 cmp vals of
          Inl e \<Rightarrow> (vals, Inl e)
        | Inr (nxt, clk) \<Rightarrow>
            (case apply_cycles active (length vals) 0 vals nxt clk of
               (vals, Inl e) \<Rightarrow> (vals, Inl e)
             | (vals, Inr (_, calls)) \<Rightarrow>
                 if active calls then (vals, Inr ()) else (vals, Inl Interrupted))))"

declare fill_indices.simps [simp del] merge_run.simps [simp del] merge_pass.simps [simp del]
  merge_passes.simps [simp del] apply_cycle.simps [simp del] apply_cycles.simps [simp del]

section \<open>Progress or interrupt\<close>

text \<open>A step either stops because the closure said so or returns a value with a property.\<close>

definition runs :: "(nat \<Rightarrow> bool) \<Rightarrow> InterruptibleSortFailure + 'b \<Rightarrow> ('b \<Rightarrow> bool) \<Rightarrow> bool" where
  "runs active r P =
     (case r of Inl e \<Rightarrow> e = Interrupted \<and> (\<exists>n. \<not> active n) | Inr x \<Rightarrow> P x)"

lemma runs_simps [simp]:
  "runs active (Inr x) P = P x" "runs active (Inl e) P \<longleftrightarrow> e = Interrupted \<and> (\<exists>n. \<not> active n)"
  by (simp_all add: runs_def)

lemma runs_bind:
  assumes "runs active m P" and "\<And>x. P x \<Longrightarrow> runs active (f x) Q"
  shows "runs active (result_bind m f) Q"
  using assms by (cases m) simp_all

lemma runs_work: "runs active (work_unit active clk) (\<lambda>_. True)"
  by (auto simp: work_unit_def Let_def split: prod.splits)

lemma runs_mono: "runs active r P \<Longrightarrow> (\<And>x. P x \<Longrightarrow> Q x) \<Longrightarrow> runs active r Q"
  by (cases r) simp_all

lemma fill_indices_result:
  "runs active (fill_indices active len index current clk)
    (\<lambda>(c, _). c = current @ [index..<len])"
proof (induction active len index current clk rule: fill_indices.induct)
  case (1 active len index current clk)
  show ?case
  proof (cases "index < len")
    case True
    have "runs active (fill_indices active len (index + 1) (current @ [index]) clk')
        (\<lambda>(c, _). c = current @ [index..<len])" if "work_unit active clk = Inr clk'" for clk'
      using 1 [OF True that] True by (simp add: upt_conv_Cons)
    with runs_work [of active clk] True show ?thesis
      by (subst fill_indices.simps) (cases "work_unit active clk", simp_all)
  qed (simp add: fill_indices.simps)
qed

section \<open>The merge computes the library's merge\<close>

abbreviation merge_by :: "'a comparator \<Rightarrow> 'a list \<Rightarrow> 'a list \<Rightarrow> 'a list" where
  "merge_by \<equiv> Sorting_Algorithms.merge"

abbreviation slice :: "nat \<Rightarrow> nat \<Rightarrow> 'a list \<Rightarrow> 'a list" where
  "slice i j xs \<equiv> take (j - i) (drop i xs)"

lemma slice_Cons: "i < j \<Longrightarrow> j \<le> length xs \<Longrightarrow> slice i j xs = xs ! i # slice (Suc i) j xs"
  by (simp add: Cons_nth_drop_Suc [symmetric] take_Cons' )

lemma merge_run_step:
  assumes "limit \<le> length current" "list_all (\<lambda>i. i < length vals) current"
    "middle \<le> right" "right \<le> limit" "left < middle \<or> right < limit"
  shows "merge_run active cmp vals current middle limit left right nxt clk =
    result_bind (work_unit active clk) (\<lambda>clk.
      if right = limit \<or> left < middle \<and> cmp (vals ! (current ! left)) (vals ! (current ! right)) \<noteq> Greater
      then merge_run active cmp vals current middle limit (left + 1) right (nxt @ [current ! left]) clk
      else merge_run active cmp vals current middle limit left (right + 1) (nxt @ [current ! right]) clk)"
  using assms by (subst merge_run.simps)
    (auto simp: slice_index_def list_all_length intro!: result_bind_cong)

lemma merge_run_result:
  assumes "limit \<le> length current" "list_all (\<lambda>i. i < length vals) current"
    "left \<le> middle" "middle \<le> right" "right \<le> limit"
  shows "runs active (merge_run active (compare c) vals current middle limit left right nxt clk)
    (\<lambda>(n, _). n = nxt @ merge_by (key ((!) vals) c) (slice left middle current) (slice right limit current))"
  using assms
proof (induction "(middle - left) + (limit - right)" arbitrary: left right nxt clk rule: less_induct)
  case less
  show ?case
  proof (cases "left < middle \<or> right < limit")
    case False
    with less show ?thesis by (simp add: merge_run.simps)
  next
    case True
    note IH = less.hyps [OF _ less.prems(1,2)]
    let ?g = "compare c (vals ! (current ! left)) (vals ! (current ! right)) \<noteq> Greater"
    have l: "slice left middle current = current ! left # slice (Suc left) middle current"
      if "left < middle" using that less.prems by (intro slice_Cons) auto
    have r: "slice right limit current = current ! right # slice (Suc right) limit current"
      if "right < limit" using that less.prems by (intro slice_Cons) auto
    show ?thesis
      unfolding merge_run_step [OF less.prems(1,2,4,5) True]
    proof (rule runs_bind [OF runs_work])
      fix clk'
      consider "right = limit" "left < middle" | "right < limit" "left < middle" "?g"
        | "right < limit" "left < middle" "\<not> ?g" | "right < limit" "left = middle"
        using True less.prems by fastforce
      then show "runs active (if right = limit \<or> left < middle \<and> ?g
          then merge_run active (compare c) vals current middle limit (left + 1) right (nxt @ [current ! left]) clk'
          else merge_run active (compare c) vals current middle limit left (right + 1) (nxt @ [current ! right]) clk')
        (\<lambda>(n, _). n = nxt @ merge_by (key ((!) vals) c) (slice left middle current) (slice right limit current))"
      proof cases
        case 1
        with IH [of "left + 1" right "nxt @ [current ! left]" clk'] less.prems l show ?thesis by simp
      next
        case 2
        with IH [of "left + 1" right "nxt @ [current ! left]" clk'] less.prems l r show ?thesis by simp
      next
        case 3
        with IH [of left "right + 1" "nxt @ [current ! right]" clk'] less.prems l r show ?thesis by simp
      next
        case 4
        with IH [of left "right + 1" "nxt @ [current ! right]" clk'] less.prems r show ?thesis by simp
      qed
    qed
  qed
qed

section \<open>Passes over sorted runs\<close>

abbreviation sort_by :: "'a comparator \<Rightarrow> 'a list \<Rightarrow> 'a list" where
  "sort_by \<equiv> Sorting_Algorithms.sort"

text \<open>Sorting each run of width \<open>w\<close> alone, and one merge of neighbouring runs.\<close>

function chunk_sort :: "'a comparator \<Rightarrow> nat \<Rightarrow> 'a list \<Rightarrow> 'a list" where
  "chunk_sort c w xs =
     (if w = 0 \<or> xs = [] then [] else sort_by c (take w xs) @ chunk_sort c w (drop w xs))"
  by pat_completeness auto
termination by (relation "measure (\<lambda>(_, _, xs). length xs)") auto

function merge_chunks :: "'a comparator \<Rightarrow> nat \<Rightarrow> 'a list \<Rightarrow> 'a list" where
  "merge_chunks c w xs =
     (if w = 0 \<or> xs = [] then []
      else merge_by c (take w xs) (take w (drop w xs)) @ merge_chunks c w (drop (2 * w) xs))"
  by pat_completeness auto
termination by (relation "measure (\<lambda>(_, _, xs). length xs)") auto

declare chunk_sort.simps [simp del] merge_chunks.simps [simp del]

lemma merge_sorts: "merge_by c (sort_by c xs) (sort_by c ys) = sort_by c (xs @ ys)"
proof (rule sort_eqI [symmetric])
  show "mset (xs @ ys) = mset (merge_by c (sort_by c xs) (sort_by c ys))" by (simp add: mset_merge)
  show "Sorting_Algorithms.sorted c (merge_by c (sort_by c xs) (sort_by c ys))"
    by (simp add: sorted_merge)
  show "stable_segment c l (xs @ ys) = stable_segment c l (merge_by c (sort_by c xs) (sort_by c ys))" for l
    by (simp add: filter_merge stable_sort merge_stable_segments)
qed

lemma chunk_sort_Nil [simp]: "chunk_sort c w [] = []" "merge_chunks c w [] = []"
  by (simp_all add: chunk_sort.simps merge_chunks.simps)

lemma length_chunk_sort: "0 < w \<Longrightarrow> length (chunk_sort c w xs) = length xs"
  by (induction c w xs rule: chunk_sort.induct) (subst chunk_sort.simps, simp add: min_def)

lemma chunk_sort_take_drop:
  assumes "0 < w"
  shows "take w (chunk_sort c w xs) = sort_by c (take w xs)"
    and "drop w (chunk_sort c w xs) = chunk_sort c w (drop w xs)"
  using assms by (cases "xs = []"; cases "w \<le> length xs"; subst chunk_sort.simps; simp)+

lemma chunk_sort_all: "length xs \<le> w \<Longrightarrow> 0 < w \<Longrightarrow> chunk_sort c w xs = sort_by c xs"
  by (cases "xs = []"; subst chunk_sort.simps; simp)

lemma chunk_sort_1: "chunk_sort c 1 xs = xs"
  by (induction xs) (simp, subst chunk_sort.simps, simp)

lemma merge_chunks_sorted:
  "0 < w \<Longrightarrow> merge_chunks c w (chunk_sort c w xs) = chunk_sort c (2 * w) xs"
proof (induction xs rule: length_induct)
  case (1 xs)
  show ?case
  proof (cases "xs = []")
    case False
    with 1(2) have ne: "chunk_sort c w xs \<noteq> []"
      using length_chunk_sort [of w c xs] by auto
    note td = chunk_sort_take_drop [OF 1(2), of c]
    have "drop (2 * w) (chunk_sort c w xs) = chunk_sort c w (drop (2 * w) xs)"
      using td(2) [of xs] td(2) [of "drop w xs"] by (simp add: mult_2 flip: drop_drop)
    moreover have "merge_by c (sort_by c (take w xs)) (sort_by c (take w (drop w xs))) =
        sort_by c (take (2 * w) xs)"
      unfolding merge_sorts by (simp add: mult_2 take_add)
    ultimately show ?thesis
      using 1 False ne td by (subst merge_chunks.simps, subst (3) chunk_sort.simps) simp
  qed simp
qed

lemma sat_bounds:
  assumes "n \<le> usize_max"
  shows "min (sat_add i w) n = min (i + w) n" "min (i + sat_mul w 2) n = min (i + 2 * w) n"
  using assms by (auto simp: sat_add_def sat_mul_def)

lemma merge_pass_result:
  assumes "0 < w" "length vals \<le> usize_max" "length current = length vals"
    "list_all (\<lambda>i. i < length vals) current" "start \<le> length vals"
  shows "runs active (merge_pass active (compare c) vals current w start nxt clk)
    (\<lambda>(n, _). n = nxt @ merge_chunks (key ((!) vals) c) w (drop start current))"
  using assms(5)
proof (induction "length vals - start" arbitrary: start nxt clk rule: less_induct)
  case less
  show ?case
  proof (cases "start < length vals")
    case True
    let ?mid = "min (start + w) (length vals)" and ?stop = "min (start + 2 * w) (length vals)"
    let ?k = "key ((!) vals) c"
    have chunks: "merge_chunks ?k w (drop start current) =
        merge_by ?k (slice start ?mid current) (slice ?mid ?stop current) @
        merge_chunks ?k w (drop ?stop current)"
    proof -
      have "slice start ?mid current = take w (drop start current)"
        using assms(3) True by (simp add: min_def)
      moreover have "slice ?mid ?stop current = take w (drop w (drop start current))"
        using assms(3) True by (auto simp: min_def ac_simps)
      moreover have "drop ?stop current = drop (2 * w) (drop start current)"
        using assms(3) by (auto simp: min_def ac_simps)
      ultimately show ?thesis
        using True assms(1,3) by (subst merge_chunks.simps) simp
    qed
    have run: "runs active (merge_run active (compare c) vals current ?mid ?stop start ?mid nxt clk)
        (\<lambda>(n, _). n = nxt @ merge_by ?k (slice start ?mid current) (slice ?mid ?stop current))"
      using assms True by (intro merge_run_result) auto
    have IH: "runs active (merge_pass active (compare c) vals current w ?stop n clk')
        (\<lambda>(n', _). n' = n @ merge_chunks ?k w (drop ?stop current))" for n clk'
      using assms(1) True by (intro less.hyps) auto
    show ?thesis
      using True assms(1,2) unfolding chunks
      by (subst merge_pass.simps)
        (auto simp: sat_bounds Let_def intro!: runs_bind [OF run] runs_mono [OF IH])
  next
    case False
    with assms(3) show ?thesis by (simp add: merge_pass.simps)
  qed
qed

lemma set_chunk_sort: "0 < w \<Longrightarrow> set (chunk_sort c w xs) = set xs"
proof (induction c w xs rule: chunk_sort.induct)
  case (1 c w xs)
  have "set xs = set (take w xs) \<union> set (drop w xs)"
    unfolding set_append [symmetric] by simp
  with 1 show ?case by (cases "xs = []"; subst chunk_sort.simps; simp)
qed

lemma merge_passes_result:
  assumes "length vals \<le> usize_max"
  shows "0 < w \<Longrightarrow> runs active
    (merge_passes active (compare c) vals (chunk_sort (key ((!) vals) c) w [0..<length vals]) w clk)
    (\<lambda>(n, _). n = sort_by (key ((!) vals) c) [0..<length vals])"
proof (induction "length vals - w" arbitrary: w clk rule: less_induct)
  case less
  let ?k = "key ((!) vals) c" and ?ids = "[0..<length vals]"
  show ?case
  proof (cases "w < length vals")
    case True
    have pass: "runs active (merge_pass active (compare c) vals (chunk_sort ?k w ?ids) w 0 [] clk)
        (\<lambda>(n, _). n = chunk_sort ?k (2 * w) ?ids)"
      using merge_pass_result [of w vals "chunk_sort ?k w ?ids" 0 active c "[]" clk] less.prems assms
      by (simp add: length_chunk_sort merge_chunks_sorted list_all_iff set_chunk_sort)
    have width: "w < sat_mul w 2" using True less.prems assms by (auto simp: sat_mul_def)
    have "chunk_sort ?k (2 * w) ?ids = chunk_sort ?k (sat_mul w 2) ?ids"
    proof (cases "2 * w \<le> usize_max")
      case False
      with assms have "length ?ids \<le> 2 * w" "length ?ids \<le> sat_mul w 2" by (auto simp: sat_mul_def)
      with width less.prems show ?thesis by (simp add: chunk_sort_all)
    qed (simp add: sat_mul_def mult.commute)
    with less.hyps [of "sat_mul w 2"] width True
    have "runs active (merge_passes active (compare c) vals (chunk_sort ?k (2 * w) ?ids) (sat_mul w 2) clk')
        (\<lambda>(n, _). n = sort_by ?k ?ids)" for clk'
      by simp
    with True width show ?thesis
      by (subst merge_passes.simps) (auto intro!: runs_bind [OF pass])
  next
    case False
    with less.prems show ?thesis
      by (simp add: merge_passes.simps chunk_sort_all)
  qed
qed

section \<open>Applying the permutation in place\<close>

lemma invert_positions_result:
  "list_all (\<lambda>j. j < length nxt) olds \<Longrightarrow> distinct olds \<Longrightarrow>
    runs active (invert_positions active new olds nxt clk)
      (\<lambda>(n, _). length n = length nxt \<and> (\<forall>i<length olds. n ! (olds ! i) = new + i)
        \<and> (\<forall>j. j \<notin> set olds \<longrightarrow> n ! j = nxt ! j))"
proof (induction olds arbitrary: new nxt clk)
  case (Cons old olds)
  show ?case
    unfolding invert_positions.simps
  proof (rule runs_bind [OF runs_work])
    fix clk'
    have IH: "runs active (invert_positions active (new + 1) olds (nxt[old := new]) clk')
      (\<lambda>(n, _). length n = length nxt \<and> (\<forall>i<length olds. n ! (olds ! i) = new + 1 + i)
        \<and> (\<forall>j. j \<notin> set olds \<longrightarrow> n ! j = nxt[old := new] ! j))"
      using Cons.IH [of "nxt[old := new]" "new + 1" clk'] Cons.prems by simp
    have "runs active (invert_positions active (new + 1) olds (nxt[old := new]) clk')
      (\<lambda>(n, _). length n = length nxt \<and> (\<forall>i<length (old # olds). n ! ((old # olds) ! i) = new + i)
        \<and> (\<forall>j. j \<notin> set (old # olds) \<longrightarrow> n ! j = nxt ! j))"
      using Cons.prems by (intro runs_mono [OF IH]) (auto simp: nth_Cons')
    with Cons.prems show "runs active (if old < length nxt
        then invert_positions active (new + 1) olds (nxt[old := new]) clk' else Inl IndexPanic)
      (\<lambda>(n, _). length n = length nxt \<and> (\<forall>i<length (old # olds). n ! ((old # olds) ! i) = new + i)
        \<and> (\<forall>j. j \<notin> set (old # olds) \<longrightarrow> n ! j = nxt ! j))"
      by simp
  qed
qed simp

text \<open>Every value of \<open>vals\<close> has its destination in \<open>nxt\<close>.\<close>

definition placed :: "'a list \<Rightarrow> 'a list \<Rightarrow> nat list \<Rightarrow> bool" where
  "placed goal vals nxt \<longleftrightarrow>
     length vals = length goal \<and> length nxt = length goal \<and> distinct nxt
     \<and> (\<forall>i<length goal. nxt ! i < length goal \<and> goal ! (nxt ! i) = vals ! i)"

lemma length_slice_swap [simp]: "length (slice_swap xs i j) = length xs"
  by (simp add: slice_swap_def)

lemma mset_slice_swap: "i < length xs \<Longrightarrow> j < length xs \<Longrightarrow> mset (slice_swap xs i j) = mset xs"
  unfolding slice_swap_def by (rule mset_swap)

lemma placed_swap:
  assumes "placed goal vals nxt" and "p < length goal" and "nxt ! p \<noteq> p"
  shows "placed goal (slice_swap vals p (nxt ! p)) (slice_swap nxt p (nxt ! p))"
    and "nxt ! p < length goal" and "nxt ! (nxt ! p) \<noteq> nxt ! p"
    and "\<And>i. i < length goal \<Longrightarrow> nxt ! i = i \<Longrightarrow> slice_swap nxt p (nxt ! p) ! i = i"
proof -
  show d: "nxt ! p < length goal" using assms by (simp add: placed_def)
  have inj: "nxt ! i = nxt ! j \<longleftrightarrow> i = j" if "i < length goal" "j < length goal" for i j
    using assms(1) that by (simp add: placed_def nth_eq_iff_index_eq)
  show ne: "nxt ! (nxt ! p) \<noteq> nxt ! p" using inj [OF d assms(2)] assms(3) by simp
  have "distinct (slice_swap nxt p (nxt ! p))"
    using assms(1,2) d mset_slice_swap [of p nxt "nxt ! p"]
    by (metis placed_def mset_eq_imp_distinct_iff)
  with assms d show "placed goal (slice_swap vals p (nxt ! p)) (slice_swap nxt p (nxt ! p))"
    by (simp add: placed_def) (simp add: slice_swap_def nth_list_update)
  show "slice_swap nxt p (nxt ! p) ! i = i" if "i < length goal" "nxt ! i = i" for i
    using that assms ne by (auto simp: placed_def slice_swap_def nth_list_update)
qed

lemma apply_cycle_result:
  "placed goal vals nxt \<Longrightarrow> position < length goal \<Longrightarrow>
    mset (fst (apply_cycle active position vals nxt clk)) = mset vals
    \<and> runs active (snd (apply_cycle active position vals nxt clk)) (\<lambda>(n, _).
        placed goal (fst (apply_cycle active position vals nxt clk)) n \<and> n ! position = position
        \<and> (\<forall>i<length goal. nxt ! i = i \<longrightarrow> n ! i = i))"
proof (induction active position vals nxt clk rule: apply_cycle.induct)
  case (1 active position vals nxt clk)
  have len: "length vals = length goal" "length nxt = length goal"
    using 1(2) by (simp_all add: placed_def)
  show ?case
  proof (cases "nxt ! position = position")
    case False
    note sw = placed_swap [OF 1(2,3) False]
    show ?thesis
    proof (cases "work_unit active clk")
      case (Inl e)
      with runs_work [of active clk] False len 1(3) show ?thesis
        by (simp add: apply_cycle.simps Let_def)
    next
      case (Inr clk')
      have step: "apply_cycle active position vals nxt clk =
          apply_cycle active position (slice_swap vals position (nxt ! position))
            (slice_swap nxt position (nxt ! position)) clk'"
        using Inr False sw(2,3) len 1(3) by (subst apply_cycle.simps) (simp add: Let_def)
      have "mset (slice_swap vals position (nxt ! position)) = mset vals"
        using mset_slice_swap len 1(3) sw(2) by metis
      with 1(1) [OF _ refl False Inr] len 1(3) sw show ?thesis
        unfolding step by (auto elim!: runs_mono)
    qed
  qed (use 1 len in \<open>simp add: apply_cycle.simps Let_def\<close>)
qed

lemma apply_cycles_result:
  "placed goal vals nxt \<Longrightarrow> \<forall>i<position. nxt ! i = i \<Longrightarrow> position \<le> length goal \<Longrightarrow>
    mset (fst (apply_cycles active (length goal) position vals nxt clk)) = mset vals
    \<and> runs active (snd (apply_cycles active (length goal) position vals nxt clk))
        (\<lambda>_. fst (apply_cycles active (length goal) position vals nxt clk) = goal)"
proof (induction "length goal - position" arbitrary: position vals nxt clk)
  case 0
  then have "vals = goal"
    by (auto simp: placed_def intro!: nth_equalityI)
  with 0 show ?case by (simp add: apply_cycles.simps)
next
  case (Suc k)
  then have pos: "position < length goal" by simp
  obtain vals' r where c: "apply_cycle active position vals nxt clk = (vals', r)" by fastforce
  note res = apply_cycle_result [OF Suc.prems(1) pos, of active clk, unfolded c fst_conv snd_conv]
  show ?case
  proof (cases r)
    case (Inl e)
    with res c pos show ?thesis by (simp add: apply_cycles.simps)
  next
    case (Inr x)
    obtain n clk' where x: "x = (n, clk')" by (cases x)
    have "\<forall>i<Suc position. n ! i = i"
      using res Inr x Suc.prems(2) pos by (auto simp: less_Suc_eq)
    with Suc.hyps(1) [of "Suc position" vals' n clk'] Suc.hyps(2) res Inr x pos c
    show ?thesis by (simp add: apply_cycles.simps [of active "length goal" position])
  qed
qed

lemma map_sort_key: "map f (sort_by (key f c) xs) = sort_by c (map f xs)"
proof (rule sort_eqI [symmetric])
  have "Sorting_Algorithms.sorted c (map f ys)" if "Sorting_Algorithms.sorted (key f c) ys" for ys
    using that by (induction ys rule: induct_list012) auto
  then show "Sorting_Algorithms.sorted c (map f (sort_by (key f c) xs))" by simp
  have seg: "stable_segment c (f x) (map f ys) = map f (stable_segment (key f c) x ys)" for x ys
    by (induction ys) auto
  show "stable_segment c y (map f xs) = stable_segment c y (map f (sort_by (key f c) xs))"
    if "y \<in> set (map f xs)" for y
    using that by (auto simp: seg stable_sort simp del: compare_key_apply)
qed simp

lemma sort_permutation_result:
  assumes "length vals \<le> usize_max" and "alloc1" and "alloc2"
  shows "runs active (sort_permutation active alloc1 alloc2 (compare c) vals)
    (\<lambda>(n, _). placed (sort_by c vals) vals n)"
proof -
  let ?p = "sort_by (key ((!) vals) c) [0..<length vals]"
  have fill: "runs active (fill_indices active (length vals) 0 [] (0, 1))
      (\<lambda>(c', _). c' = chunk_sort (key ((!) vals) c) 1 [0..<length vals])"
    using fill_indices_result [of active "length vals" 0 "[]" "(0, 1)"]
    by (simp only: chunk_sort_1 append_Nil)
  have p: "distinct ?p" "set ?p = {..<length vals}" "length ?p = length vals"
    using mset_eq_imp_distinct_iff [of ?p "[0..<length vals]"] by (auto simp: atLeast0LessThan)
  have goal: "sort_by c vals = map ((!) vals) ?p"
    unfolding map_sort_key by (simp add: map_nth)
  have inv: "runs active (invert_positions active 0 ?p (replicate (length vals) 0) clk)
      (\<lambda>(n, _). placed (sort_by c vals) vals n)" for clk
  proof (rule runs_mono [OF invert_positions_result])
    show "list_all (\<lambda>j. j < length (replicate (length vals) (0::nat))) ?p"
      using p(2) by (auto simp: list_all_iff)
    fix x :: "nat list \<times> sort_clock"
    obtain n clk' where x: "x = (n, clk')" by (cases x)
    assume "case x of (n, _) \<Rightarrow> length n = length (replicate (length vals) (0::nat))
      \<and> (\<forall>i<length ?p. n ! (?p ! i) = 0 + i) \<and> (\<forall>j. j \<notin> set ?p \<longrightarrow> n ! j = replicate (length vals) 0 ! j)"
    with x p(3) have n: "length n = length vals" "\<And>i. i < length vals \<Longrightarrow> n ! (?p ! i) = i" by auto
    have at: "\<exists>i<length vals. j = ?p ! i" if "j < length vals" for j
      using that p(2,3) by (metis in_set_conv_nth lessThan_iff)
    have "n ! j < length vals \<and> vals ! (?p ! (n ! j)) = vals ! j" if "j < length vals" for j
      using at [OF that] n(2) p(3) by auto
    moreover have "distinct n"
      unfolding distinct_conv_nth using at n by (metis)
    ultimately show "case x of (n, _) \<Rightarrow> placed (sort_by c vals) vals n"
      using x n(1) by (simp add: placed_def goal)
  qed (rule p(1))
  have passes: "runs active (merge_passes active (compare c) vals
      (chunk_sort (key ((!) vals) c) 1 [0..<length vals]) 1 clk) (\<lambda>(n, _). n = ?p)" for clk
    by (rule merge_passes_result [OF assms(1)]) simp
  have "runs active (case x of (current, clk) \<Rightarrow> result_bind (merge_passes active (compare c) vals current 1 clk)
      (\<lambda>(current, clk). invert_positions active 0 current (replicate (length vals) 0) clk))
      (\<lambda>(n, _). placed (sort_by c vals) vals n)"
    if "case x of (c', _) \<Rightarrow> c' = chunk_sort (key ((!) vals) c) 1 [0..<length vals]" for x
    using that by (cases x) (auto simp del: One_nat_def intro!: runs_bind [OF passes] inv)
  then show ?thesis
    unfolding sort_permutation_def using assms(2,3)
    by (simp only: ensure_True result_bind.simps) (rule runs_bind [OF fill])
qed

section \<open>The order of entries\<close>

datatype PathType = Dir | SymlinkDir | File | SymlinkFile

text \<open>\<open>PathType::cmp\<close> compares directories before files.\<close>

definition path_type_value :: "PathType \<Rightarrow> nat" where
  "path_type_value t = (if t = Dir \<or> t = SymlinkDir then 0 else 1)"

record PathItem =
  pi_path_type :: PathType
  pi_sort_name :: string
  pi_name :: string
  pi_mtime :: u64
  pi_size :: u64
  pi_revision :: bytes

fun then_with :: "comp \<Rightarrow> comp \<Rightarrow> comp" where
  "then_with Equiv c = c"
| "then_with Less c = Less"
| "then_with Greater c = Greater"

text \<open>\<open>alnum\<close> is \<open>alphanumeric_sort::compare_str\<close>.\<close>

definition sort_by_name :: "(string \<Rightarrow> string \<Rightarrow> comp) \<Rightarrow> PathItem \<Rightarrow> PathItem \<Rightarrow> comp" where
  "sort_by_name alnum a b =
     then_with (compare default (path_type_value (pi_path_type a)) (path_type_value (pi_path_type b)))
       (then_with (alnum (pi_sort_name a) (pi_sort_name b))
         (compare default (str_bytes (pi_name a)) (str_bytes (pi_name b))))"

definition sort_by_mtime :: "(string \<Rightarrow> string \<Rightarrow> comp) \<Rightarrow> PathItem \<Rightarrow> PathItem \<Rightarrow> comp" where
  "sort_by_mtime alnum a b =
     then_with (compare default (path_type_value (pi_path_type a)) (path_type_value (pi_path_type b)))
       (then_with (compare default (pi_mtime a) (pi_mtime b)) (sort_by_name alnum a b))"

definition sort_by_size :: "(string \<Rightarrow> string \<Rightarrow> comp) \<Rightarrow> PathItem \<Rightarrow> PathItem \<Rightarrow> comp" where
  "sort_by_size alnum a b =
     then_with (compare default (path_type_value (pi_path_type a)) (path_type_value (pi_path_type b)))
       (then_with (compare default (pi_size a) (pi_size b)) (sort_by_name alnum a b))"

fun ordering_reverse :: "comp \<Rightarrow> comp" where
  "ordering_reverse Less = Greater"
| "ordering_reverse Equiv = Equiv"
| "ordering_reverse Greater = Less"

definition compare_path_items ::
  "(string \<Rightarrow> string \<Rightarrow> comp) \<Rightarrow> string \<Rightarrow> string \<Rightarrow> PathItem \<Rightarrow> PathItem \<Rightarrow> comp" where
  "compare_path_items alnum sort_field order a b =
     (let ordering =
        (if sort_field = ''mtime'' then sort_by_mtime alnum a b
         else if sort_field = ''size'' then sort_by_size alnum a b
         else sort_by_name alnum a b) in
      if order = ''desc'' then ordering_reverse ordering else ordering)"

text \<open>\<open>active n\<close> is what the closure finds at its \<open>n\<close>-th call: not cancelled, still running and in
  time.  \<open>stopped\<close> tells whether the work is cancelled or the server stops when a failure is
  classified.  A panic or a loop without progress is kept apart.\<close>

definition sort_path_items_interruptibly ::
  "(string \<Rightarrow> string \<Rightarrow> comp) \<Rightarrow> (nat \<Rightarrow> bool) \<Rightarrow> bool \<Rightarrow> bool \<Rightarrow> bool \<Rightarrow> string \<Rightarrow> string \<Rightarrow>
    string \<Rightarrow> bytes \<Rightarrow> bytes \<Rightarrow> PathItem list \<Rightarrow> PathItem list \<times> (listing_failure + unit)" where
  "sort_path_items_interruptibly alnum active stopped alloc1 alloc2 sort_field order operation path
      serve_root paths =
     (case stable_sort_by_interruptible active alloc1 alloc2 (compare_path_items alnum sort_field order)
        paths of
        (paths, Inr _) \<Rightarrow> (paths, Inr ())
      | (paths, Inl e) \<Rightarrow> (paths, Inl (case e of
            Interrupted \<Rightarrow>
              ListingFailed (if \<not> stopped
                then le_limit operation path serve_root ''time_budget'' DirectoryOperationTimeout
                else le_cancelled operation path serve_root)
          | Allocation \<Rightarrow>
              ListingFailed (le_limit operation path serve_root ''sort_allocation_failed'' DirectorySortLimit)
          | IndexPanic \<Rightarrow> ListingPanic
          | Diverges \<Rightarrow> ListingPanic)))"

section \<open>Lemmas on the order\<close>

lemma then_with_iff:
  "then_with a b = Equiv \<longleftrightarrow> a = Equiv \<and> b = Equiv"
  "then_with a b = Less \<longleftrightarrow> a = Less \<or> a = Equiv \<and> b = Less"
  "then_with a b = Greater \<longleftrightarrow> a = Greater \<or> a = Equiv \<and> b = Greater"
  by (cases a; simp)+

lemma ordering_reverse_iff:
  "ordering_reverse a = Equiv \<longleftrightarrow> a = Equiv" "ordering_reverse a = Less \<longleftrightarrow> a = Greater"
  "ordering_reverse a = Greater \<longleftrightarrow> a = Less"
  by (cases a; simp)+

lemma comparator_then:
  assumes f: "comparator f" and g: "comparator g"
  shows "comparator (\<lambda>a b. then_with (f a b) (g a b))"
proof
  fix a b c
  show "then_with (f a a) (g a a) = Equiv"
    by (simp add: then_with_iff comparator.refl [OF f] comparator.refl [OF g])
  show "then_with (f a b) (g a b) = Equiv \<Longrightarrow> then_with (f b c) (g b c) = Equiv \<Longrightarrow>
      then_with (f a c) (g a c) = Equiv"
    using comparator.trans_equiv [OF f, of a b c] comparator.trans_equiv [OF g, of a b c]
    by (simp add: then_with_iff)
  show "then_with (f a b) (g a b) = Less \<Longrightarrow> then_with (f b c) (g b c) = Less \<Longrightarrow>
      then_with (f a c) (g a c) = Less"
    using comparator.trans_less [OF f, of a b c] comparator.trans_less [OF g, of a b c]
      comparator.trans_equiv_less [OF f, of a b c] comparator.trans_less_equiv [OF f, of a b c]
      comparator.trans_equiv [OF f, of a b c]
    unfolding then_with_iff by argo
  show "then_with (f b a) (g b a) = Greater \<longleftrightarrow> then_with (f a b) (g a b) = Less"
    using comparator.sym [OF f, of b a] comparator.greater_iff_sym_less [OF f, of b a]
      comparator.greater_iff_sym_less [OF g, of b a]
    unfolding then_with_iff by argo
qed

lemma comparator_on:
  assumes "comparator f" shows "comparator (\<lambda>a b. f (h a) (h b))"
proof
  note c = comparator.refl [OF assms] comparator.trans_equiv [OF assms] comparator.trans_less [OF assms]
    comparator.greater_iff_sym_less [OF assms]
  fix x y z
  show "f (h x) (h x) = Equiv" by (rule c)
  show "f (h x) (h y) = Equiv \<Longrightarrow> f (h y) (h z) = Equiv \<Longrightarrow> f (h x) (h z) = Equiv" by (rule c)
  show "f (h x) (h y) = Less \<Longrightarrow> f (h y) (h z) = Less \<Longrightarrow> f (h x) (h z) = Less" by (rule c)
  show "f (h y) (h x) = Greater \<longleftrightarrow> f (h x) (h y) = Less" by (rule c)
qed

lemma comparator_default: "comparator (\<lambda>a b. compare default (h a) (h b))"
  by (rule comparator_on) (rule compare.comparator_axioms)

lemma comparator_reverse: "comparator f \<Longrightarrow> comparator (\<lambda>a b. ordering_reverse (f a b))"
proof
  assume f: "comparator f"
  fix a b c
  show "ordering_reverse (f a a) = Equiv" using f by (simp add: ordering_reverse_iff comparator.refl)
  show "ordering_reverse (f a b) = Equiv \<Longrightarrow> ordering_reverse (f b c) = Equiv \<Longrightarrow>
      ordering_reverse (f a c) = Equiv"
    using comparator.trans_equiv [OF f] by (simp add: ordering_reverse_iff)
  show "ordering_reverse (f a b) = Less \<Longrightarrow> ordering_reverse (f b c) = Less \<Longrightarrow>
      ordering_reverse (f a c) = Less"
    using comparator.trans_greater [OF f] by (simp add: ordering_reverse_iff)
  show "ordering_reverse (f b a) = Greater \<longleftrightarrow> ordering_reverse (f a b) = Less"
    using comparator.less_iff_sym_greater [OF f] by (simp add: ordering_reverse_iff)
qed

lemma comparator_path_items:
  assumes "comparator alnum" shows "comparator (compare_path_items alnum sort_field order)"
proof -
  have by_name: "comparator (sort_by_name alnum)"
    unfolding sort_by_name_def [abs_def]
    by (intro comparator_then comparator_default comparator_on [OF assms])
  then have "comparator (sort_by_mtime alnum)" "comparator (sort_by_size alnum)"
    unfolding sort_by_mtime_def [abs_def] sort_by_size_def [abs_def]
    by (intro comparator_then comparator_default; simp)+
  with by_name show ?thesis
    unfolding compare_path_items_def [abs_def] Let_def
    by (cases "order = ''desc''"; cases "sort_field = ''mtime''"; cases "sort_field = ''size''")
      (simp_all add: comparator_reverse)
qed

section \<open>Properties\<close>

lemma stable_sort_result:
  assumes "length vals \<le> usize_max"
    and "stable_sort_by_interruptible active alloc1 alloc2 (compare c) vals = (out, r)"
  shows "mset out = mset vals
    \<and> (case r of
         Inr _ \<Rightarrow> out = sort_by c vals
       | Inl e \<Rightarrow> e = Interrupted \<and> (\<exists>n. \<not> active n)
           \<or> e = Allocation \<and> \<not> (alloc1 \<and> alloc2) \<and> out = vals)"
proof -
  consider "\<not> active 0" | "active 0" "length vals < 2" | "active 0" "2 \<le> length vals" "\<not> (alloc1 \<and> alloc2)"
    | "active 0" "2 \<le> length vals" "alloc1" "alloc2" by linarith
  then show ?thesis
  proof cases
    case 2
    then have "sort_by c vals = vals" by (cases vals; cases "tl vals") auto
    with 2 assms(2) show ?thesis by (auto simp: stable_sort_by_interruptible_def)
  next
    case 3
    have "runs active (fill_indices active (length vals) 0 [] (0, 1)) (\<lambda>_. True)"
      by (rule runs_mono [OF fill_indices_result]) simp
    with 3 assms(2) show ?thesis
      by (auto simp: stable_sort_by_interruptible_def sort_permutation_def ensure_def runs_def
          simp del: One_nat_def split: if_splits sum.splits)
  next
    case 4
    note perm = sort_permutation_result [OF assms(1) 4(3,4), of active c]
    show ?thesis
    proof (cases "sort_permutation active alloc1 alloc2 (compare c) vals")
      case (Inl e)
      with perm 4 assms(2) show ?thesis by (auto simp: stable_sort_by_interruptible_def)
    next
      case (Inr x)
      obtain nxt clk where x: "x = (nxt, clk)" by (cases x)
      with perm Inr have pl: "placed (sort_by c vals) vals nxt" by simp
      note cyc = apply_cycles_result [OF pl, of 0 active clk]
      obtain out' r' where ap: "apply_cycles active (length vals) 0 vals nxt clk = (out', r')" by fastforce
      with cyc have "mset out' = mset vals" "runs active r' (\<lambda>_. out' = sort_by c vals)" by auto
      with ap Inr x 4 assms(2) show ?thesis
        by (cases r', auto simp: stable_sort_by_interruptible_def split: if_splits) blast
    qed
  qed (use assms(2) in \<open>auto simp: stable_sort_by_interruptible_def\<close>)
qed

text \<open>C31: The interruptible sort is a correct stable sort.  For every comparison that is a linear
  preorder, whatever the closure answers and whenever it stops the work, the array ends as a
  permutation of its input: nothing is lost or duplicated, no index is out of bounds and every loop
  ends.  If the sort reports success, the array is the stable sort of the input; it fails only when
  the closure asked it to stop or a scratch array could not be allocated, in the latter case with
  the array untouched.\<close>

theorem listing_sort_is_stable_sort:
  assumes "length vals \<le> usize_max"
  shows "case stable_sort_by_interruptible active alloc1 alloc2 (compare c) vals of (out, r) \<Rightarrow>
    mset out = mset vals
    \<and> (case r of
         Inr _ \<Rightarrow> out = Sorting_Algorithms.sort c vals
       | Inl e \<Rightarrow> e = Interrupted \<and> (\<exists>n. \<not> active n)
           \<or> e = Allocation \<and> \<not> (alloc1 \<and> alloc2) \<and> out = vals)"
  using stable_sort_result [OF assms, of active alloc1 alloc2 c] by (auto split: prod.splits)

theorem listing_sort_is_stable_sort_witness:
  "stable_sort_by_interruptible (\<lambda>_. True) True True (compare default) [3, 1, 2 :: nat] =
    ([1, 2, 3], Inr ())"
proof -
  have "Sorting_Algorithms.sort default [3, 1, 2 :: nat] = [1, 2, 3]" by simp
  with listing_sort_is_stable_sort [of "[3, 1, 2 :: nat]" "\<lambda>_. True" True True default]
  show ?thesis
    by (auto simp: usize_max_def split: prod.splits sum.splits)
qed

lemma sorted_nth:
  "Sorting_Algorithms.sorted c xs \<Longrightarrow> i < j \<Longrightarrow> j < length xs \<Longrightarrow> compare c (xs ! i) (xs ! j) \<noteq> Greater"
proof (induction xs arbitrary: i j)
  case (Cons x xs)
  then show ?case
    using sorted_Cons_imp_not_less [OF Cons.prems(1)] sorted_Cons_imp_sorted [OF Cons.prems(1)]
    by (cases i; cases j) auto
qed simp

text \<open>A listing is ordered as the request says.  When sorting succeeds, the items are those of
  the input, neighbours and all later pairs are in the requested order (by name, modification time
  or size, with the natural name order breaking ties, reversed for \<open>desc\<close>), items that compare
  equal keep the order of the directory scan, and unless the order is reversed every directory
  comes before every file.  A failure is reported as a time-out, a stop of the server or a sort
  limit.\<close>

theorem listing_order:
  assumes "comparator alnum" and "length paths \<le> usize_max"
    and "sort_path_items_interruptibly alnum active stopped alloc1 alloc2 sort_field order
      operation path serve_root paths = (out, r)"
  shows "mset out = mset paths
    \<and> (r = Inr () \<longrightarrow>
        (\<forall>i j. i < j \<and> j < length out \<longrightarrow>
          compare_path_items alnum sort_field order (out ! i) (out ! j) \<noteq> Greater
          \<and> (order \<noteq> ''desc'' \<and> pi_path_type (out ! j) \<in> {Dir, SymlinkDir} \<longrightarrow>
               pi_path_type (out ! i) \<in> {Dir, SymlinkDir}))
        \<and> (\<forall>x. filter (\<lambda>y. compare_path_items alnum sort_field order x y = Equiv) out =
             filter (\<lambda>y. compare_path_items alnum sort_field order x y = Equiv) paths))
    \<and> (\<forall>e. r = Inl e \<longrightarrow> (\<exists>le. e = ListingFailed le
        \<and> le_problem le \<in> {DirectoryOperationTimeout, ServerStopping, DirectorySortLimit}))"
proof -
  let ?cmp = "compare_path_items alnum sort_field order"
  define c where "c = Abs_comparator ?cmp"
  have cmp: "compare c = ?cmp"
    unfolding c_def using comparator_path_items [OF assms(1)] by (simp add: Abs_comparator_inverse)
  obtain out' r' where st: "stable_sort_by_interruptible active alloc1 alloc2 ?cmp paths = (out', r')"
    by fastforce
  note res = stable_sort_result [OF assms(2), of active alloc1 alloc2 c, unfolded cmp, OF st]
  from st assms(3) have out: "out = out'"
    by (auto simp: sort_path_items_interruptibly_def split: sum.splits)
  have ok: "r' = Inr ()" if "r = Inr ()"
    using that st assms(3) by (auto simp: sort_path_items_interruptibly_def split: sum.splits)
  have groups: "pi_path_type a \<in> {Dir, SymlinkDir}"
    if "order \<noteq> ''desc''" "?cmp a b \<noteq> Greater" "pi_path_type b \<in> {Dir, SymlinkDir}" for a b
    using that by (auto simp: compare_path_items_def sort_by_name_def sort_by_mtime_def sort_by_size_def
        then_with_iff path_type_value_def Let_def split: if_splits)
  have err: "\<exists>le. e = ListingFailed le \<and> le_problem le \<in> {DirectoryOperationTimeout, ServerStopping, DirectorySortLimit}"
    if "r = Inl e" for e
    using that st assms(3) res
    by (auto simp: sort_path_items_interruptibly_def le_limit_def le_cancelled_def split: sum.splits if_splits)
  have sorted: "out = sort_by c paths" if "r = Inr ()" using ok [OF that] res out by simp
  have order: "?cmp (out ! i) (out ! j) \<noteq> Greater" if "r = Inr ()" "i < j" "j < length out" for i j
    using sorted_nth [of c "sort_by c paths" i j] that sorted by (simp add: cmp)
  have stable: "filter (\<lambda>y. ?cmp x y = Equiv) out = filter (\<lambda>y. ?cmp x y = Equiv) paths"
    if "r = Inr ()" for x
    using stable_sort [of c x paths] sorted [OF that] by (simp add: cmp)
  show ?thesis
    using res out err order stable groups by blast
qed

definition sample_item :: "string \<Rightarrow> PathType \<Rightarrow> u64 \<Rightarrow> PathItem" where
  "sample_item name t n =
     \<lparr>pi_path_type = t, pi_sort_name = name, pi_name = name, pi_mtime = 0, pi_size = n, pi_revision = []\<rparr>"

theorem listing_order_witness:
  "\<exists>out. sort_path_items_interruptibly (\<lambda>a b. compare default (length a) (length b)) (\<lambda>_. True) False
      True True ''size'' ''asc'' ''list'' [] [] [sample_item ''a'' File 2, sample_item ''b'' Dir 0] = (out, Inr ())
    \<and> mset out = mset [sample_item ''a'' File 2, sample_item ''b'' Dir 0]
    \<and> (pi_path_type (out ! 1) \<in> {Dir, SymlinkDir} \<longrightarrow> pi_path_type (out ! 0) \<in> {Dir, SymlinkDir})"
proof -
  let ?alnum = "\<lambda>a b :: string. compare default (length a) (length b)"
  let ?paths = "[sample_item ''a'' File 2, sample_item ''b'' Dir 0]"
  have alnum: "comparator ?alnum" by (rule comparator_default)
  obtain out r where s: "sort_path_items_interruptibly ?alnum (\<lambda>_. True) False True True ''size'' ''asc''
      ''list'' [] [] ?paths = (out, r)" by fastforce
  define c where "c = Abs_comparator (compare_path_items ?alnum ''size'' ''asc'')"
  have cmp: "compare c = compare_path_items ?alnum ''size'' ''asc''"
    unfolding c_def using comparator_path_items [OF alnum] by (simp add: Abs_comparator_inverse)
  have "length ?paths \<le> usize_max" by (simp add: usize_max_def)
  note order = listing_order [OF alnum this s]
  have r: "r = Inr ()"
    using s stable_sort_result [OF \<open>length ?paths \<le> usize_max\<close>, of "\<lambda>_. True" True True c]
    by (auto simp: cmp sort_path_items_interruptibly_def split: prod.splits sum.splits)
  have two: "length out = 2" using order mset_eq_length [of out ?paths] by simp
  have "pi_path_type (out ! i) \<in> {Dir, SymlinkDir}"
    if "i < j" "j < length out" "pi_path_type (out ! j) \<in> {Dir, SymlinkDir}" for i j
    using order r that by blast
  from this [of 0 1] two
  have "pi_path_type (out ! 1) \<in> {Dir, SymlinkDir} \<longrightarrow> pi_path_type (out ! 0) \<in> {Dir, SymlinkDir}" by simp
  with order s r show ?thesis by blast
qed

end
