(* ===== verification/Operation_Registry.thy ===== *)
theory Operation_Registry
  imports Store_Actor Problem_Details
begin

text \<open>
  The operation registry (\<open>src/src/server/operation_registry.rs\<close>): the typed outcome of a
  mutation, its translation to and from the stored form, the answers to \<open>begin\<close> and
  \<open>status\<close> requests, the guard that settles a reservation when it goes out of scope, the
  identity of owners and requests (\<open>src/src/server/identity.rs\<close>), and the HTTP responses.
  SHA-256 and the UUID text form are parameters.
\<close>

section \<open>Tracked errors\<close>

datatype TrackedOperationError =
    TrackedInvalidJson
  | TrackedInvalidPath
  | TrackedPathExists
  | TrackedInvalidSourcePath
  | TrackedInvalidDestinationPath
  | TrackedSourceEqualsDestination
  | TrackedInvalidMovePath
  | TrackedInvalidRenameName
  | TrackedInvalidRenamePath
  | TrackedSourceNotFound
  | TrackedSourceRevisionRequired
  | TrackedInvalidSourceRevision
  | TrackedSourceChanged
  | TrackedDirectoryIntoItself
  | TrackedDestinationExists
  | TrackedDestinationRevisionRequired
  | TrackedInvalidDestinationRevision
  | TrackedDestinationChanged
  | TrackedDestinationDirectoryNotFound
  | TrackedDestinationNotDirectory
  | TrackedDirectoryOverwriteForbidden
  | TrackedMkdirStateConflict
  | TrackedMoveStateConflict
  | TrackedRenameStateConflict
  | TrackedTargetNotFound
  | TrackedDeleteStateConflict
  | TrackedPurgeBacklogFull
  | TrackedPurgeStateUnavailable
  | TrackedDeleteTargetChanged
  | TrackedDeleteNotCommitted
  | TrackedOutcomeUncertain

fun tracked_code :: "TrackedOperationError \<Rightarrow> ErrorCode" where
  "tracked_code TrackedInvalidJson = ''invalid_json''"
| "tracked_code TrackedInvalidPath = ''invalid_path''"
| "tracked_code TrackedPathExists = ''path_exists''"
| "tracked_code TrackedInvalidSourcePath = ''invalid_source_path''"
| "tracked_code TrackedInvalidDestinationPath = ''invalid_destination_path''"
| "tracked_code TrackedSourceEqualsDestination = ''source_equals_destination''"
| "tracked_code TrackedInvalidMovePath = ''invalid_move_path''"
| "tracked_code TrackedInvalidRenameName = ''invalid_rename_name''"
| "tracked_code TrackedInvalidRenamePath = ''invalid_rename_path''"
| "tracked_code TrackedSourceNotFound = ''source_not_found''"
| "tracked_code TrackedSourceRevisionRequired = ''source_revision_required''"
| "tracked_code TrackedInvalidSourceRevision = ''invalid_source_revision''"
| "tracked_code TrackedSourceChanged = ''source_changed''"
| "tracked_code TrackedDirectoryIntoItself = ''directory_into_itself''"
| "tracked_code TrackedDestinationExists = ''destination_exists''"
| "tracked_code TrackedDestinationRevisionRequired = ''destination_revision_required''"
| "tracked_code TrackedInvalidDestinationRevision = ''invalid_destination_revision''"
| "tracked_code TrackedDestinationChanged = ''destination_changed''"
| "tracked_code TrackedDestinationDirectoryNotFound = ''destination_directory_not_found''"
| "tracked_code TrackedDestinationNotDirectory = ''destination_not_directory''"
| "tracked_code TrackedDirectoryOverwriteForbidden = ''directory_overwrite_forbidden''"
| "tracked_code TrackedMkdirStateConflict = ''mkdir_state_conflict''"
| "tracked_code TrackedMoveStateConflict = ''move_state_conflict''"
| "tracked_code TrackedRenameStateConflict = ''rename_state_conflict''"
| "tracked_code TrackedTargetNotFound = ''target_not_found''"
| "tracked_code TrackedDeleteStateConflict = ''delete_state_conflict''"
| "tracked_code TrackedPurgeBacklogFull = ''purge_backlog_full''"
| "tracked_code TrackedPurgeStateUnavailable = ''purge_state_unavailable''"
| "tracked_code TrackedDeleteTargetChanged = ''delete_target_changed''"
| "tracked_code TrackedDeleteNotCommitted = ''delete_not_committed''"
| "tracked_code TrackedOutcomeUncertain = ''outcome_uncertain''"

definition tracked_from_wire_name :: "string \<Rightarrow> TrackedOperationError option" where
  "tracked_from_wire_name value =
     (if value = ''invalid_json'' then Some TrackedInvalidJson
      else if value = ''invalid_path'' then Some TrackedInvalidPath
      else if value = ''path_exists'' then Some TrackedPathExists
      else if value = ''invalid_source_path'' then Some TrackedInvalidSourcePath
      else if value = ''invalid_destination_path'' then Some TrackedInvalidDestinationPath
      else if value = ''source_equals_destination'' then Some TrackedSourceEqualsDestination
      else if value = ''invalid_move_path'' then Some TrackedInvalidMovePath
      else if value = ''invalid_rename_name'' then Some TrackedInvalidRenameName
      else if value = ''invalid_rename_path'' then Some TrackedInvalidRenamePath
      else if value = ''source_not_found'' then Some TrackedSourceNotFound
      else if value = ''source_revision_required'' then Some TrackedSourceRevisionRequired
      else if value = ''invalid_source_revision'' then Some TrackedInvalidSourceRevision
      else if value = ''source_changed'' then Some TrackedSourceChanged
      else if value = ''directory_into_itself'' then Some TrackedDirectoryIntoItself
      else if value = ''destination_exists'' then Some TrackedDestinationExists
      else if value = ''destination_revision_required'' then Some TrackedDestinationRevisionRequired
      else if value = ''invalid_destination_revision'' then Some TrackedInvalidDestinationRevision
      else if value = ''destination_changed'' then Some TrackedDestinationChanged
      else if value = ''destination_directory_not_found'' then Some TrackedDestinationDirectoryNotFound
      else if value = ''destination_not_directory'' then Some TrackedDestinationNotDirectory
      else if value = ''directory_overwrite_forbidden'' then Some TrackedDirectoryOverwriteForbidden
      else if value = ''mkdir_state_conflict'' then Some TrackedMkdirStateConflict
      else if value = ''move_state_conflict'' then Some TrackedMoveStateConflict
      else if value = ''rename_state_conflict'' then Some TrackedRenameStateConflict
      else if value = ''target_not_found'' then Some TrackedTargetNotFound
      else if value = ''delete_state_conflict'' then Some TrackedDeleteStateConflict
      else if value = ''purge_backlog_full'' then Some TrackedPurgeBacklogFull
      else if value = ''purge_state_unavailable'' then Some TrackedPurgeStateUnavailable
      else if value = ''delete_target_changed'' then Some TrackedDeleteTargetChanged
      else if value = ''delete_not_committed'' then Some TrackedDeleteNotCommitted
      else if value = ''outcome_uncertain'' then Some TrackedOutcomeUncertain
      else None)"

fun tracked_detail :: "TrackedOperationError \<Rightarrow> string" where
  "tracked_detail TrackedInvalidJson = ''Invalid JSON request''"
| "tracked_detail TrackedInvalidPath = ''Invalid path''"
| "tracked_detail TrackedPathExists = ''Path already exists''"
| "tracked_detail TrackedInvalidSourcePath = ''Invalid source path''"
| "tracked_detail TrackedInvalidDestinationPath = ''Invalid destination path''"
| "tracked_detail TrackedSourceEqualsDestination = ''Source and destination must differ''"
| "tracked_detail TrackedInvalidMovePath = ''Invalid move path''"
| "tracked_detail TrackedInvalidRenameName = ''Rename name must be one valid path segment''"
| "tracked_detail TrackedInvalidRenamePath = ''Invalid rename path''"
| "tracked_detail TrackedSourceNotFound = ''Source not found''"
| "tracked_detail TrackedSourceRevisionRequired = ''Source revision is required''"
| "tracked_detail TrackedInvalidSourceRevision = ''Source revision is invalid''"
| "tracked_detail TrackedSourceChanged = ''Source changed after it was listed''"
| "tracked_detail TrackedDirectoryIntoItself = ''A directory cannot be moved into itself''"
| "tracked_detail TrackedDestinationExists = ''Destination already exists''"
| "tracked_detail TrackedDestinationRevisionRequired = ''Destination revision is required for overwrite''"
| "tracked_detail TrackedInvalidDestinationRevision = ''Destination revision is invalid''"
| "tracked_detail TrackedDestinationChanged = ''Destination changed after overwrite confirmation''"
| "tracked_detail TrackedDestinationDirectoryNotFound = ''Destination directory not found''"
| "tracked_detail TrackedDestinationNotDirectory = ''Destination path is not a directory''"
| "tracked_detail TrackedDirectoryOverwriteForbidden = ''Directories cannot be overwritten''"
| "tracked_detail TrackedMkdirStateConflict = ''Directory path conflicts with an active upload or pending delete''"
| "tracked_detail TrackedMoveStateConflict = ''Source or destination conflicts with an active upload or pending delete''"
| "tracked_detail TrackedRenameStateConflict = ''Rename source or destination conflicts with an active upload or pending delete''"
| "tracked_detail TrackedTargetNotFound = ''Target not found''"
| "tracked_detail TrackedDeleteStateConflict = ''Target conflicts with an active upload or pending delete''"
| "tracked_detail TrackedPurgeBacklogFull = ''Delete backlog is temporarily full''"
| "tracked_detail TrackedPurgeStateUnavailable = ''Delete state storage is temporarily unavailable''"
| "tracked_detail TrackedDeleteTargetChanged = ''Delete target changed before commit''"
| "tracked_detail TrackedDeleteNotCommitted = ''Delete was not committed; refresh the target before retrying''"
| "tracked_detail TrackedOutcomeUncertain = ''Operation outcome is uncertain; inspect the target before trying again''"

definition tracked_recovery :: "TrackedOperationError \<Rightarrow> RecoveryAdvice" where
  "tracked_recovery e = (if e = TrackedOutcomeUncertain then QueryJob else NoAdvice)"

section \<open>Outcomes\<close>

record OperationOutcome =
  oo_status :: u16
  oo_state :: OperationPublicState
  oo_error :: "TrackedOperationError option"

definition outcome_success :: "u16 \<Rightarrow> OperationOutcome" where
  "outcome_success status =
     \<lparr>oo_status = status, oo_state = OperationSucceeded, oo_error = None\<rparr>"

definition outcome_failure :: "u16 \<Rightarrow> TrackedOperationError \<Rightarrow> OperationOutcome" where
  "outcome_failure status e =
     \<lparr>oo_status = status, oo_state = OperationFailed, oo_error = Some e\<rparr>"

definition outcome_uncertain :: OperationOutcome where
  "outcome_uncertain =
     \<lparr>oo_status = 500, oo_state = OperationUnknown, oo_error = Some TrackedOutcomeUncertain\<rparr>"

text \<open>\<open>None\<close> is the branch declared unreachable.\<close>

definition into_stored :: "OperationOutcome \<Rightarrow> StoredOutcome option" where
  "into_stored out =
     (let stored = (\<lambda>state. Some \<lparr>so_status = oo_status out, so_state = state,
            so_code = map_option tracked_code (oo_error out)\<rparr>)
      in (case oo_state out of
            OperationSucceeded \<Rightarrow> stored Succeeded
          | OperationFailed \<Rightarrow> stored Failed
          | OperationUnknown \<Rightarrow> stored TerminalUnknown
          | _ \<Rightarrow> None))"

datatype registry_error =
    RegistryInvalidStatus
  | RegistryUnknownError
  | RegistryIncompleteOutcome
  | RegistryStatusMismatch
  | RegistryStore store_error
  | RegistryReplyLost
  | RegistryReservationLost

definition public_of_stored :: "StoredTerminalState \<Rightarrow> OperationPublicState" where
  "public_of_stored s = (case s of
       Succeeded \<Rightarrow> OperationSucceeded
     | Failed \<Rightarrow> OperationFailed
     | TerminalUnknown \<Rightarrow> OperationUnknown)"

definition from_stored :: "'h HttpLib \<Rightarrow> StoredOutcome \<Rightarrow> registry_error + OperationOutcome" where
  "from_stored lib out =
     result_bind (ok_or (http_from_u16 lib (so_status out)) RegistryInvalidStatus) (\<lambda>status.
     let state = public_of_stored (so_state out) in
     result_bind
       (case so_code out of
          None \<Rightarrow>
            if state = OperationSucceeded then Inr None else Inl RegistryIncompleteOutcome
        | Some code \<Rightarrow>
            if state \<noteq> OperationSucceeded
            then result_map Some (ok_or (tracked_from_wire_name code) RegistryUnknownError)
            else Inl RegistryIncompleteOutcome) (\<lambda>error.
     if state = OperationSucceeded \<and> \<not> http_is_success lib status then Inl RegistryStatusMismatch
     else if state \<noteq> OperationSucceeded \<and> http_is_success lib status
       then Inl RegistryStatusMismatch
     else Inr \<lparr>oo_status = status, oo_state = state, oo_error = error\<rparr>))"

section \<open>Identities\<close>

text \<open>\<open>OwnerId\<close>: an owner name hashed behind a domain tag.\<close>

definition domain_separated :: "(bytes \<Rightarrow> bytes) \<Rightarrow> bytes \<Rightarrow> string \<Rightarrow> bytes" where
  "domain_separated sha256 domain owner = sha256 (domain @ str_bytes owner)"

definition owner_persistent :: "(bytes \<Rightarrow> bytes) \<Rightarrow> string \<Rightarrow> bytes" where
  "owner_persistent sha256 owner =
     domain_separated sha256 (str_bytes ''xczs-durable-owner-v1'' @ [0]) owner"

definition owner_listing_snapshot :: "(bytes \<Rightarrow> bytes) \<Rightarrow> string \<Rightarrow> bytes" where
  "owner_listing_snapshot sha256 owner =
     domain_separated sha256 (str_bytes ''xczs-list-snapshot-owner-v1'' @ [0]) owner"

definition operation_key :: "(bytes \<Rightarrow> bytes) \<Rightarrow> string \<Rightarrow> bytes \<Rightarrow> OperationKey" where
  "operation_key sha256 owner uuid = RowKey (owner_persistent sha256 owner) uuid"

text \<open>The bytes hashed into a fingerprint: every part behind its length.\<close>

definition fingerprint_input :: "bytes list \<Rightarrow> bytes" where
  "fingerprint_input parts =
     concat (map (\<lambda>part. to_be_bytes (of_nat (length part)) @ part) parts)"

definition operation_fingerprint :: "(bytes \<Rightarrow> bytes) \<Rightarrow> bytes list \<Rightarrow> bytes" where
  "operation_fingerprint sha256 parts = sha256 (fingerprint_input parts)"

definition parse_canonical_operation_id :: "UuidLib \<Rightarrow> string \<Rightarrow> bytes option" where
  "parse_canonical_operation_id ul value =
     (case uuid_parse_str ul value of
        None \<Rightarrow> None
      | Some uuid \<Rightarrow> if uuid_hyphenated ul uuid = value then Some uuid else None)"

definition parse_operation_id ::
  "'h HttpLib \<Rightarrow> UuidLib \<Rightarrow> 'h \<Rightarrow> string + bytes option" where
  "parse_operation_id lib ul headers =
     (case http_get_all lib headers ''x-xczs-operation-id'' of
        [] \<Rightarrow> Inr None
      | [value] \<Rightarrow>
          result_bind (ok_or (http_to_str lib value)
            ''The x-xczs-operation-id header must be a canonical UUID'') (\<lambda>text.
          result_map Some (ok_or (parse_canonical_operation_id ul text)
            ''The x-xczs-operation-id header must be a canonical UUID''))
      | _ \<Rightarrow> Inl ''The x-xczs-operation-id header must appear exactly once'')"

section \<open>Requests to the store\<close>

text \<open>What an awaited store call comes to: the command was not accepted, the actor answered, or
  the reply channel was closed without an answer.\<close>

datatype 'a store_call = NotDispatched store_error | Answered "'a store_result" | ReplyLost

record OperationGuard =
  gd_key :: OperationKey
  gd_lease :: bytes
  gd_completed :: bool

datatype BeginOperation =
    BeginStarted OperationGuard
  | BeginIsRunning
  | BeginReplay OperationOutcome
  | BeginConflict
  | BeginFull
  | BeginUnavailable

datatype OperationStatus =
  StatusIsRunning | StatusIsCompleted OperationOutcome | StatusIsNotFound | StatusIsUnavailable

definition registry_begin ::
  "'h HttpLib \<Rightarrow> OperationKey \<Rightarrow> StoreBegin store_call \<Rightarrow> registry_error + BeginOperation" where
  "registry_begin lib key call =
     (case call of
        NotDispatched _ \<Rightarrow> Inr BeginUnavailable
      | ReplyLost \<Rightarrow> Inl RegistryReplyLost
      | Answered (Inl e) \<Rightarrow> Inl (RegistryStore e)
      | Answered (Inr stored) \<Rightarrow>
          (case stored of
             Started lease \<Rightarrow>
               Inr (BeginStarted \<lparr>gd_key = key, gd_lease = lease, gd_completed = False\<rparr>)
           | BeginRunning \<Rightarrow> Inr BeginIsRunning
           | Replay out \<Rightarrow> result_map BeginReplay (from_stored lib out)
           | Conflict \<Rightarrow> Inr BeginConflict
           | Full \<Rightarrow> Inr BeginFull))"

definition registry_status ::
  "'h HttpLib \<Rightarrow> StoreStatus store_call \<Rightarrow> registry_error + OperationStatus" where
  "registry_status lib call =
     (case call of
        Answered (Inr stored) \<Rightarrow>
          (case stored of
             StatusRunning \<Rightarrow> Inr StatusIsRunning
           | StatusCompleted out \<Rightarrow> result_map StatusIsCompleted (from_stored lib out)
           | StatusNotFound \<Rightarrow> Inr StatusIsNotFound)
      | _ \<Rightarrow> Inr StatusIsUnavailable)"

text \<open>The outcome of \<open>await?\<close> followed by the test of the returned flag.\<close>

definition reservation_kept :: "bool store_call \<Rightarrow> registry_error + unit" where
  "reservation_kept call =
     (case call of
        NotDispatched e \<Rightarrow> Inl (RegistryStore e)
      | ReplyLost \<Rightarrow> Inl RegistryReplyLost
      | Answered (Inl e) \<Rightarrow> Inl (RegistryStore e)
      | Answered (Inr kept) \<Rightarrow> ensure kept RegistryReservationLost)"

text \<open>\<open>mark_commit_started\<close>: the request it makes, if any, and its result.\<close>

definition guard_mark_request :: "OperationGuard \<Rightarrow> OperationRequest option" where
  "guard_mark_request g =
     (if gd_completed g then None else Some (RqMarkCommitStarted (gd_key g) (gd_lease g)))"

definition guard_mark :: "OperationGuard \<Rightarrow> bool store_call \<Rightarrow> registry_error + unit" where
  "guard_mark g call = (if gd_completed g then Inr () else reservation_kept call)"

text \<open>\<open>complete\<close> consumes the guard: the guard it returns here is the one that is dropped.\<close>

definition guard_complete_request ::
  "OperationGuard \<Rightarrow> OperationOutcome \<Rightarrow> OperationRequest option" where
  "guard_complete_request g out =
     map_option (RqComplete (gd_key g) (gd_lease g)) (into_stored out)"

definition guard_complete ::
  "OperationGuard \<Rightarrow> bool store_call \<Rightarrow> (registry_error + unit) \<times> OperationGuard" where
  "guard_complete g call =
     (case reservation_kept call of
        Inl e \<Rightarrow> (Inl e, g)
      | Inr _ \<Rightarrow> (Inr (), g\<lparr>gd_completed := True\<rparr>))"

definition guard_drop :: "OperationGuard \<Rightarrow> ControlCommand option" where
  "guard_drop g = (if gd_completed g then None else Some (Abandon (gd_key g) (gd_lease g)))"

section \<open>Responses\<close>

definition set_operation_headers ::
  "'h HttpLib \<Rightarrow> UuidLib \<Rightarrow> bytes \<Rightarrow> OperationPublicState \<Rightarrow> 'h Response \<Rightarrow> 'h Response" where
  "set_operation_headers lib ul uuid state res =
     res\<lparr>res_headers := http_insert lib ''x-xczs-operation-state'' (operation_wire_name state)
        (http_insert lib ''x-xczs-operation-id'' (uuid_hyphenated ul uuid) (res_headers res))\<rparr>"

text \<open>\<open>OperationBody\<close> and \<open>JobBody\<close> differ in the name of their first member only.\<close>

definition body_members ::
  "string \<Rightarrow> string \<Rightarrow> OperationPublicState \<Rightarrow> u16 option \<Rightarrow> ErrorCode option \<Rightarrow> string option \<Rightarrow>
   (string \<times> json) list" where
  "body_members id_name uuid state http_status code detail =
     [(id_name, JString uuid), (''state'', JString (operation_wire_name state))]
     @ opt_member ''http_status'' (\<lambda>n. JNumber (unat n)) http_status
     @ opt_member ''code'' JString code
     @ opt_member ''detail'' JString detail"

definition set_json_body ::
  "'h HttpLib \<Rightarrow> json_text \<Rightarrow> (string \<times> json) list \<Rightarrow> 'h Response \<Rightarrow>
   (render_error + unit) \<times> 'h Response" where
  "set_json_body lib to_vec members res =
     (let res1 = res\<lparr>res_headers :=
            http_insert lib ''content-type'' ''application/json'' (res_headers res)\<rparr>
      in (case to_vec members of
            None \<Rightarrow> (Inl RenderSerialize, res1)
          | Some out \<Rightarrow> (Inr (), res1\<lparr>res_body := out\<rparr>)))"

definition operation_context ::
  "UuidLib \<Rightarrow> bytes \<Rightarrow> OperationPublicState \<Rightarrow> u16 option \<Rightarrow> OperationProblemContext" where
  "operation_context ul uuid state status =
     \<lparr>oc_operation_id = uuid_hyphenated ul uuid, oc_state = state, oc_http_status = status\<rparr>"

definition apply_operation_outcome ::
  "'h HttpLib \<Rightarrow> UuidLib \<Rightarrow> json_text \<Rightarrow> bytes \<Rightarrow> OperationOutcome \<Rightarrow> bool \<Rightarrow> 'h Response \<Rightarrow>
   (render_error + unit) \<times> 'h Response" where
  "apply_operation_outcome lib ul to_vec uuid out replayed res =
     (let res1 = set_operation_headers lib ul uuid (oo_state out) res;
          res2 = (if replayed then res1\<lparr>res_headers :=
              http_insert lib ''x-xczs-operation-replayed'' ''true'' (res_headers res1)\<rparr> else res1)
      in (case oo_error out of
            Some e \<Rightarrow>
              render_problem lib to_vec
                (with_operation (operation_context ul uuid (oo_state out) (Some (oo_status out)))
                  (with_recovery (tracked_recovery e)
                    (api_error (oo_status out) (tracked_code e) (tracked_detail e)))) res2
          | None \<Rightarrow> (Inr (), res2\<lparr>res_status := oo_status out\<rparr>)))"

definition apply_running ::
  "'h HttpLib \<Rightarrow> UuidLib \<Rightarrow> json_text \<Rightarrow> bytes \<Rightarrow> 'h Response \<Rightarrow>
   (render_error + unit) \<times> 'h Response" where
  "apply_running lib ul to_vec uuid res =
     (let res1 = set_operation_headers lib ul uuid OperationRunning (res\<lparr>res_status := 202\<rparr>);
          res2 = res1\<lparr>res_headers := http_insert lib ''retry-after'' ''1'' (res_headers res1)\<rparr>
      in set_json_body lib to_vec
           (body_members ''operation_id'' (uuid_hyphenated ul uuid) OperationRunning None
             (Some ''operation_in_progress'') (Some ''Operation is still running'')) res2)"

definition apply_rejected ::
  "'h HttpLib \<Rightarrow> UuidLib \<Rightarrow> json_text \<Rightarrow> bytes \<Rightarrow> ApiError \<Rightarrow> 'h Response \<Rightarrow>
   (render_error + unit) \<times> 'h Response" where
  "apply_rejected lib ul to_vec uuid e res =
     render_problem lib to_vec
       (with_operation (operation_context ul uuid OperationRejected None) e)
       (set_operation_headers lib ul uuid OperationRejected res)"

definition apply_conflict ::
  "'h HttpLib \<Rightarrow> UuidLib \<Rightarrow> json_text \<Rightarrow> bytes \<Rightarrow> 'h Response \<Rightarrow>
   (render_error + unit) \<times> 'h Response" where
  "apply_conflict lib ul to_vec uuid =
     apply_rejected lib ul to_vec uuid
       (api_error 409 ''operation_id_conflict''
         ''Operation ID was already used for a different request'')"

definition apply_registry_full ::
  "'h HttpLib \<Rightarrow> UuidLib \<Rightarrow> json_text \<Rightarrow> bytes \<Rightarrow> 'h Response \<Rightarrow>
   (render_error + unit) \<times> 'h Response" where
  "apply_registry_full lib ul to_vec uuid =
     apply_rejected lib ul to_vec uuid
       (with_recovery (RetryAfterSeconds 1)
         (api_error 503 ''operation_registry_full'' ''Operation registry is temporarily full''))"

definition apply_registry_unavailable ::
  "'h HttpLib \<Rightarrow> UuidLib \<Rightarrow> json_text \<Rightarrow> bytes \<Rightarrow> 'h Response \<Rightarrow>
   (render_error + unit) \<times> 'h Response" where
  "apply_registry_unavailable lib ul to_vec uuid =
     apply_rejected lib ul to_vec uuid
       (with_recovery (RetryAfterSeconds 1)
         (api_error 503 ''operation_store_unavailable''
           ''Operation state store is temporarily unavailable''))"

definition apply_status ::
  "'h HttpLib \<Rightarrow> UuidLib \<Rightarrow> json_text \<Rightarrow> bytes \<Rightarrow> OperationStatus \<Rightarrow> 'h Response \<Rightarrow>
   (render_error + unit) \<times> 'h Response" where
  "apply_status lib ul to_vec uuid status res =
     (case status of
        StatusIsRunning \<Rightarrow>
          set_json_body lib to_vec
            (body_members ''job_id'' (uuid_hyphenated ul uuid) OperationRunning None None None)
            (set_operation_headers lib ul uuid OperationRunning (res\<lparr>res_status := 200\<rparr>))
      | StatusIsCompleted out \<Rightarrow>
          set_json_body lib to_vec
            (body_members ''job_id'' (uuid_hyphenated ul uuid) (oo_state out)
              (Some (oo_status out)) (map_option tracked_code (oo_error out))
              (map_option tracked_detail (oo_error out)))
            (set_operation_headers lib ul uuid (oo_state out) (res\<lparr>res_status := 200\<rparr>))
      | StatusIsNotFound \<Rightarrow>
          render_problem lib to_vec
            (with_operation (operation_context ul uuid OperationUnknown None)
              (with_recovery RefreshTarget (api_error 404 ''job_not_found'' ''Job not found'')))
            (set_operation_headers lib ul uuid OperationUnknown res)
      | StatusIsUnavailable \<Rightarrow>
          render_problem lib to_vec
            (with_operation (operation_context ul uuid OperationUnknown None)
              (with_recovery (RetryAfterSeconds 1)
                (api_error 503 ''job_store_unavailable''
                  ''Job state store is temporarily unavailable'')))
            (set_operation_headers lib ul uuid OperationUnknown res))"

definition apply_invalid_id ::
  "'h HttpLib \<Rightarrow> json_text \<Rightarrow> string \<Rightarrow> 'h Response \<Rightarrow> (render_error + unit) \<times> 'h Response" where
  "apply_invalid_id lib to_vec message =
     render_problem lib to_vec (api_error 400 ''invalid_operation_id'' message)"

definition apply_invalid_job_id ::
  "'h HttpLib \<Rightarrow> json_text \<Rightarrow> string \<Rightarrow> 'h Response \<Rightarrow> (render_error + unit) \<times> 'h Response" where
  "apply_invalid_job_id lib to_vec detail =
     render_problem lib to_vec (api_error 400 ''invalid_job_id'' detail)"

definition apply_unknown ::
  "'h HttpLib \<Rightarrow> UuidLib \<Rightarrow> json_text \<Rightarrow> bytes \<Rightarrow> u16 \<Rightarrow> ErrorCode \<Rightarrow> string \<Rightarrow> 'h Response \<Rightarrow>
   (render_error + unit) \<times> 'h Response" where
  "apply_unknown lib ul to_vec uuid status code message res =
     render_problem lib to_vec
       (with_operation (operation_context ul uuid OperationUnknown None)
         (with_recovery QueryJob (api_error status code message)))
       (set_operation_headers lib ul uuid OperationUnknown res)"

section \<open>Outcomes survive the store\<close>

lemma tracked_from_code [simp]: "tracked_from_wire_name (tracked_code e) = Some e"
  by (cases e) (simp_all add: tracked_from_wire_name_def)

lemma tracked_code_chars:
  "1 \<le> chars_count (tracked_code e) \<and> chars_count (tracked_code e) \<le> max_error_code_chars
   \<and> CHR 0x00 \<notin> set (tracked_code e)"
  by (cases e) (simp_all add: chars_count_def max_error_code_chars_def)

text \<open>The outcomes the handlers build, with the conditions of their debug assertions; a failure
  carries one of the error status codes of the server.\<close>

inductive outcome_made :: "'h HttpLib \<Rightarrow> OperationOutcome \<Rightarrow> bool" for lib where
  made_success: "http_is_success lib s \<Longrightarrow> outcome_made lib (outcome_success s)"
| made_failure: "\<not> http_is_success lib s \<Longrightarrow> 100 \<le> s \<Longrightarrow> s \<le> 599 \<Longrightarrow>
    outcome_made lib (outcome_failure s e)"
| made_uncertain: "outcome_made lib outcome_uncertain"

lemma stored_roundtrip:
  assumes lib: "http_laws lib" and made: "outcome_made lib out"
  shows "\<exists>stored. into_stored out = Some stored \<and> outcome_storable stored
    \<and> from_stored lib stored = Inr out"
  using made
proof cases
  case (made_success s)
  then have "200 \<le> s" "s \<le> 299" using http_status(2) [OF lib] by auto
  then have "100 \<le> s" "s \<le> 599" "s \<le> 999" by (auto simp: word_le_nat_alt)
  with made_success \<open>200 \<le> s\<close> \<open>s \<le> 299\<close> show ?thesis
    by (auto simp: outcome_success_def into_stored_def from_stored_def public_of_stored_def Let_def
        outcome_storable_def validate_outcome_def http_status [OF lib])
next
  case (made_failure s e)
  then have "\<not> (200 \<le> s \<and> s \<le> 299)" using http_status(2) [OF lib] by auto
  moreover have "s \<le> 999" using made_failure(4) by (auto simp: word_le_nat_alt)
  ultimately show ?thesis using made_failure tracked_code_chars [of e]
    by (auto simp: outcome_failure_def into_stored_def from_stored_def public_of_stored_def Let_def
        outcome_storable_def validate_outcome_def http_status [OF lib])
next
  case made_uncertain
  then show ?thesis
    using tracked_code_chars [of TrackedOutcomeUncertain] tracked_from_code [of TrackedOutcomeUncertain]
    by (auto simp: outcome_uncertain_def into_stored_def from_stored_def public_of_stored_def Let_def
        outcome_storable_def validate_outcome_def http_status [OF lib])
qed

text \<open>The outcome that recovery and abandoned commits write is the uncertain outcome.\<close>

lemma uncertain_outcome_public:
  "http_laws lib \<Longrightarrow> from_stored lib uncertain_outcome = Inr outcome_uncertain"
  by (simp add: from_stored_def uncertain_outcome_def UNKNOWN_STATUS_def UNKNOWN_CODE_def
      public_of_stored_def Let_def http_status outcome_uncertain_def tracked_from_wire_name_def)

text \<open>C20: What a request was told is what every repetition of it is told.  When a handler completes
  a reserved operation with one of the outcomes it can build, the facade accepts the stored form,
  the ledger keeps it, and until its lifetime ends the registry answers a repeated \<open>begin\<close> with
  that very outcome (status, public state and error) and reports it to a status query; a request
  with another fingerprint is a conflict.  The outcome written by recovery is shown as
  \<open>outcome_uncertain\<close>.\<close>

theorem completed_outcome_is_replayed:
  assumes lib: "http_laws lib" and made: "outcome_made lib out"
    and inv: "operations_inv t"
    and held: "operation_view t k \<in> {ReservedBy fp lease, CommittingBy fp lease}"
    and time: "is_i64 (now + lim_ttl_ms l)" and later: "now' < now + lim_ttl_ms l"
    and k: "key_ok k" and fp': "length fp' = 32" and lease': "length lease' = 16"
  shows "\<exists>stored t1 b t2 s t3.
    guard_complete_request \<lparr>gd_key = k, gd_lease = lease, gd_completed = False\<rparr> out =
      Some (RqComplete k lease stored)
    \<and> operation_request (RqComplete k lease stored) = Inr (Complete k lease stored)
    \<and> complete_operation l now k lease stored t = Inr (True, t1)
    \<and> begin_operation l now' lease' k fp' t1 = Inr (b, t2)
    \<and> registry_begin lib k (Answered (Inr b)) =
        Inr (if fp' = fp then BeginReplay out else BeginConflict)
    \<and> operation_status now' k t1 = Inr (s, t3)
    \<and> registry_status lib (Answered (Inr s)) = Inr (StatusIsCompleted out)
    \<and> from_stored lib uncertain_outcome = Inr outcome_uncertain"
proof -
  obtain stored where s: "into_stored out = Some stored" "outcome_storable stored"
    "from_stored lib stored = Inr out"
    using stored_roundtrip [OF lib made] by blast
  obtain t1 where c: "complete_operation l now k lease stored t = Inr (True, t1)"
    and inv1: "operations_inv t1"
    and v1: "operation_view t1 k = Done fp stored (now + lim_ttl_ms l)"
    using complete_refines [OF inv s(2) time, of k lease] held by auto
  obtain b t2 where b: "begin_operation l now' lease' k fp' t1 = Inr (b, t2)"
    "b = (if fp' = fp then Replay stored else Conflict)"
    using begin_refines [OF inv1 k fp' lease', of l now'] v1 later by (auto split: if_splits)
  have st: "operation_status now' k t1 = Inr (StatusCompleted stored, purge_expired now' t1)"
    using status_refines [OF inv1, of now' k] v1 later by auto
  have "operation_request (RqComplete k lease stored) = Inr (Complete k lease stored)"
    using s(2) by (simp add: outcome_storable_def)
  with s c b st uncertain_outcome_public [OF lib] show ?thesis
    by (intro exI [of _ stored] exI [of _ t1] exI [of _ b] exI [of _ t2]
        exI [of _ "StatusCompleted stored"] exI [of _ "purge_expired now' t1"])
      (auto simp: guard_complete_request_def registry_begin_def registry_status_def)
qed

theorem completed_outcome_is_replayed_witness:
  "\<exists>stored t1 b t2.
    complete_operation sample_limits 150 sample_key (replicate 16 9) stored sample_reserved = Inr (True, t1)
    \<and> begin_operation sample_limits 1149 (replicate 16 3) sample_key (replicate 32 7) t1 = Inr (b, t2)
    \<and> registry_begin sample_http sample_key (Answered (Inr b)) =
        Inr (BeginReplay (outcome_failure 409 TrackedPathExists))"
proof -
  have made: "outcome_made sample_http (outcome_failure 409 TrackedPathExists)"
    by (rule made_failure) (simp_all add: sample_http_def)
  show ?thesis
    using completed_outcome_is_replayed [OF sample_http_laws made sample_reserved_inv,
        of sample_key "replicate 32 7" "replicate 16 9" 150 sample_limits 1149 "replicate 32 7"
        "replicate 16 3"]
    by (simp add: sample_reserved_view key_ok_def is_i64_def i64_min_def i64_max_def) blast
qed

text \<open>Dropping a guard never takes back a completion.  Whatever the caller learned from its
  \<open>complete\<close> call (an answer, an error, or no reply at all), if the ledger executed it the
  reservation is done with that outcome, and the abandon command that the dropped guard may still
  send leaves it so.  The guard sends no abandon exactly when the caller knows of the success.\<close>

theorem completion_survives_guard_drop:
  assumes inv: "operations_inv t" and out: "outcome_storable stored"
    and held: "operation_view t k \<in> {ReservedBy fp lease, CommittingBy fp lease}"
    and times: "is_i64 (now + lim_ttl_ms l)" "is_i64 (now' + lim_ttl_ms l)"
  shows "\<exists>t1. complete_operation l now k lease stored t = Inr (True, t1)
    \<and> (\<forall>call. case guard_drop (snd (guard_complete
          \<lparr>gd_key = k, gd_lease = lease, gd_completed = False\<rparr> call)) of
        None \<Rightarrow> call = Answered (Inr True) \<and> operation_view t1 k = Done fp stored (now + lim_ttl_ms l)
      | Some c \<Rightarrow> call \<noteq> Answered (Inr True) \<and> c = Abandon k lease \<and>
          (\<exists>t2. abandon_operation l now' k lease t1 = Inr t2
             \<and> operation_view t2 k = Done fp stored (now + lim_ttl_ms l)))"
proof -
  obtain t1 where c: "complete_operation l now k lease stored t = Inr (True, t1)"
    and inv1: "operations_inv t1"
    and v1: "operation_view t1 k = Done fp stored (now + lim_ttl_ms l)"
    using complete_refines [OF inv out times(1), of k lease] held by auto
  obtain t2 where "abandon_operation l now' k lease t1 = Inr t2"
    "operation_view t2 k = Done fp stored (now + lim_ttl_ms l)"
    using abandon_refines [OF inv1 times(2), of k lease] v1 by auto
  with c v1 show ?thesis
    by (auto simp: guard_drop_def guard_complete_def reservation_kept_def ensure_def
        split: store_call.splits sum.splits)
qed

theorem completion_survives_guard_drop_witness:
  "\<exists>t1 t2. complete_operation sample_limits 150 sample_key (replicate 16 9) sample_outcome
        sample_reserved = Inr (True, t1)
    \<and> abandon_operation sample_limits 160 sample_key (replicate 16 9) t1 = Inr t2
    \<and> operation_view t2 sample_key = Done (replicate 32 7) sample_outcome 1150"
proof -
  obtain t1 where c: "complete_operation sample_limits 150 sample_key (replicate 16 9) sample_outcome
        sample_reserved = Inr (True, t1)"
    and d: "\<forall>call. case guard_drop (snd (guard_complete
          \<lparr>gd_key = sample_key, gd_lease = replicate 16 9, gd_completed = False\<rparr> call)) of
        None \<Rightarrow> call = Answered (Inr True)
          \<and> operation_view t1 sample_key = Done (replicate 32 7) sample_outcome (150 + lim_ttl_ms sample_limits)
      | Some c \<Rightarrow> call \<noteq> Answered (Inr True) \<and> c = Abandon sample_key (replicate 16 9) \<and>
          (\<exists>t2. abandon_operation sample_limits 160 sample_key (replicate 16 9) t1 = Inr t2
             \<and> operation_view t2 sample_key = Done (replicate 32 7) sample_outcome (150 + lim_ttl_ms sample_limits))"
    using completion_survives_guard_drop [OF sample_reserved_inv, of sample_outcome sample_key
        "replicate 32 7" "replicate 16 9" 150 sample_limits 160]
    by (auto simp: sample_reserved_view outcome_storable_def validate_outcome_ok is_i64_def
        i64_min_def i64_max_def)
  from d [rule_format, of ReplyLost] c show ?thesis
    by (auto simp: guard_complete_def reservation_kept_def guard_drop_def)
qed

section \<open>Requests are told apart\<close>

lemma fingerprint_input_Cons:
  "fingerprint_input (p # ps) = to_be_bytes (of_nat (length p)) @ p @ fingerprint_input ps"
  by (simp add: fingerprint_input_def)

lemma fingerprint_input_inject:
  "\<forall>p\<in>set ps. length p < 2 ^ 64 \<Longrightarrow> \<forall>q\<in>set qs. length q < 2 ^ 64 \<Longrightarrow>
    fingerprint_input ps = fingerprint_input qs \<Longrightarrow> ps = qs"
proof (induction ps arbitrary: qs)
  case Nil
  then show ?case by (cases qs) (auto simp: fingerprint_input_def dest: arg_cong [of _ _ length])
next
  case (Cons p ps)
  then obtain q qs' where q: "qs = q # qs'"
    by (cases qs) (auto simp: fingerprint_input_def dest: arg_cong [of _ _ length])
  with Cons.prems(3) have "to_be_bytes (of_nat (length p)) = to_be_bytes (of_nat (length q))"
    and rest: "p @ fingerprint_input ps = q @ fingerprint_input qs'"
    by (auto simp: fingerprint_input_Cons append_eq_append_conv)
  then have "(of_nat (length p) :: u64) = of_nat (length q)"
    by (simp only: to_be_bytes_inject)
  moreover have "unat (of_nat (length p) :: u64) = length p" "unat (of_nat (length q) :: u64) = length q"
    using Cons.prems(1,2) q by (simp_all add: unat_of_nat)
  ultimately have "length p = length q" by metis
  with rest have "p = q" "fingerprint_input ps = fingerprint_input qs'" by auto
  with Cons q show ?case by simp
qed

text \<open>C21: A fingerprint identifies the request it was computed from.  Unless the two hashed byte
  strings are a collision of SHA-256, two lists of parts (method, target, revision or body) have
  equal fingerprints exactly when they are equal: the length prefixes rule out that moving bytes
  from one part to the next, or adding an empty part, goes unnoticed.\<close>

theorem fingerprint_separates_requests:
  assumes "\<forall>p\<in>set ps. length p < 2 ^ 64" and "\<forall>q\<in>set qs. length q < 2 ^ 64"
    and "sha256 (fingerprint_input ps) = sha256 (fingerprint_input qs) \<longrightarrow>
      fingerprint_input ps = fingerprint_input qs"
  shows "operation_fingerprint sha256 ps = operation_fingerprint sha256 qs \<longleftrightarrow> ps = qs"
  using fingerprint_input_inject [OF assms(1,2)] assms(3)
  by (auto simp: operation_fingerprint_def)

theorem fingerprint_separates_requests_witness:
  "operation_fingerprint (\<lambda>x. take 32 (x @ replicate 32 0)) [[1], [2]] \<noteq>
    operation_fingerprint (\<lambda>x. take 32 (x @ replicate 32 0)) [[1, 2], []]"
  using fingerprint_separates_requests
    [of "[[1], [2]]" "[[1, 2], []]" "\<lambda>x. take 32 (x @ replicate 32 0)"]
  by (simp add: fingerprint_input_def to_be_bytes_inject)

section \<open>What the client sees\<close>

lemma replayed_header:
  assumes "http_laws lib"
  shows "http_get_all lib (res_headers (set_operation_headers lib ul uuid state res)) name =
    (if name = ''x-xczs-operation-state'' then [operation_wire_name state]
     else if name = ''x-xczs-operation-id'' then [uuid_hyphenated ul uuid]
     else http_get_all lib (res_headers res) name)"
  by (simp add: set_operation_headers_def http_headers [OF assms])

lemma set_operation_headers_sel [simp]:
  "res_status (set_operation_headers lib ul uuid state res) = res_status res"
  "res_body (set_operation_headers lib ul uuid state res) = res_body res"
  by (simp_all add: set_operation_headers_def)

text \<open>The error a failed operation is reported with.\<close>

definition outcome_error ::
  "UuidLib \<Rightarrow> bytes \<Rightarrow> OperationOutcome \<Rightarrow> TrackedOperationError \<Rightarrow> ApiError" where
  "outcome_error ul uuid out e =
     with_operation (operation_context ul uuid (oo_state out) (Some (oo_status out)))
       (with_recovery (tracked_recovery e)
         (api_error (oo_status out) (tracked_code e) (tracked_detail e)))"

lemma outcome_error_sel:
  "api_error_built (outcome_error ul uuid out e)"
  "ae_status (outcome_error ul uuid out e) = oo_status out"
  unfolding outcome_error_def
  by (intro api_error_built.intros) (simp add: api_error_builders)

lemma apply_outcome_result:
  assumes lib: "http_laws lib" and total: "\<forall>ms. to_vec ms \<noteq> None"
  shows "\<exists>f. \<forall>replayed.
      apply_operation_outcome lib ul to_vec uuid out replayed res = (Inr (), f replayed)
      \<and> res_status (f replayed) = oo_status out
      \<and> res_body (f replayed) = res_body (f False)
      \<and> (\<forall>name. http_get_all lib (res_headers (f replayed)) name =
           (if name = ''x-xczs-operation-replayed'' \<and> replayed then [''true'']
            else http_get_all lib (res_headers (f False)) name))"
proof -
  let ?r = "set_operation_headers lib ul uuid (oo_state out) res"
  let ?r1 = "\<lambda>replayed. if replayed then ?r\<lparr>res_headers :=
      http_insert lib ''x-xczs-operation-replayed'' ''true'' (res_headers ?r)\<rparr> else ?r"
  show ?thesis
  proof (cases "oo_error out")
    case None
    then show ?thesis
      by (intro exI [of _ "\<lambda>replayed. (?r1 replayed)\<lparr>res_status := oo_status out\<rparr>"])
        (auto simp: apply_operation_outcome_def Let_def http_headers [OF lib])
  next
    case (Some e)
    let ?e = "outcome_error ul uuid out e"
    obtain d o1 where d: "problem_details lib ?e = Some d" "to_vec (problem_members d) = Some o1"
      using render_problem_ok [OF lib outcome_error_sel(1) total] by blast
    have r: "render_problem lib to_vec ?e res' = (Inr (), problem_response lib ?e o1 res')" for res'
      using render_problem_ok [OF lib outcome_error_sel(1) total, of ul uuid out e res'] d by auto
    show ?thesis
      by (intro exI [of _ "\<lambda>replayed. problem_response lib ?e o1 (?r1 replayed)"])
        (auto simp: apply_operation_outcome_def Some outcome_error_def [symmetric] r
          problem_response_headers [OF lib] outcome_error_sel Let_def http_headers [OF lib])
  qed
qed

text \<open>C22: A repeated request gets the response of the original one.  For every outcome, rendering
  it as a replay succeeds with the status, the body and every header of the original rendering; the
  only difference is the header that marks it as replayed.\<close>

theorem replayed_response_is_identical:
  assumes lib: "http_laws lib" and total: "\<forall>ms. to_vec ms \<noteq> None"
  shows "\<exists>res0 res1.
    apply_operation_outcome lib ul to_vec uuid out False res = (Inr (), res0)
    \<and> apply_operation_outcome lib ul to_vec uuid out True res = (Inr (), res1)
    \<and> res_status res0 = oo_status out \<and> res_status res1 = res_status res0
    \<and> res_body res1 = res_body res0
    \<and> (\<forall>name. name \<noteq> ''x-xczs-operation-replayed'' \<longrightarrow>
         http_get_all lib (res_headers res1) name = http_get_all lib (res_headers res0) name)
    \<and> http_get_all lib (res_headers res1) ''x-xczs-operation-replayed'' = [''true'']"
proof -
  from apply_outcome_result [OF assms, of ul uuid out res] obtain f where f: "\<forall>replayed.
      apply_operation_outcome lib ul to_vec uuid out replayed res = (Inr (), f replayed)
      \<and> res_status (f replayed) = oo_status out
      \<and> res_body (f replayed) = res_body (f False)
      \<and> (\<forall>name. http_get_all lib (res_headers (f replayed)) name =
           (if name = ''x-xczs-operation-replayed'' \<and> replayed then [''true'']
            else http_get_all lib (res_headers (f False)) name))"
    by blast
  show ?thesis
    using f [rule_format, of False] f [rule_format, of True]
    by (intro exI [of _ "f False"] exI [of _ "f True"]) auto
qed

theorem replayed_response_is_identical_witness:
  "\<exists>res1. apply_operation_outcome sample_http sample_uuid (\<lambda>_. Some [1]) (replicate 16 0)
      (outcome_failure 409 TrackedPathExists) True
      \<lparr>res_status = 200, res_headers = [], res_body = []\<rparr> = (Inr (), res1)
    \<and> res_status res1 = 409
    \<and> http_get_all sample_http (res_headers res1) ''x-xczs-operation-replayed'' = [''true'']"
  using replayed_response_is_identical [OF sample_http_laws, of "\<lambda>_. Some [1]" sample_uuid
      "replicate 16 0" "outcome_failure 409 TrackedPathExists"
      "\<lparr>res_status = 200, res_headers = [], res_body = []\<rparr>"]
  by (auto simp: outcome_failure_def)

end
