(* ===== verification/Upload_Protocol.thy ===== *)
theory Upload_Protocol
  imports Operation_Registry
begin

text \<open>
  The wire protocol of uploads (\<open>src/src/server/upload/protocol.rs\<close>) and the revision that binds
  an upload to the target it may replace (\<open>src/src/server/upload/target.rs\<close>, with the file
  identity of \<open>src/src/server/rooted_fs.rs\<close>).
\<close>

section \<open>Target identity and revision\<close>

datatype FileType =
    RegularFile | DirectoryFile | SymlinkFileType | FifoFile | SocketFile | CharacterDevice
  | BlockDevice | UnknownFile

record ExistingReplacementTarget =
  et_device :: u64
  et_inode :: u64
  et_file_type :: FileType
  et_links :: u64
  et_size :: i64
  et_uid :: u32
  et_gid :: u32
  et_mode :: u32
  et_modified_seconds :: i64
  et_modified_nanoseconds :: u64
  et_changed_seconds :: i64
  et_changed_nanoseconds :: u64

datatype ReplacementTargetIdentity = Missing | Existing ExistingReplacementTarget

fun identity_exists :: "ReplacementTargetIdentity \<Rightarrow> bool" where
  "identity_exists Missing = False"
| "identity_exists (Existing _) = True"

definition is_replaceable :: "ReplacementTargetIdentity \<Rightarrow> bool" where
  "is_replaceable i =
     (case i of
        Missing \<Rightarrow> True
      | Existing t \<Rightarrow>
          (case et_file_type t of
             SymlinkFileType \<Rightarrow> True
           | RegularFile \<Rightarrow> et_links t = 1 \<and> et_mode t AND 0xC00 = 0
           | _ \<Rightarrow> False))"

fun file_type_revision_tag :: "FileType \<Rightarrow> bytes" where
  "file_type_revision_tag RegularFile = [1]"
| "file_type_revision_tag DirectoryFile = [2]"
| "file_type_revision_tag SymlinkFileType = [3]"
| "file_type_revision_tag BlockDevice = [4]"
| "file_type_revision_tag CharacterDevice = [5]"
| "file_type_revision_tag FifoFile = [6]"
| "file_type_revision_tag SocketFile = [7]"
| "file_type_revision_tag UnknownFile = [255]"

definition u32_be_bytes :: "u32 \<Rightarrow> bytes" where
  "u32_be_bytes w = map (\<lambda>i. ucast (drop_bit (8 * i) w)) [3, 2, 1, 0]"

definition i64_be_bytes :: "i64 \<Rightarrow> bytes" where
  "i64_be_bytes n = to_be_bytes (of_int n)"

fun update_revision_digest :: "ReplacementTargetIdentity \<Rightarrow> bytes" where
  "update_revision_digest Missing = [0]"
| "update_revision_digest (Existing t) =
     [1] @ to_be_bytes (et_device t) @ to_be_bytes (et_inode t) @
     file_type_revision_tag (et_file_type t) @
     to_be_bytes (et_links t) @ i64_be_bytes (et_size t) @
     u32_be_bytes (et_uid t) @ u32_be_bytes (et_gid t) @ u32_be_bytes (et_mode t) @
     i64_be_bytes (et_modified_seconds t) @ to_be_bytes (et_modified_nanoseconds t) @
     i64_be_bytes (et_changed_seconds t) @ to_be_bytes (et_changed_nanoseconds t)"

text \<open>What is hashed: the domain, the owner, the path behind its length, and the identity.\<close>

definition revision_input :: "bytes \<Rightarrow> bytes \<Rightarrow> ReplacementTargetIdentity \<Rightarrow> bytes" where
  "revision_input owner_id path identity =
     str_bytes ''xczs-upload-target-revision-v1'' @ [0] @ owner_id @
     to_be_bytes (of_nat (length path)) @ path @ update_revision_digest identity"

definition target_revision ::
  "(bytes \<Rightarrow> bytes) \<Rightarrow> bytes \<Rightarrow> bytes \<Rightarrow> ReplacementTargetIdentity \<Rightarrow> bytes option" where
  "target_revision sha256 owner_id path identity =
     (if \<not> identity_exists identity then None
      else Some (sha256 (revision_input owner_id path identity)))"

record UploadTargetInspection =
  ti_exists :: bool
  ti_replaceable :: bool
  ti_revision :: "bytes option"

definition inspect_target_identity ::
  "(bytes \<Rightarrow> bytes) \<Rightarrow> bytes \<Rightarrow> bytes \<Rightarrow> ReplacementTargetIdentity \<Rightarrow> UploadTargetInspection" where
  "inspect_target_identity sha256 owner_id path identity =
     \<lparr>ti_exists = identity_exists identity,
      ti_replaceable = is_replaceable identity,
      ti_revision = target_revision sha256 owner_id path identity\<rparr>"

section \<open>Headers\<close>

definition UPLOAD_ID_HEADER :: string where "UPLOAD_ID_HEADER = ''x-xczs-upload-id''"
definition UPLOAD_LENGTH_HEADER :: string where "UPLOAD_LENGTH_HEADER = ''x-xczs-upload-length''"
definition UPLOAD_OFFSET_HEADER :: string where "UPLOAD_OFFSET_HEADER = ''x-xczs-upload-offset''"
definition UPLOAD_OVERWRITE_HEADER :: string where
  "UPLOAD_OVERWRITE_HEADER = ''x-xczs-upload-overwrite''"
definition TARGET_REVISION_HEADER :: string where
  "TARGET_REVISION_HEADER = ''x-xczs-target-revision''"
definition TARGET_REPLACEABLE_HEADER :: string where
  "TARGET_REPLACEABLE_HEADER = ''x-xczs-target-replaceable''"
definition OPERATION_STATE_HEADER :: string where
  "OPERATION_STATE_HEADER = ''x-xczs-operation-state''"

lemmas upload_header_names = UPLOAD_ID_HEADER_def UPLOAD_LENGTH_HEADER_def UPLOAD_OFFSET_HEADER_def
  UPLOAD_OVERWRITE_HEADER_def TARGET_REVISION_HEADER_def TARGET_REPLACEABLE_HEADER_def
  OPERATION_STATE_HEADER_def

definition revision_encode :: "bytes \<Rightarrow> string" where
  "revision_encode r = encode_hex r"

definition revision_parse :: "string \<Rightarrow> bytes option" where
  "revision_parse s =
     (if length s = 64 \<and> list_all is_lower_hex s then decode_hex_to_slice s 32 else None)"

datatype UploadOverwritePolicy = NoReplace | IfUnchanged bytes

datatype UploadOverwriteParseError = OverwriteError string | RevisionError string

fun policy_revision :: "UploadOverwritePolicy \<Rightarrow> bytes option" where
  "policy_revision NoReplace = None"
| "policy_revision (IfUnchanged r) = Some r"

datatype UploadMode = Fresh | Resume u64

fun mode_offset :: "UploadMode \<Rightarrow> u64 option" where
  "mode_offset Fresh = None"
| "mode_offset (Resume offset) = Some offset"

text \<open>A text that is no legal header value ends the function with an error; the headers written
  before it are not tracked.\<close>

definition put_header ::
  "'h HttpLib \<Rightarrow> string \<Rightarrow> string \<Rightarrow> 'h \<Rightarrow> 'h option" where
  "put_header lib name v h =
     map_option (\<lambda>value. http_insert lib name value h) (http_value_from_str lib v)"

definition apply_target_inspection_headers ::
  "'h HttpLib \<Rightarrow> UploadTargetInspection \<Rightarrow> 'h \<Rightarrow> 'h option" where
  "apply_target_inspection_headers lib inspection h =
     map_option
       (http_insert lib TARGET_REPLACEABLE_HEADER
          (if ti_replaceable inspection then ''true'' else ''false''))
       (case ti_revision inspection of
          Some r \<Rightarrow> put_header lib TARGET_REVISION_HEADER (revision_encode r) h
        | None \<Rightarrow> Some (http_remove lib TARGET_REVISION_HEADER h))"

definition apply_upload_record_headers ::
  "'h HttpLib \<Rightarrow> UuidLib \<Rightarrow> bytes \<Rightarrow> u64 option \<Rightarrow> u64 option \<Rightarrow> UploadPublicState \<Rightarrow> 'h \<Rightarrow> 'h option" where
  "apply_upload_record_headers lib ul upload_id upload_length upload_offset state h =
     Option.bind (put_header lib UPLOAD_ID_HEADER (uuid_hyphenated ul upload_id) h) (\<lambda>h.
     let h = http_insert lib OPERATION_STATE_HEADER (upload_wire_name state) h in
     Option.bind (case upload_length of
         Some n \<Rightarrow> put_header lib UPLOAD_LENGTH_HEADER (decimal (unat n)) h
       | None \<Rightarrow> Some h) (\<lambda>h.
     case upload_offset of
       Some n \<Rightarrow> put_header lib UPLOAD_OFFSET_HEADER (decimal (unat n)) h
     | None \<Rightarrow> Some h))"

section \<open>Request headers\<close>

definition unique_upload_header :: "'h HttpLib \<Rightarrow> 'h \<Rightarrow> string \<Rightarrow> string + string option" where
  "unique_upload_header lib headers name =
     (case http_get_all lib headers name of
        [] \<Rightarrow> Inr None
      | [v] \<Rightarrow> Inr (Some v)
      | _ \<Rightarrow> Inl (''Duplicate '' @ name @ '' header''))"

definition id_byte_ok :: "nat \<times> char \<Rightarrow> bool" where
  "id_byte_ok ib = (case ib of (index, b) \<Rightarrow>
     if index \<in> {8, 13, 18, 23} then b = CHR ''-'' else is_lower_hex b)"

definition parse_upload_id :: "'h HttpLib \<Rightarrow> UuidLib \<Rightarrow> 'h \<Rightarrow> string + bytes option" where
  "parse_upload_id lib ul headers =
     result_bind (unique_upload_header lib headers UPLOAD_ID_HEADER) (\<lambda>found.
     case found of
       None \<Rightarrow> Inr None
     | Some v \<Rightarrow>
         result_bind (ok_or (http_to_str lib v) (''Invalid '' @ UPLOAD_ID_HEADER @ '' header'')) (\<lambda>s.
         if length s \<noteq> 36 \<or> \<not> list_all id_byte_ok (enumerate 0 s)
         then Inl (''Invalid '' @ UPLOAD_ID_HEADER @ '' header: expected a lowercase canonical UUID'')
         else result_map Some
           (ok_or (uuid_parse_str ul s) (''Invalid '' @ UPLOAD_ID_HEADER @ '' header''))))"

definition parse_canonical_u64 :: "'h HttpLib \<Rightarrow> string \<Rightarrow> string \<Rightarrow> string + u64" where
  "parse_canonical_u64 lib v name =
     result_bind (ok_or (http_to_str lib v) (''Invalid '' @ name @ '' header'')) (\<lambda>s.
     if s = [] \<or> \<not> list_all is_ascii_digit s \<or> (length s > 1 \<and> hd s = CHR ''0'')
     then Inl (''Invalid '' @ name @ '' header: expected canonical unsigned decimal digits'')
     else ok_or (parse_u64 s) (''Invalid '' @ name @ '' header''))"

definition parse_upload_length :: "'h HttpLib \<Rightarrow> 'h \<Rightarrow> string + u64 option" where
  "parse_upload_length lib headers =
     result_bind (unique_upload_header lib headers UPLOAD_LENGTH_HEADER) (\<lambda>found.
     case found of
       None \<Rightarrow> Inr None
     | Some v \<Rightarrow> result_map Some (parse_canonical_u64 lib v UPLOAD_LENGTH_HEADER))"

definition parse_upload_offset :: "'h HttpLib \<Rightarrow> 'h \<Rightarrow> string + u64 option" where
  "parse_upload_offset lib headers =
     result_bind (unique_upload_header lib headers UPLOAD_OFFSET_HEADER) (\<lambda>found.
     case found of
       None \<Rightarrow> Inr None
     | Some v \<Rightarrow> result_map Some (parse_canonical_u64 lib v UPLOAD_OFFSET_HEADER))"

text \<open>Prefixing an error.\<close>

fun map_err :: "('e \<Rightarrow> 'f) \<Rightarrow> 'e + 'a \<Rightarrow> 'f + 'a" where
  "map_err f (Inl e) = Inl (f e)"
| "map_err f (Inr x) = Inr x"

definition parse_upload_overwrite ::
  "'h HttpLib \<Rightarrow> 'h \<Rightarrow> UploadOverwriteParseError + UploadOverwritePolicy" where
  "parse_upload_overwrite lib headers =
     result_bind (map_err OverwriteError (unique_upload_header lib headers UPLOAD_OVERWRITE_HEADER)) (\<lambda>overwrite.
     result_bind (map_err RevisionError (unique_upload_header lib headers TARGET_REVISION_HEADER)) (\<lambda>revision.
     if overwrite = None \<or> overwrite = Some ''false'' then
       (if revision \<noteq> None
        then Inl (RevisionError (''The '' @ TARGET_REVISION_HEADER @ '' header requires '' @
          UPLOAD_OVERWRITE_HEADER @ '': true''))
        else Inr NoReplace)
     else if overwrite = Some ''true'' then
       result_bind (ok_or revision (RevisionError (''The '' @ TARGET_REVISION_HEADER @
         '' header is required when '' @ UPLOAD_OVERWRITE_HEADER @ '' is true''))) (\<lambda>revision.
       result_bind (ok_or (Option.bind (http_to_str lib revision) revision_parse)
         (RevisionError (''Invalid '' @ TARGET_REVISION_HEADER @
           '' header: expected 64 lowercase hexadecimal characters''))) (\<lambda>r.
       Inr (IfUnchanged r)))
     else Inl (OverwriteError (''Invalid '' @ UPLOAD_OVERWRITE_HEADER @
       '' header: expected true or false''))))"

section \<open>Lemmas on the digest input\<close>

lemma length_u32_be_bytes [simp]: "length (u32_be_bytes w) = 4"
  by (simp add: u32_be_bytes_def)

lemma u32_as_u64: "to_be_bytes (ucast (w :: u32)) = [0, 0, 0, 0] @ u32_be_bytes w"
proof -
  have hi: "(ucast (drop_bit n (ucast w :: u64)) :: byte) = 0" if "32 \<le> n" for n
    using that by (intro bit_word_eqI) (auto simp: bit_ucast_iff bit_drop_bit_eq bit_imp_le_length
        dest: bit_imp_le_length)
  have lo: "(ucast (drop_bit n (ucast w :: u64)) :: byte) = ucast (drop_bit n w)" for n
    by (intro bit_word_eqI) (auto simp: bit_ucast_iff bit_drop_bit_eq dest: bit_imp_le_length)
  show ?thesis by (simp add: to_be_bytes_def u32_be_bytes_def hi lo)
qed

lemma u32_be_bytes_inject: "u32_be_bytes a = u32_be_bytes b \<longleftrightarrow> a = b"
proof
  assume "u32_be_bytes a = u32_be_bytes b"
  then have "to_be_bytes (ucast a) = to_be_bytes (ucast b)" by (simp only: u32_as_u64)
  then have "(ucast a :: u64) = ucast b" by (simp only: to_be_bytes_inject)
  then have "unat (ucast a :: u64) = unat (ucast b :: u64)" by simp
  moreover have "unat (ucast w :: u64) = unat w" for w :: u32
    using unsigned_less [of w, where 'a = nat] by (simp add: unsigned_ucast_eq take_bit_nat_eq_self_iff)
  ultimately show "a = b" by (simp only: unsigned_word_eqI)
qed simp

lemma length_i64_be_bytes [simp]: "length (i64_be_bytes n) = 8"
  by (simp add: i64_be_bytes_def)

lemma i64_be_bytes_inject:
  assumes "is_i64 m" "is_i64 n" shows "i64_be_bytes m = i64_be_bytes n \<longleftrightarrow> m = n"
proof
  assume "i64_be_bytes m = i64_be_bytes n"
  then have "(of_int m :: u64) = of_int n" by (simp add: i64_be_bytes_def to_be_bytes_inject)
  then have "sint (of_int m :: u64) = sint (of_int n :: u64)" by simp
  with assms show "m = n"
    by (simp add: signed_of_int signed_take_bit_int_eq_self is_i64_def i64_min_def i64_max_def)
qed simp

lemma tag_inject: "file_type_revision_tag a = file_type_revision_tag b \<longleftrightarrow> a = b"
  by (cases a; cases b) simp_all

lemma length_tag [simp]: "length (file_type_revision_tag t) = 1"
  by (cases t) simp_all

definition identity_ok :: "ReplacementTargetIdentity \<Rightarrow> bool" where
  "identity_ok i = (case i of Missing \<Rightarrow> True | Existing t \<Rightarrow>
     is_i64 (et_size t) \<and> is_i64 (et_modified_seconds t) \<and> is_i64 (et_changed_seconds t))"

lemma update_revision_digest_inject:
  assumes "identity_ok i" "identity_ok j"
  shows "update_revision_digest i = update_revision_digest j \<longleftrightarrow> i = j"
  using assms
  by (cases i; cases j) (auto simp: identity_ok_def to_be_bytes_inject u32_be_bytes_inject
      i64_be_bytes_inject tag_inject intro: ExistingReplacementTarget.equality)

lemma revision_input_inject:
  assumes "length o1 = 32" "length o2 = 32" "length p1 < 2 ^ 64" "length p2 < 2 ^ 64"
    and "identity_ok i1" "identity_ok i2"
  shows "revision_input o1 p1 i1 = revision_input o2 p2 i2 \<longleftrightarrow> o1 = o2 \<and> p1 = p2 \<and> i1 = i2"
proof
  assume "revision_input o1 p1 i1 = revision_input o2 p2 i2"
  with assms(1,2) have o: "o1 = o2"
    and len: "to_be_bytes (of_nat (length p1)) = to_be_bytes (of_nat (length p2))"
    and rest: "p1 @ update_revision_digest i1 = p2 @ update_revision_digest i2"
    by (auto simp: revision_input_def)
  from len have "(of_nat (length p1) :: u64) = of_nat (length p2)" by (simp only: to_be_bytes_inject)
  moreover have "unat (of_nat (length p1) :: u64) = length p1" "unat (of_nat (length p2) :: u64) = length p2"
    using assms(3,4) by (simp_all add: unat_of_nat)
  ultimately have "length p1 = length p2" by metis
  with rest have "p1 = p2" "update_revision_digest i1 = update_revision_digest i2" by auto
  with o update_revision_digest_inject [OF assms(5,6)] show "o1 = o2 \<and> p1 = p2 \<and> i1 = i2" by simp
qed simp

section \<open>Lemmas on header values\<close>

lemma hex_printable: "list_all is_printable (encode_hex r)"
  using encode_hex_lower [of r]
  by (auto simp: list_all_iff is_lower_hex_def is_ascii_digit_def is_printable_def)

lemma revision_parse_iff: "revision_parse s = Some r \<longleftrightarrow> length r = 32 \<and> s = revision_encode r"
proof
  assume p: "revision_parse s = Some r"
  then have s: "length s = 64" "list_all is_lower_hex s" "decode_pairs s = Some r"
    by (auto simp: revision_parse_def decode_hex_to_slice_def split: if_splits)
  from encode_decode_pairs [OF _ s(2)] s show "length r = 32 \<and> s = revision_encode r"
    by (auto simp: revision_encode_def)
next
  assume "length r = 32 \<and> s = revision_encode r"
  then show "revision_parse s = Some r"
    by (auto simp: revision_parse_def revision_encode_def encode_hex_lower codec_simps)
qed

lemma canonical_u64_iff:
  assumes "http_laws lib"
  shows "parse_canonical_u64 lib v name = Inr n \<longleftrightarrow> v = decimal (unat n)"
proof
  assume p: "parse_canonical_u64 lib v name = Inr n"
  then have "http_to_str lib v = Some v"
    using http_headers(1) [OF assms] by (auto simp: parse_canonical_u64_def)
  with p have v: "canonical_digits v" "parse_u64 v = Some n"
    by (auto simp: parse_canonical_u64_def canonical_digits_def split: if_splits)
  then have "unat n = digits_value 0 v"
    using parse_u64_digits [of v] by (auto simp: canonical_digits_def unat_of_nat split: if_splits)
  with decimal_of_digits [OF v(1)] show "v = decimal (unat n)" by simp
next
  assume v: "v = decimal (unat n)"
  then show "parse_canonical_u64 lib v name = Inr n"
    using http_headers(2) [OF assms, of v] decimal_canonical [of "unat n"]
    by (auto simp: parse_canonical_u64_def canonical_digits_def)
qed

lemma unique_header_iff:
  "unique_upload_header lib h name = Inr (Some v) \<longleftrightarrow> http_get_all lib h name = [v]"
  "unique_upload_header lib h name = Inr None \<longleftrightarrow> http_get_all lib h name = []"
  by (auto simp: unique_upload_header_def split: list.splits)

lemma cut_at:
  assumes "length s = Suc (n + m)"
  shows "\<exists>a x b. s = a @ x # b \<and> length a = n \<and> length b = m"
  using assms id_take_nth_drop [of n s]
  by (intro exI [of _ "take n s"] exI [of _ "s ! n"] exI [of _ "drop (Suc n) s"]) auto

lemma hex_block:
  assumes "\<forall>i. n \<le> i \<and> i < n + length g \<longrightarrow> i \<notin> {8, 13, 18, 23}"
  shows "list_all id_byte_ok (enumerate n g) \<longleftrightarrow> list_all is_lower_hex g"
proof -
  have "id_byte_ok (i, c) \<longleftrightarrow> is_lower_hex c" if "(i, c) \<in> set (enumerate n g)" for i c
    using that assms by (auto simp: in_set_enumerate_eq id_byte_ok_def)
  then have "list_all id_byte_ok (enumerate n g) \<longleftrightarrow> list_all (\<lambda>p. is_lower_hex (snd p)) (enumerate n g)"
    by (auto simp: list_all_iff)
  also have "\<dots> \<longleftrightarrow> list_all is_lower_hex (map snd (enumerate n g))" by (simp only: list.pred_map o_def)
  finally show ?thesis by simp
qed

lemma id_bytes_groups:
  assumes "length a = 8" "length b = 4" "length c = 4" "length d = 4" "length e = 12"
  shows "list_all id_byte_ok (enumerate 0 (a @ w # b @ x # c @ y # d @ z # e)) \<longleftrightarrow>
    list_all (list_all is_lower_hex) [a, b, c, d, e] \<and> [w, x, y, z] = ''----''"
proof -
  have "list_all id_byte_ok (enumerate 0 a) \<longleftrightarrow> list_all is_lower_hex a"
    "list_all id_byte_ok (enumerate 9 b) \<longleftrightarrow> list_all is_lower_hex b"
    "list_all id_byte_ok (enumerate 14 c) \<longleftrightarrow> list_all is_lower_hex c"
    "list_all id_byte_ok (enumerate 19 d) \<longleftrightarrow> list_all is_lower_hex d"
    "list_all id_byte_ok (enumerate 24 e) \<longleftrightarrow> list_all is_lower_hex e"
    using assms by (intro hex_block; auto)+
  moreover have "id_byte_ok (8, w) \<longleftrightarrow> w = CHR ''-''" "id_byte_ok (13, x) \<longleftrightarrow> x = CHR ''-''"
    "id_byte_ok (18, y) \<longleftrightarrow> y = CHR ''-''" "id_byte_ok (23, z) \<longleftrightarrow> z = CHR ''-''"
    by (simp_all add: id_byte_ok_def)
  ultimately show ?thesis
    using assms by (auto simp: enumerate_append_eq)
qed

lemma id_bytes_layout: "length s = 36 \<and> list_all id_byte_ok (enumerate 0 s) \<longleftrightarrow> uuid_layout s"
proof
  assume s: "length s = 36 \<and> list_all id_byte_ok (enumerate 0 s)"
  obtain a w r1 where 1: "s = a @ w # r1" "length a = 8" "length r1 = 27" using s cut_at [of s 8 27] by auto
  obtain b x r2 where 2: "r1 = b @ x # r2" "length b = 4" "length r2 = 22" using 1 cut_at [of r1 4 22] by auto
  obtain c y r3 where 3: "r2 = c @ y # r3" "length c = 4" "length r3 = 17" using 2 cut_at [of r2 4 17] by auto
  obtain d z e where 4: "r3 = d @ z # e" "length d = 4" "length e = 12" using 3 cut_at [of r3 4 12] by auto
  have ok: "list_all (list_all is_lower_hex) [a, b, c, d, e]" "[w, x, y, z] = ''----''"
    using s id_bytes_groups [of a b c d e w x y z] 1 2 3 4 by auto
  have "s = join_on (CHR ''-'') [a, b, c, d, e]" using 1 2 3 4 ok(2) by simp
  moreover have "split_on (CHR ''-'') (join_on (CHR ''-'') [a, b, c, d, e]) = [a, b, c, d, e]"
    using ok(1) lower_hex_no_hyphen by (intro split_join_on) auto
  ultimately show "uuid_layout s" using 1 2 3 4 ok(1) by (simp add: uuid_layout_def)
next
  assume "uuid_layout s"
  then obtain a b c d e where g: "split_on (CHR ''-'') s = [a, b, c, d, e]"
    and len: "length a = 8" "length b = 4" "length c = 4" "length d = 4" "length e = 12"
    and hex: "list_all (list_all is_lower_hex) [a, b, c, d, e]"
    by (auto simp: uuid_layout_def Let_def map_eq_Cons_conv)
  have "s = join_on (CHR ''-'') [a, b, c, d, e]" using join_split_on [of "CHR ''-''" s] g by simp
  then have "s = a @ CHR ''-'' # b @ CHR ''-'' # c @ CHR ''-'' # d @ CHR ''-'' # e" by simp
  with id_bytes_groups [OF len, of "CHR ''-''" "CHR ''-''" "CHR ''-''" "CHR ''-''"] len hex
  show "length s = 36 \<and> list_all id_byte_ok (enumerate 0 s)" by simp
qed

lemma layout_printable: "uuid_layout s \<Longrightarrow> list_all is_printable s"
proof -
  assume l: "uuid_layout s"
  have "is_lower_hex c \<or> c = CHR ''-''" if "(i, c) \<in> set (enumerate 0 s)" for i c
    using that id_bytes_layout [of s] l by (auto simp: list_all_iff id_byte_ok_def split: if_splits)
  then have "\<forall>c\<in>set s. is_lower_hex c \<or> c = CHR ''-''"
    by (metis in_set_conv_nth in_set_enumerate_eq fst_conv snd_conv add.commute add_0 le0 diff_zero)
  then show ?thesis
    by (auto simp: list_all_iff is_printable_def is_lower_hex_def is_ascii_digit_def)
qed

lemma upload_id_iff:
  assumes lib: "http_laws lib" and ul: "uuid_laws ul"
  shows "parse_upload_id lib ul h = Inr (Some u) \<longleftrightarrow>
    length u = 16 \<and> http_get_all lib h UPLOAD_ID_HEADER = [uuid_hyphenated ul u]"
proof
  assume p: "parse_upload_id lib ul h = Inr (Some u)"
  then obtain v where v: "http_get_all lib h UPLOAD_ID_HEADER = [v]" "uuid_layout v" "uuid_parse_str ul v = Some u"
    using http_headers(1) [OF lib]
    by (auto simp: parse_upload_id_def unique_header_iff id_bytes_layout [symmetric] split: option.splits if_splits)
  from uuid_text(4) [OF ul v(2)] v uuid_text(3) [OF ul]
  show "length u = 16 \<and> http_get_all lib h UPLOAD_ID_HEADER = [uuid_hyphenated ul u]" by auto
next
  assume a: "length u = 16 \<and> http_get_all lib h UPLOAD_ID_HEADER = [uuid_hyphenated ul u]"
  then have l: "uuid_layout (uuid_hyphenated ul u)" using uuid_text(2) [OF ul] by simp
  have "unique_upload_header lib h UPLOAD_ID_HEADER = Inr (Some (uuid_hyphenated ul u))"
    using a unique_header_iff(1) by metis
  with l a http_headers(2) [OF lib layout_printable [OF l]] uuid_text(1) [OF ul] id_bytes_layout
  show "parse_upload_id lib ul h = Inr (Some u)" by (simp add: parse_upload_id_def)
qed

lemma upload_number_iff:
  assumes "http_laws lib"
  shows "parse_upload_length lib h = Inr (Some n) \<longleftrightarrow> http_get_all lib h UPLOAD_LENGTH_HEADER = [decimal (unat n)]"
    and "parse_upload_offset lib h = Inr (Some n) \<longleftrightarrow> http_get_all lib h UPLOAD_OFFSET_HEADER = [decimal (unat n)]"
  unfolding parse_upload_length_def parse_upload_offset_def
  by (auto simp: canonical_u64_iff [OF assms] unique_header_iff [symmetric] split: option.splits)

section \<open>Properties\<close>

text \<open>Upload headers have one spelling.  An upload id, length or offset is accepted exactly when
  its header occurs once and holds the canonical text of the value (the lower-case hyphenated UUID,
  the decimal number without sign or leading zero), so no two spellings name the same session or
  offset; and the headers that the server writes into a response are read back as the same id,
  length and offset.\<close>

theorem upload_headers_canonical:
  assumes lib: "http_laws lib" and ul: "uuid_laws ul"
  shows "(parse_upload_id lib ul h = Inr (Some u) \<longleftrightarrow>
      length u = 16 \<and> http_get_all lib h UPLOAD_ID_HEADER = [uuid_hyphenated ul u])
    \<and> (parse_upload_length lib h = Inr (Some n) \<longleftrightarrow>
      http_get_all lib h UPLOAD_LENGTH_HEADER = [decimal (unat n)])
    \<and> (parse_upload_offset lib h = Inr (Some k) \<longleftrightarrow>
      http_get_all lib h UPLOAD_OFFSET_HEADER = [decimal (unat k)])
    \<and> (length u = 16 \<longrightarrow> (\<exists>h'.
        apply_upload_record_headers lib ul u (Some n) (Some k) state h = Some h'
        \<and> parse_upload_id lib ul h' = Inr (Some u) \<and> parse_upload_length lib h' = Inr (Some n)
        \<and> parse_upload_offset lib h' = Inr (Some k)
        \<and> http_get_all lib h' OPERATION_STATE_HEADER = [upload_wire_name state]))"
proof -
  note headers = http_headers [OF lib]
  have "\<exists>h'. apply_upload_record_headers lib ul u (Some n) (Some k) state h = Some h'
      \<and> parse_upload_id lib ul h' = Inr (Some u) \<and> parse_upload_length lib h' = Inr (Some n)
      \<and> parse_upload_offset lib h' = Inr (Some k)
      \<and> http_get_all lib h' OPERATION_STATE_HEADER = [upload_wire_name state]" if u: "length u = 16"
    using headers(3) [OF layout_printable [OF uuid_text(2) [OF ul u]]] headers(3) [OF decimal_printable] u
    by (simp add: apply_upload_record_headers_def put_header_def upload_id_iff [OF lib ul]
        upload_number_iff [OF lib] headers(4))
      (simp add: upload_header_names)
  then show ?thesis using upload_id_iff [OF lib ul] upload_number_iff [OF lib] by blast
qed

theorem upload_headers_canonical_witness:
  "\<exists>h'. apply_upload_record_headers sample_http sample_uuid (replicate 16 7) (Some 10) (Some 3)
      UploadStateRunning [] = Some h'
    \<and> parse_upload_id sample_http sample_uuid h' = Inr (Some (replicate 16 7))
    \<and> parse_upload_length sample_http h' = Inr (Some 10) \<and> parse_upload_offset sample_http h' = Inr (Some 3)"
  using upload_headers_canonical [OF sample_http_laws sample_uuid_laws,
      of "[]" "replicate 16 7" 10 3 UploadStateRunning] length_replicate [of 16 "7 :: byte"] by blast

text \<open>C36: Nothing is overwritten without a revision.  The overwrite policy of a request is
  \<open>IfUnchanged r\<close> exactly when the overwrite header occurs once with the text \<open>true\<close> and the revision
  header occurs once with the 64 lower-case digits of \<open>r\<close>; it is \<open>NoReplace\<close> exactly when the
  overwrite header is absent or \<open>false\<close> and no revision is sent.  So every other combination is an
  error, and a repeated overwrite header is an error of that header.\<close>

theorem overwrite_needs_revision:
  assumes lib: "http_laws lib"
  shows "(parse_upload_overwrite lib h = Inr (IfUnchanged r) \<longleftrightarrow>
      http_get_all lib h UPLOAD_OVERWRITE_HEADER = [''true''] \<and> length r = 32
      \<and> http_get_all lib h TARGET_REVISION_HEADER = [revision_encode r])
    \<and> (parse_upload_overwrite lib h = Inr NoReplace \<longleftrightarrow>
      http_get_all lib h UPLOAD_OVERWRITE_HEADER \<in> {[], [''false'']}
      \<and> http_get_all lib h TARGET_REVISION_HEADER = [])
    \<and> (length (http_get_all lib h UPLOAD_OVERWRITE_HEADER) > 1 \<longrightarrow>
        (\<exists>m. parse_upload_overwrite lib h = Inl (OverwriteError m)))"
proof -
  have parse: "Option.bind (http_to_str lib v) revision_parse = Some r \<longleftrightarrow>
      length r = 32 \<and> v = revision_encode r" for v r
    using http_headers(1,2) [OF lib, of v] hex_printable [of r]
    by (auto simp: bind_eq_Some_conv revision_parse_iff revision_encode_def)
  show ?thesis
    by (cases "http_get_all lib h UPLOAD_OVERWRITE_HEADER" rule: remdups_adj.cases;
        cases "http_get_all lib h TARGET_REVISION_HEADER" rule: remdups_adj.cases)
      (auto simp: parse_upload_overwrite_def unique_upload_header_def parse)
qed

theorem overwrite_needs_revision_witness:
  "parse_upload_overwrite sample_http [(UPLOAD_OVERWRITE_HEADER, ''true''),
      (TARGET_REVISION_HEADER, revision_encode (replicate 32 5))] = Inr (IfUnchanged (replicate 32 5))"
  using overwrite_needs_revision [OF sample_http_laws, of "[(UPLOAD_OVERWRITE_HEADER, ''true''),
      (TARGET_REVISION_HEADER, revision_encode (replicate 32 5))]" "replicate 32 5"]
    length_replicate [of 32 "5 :: byte"]
  by (simp add: sample_http_def upload_header_names)

text \<open>C37: A revision identifies the owner, the path and the state of the target.  Unless the two
  hashed byte strings are a collision of SHA-256, the revisions of two existing targets are equal
  exactly when the owner, the canonical path and every field of the file identity (device, inode,
  type, links, size, ownership, mode and both time stamps) are equal: a confirmation obtained for
  one target never authorises replacing another or a changed one.\<close>

theorem revision_binds_target:
  assumes "length o1 = 32" "length o2 = 32" "length p1 < 2 ^ 64" "length p2 < 2 ^ 64"
    and "identity_ok i1" "identity_ok i2" "identity_exists i1" "identity_exists i2"
    and "sha256 (revision_input o1 p1 i1) = sha256 (revision_input o2 p2 i2) \<longrightarrow>
      revision_input o1 p1 i1 = revision_input o2 p2 i2"
  shows "target_revision sha256 o1 p1 i1 = target_revision sha256 o2 p2 i2 \<longleftrightarrow>
      o1 = o2 \<and> p1 = p2 \<and> i1 = i2"
  using revision_input_inject [OF assms(1-6)] assms(7-9) by (auto simp: target_revision_def)

definition sample_target :: "u64 \<Rightarrow> ReplacementTargetIdentity" where
  "sample_target inode = Existing
     \<lparr>et_device = 1, et_inode = inode, et_file_type = RegularFile, et_links = 1, et_size = 10,
      et_uid = 0, et_gid = 0, et_mode = 0x81A4, et_modified_seconds = 5,
      et_modified_nanoseconds = 6, et_changed_seconds = 7, et_changed_nanoseconds = 8\<rparr>"

theorem revision_binds_target_witness:
  "target_revision (\<lambda>x. x) (replicate 32 1) [2] (sample_target 3) \<noteq>
    target_revision (\<lambda>x. x) (replicate 32 1) [2] (sample_target 4)"
  using revision_binds_target [of "replicate 32 1" "replicate 32 1" "[2]" "[2]" "sample_target 3"
      "sample_target 4" "\<lambda>x. x"]
  by (simp add: sample_target_def identity_ok_def is_i64_def i64_min_def i64_max_def)

end
