(* ===== verification/Listing_Collect.thy ===== *)
theory Listing_Collect
  imports Listing_Sort Upload_Protocol
begin

text \<open>
  Collecting the entries of one directory for a listing (\<open>collect_list_snapshot_blocking\<close> and its
  helpers in \<open>src/src/server/listing.rs\<close>, over the directory loop of
  \<open>src/src/server/rooted_fs.rs\<close>): which entries are shown, the entry, time and memory budgets, and
  the final sort.  What the kernel returns for the directory is an argument.
\<close>

section \<open>Memory\<close>

text \<open>A vector with its capacity.  The sizes of the types, the capacities of the strings of an item
  and the capacity that the allocator gives for a requested one are parameters.\<close>

record 'a Vec =
  vec_items :: "'a list"
  vec_capacity :: nat

record MemLib =
  mem_item_size :: nat
  mem_vec_size :: nat
  mem_name_capacity :: "PathItem \<Rightarrow> nat"
  mem_sort_name_capacity :: "PathItem \<Rightarrow> nat"
  mem_grow :: "nat \<Rightarrow> nat option"
  mem_shrink :: "nat \<Rightarrow> nat \<Rightarrow> nat"

text \<open>The documented behaviour: a reservation gives at least what was asked for, and shrinking a
  vector of capacity \<open>c\<close> to its length \<open>n\<close> does not go below the length or above the capacity.\<close>

definition mem_laws :: "MemLib \<Rightarrow> bool" where
  "mem_laws mem \<longleftrightarrow> (\<forall>n c. mem_grow mem n = Some c \<longrightarrow> n \<le> c) 
     \<and> (\<forall>c n. n \<le> c \<longrightarrow> n \<le> mem_shrink mem c n \<and> mem_shrink mem c n \<le> c)"

definition sat_sub :: "nat \<Rightarrow> nat \<Rightarrow> nat" where
  "sat_sub a b = a - b"

definition try_reserve_exact :: "MemLib \<Rightarrow> 'a Vec \<Rightarrow> nat \<Rightarrow> 'a Vec option" where
  "try_reserve_exact mem v additional =
     (if length (vec_items v) + additional \<le> vec_capacity v then Some v
      else map_option (\<lambda>c. v\<lparr>vec_capacity := c\<rparr>) (mem_grow mem (length (vec_items v) + additional)))"

definition path_item_heap_bytes :: "MemLib \<Rightarrow> PathItem \<Rightarrow> nat" where
  "path_item_heap_bytes mem item = sat_add (mem_name_capacity mem item) (mem_sort_name_capacity mem item)"

definition collection_allocation_bytes :: "MemLib \<Rightarrow> nat \<Rightarrow> nat \<Rightarrow> nat \<Rightarrow> nat" where
  "collection_allocation_bytes mem capacity item_size heap_bytes =
     sat_add (sat_add (mem_vec_size mem) (sat_mul capacity item_size)) heap_bytes"

datatype BoundedReserveError = BudgetExceeded | AllocationFailed

definition try_reserve_bounded_vec_slot ::
  "MemLib \<Rightarrow> PathItem Vec \<Rightarrow> nat \<Rightarrow> nat \<Rightarrow> BoundedReserveError + PathItem Vec" where
  "try_reserve_bounded_vec_slot mem v non_vector_bytes maximum_bytes =
     (if length (vec_items v) < vec_capacity v \<or> mem_item_size mem = 0 then Inr v
      else
        let item_bytes = mem_item_size mem;
            old_allocation = sat_mul (vec_capacity v) item_bytes;
            available_for_new = sat_sub maximum_bytes (sat_add non_vector_bytes old_allocation);
            maximum_new_capacity = available_for_new div item_bytes;
            required_capacity = sat_add (length (vec_items v)) 1 in
        if maximum_new_capacity < required_capacity then Inl BudgetExceeded
        else
          let preferred_capacity =
                (if vec_capacity v = 0 then max required_capacity 4
                 else max (sat_mul (vec_capacity v) 2) required_capacity);
              requested_capacity = min preferred_capacity maximum_new_capacity in
          (case try_reserve_exact mem v (sat_sub requested_capacity (length (vec_items v))) of
             None \<Rightarrow> Inl AllocationFailed
           | Some v' \<Rightarrow> if vec_capacity v' > maximum_new_capacity then Inl BudgetExceeded else Inr v'))"

definition ensure_path_sort_budget ::
  "MemLib \<Rightarrow> PathItem Vec \<Rightarrow> nat \<Rightarrow> string \<Rightarrow> bytes \<Rightarrow> bytes \<Rightarrow> ListingError + unit" where
  "ensure_path_sort_budget mem paths max_bytes operation path serve_root =
     (let heap_bytes = foldl (\<lambda>total item. sat_add total (path_item_heap_bytes mem item)) 0 (vec_items paths);
          retained = collection_allocation_bytes mem (vec_capacity paths) (mem_item_size mem) heap_bytes;
          scratch = sat_mul (sat_mul (length (vec_items paths)) 8) 2 in
      ensure (sat_add retained scratch \<le> max_bytes)
        (le_limit operation path serve_root ''sort_memory_budget'' DirectorySortLimit))"

definition shrink_paths_if_wasteful :: "MemLib \<Rightarrow> PathItem Vec \<Rightarrow> PathItem Vec" where
  "shrink_paths_if_wasteful mem v =
     (let n = length (vec_items v); spare = sat_sub (vec_capacity v) n in
      if spare \<ge> 1024 \<and> vec_capacity v > sat_add n (n div 4)
      then v\<lparr>vec_capacity := mem_shrink mem (vec_capacity v) n\<rparr> else v)"

section \<open>Entries\<close>

text \<open>Times are nanoseconds since the epoch; \<open>None\<close> where the file system reports none.\<close>

record RootedDirEntry =
  de_path :: bytes
  de_file_name :: bytes
  de_is_dir :: bool
  de_len :: u64
  de_modified :: "int option"
  de_created :: "int option"
  de_is_symlink :: bool
  de_revision_identity :: ReplacementTargetIdentity

definition to_timestamp :: "int \<Rightarrow> u64" where
  "to_timestamp t = (if t < 0 then 0 else of_int (t div 1000000))"

text \<open>\<open>lower\<close> is \<open>str::to_lowercase\<close>.\<close>

definition pathitem_from_rooted_entry ::
  "(bytes \<Rightarrow> bytes) \<Rightarrow> (string \<Rightarrow> string) \<Rightarrow> RootedDirEntry \<Rightarrow> bytes \<Rightarrow> bytes \<Rightarrow> bytes \<Rightarrow>
    listing_failure + PathItem" where
  "pathitem_from_rooted_entry sha256 lower entry base_path serve_path revision_owner =
     result_bind (map_err ListingFailed (strict_file_name (de_path entry) ''pathitem_filename'' serve_path)) (\<lambda>_.
     let path_type =
           (case (de_is_symlink entry, de_is_dir entry) of
              (True, True) \<Rightarrow> SymlinkDir
            | (False, True) \<Rightarrow> Dir
            | (True, False) \<Rightarrow> SymlinkFile
            | (False, False) \<Rightarrow> File);
         mtime =
           (case (case de_modified entry of Some t \<Rightarrow> Some t | None \<Rightarrow> de_created entry) of
              Some t \<Rightarrow> to_timestamp t
            | None \<Rightarrow> 0);
         fsize = (if de_is_dir entry then 0 else de_len entry) in
     result_bind (map_err ListingFailed
       (strict_relative_path (de_path entry) base_path ''pathitem_relative_path'' serve_path)) (\<lambda>name.
     result_bind (ok_or (path_strip_prefix (de_path entry) serve_path)
       (ListingFailed (le_invariant ''pathitem_revision_path'' (de_path entry) serve_path))) (\<lambda>revision_path.
     result_bind (ok_or (target_revision sha256 revision_owner revision_path (de_revision_identity entry))
       ListingPanic) (\<lambda>revision.
     Inr \<lparr>pi_path_type = path_type, pi_sort_name = lower name, pi_name = name, pi_mtime = mtime,
          pi_size = fsize, pi_revision = revision\<rparr>))))"

section \<open>The scan\<close>

datatype ListScanStop = StopCancelled | StopEntryBudget | StopTimeout

record ListScan =
  ls_paths :: "PathItem Vec"
  ls_visited :: nat
  ls_heap_bytes :: nat
  ls_stop :: "ListScanStop option"
  ls_error :: "listing_failure option"
  ls_checks :: nat

text \<open>What a scan is given: limits, the library functions, and what the checks for cancellation
  and for the deadline find at each call of a closure.\<close>

record ListEnv =
  le_path :: bytes
  le_serve_path :: bytes
  le_revision_owner :: bytes
  le_max_entries :: nat
  le_max_bytes :: nat
  le_sha256 :: "bytes \<Rightarrow> bytes"
  le_lower :: "string \<Rightarrow> string"
  le_mem :: MemLib
  le_uri :: UriLib
  le_uuid :: UuidLib
  le_stopped :: "nat \<Rightarrow> bool"
  le_late :: "nat \<Rightarrow> bool"

definition scan_start :: ListScan where
  "scan_start = \<lparr>ls_paths = \<lparr>vec_items = [], vec_capacity = 0\<rparr>, ls_visited = 0, ls_heap_bytes = 0,
     ls_stop = None, ls_error = None, ls_checks = 0\<rparr>"

text \<open>The budget closure, called before an entry is examined.\<close>

definition scan_budget :: "ListEnv \<Rightarrow> ListScan \<Rightarrow> bool \<times> ListScan" where
  "scan_budget env s =
     (let k = ls_checks s; s = s\<lparr>ls_checks := k + 1\<rparr> in
      if le_stopped env k then (False, s\<lparr>ls_stop := Some StopCancelled\<rparr>)
      else if le_late env k then (False, s\<lparr>ls_stop := Some StopTimeout\<rparr>)
      else
        let s = s\<lparr>ls_visited := sat_add (ls_visited s) 1\<rparr> in
        if ls_visited s > le_max_entries env then (False, s\<lparr>ls_stop := Some StopEntryBudget\<rparr>)
        else (True, s))"

definition scan_fail :: "ListScan \<Rightarrow> listing_failure \<Rightarrow> bool \<times> ListScan" where
  "scan_fail s e = (False, s\<lparr>ls_error := Some e\<rparr>)"

definition snapshot_budget_error :: "ListEnv \<Rightarrow> listing_failure" where
  "snapshot_budget_error env = ListingFailed
     (le_limit ''list_snapshot'' (le_path env) (le_serve_path env) ''snapshot_memory_budget'' ListSnapshotLimit)"

text \<open>Entries that a listing leaves out.\<close>

definition hidden_entry :: "ListEnv \<Rightarrow> RootedDirEntry \<Rightarrow> string \<Rightarrow> bool" where
  "hidden_entry env entry base_name \<longleftrightarrow>
     is_internal_name (le_uuid env) base_name
     \<or> (case path_strip_prefix (de_path entry) (le_serve_path env) of
          None \<Rightarrow> False
        | Some rest \<Rightarrow>
            (case to_str rest of None \<Rightarrow> False | Some relative \<Rightarrow> is_platform_path (le_uri env) relative))"

text \<open>Adding one item under the memory budget.\<close>

definition scan_push :: "ListEnv \<Rightarrow> RootedDirEntry \<Rightarrow> PathItem \<Rightarrow> ListScan \<Rightarrow> bool \<times> ListScan" where
  "scan_push env entry item s =
     (let mem = le_mem env;
          proposed = sat_add (ls_heap_bytes s) (path_item_heap_bytes mem item);
          minimum = collection_allocation_bytes mem (sat_add (length (vec_items (ls_paths s))) 1)
            (mem_item_size mem) proposed in
      if minimum > le_max_bytes env then scan_fail s (snapshot_budget_error env)
      else (case try_reserve_bounded_vec_slot mem (ls_paths s) (sat_add (mem_vec_size mem) proposed)
          (le_max_bytes env) of
          Inl BudgetExceeded \<Rightarrow> scan_fail s (snapshot_budget_error env)
        | Inl AllocationFailed \<Rightarrow> scan_fail s (ListingFailed
            (le_limit ''list_snapshot'' (de_path entry) (le_serve_path env) ''result_allocation_failed''
              ListSnapshotAllocationFailed))
        | Inr v \<Rightarrow>
            if collection_allocation_bytes mem (vec_capacity v) (mem_item_size mem) proposed > le_max_bytes env
            then scan_fail (s\<lparr>ls_paths := v\<rparr>) (snapshot_budget_error env)
            else (True, s\<lparr>ls_heap_bytes := proposed,
              ls_paths := v\<lparr>vec_items := vec_items v @ [item]\<rparr>\<rparr>)))"

definition scan_visit :: "ListEnv \<Rightarrow> RootedDirEntry \<Rightarrow> ListScan \<Rightarrow> bool \<times> ListScan" where
  "scan_visit env entry s =
     (let k = ls_checks s; s = s\<lparr>ls_checks := k + 1\<rparr> in
      if le_stopped env k then (False, s\<lparr>ls_stop := Some StopCancelled\<rparr>)
      else if le_late env k then (False, s\<lparr>ls_stop := Some StopTimeout\<rparr>)
      else (case to_str (de_file_name entry) of
          None \<Rightarrow> scan_fail s (ListingFailed
            (le_unsupported_name ''list_snapshot_filename'' (de_path entry) (le_serve_path env)))
        | Some base_name \<Rightarrow>
            if hidden_entry env entry base_name then (True, s)
            else (case pathitem_from_rooted_entry (le_sha256 env) (le_lower env) entry (le_path env)
                (le_serve_path env) (le_revision_owner env) of
                Inl e \<Rightarrow> scan_fail s e
              | Inr item \<Rightarrow> scan_push env entry item s)))"

text \<open>The directory loop.  \<open>Child\<close> is what the kernel says of one directory entry after the budget
  was asked: outside the root (left out), an error, or an entry.  An error before the first entry
  is a \<open>ReadFailed\<close>.\<close>

datatype child_result = ChildHidden | ChildFailed io_error | ChildEntry RootedDirEntry

datatype dir_event = ReadFailed io_error | DotEntry | Child child_result

fun visit_dir :: "ListEnv \<Rightarrow> dir_event list \<Rightarrow> ListScan \<Rightarrow> (io_error + unit) \<times> ListScan" where
  "visit_dir env [] s = (Inr (), s)"
| "visit_dir env (ReadFailed e # events) s = (Inl e, s)"
| "visit_dir env (DotEntry # events) s = visit_dir env events s"
| "visit_dir env (Child c # events) s =
     (case scan_budget env s of
        (False, s) \<Rightarrow> (Inr (), s)
      | (True, s) \<Rightarrow>
          (case c of
             ChildHidden \<Rightarrow> visit_dir env events s
           | ChildFailed e \<Rightarrow> (Inl e, s)
           | ChildEntry entry \<Rightarrow>
               (case scan_visit env entry s of
                  (False, s) \<Rightarrow> (Inr (), s)
                | (True, s) \<Rightarrow> visit_dir env events s)))"

record SortEnv =
  so_alnum :: "string \<Rightarrow> string \<Rightarrow> comp"
  so_active :: "nat \<Rightarrow> bool"
  so_stopped :: bool
  so_alloc1 :: bool
  so_alloc2 :: bool

definition scan_stop_error :: "ListEnv \<Rightarrow> ListScanStop \<Rightarrow> ListingError" where
  "scan_stop_error env stop =
     (case stop of
        StopCancelled \<Rightarrow> le_cancelled ''list_snapshot'' (le_path env) (le_serve_path env)
      | StopEntryBudget \<Rightarrow> le_limit ''list_snapshot'' (le_path env) (le_serve_path env) ''entry_budget''
          DirectoryListingEntryLimit
      | StopTimeout \<Rightarrow> le_limit ''list_snapshot'' (le_path env) (le_serve_path env) ''time_budget''
          DirectoryOperationTimeout)"

definition collect_list_snapshot_blocking ::
  "ListEnv \<Rightarrow> SortEnv \<Rightarrow> string \<Rightarrow> string \<Rightarrow> dir_event list \<Rightarrow> listing_failure + PathItem Vec" where
  "collect_list_snapshot_blocking env so sort_field order events =
     (case visit_dir env events scan_start of (visit_result, s) \<Rightarrow>
      (case ls_error s of
         Some e \<Rightarrow> Inl e
       | None \<Rightarrow>
           (case visit_result of
              Inl e \<Rightarrow> Inl (ListingFailed (le_io ''list_snapshot'' (le_path env) (le_serve_path env) e))
            | Inr _ \<Rightarrow>
                (case ls_stop s of
                   Some stop \<Rightarrow> Inl (ListingFailed (scan_stop_error env stop))
                 | None \<Rightarrow>
                     result_bind (map_err ListingFailed (ensure_path_sort_budget (le_mem env) (ls_paths s)
                       (le_max_bytes env) ''list_snapshot_sort'' (le_path env) (le_serve_path env))) (\<lambda>_.
                     (case sort_path_items_interruptibly (so_alnum so) (so_active so) (so_stopped so)
                         (so_alloc1 so) (so_alloc2 so) sort_field order ''list_snapshot_sort''
                         (le_path env) (le_serve_path env) (vec_items (ls_paths s)) of
                        (_, Inl e) \<Rightarrow> Inl e
                      | (items, Inr _) \<Rightarrow>
                          Inr (shrink_paths_if_wasteful (le_mem env)
                            ((ls_paths s)\<lparr>vec_items := items\<rparr>))))))))"

section \<open>Lemmas\<close>

text \<open>The entries a listing shows.\<close>

definition entry_shown :: "ListEnv \<Rightarrow> RootedDirEntry \<Rightarrow> bool" where
  "entry_shown env entry =
     (case to_str (de_file_name entry) of None \<Rightarrow> True | Some n \<Rightarrow> \<not> hidden_entry env entry n)"

fun event_entries :: "dir_event list \<Rightarrow> RootedDirEntry list" where
  "event_entries [] = []"
| "event_entries (Child (ChildEntry e) # events) = e # event_entries events"
| "event_entries (_ # events) = event_entries events"

definition event_ok :: "dir_event \<Rightarrow> bool" where
  "event_ok ev = (case ev of
       ReadFailed _ \<Rightarrow> False
     | DotEntry \<Rightarrow> True
     | Child c \<Rightarrow> (case c of
         ChildHidden \<Rightarrow> True | ChildFailed _ \<Rightarrow> False | ChildEntry e \<Rightarrow> to_str (de_file_name e) \<noteq> None))"

definition child_count :: "dir_event list \<Rightarrow> nat" where
  "child_count events = length (filter (\<lambda>ev. case ev of Child _ \<Rightarrow> True | _ \<Rightarrow> False) events)"

abbreviation entry_item :: "ListEnv \<Rightarrow> RootedDirEntry \<Rightarrow> listing_failure + PathItem" where
  "entry_item env entry \<equiv> pathitem_from_rooted_entry (le_sha256 env) (le_lower env) entry (le_path env)
     (le_serve_path env) (le_revision_owner env)"

lemma reserve_items:
  "try_reserve_bounded_vec_slot mem v n m = Inr v' \<Longrightarrow> vec_items v' = vec_items v"
  by (auto simp: try_reserve_bounded_vec_slot_def try_reserve_exact_def Let_def
      split: if_splits option.splits)

lemma scan_fail_False [simp]: "scan_fail s e \<noteq> (True, s')" "fst (scan_fail s e) = False"
  by (simp_all add: scan_fail_def)

lemma scan_budget_True:
  "scan_budget env s = (True, s') \<Longrightarrow>
    s' = s\<lparr>ls_checks := ls_checks s + 1, ls_visited := sat_add (ls_visited s) 1\<rparr>
    \<and> sat_add (ls_visited s) 1 \<le> le_max_entries env"
  by (auto simp: scan_budget_def Let_def split: if_splits)

lemma scan_budget_False: "scan_budget env s = (False, s') \<Longrightarrow> ls_stop s' \<noteq> None"
  by (auto simp: scan_budget_def Let_def split: if_splits)

text \<open>The memory accounted for stays within the budget.\<close>

definition scan_memory :: "ListEnv \<Rightarrow> ListScan \<Rightarrow> bool" where
  "scan_memory env s \<longleftrightarrow>
     ls_heap_bytes s = foldl (\<lambda>n i. sat_add n (path_item_heap_bytes (le_mem env) i)) 0 (vec_items (ls_paths s))
     \<and> length (vec_items (ls_paths s)) \<le> vec_capacity (ls_paths s)"

lemma sat_exact: "sat_add a b < usize_max \<Longrightarrow> sat_add a b = a + b"
  "sat_mul a b < usize_max \<Longrightarrow> sat_mul a b = a * b" "a \<le> usize_max \<Longrightarrow> a \<le> sat_add a b"
  by (auto simp: sat_add_def sat_mul_def)

lemma reserve_capacity:
  assumes laws: "mem_laws mem" and item: "0 < mem_item_size mem"
    and len: "length (vec_items v) \<le> vec_capacity v" and m: "m < usize_max"
    and r: "try_reserve_bounded_vec_slot mem v n m = Inr v'"
  shows "length (vec_items v) < vec_capacity v' \<and> (vec_capacity v' = vec_capacity v \<or>
      n + vec_capacity v * mem_item_size mem + vec_capacity v' * mem_item_size mem \<le> m)"
proof (cases "length (vec_items v) < vec_capacity v")
  case True
  with r show ?thesis by (simp add: try_reserve_bounded_vec_slot_def)
next
  case False
  let ?it = "mem_item_size mem" and ?len = "length (vec_items v)"
  let ?old = "sat_mul (vec_capacity v) ?it"
  let ?avail = "m - sat_add n ?old"
  let ?maxn = "?avail div ?it" and ?req = "sat_add ?len 1"
  define req where "req = min (if vec_capacity v = 0 then max ?req 4 else max (sat_mul (vec_capacity v) 2) ?req) ?maxn"
  have req: "?req \<le> ?maxn" "?req \<le> req" and c: "try_reserve_exact mem v (sat_sub req ?len) = Some v'"
    "vec_capacity v' \<le> ?maxn"
    using r False item unfolding req_def
    by (simp_all add: try_reserve_bounded_vec_slot_def Let_def sat_sub_def not_less split: if_splits option.splits)
  have "?maxn \<le> m" by (meson div_le_dividend diff_le_self order_trans)
  with req m have len1: "?req = ?len + 1" "?len + 1 \<le> req" by (auto simp: sat_add_def min_def split: if_splits)
  have "req \<le> z" if "mem_grow mem req = Some z" for z using laws that by (auto simp: mem_laws_def)
  with c(1) False len1(2) have new: "?len < vec_capacity v'"
    by (fastforce simp: try_reserve_exact_def sat_sub_def split: if_splits)
  have room: "vec_capacity v' * ?it \<le> ?avail"
    using c(2) item by (simp add: less_eq_div_iff_mult_less_eq)
  with new item have "0 < ?avail" by (cases "vec_capacity v'") auto
  then have "sat_add n ?old < m" by simp
  with m have "sat_add n ?old = n + ?old" "?old < usize_max" by (auto simp: sat_add_def)
  then have "sat_add n ?old = n + vec_capacity v * ?it" using sat_exact(2) by simp
  with room \<open>sat_add n ?old < m\<close> new show ?thesis by linarith
qed

lemma scan_push_True:
  assumes "scan_push env entry item s = (True, s')"
  shows "vec_items (ls_paths s') = vec_items (ls_paths s) @ [item]"
    and "ls_error s' = ls_error s" "ls_stop s' = ls_stop s" "ls_visited s' = ls_visited s"
    and "mem_laws (le_mem env) \<Longrightarrow> 0 < mem_item_size (le_mem env) \<Longrightarrow> le_max_bytes env < usize_max \<Longrightarrow>
      scan_memory env s \<Longrightarrow> scan_memory env s'"
proof -
  from assms obtain v where v: "try_reserve_bounded_vec_slot (le_mem env) (ls_paths s)
      (sat_add (mem_vec_size (le_mem env)) (sat_add (ls_heap_bytes s) (path_item_heap_bytes (le_mem env) item)))
      (le_max_bytes env) = Inr v"
    and s': "s' = s\<lparr>ls_heap_bytes := sat_add (ls_heap_bytes s) (path_item_heap_bytes (le_mem env) item),
      ls_paths := v\<lparr>vec_items := vec_items v @ [item]\<rparr>\<rparr>"
    by (auto simp: scan_push_def Let_def scan_fail_def split: if_splits sum.splits BoundedReserveError.splits)
  show "vec_items (ls_paths s') = vec_items (ls_paths s) @ [item]"
    "ls_error s' = ls_error s" "ls_stop s' = ls_stop s" "ls_visited s' = ls_visited s"
    using s' reserve_items [OF v] by simp_all
  show "scan_memory env s'" if "mem_laws (le_mem env)" "0 < mem_item_size (le_mem env)"
      "le_max_bytes env < usize_max" "scan_memory env s"
    using reserve_capacity [OF that(1,2) _ that(3) v] that(4) s' reserve_items [OF v]
    by (auto simp: scan_memory_def)
qed

lemma scan_visit_True:
  assumes "scan_visit env entry s = (True, s')"
  shows "to_str (de_file_name entry) \<noteq> None"
    and "ls_error s' = ls_error s" "ls_stop s' = ls_stop s" "ls_visited s' = ls_visited s"
    and "if entry_shown env entry
      then \<exists>item. entry_item env entry = Inr item
        \<and> vec_items (ls_paths s') = vec_items (ls_paths s) @ [item]
      else vec_items (ls_paths s') = vec_items (ls_paths s)"
    and "mem_laws (le_mem env) \<Longrightarrow> 0 < mem_item_size (le_mem env) \<Longrightarrow> le_max_bytes env < usize_max \<Longrightarrow>
      scan_memory env s \<Longrightarrow> scan_memory env s'"
proof -
  let ?s = "s\<lparr>ls_checks := ls_checks s + 1\<rparr>"
  from assms obtain n where n: "to_str (de_file_name entry) = Some n"
    and c: "hidden_entry env entry n \<and> s' = ?s \<or> \<not> hidden_entry env entry n \<and>
      (\<exists>item. entry_item env entry = Inr item \<and> scan_push env entry item ?s = (True, s'))"
    by (auto simp: scan_visit_def Let_def split: if_splits option.splits sum.splits)
  show "to_str (de_file_name entry) \<noteq> None" using n by simp
  have mem: "scan_memory env ?s = scan_memory env s" by (simp add: scan_memory_def)
  show "ls_error s' = ls_error s" "ls_stop s' = ls_stop s" "ls_visited s' = ls_visited s"
    using c scan_push_True(2-4) by fastforce+
  show "if entry_shown env entry
      then \<exists>item. entry_item env entry = Inr item
        \<and> vec_items (ls_paths s') = vec_items (ls_paths s) @ [item]
      else vec_items (ls_paths s') = vec_items (ls_paths s)"
    using c n scan_push_True(1) by (fastforce simp: entry_shown_def)
  show "scan_memory env s'" if "mem_laws (le_mem env)" "0 < mem_item_size (le_mem env)"
      "le_max_bytes env < usize_max" "scan_memory env s"
    using c that scan_push_True(5) mem by (metis (no_types, lifting))
qed

lemma scan_visit_False:
  "scan_visit env entry s = (False, s') \<Longrightarrow> ls_error s' \<noteq> None \<or> ls_stop s' \<noteq> None"
  by (auto simp: scan_visit_def scan_push_def scan_fail_def Let_def
      split: if_splits option.splits sum.splits BoundedReserveError.splits)

lemma child_count_Cons [simp]:
  "child_count [] = 0" "child_count (Child c # events) = Suc (child_count events)"
  "child_count (DotEntry # events) = child_count events"
  by (simp_all add: child_count_def)

lemma visit_dir_result:
  "visit_dir env events s = (Inr (), s') \<Longrightarrow> ls_error s' = None \<Longrightarrow> ls_stop s' = None \<Longrightarrow>
    le_max_entries env < usize_max \<Longrightarrow> ls_visited s \<le> le_max_entries env \<Longrightarrow>
    list_all event_ok events
    \<and> ls_visited s' = ls_visited s + child_count events \<and> ls_visited s' \<le> le_max_entries env
    \<and> (\<exists>items. result_collect (map (entry_item env) (filter (entry_shown env) (event_entries events))) = Inr items
        \<and> vec_items (ls_paths s') = vec_items (ls_paths s) @ items)
    \<and> (mem_laws (le_mem env) \<longrightarrow> 0 < mem_item_size (le_mem env) \<longrightarrow> le_max_bytes env < usize_max \<longrightarrow>
        scan_memory env s \<longrightarrow> scan_memory env s')"
proof (induction env events s rule: visit_dir.induct)
  case (4 env c events s)
  obtain go s1 where b: "scan_budget env s = (go, s1)" by fastforce
  with 4 have go: "go = True" using scan_budget_False [of env s s1] by (cases go) auto
  note s1 = scan_budget_True [OF b [unfolded go]]
  have vis: "sat_add (ls_visited s) 1 = ls_visited s + 1"
    using s1 4(6) by (intro sat_exact(1)) linarith
  have mem1: "scan_memory env s1 = scan_memory env s" using s1 by (simp add: scan_memory_def)
  show ?case
  proof (cases c)
    case ChildHidden
    with 4(1) [OF b [symmetric] go] 4(3-7) b go s1 vis mem1 show ?thesis
      by (auto simp: event_ok_def)
  next
    case (ChildFailed e)
    with 4(3) b go show ?thesis by simp
  next
    case (ChildEntry entry)
    obtain go2 s2 where v: "scan_visit env entry s1 = (go2, s2)" by fastforce
    with 4(3-5) b go ChildEntry have go2: "go2 = True"
      using scan_visit_False [of env entry s1 s2] by (cases go2) auto
    note s2 = scan_visit_True [OF v [unfolded go2]]
    have rest: "visit_dir env events s2 = (Inr (), s')" using 4(3) b go v go2 ChildEntry by simp
    have vis2: "ls_visited s2 = ls_visited s + 1" "ls_visited s2 \<le> le_max_entries env"
      using s1 s2(4) vis by simp_all
    from 4(2) [OF b [symmetric] go ChildEntry v [symmetric] go2 rest 4(4,5,6) vis2(2)]
    show ?thesis
      using s1 s2 vis2 mem1 ChildEntry
      by (cases "entry_shown env entry") (auto simp: event_ok_def result_collect_Cons)
  qed
qed (auto simp: event_ok_def)

lemma event_entries_count: "length (event_entries events) \<le> child_count events"
  by (induction events rule: event_entries.induct) (auto simp: child_count_def)

lemma result_collect_length: "result_collect rs = Inr xs \<Longrightarrow> length xs = length rs"
  by (simp add: result_collect_Inr)

lemma scan_start_memory: "scan_memory env scan_start"
  by (simp add: scan_memory_def scan_start_def)

lemma shrink_items [simp]: "vec_items (shrink_paths_if_wasteful mem v) = vec_items v"
  by (simp add: shrink_paths_if_wasteful_def Let_def)

text \<open>A successful collection, step by step.\<close>

lemma collect_Inr:
  assumes "collect_list_snapshot_blocking env so sort_field order events = Inr v"
  shows "\<exists>s sorted. visit_dir env events scan_start = (Inr (), s) \<and> ls_error s = None \<and> ls_stop s = None
    \<and> ensure_path_sort_budget (le_mem env) (ls_paths s) (le_max_bytes env) ''list_snapshot_sort''
        (le_path env) (le_serve_path env) = Inr ()
    \<and> sort_path_items_interruptibly (so_alnum so) (so_active so) (so_stopped so) (so_alloc1 so)
        (so_alloc2 so) sort_field order ''list_snapshot_sort'' (le_path env) (le_serve_path env)
        (vec_items (ls_paths s)) = (sorted, Inr ())
    \<and> v = shrink_paths_if_wasteful (le_mem env) ((ls_paths s)\<lparr>vec_items := sorted\<rparr>)"
proof -
  obtain r s where v: "visit_dir env events scan_start = (r, s)" by fastforce
  obtain e where e: "ensure_path_sort_budget (le_mem env) (ls_paths s) (le_max_bytes env)
      ''list_snapshot_sort'' (le_path env) (le_serve_path env) = e" by blast
  obtain sorted q where q: "sort_path_items_interruptibly (so_alnum so) (so_active so) (so_stopped so)
      (so_alloc1 so) (so_alloc2 so) sort_field order ''list_snapshot_sort'' (le_path env) (le_serve_path env)
      (vec_items (ls_paths s)) = (sorted, q)" by fastforce
  show ?thesis
    using assms v e q
    by (cases r; cases "ls_error s"; cases "ls_stop s"; cases e; cases q)
      (auto simp: collect_list_snapshot_blocking_def)
qed

lemma sort_items_ok:
  assumes "comparator alnum" and "length paths \<le> usize_max"
    and "sort_path_items_interruptibly alnum active stopped alloc1 alloc2 sort_field order
      operation path serve_root paths = (out, Inr ())"
  shows "out = sort_by (Abs_comparator (compare_path_items alnum sort_field order)) paths"
proof -
  let ?cmp = "compare_path_items alnum sort_field order"
  have cmp: "compare (Abs_comparator ?cmp) = ?cmp"
    using comparator_path_items [OF assms(1)] by (simp add: Abs_comparator_inverse)
  obtain out' r' where st: "stable_sort_by_interruptible active alloc1 alloc2 ?cmp paths = (out', r')"
    by fastforce
  with assms(3) have "out = out'" "\<exists>u. r' = Inr u"
    by (auto simp: sort_path_items_interruptibly_def split: sum.splits)
  with stable_sort_result [OF assms(2), of active alloc1 alloc2 "Abs_comparator ?cmp", unfolded cmp, OF st]
  show ?thesis by auto
qed

lemma collect_sorted:
  assumes alnum: "comparator (so_alnum so)" and limit: "le_max_entries env < usize_max"
    and res: "collect_list_snapshot_blocking env so sort_field order events = Inr v"
  shows "\<exists>s items. visit_dir env events scan_start = (Inr (), s) \<and> ls_error s = None \<and> ls_stop s = None
    \<and> ensure_path_sort_budget (le_mem env) (ls_paths s) (le_max_bytes env) ''list_snapshot_sort''
        (le_path env) (le_serve_path env) = Inr ()
    \<and> result_collect (map (entry_item env) (filter (entry_shown env) (event_entries events))) = Inr items
    \<and> vec_items (ls_paths s) = items
    \<and> v = shrink_paths_if_wasteful (le_mem env) ((ls_paths s)\<lparr>vec_items :=
        sort_by (Abs_comparator (compare_path_items (so_alnum so) sort_field order)) items\<rparr>)
    \<and> list_all event_ok events \<and> child_count events \<le> le_max_entries env"
proof -
  from collect_Inr [OF res] obtain s sorted where v: "visit_dir env events scan_start = (Inr (), s)"
    and ok: "ls_error s = None" "ls_stop s = None"
    and b: "ensure_path_sort_budget (le_mem env) (ls_paths s) (le_max_bytes env) ''list_snapshot_sort''
        (le_path env) (le_serve_path env) = Inr ()"
    and q: "sort_path_items_interruptibly (so_alnum so) (so_active so) (so_stopped so) (so_alloc1 so)
        (so_alloc2 so) sort_field order ''list_snapshot_sort'' (le_path env) (le_serve_path env)
        (vec_items (ls_paths s)) = (sorted, Inr ())"
    and v': "v = shrink_paths_if_wasteful (le_mem env) ((ls_paths s)\<lparr>vec_items := sorted\<rparr>)" by auto
  from visit_dir_result [OF v ok limit] obtain items where
    items: "result_collect (map (entry_item env) (filter (entry_shown env) (event_entries events))) = Inr items"
      "vec_items (ls_paths s) = items"
    and evs: "list_all event_ok events" "child_count events \<le> le_max_entries env"
    by (auto simp: scan_start_def)
  have "length items \<le> usize_max"
    using result_collect_length [OF items(1)] event_entries_count [of events] evs(2) limit
      length_filter_le [of "entry_shown env" "event_entries events"] unfolding length_map by linarith
  with sort_items_ok [OF alnum _ q] v ok b items evs v' show ?thesis by blast
qed

lemma foldl_sat:
  "foldl (\<lambda>n i. sat_add n (f i)) a xs < usize_max \<Longrightarrow>
    foldl (\<lambda>n i. sat_add n (f i)) a xs = a + sum_list (map f xs)"
proof (induction xs arbitrary: a rule: rev_induct)
  case (snoc x xs)
  then have "foldl (\<lambda>n i. sat_add n (f i)) a xs < usize_max" by (auto simp: sat_add_def)
  with snoc.IH have "foldl (\<lambda>n i. sat_add n (f i)) a xs = a + sum_list (map f xs)" by blast
  with sat_exact(1) [OF snoc.prems [unfolded foldl_append foldl.simps]] show ?case by simp
qed simp

lemma sort_budget_exact:
  assumes "ensure_path_sort_budget mem paths max_bytes operation path serve_root = Inr ()"
    and "max_bytes < usize_max"
  shows "mem_vec_size mem + vec_capacity paths * mem_item_size mem
    + sum_list (map (path_item_heap_bytes mem) (vec_items paths)) + 16 * length (vec_items paths) \<le> max_bytes"
proof -
  let ?h = "foldl (\<lambda>total item. sat_add total (path_item_heap_bytes mem item)) 0 (vec_items paths)"
  let ?r = "collection_allocation_bytes mem (vec_capacity paths) (mem_item_size mem) ?h"
  let ?s = "sat_mul (sat_mul (length (vec_items paths)) 8) 2"
  from assms(1) have le: "sat_add ?r ?s \<le> max_bytes"
    by (auto simp: ensure_path_sort_budget_def Let_def ensure_def split: if_splits)
  with assms(2) have sum: "sat_add ?r ?s = ?r + ?s" by (intro sat_exact(1)) simp
  with le assms(2) have lt: "?r < usize_max" "?s < usize_max" by linarith+
  then have s: "?s = 16 * length (vec_items paths)" by (auto simp: sat_mul_def)
  have "?h < usize_max" "sat_add (mem_vec_size mem) (sat_mul (vec_capacity paths) (mem_item_size mem)) < usize_max"
    "sat_mul (vec_capacity paths) (mem_item_size mem) < usize_max"
    using lt(1) by (auto simp: collection_allocation_bytes_def sat_add_def)
  then have "?h = sum_list (map (path_item_heap_bytes mem) (vec_items paths))"
    "sat_add (mem_vec_size mem) (sat_mul (vec_capacity paths) (mem_item_size mem)) =
      mem_vec_size mem + vec_capacity paths * mem_item_size mem"
    using foldl_sat [of "path_item_heap_bytes mem" 0 "vec_items paths"] by (simp_all add: sat_add_def sat_mul_def)
  with sat_exact(1) [OF lt(1) [unfolded collection_allocation_bytes_def]]
  have "?r = mem_vec_size mem + vec_capacity paths * mem_item_size mem
      + sum_list (map (path_item_heap_bytes mem) (vec_items paths))"
    unfolding collection_allocation_bytes_def by simp
  with le sum s show ?thesis by simp
qed

section \<open>A sample directory\<close>

definition sample_mem :: MemLib where
  "sample_mem = \<lparr>mem_item_size = 128, mem_vec_size = 24, mem_name_capacity = (\<lambda>i. length (pi_name i)),
     mem_sort_name_capacity = (\<lambda>i. length (pi_sort_name i)), mem_grow = Some, mem_shrink = (\<lambda>_ n. n)\<rparr>"

definition sample_env :: ListEnv where
  "sample_env = \<lparr>le_path = str_bytes ''/srv'', le_serve_path = str_bytes ''/srv'',
     le_revision_owner = replicate 32 1, le_max_entries = 100, le_max_bytes = 4096,
     le_sha256 = (\<lambda>_. replicate 32 0), le_lower = (\<lambda>s. s), le_mem = sample_mem, le_uri = sample_uri,
     le_uuid = sample_uuid, le_stopped = (\<lambda>_. False), le_late = (\<lambda>_. False)\<rparr>"

definition sample_sort :: SortEnv where
  "sample_sort = \<lparr>so_alnum = (\<lambda>a b. compare default (length a) (length b)), so_active = (\<lambda>_. True),
     so_stopped = False, so_alloc1 = True, so_alloc2 = True\<rparr>"

definition sample_entry :: RootedDirEntry where
  "sample_entry = \<lparr>de_path = str_bytes ''/srv/a'', de_file_name = str_bytes ''a'', de_is_dir = False,
     de_len = 5, de_modified = Some 2000000, de_created = None, de_is_symlink = False,
     de_revision_identity = sample_target 3\<rparr>"

lemma sample_paths:
  "path_strip_prefix (str_bytes ''/srv/a'') (str_bytes ''/srv'') = Some (str_bytes ''a'')"
  "path_file_name (str_bytes ''/srv/a'') = Some (str_bytes ''a'')"
  "to_str (str_bytes ''a'') = Some ''a''"
  by code_simp+

lemma sample_item_of:
  "entry_item sample_env sample_entry = Inr
    \<lparr>pi_path_type = File, pi_sort_name = ''a'', pi_name = ''a'', pi_mtime = 2, pi_size = 5,
     pi_revision = replicate 32 0\<rparr>"
  by (simp add: pathitem_from_rooted_entry_def sample_entry_def sample_env_def strict_file_name_def
      strict_relative_path_def sample_paths Let_def to_timestamp_def target_revision_def sample_target_def)

lemma sample_shown: "entry_shown sample_env sample_entry"
  using sample_segment_ok(1) sample_not_reserved
  by (simp add: entry_shown_def hidden_entry_def sample_entry_def sample_env_def sample_paths segment_ok_def
      is_reserved_component_def)

definition sample_events :: "dir_event list" where
  "sample_events = [DotEntry, Child ChildHidden, Child (ChildEntry sample_entry)]"

lemma sample_env_limits:
  "le_max_entries sample_env = 100" "le_max_bytes sample_env = 4096" "le_mem sample_env = sample_mem"
  "le_stopped sample_env k = False" "le_late sample_env k = False"
  by (simp_all add: sample_env_def)

lemma sample_visit:
  "\<exists>s. visit_dir sample_env sample_events scan_start = (Inr (), s) \<and> ls_error s = None \<and> ls_stop s = None
    \<and> vec_items (ls_paths s) = [\<lparr>pi_path_type = File, pi_sort_name = ''a'', pi_name = ''a'', pi_mtime = 2,
        pi_size = 5, pi_revision = replicate 32 0\<rparr>] \<and> vec_capacity (ls_paths s) = 4"
proof -
  have "\<not> hidden_entry sample_env sample_entry ''a''" "to_str (de_file_name sample_entry) = Some ''a''"
    using sample_shown by (simp_all add: entry_shown_def sample_entry_def sample_paths)
  then show ?thesis
    by (simp add: sample_events_def scan_budget_def scan_visit_def scan_push_def scan_start_def
        sample_env_limits sample_item_of Let_def sat_add_def sat_mul_def sat_sub_def usize_max_def
        collection_allocation_bytes_def path_item_heap_bytes_def sample_mem_def
        try_reserve_bounded_vec_slot_def try_reserve_exact_def)
qed

lemma sample_collect:
  "\<exists>v. collect_list_snapshot_blocking sample_env sample_sort ''name'' ''asc'' sample_events = Inr v
    \<and> length (vec_items v) = 1"
proof -
  obtain s item where v: "visit_dir sample_env sample_events scan_start = (Inr (), s)"
    and s: "ls_error s = None" "ls_stop s = None" "vec_items (ls_paths s) = [item]" "vec_capacity (ls_paths s) = 4"
    "pi_name item = ''a''" "pi_sort_name item = ''a''"
    using sample_visit by fastforce
  have b: "ensure_path_sort_budget (le_mem sample_env) (ls_paths s) (le_max_bytes sample_env)
      ''list_snapshot_sort'' (le_path sample_env) (le_serve_path sample_env) = Inr ()"
    by (simp add: ensure_path_sort_budget_def s sample_env_limits sample_mem_def Let_def sat_add_def sat_mul_def
        usize_max_def collection_allocation_bytes_def path_item_heap_bytes_def)
  have q: "sort_path_items_interruptibly (so_alnum sample_sort) (so_active sample_sort) (so_stopped sample_sort)
      (so_alloc1 sample_sort) (so_alloc2 sample_sort) ''name'' ''asc'' ''list_snapshot_sort''
      (le_path sample_env) (le_serve_path sample_env) [item] = ([item], Inr ())"
    by (simp add: sample_sort_def sort_path_items_interruptibly_def stable_sort_by_interruptible_def)
  show ?thesis
    by (simp add: collect_list_snapshot_blocking_def v s b q)
qed

lemma sample_alnum: "comparator (so_alnum sample_sort)"
  by (simp add: sample_sort_def comparator_default)

section \<open>Properties\<close>

text \<open>C32: A directory listing is exact.  When collecting succeeds, the whole directory was read
  without an error and within the entry limit, every name was valid UTF-8, and the result is the
  stable sort, in the requested order, of the items of exactly the entries that are to be shown:
  all of them in the root, except internal names and platform paths.\<close>

theorem listing_shows_exactly:
  assumes alnum: "comparator (so_alnum so)" and limit: "le_max_entries env < usize_max"
    and res: "collect_list_snapshot_blocking env so sort_field order events = Inr v"
  shows "\<exists>items.
    result_collect (map (\<lambda>entry. pathitem_from_rooted_entry (le_sha256 env) (le_lower env) entry
        (le_path env) (le_serve_path env) (le_revision_owner env))
      (filter (entry_shown env) (event_entries events))) = Inr items
    \<and> vec_items v = Sorting_Algorithms.sort
        (Abs_comparator (compare_path_items (so_alnum so) sort_field order)) items
    \<and> list_all event_ok events \<and> child_count events \<le> le_max_entries env"
proof -
  from collect_sorted [OF assms] obtain items where
    "result_collect (map (entry_item env) (filter (entry_shown env) (event_entries events))) = Inr items"
    "vec_items v = sort_by (Abs_comparator (compare_path_items (so_alnum so) sort_field order)) items"
    "list_all event_ok events" "child_count events \<le> le_max_entries env" by force
  then show ?thesis by blast
qed

theorem listing_shows_exactly_witness:
  "\<exists>v items. collect_list_snapshot_blocking sample_env sample_sort ''name'' ''asc'' sample_events = Inr v
    \<and> vec_items v = Sorting_Algorithms.sort
        (Abs_comparator (compare_path_items (so_alnum sample_sort) ''name'' ''asc'')) items
    \<and> length (vec_items v) = 1"
proof -
  obtain v where v: "collect_list_snapshot_blocking sample_env sample_sort ''name'' ''asc'' sample_events = Inr v"
    "length (vec_items v) = 1" using sample_collect by blast
  from listing_shows_exactly [OF sample_alnum _ v(1)] v show ?thesis
    by (auto simp: sample_env_limits usize_max_def)
qed

text \<open>Collecting a listing stays within its memory budget.  When a listing is returned, the
  vector, the strings of its items and the two index arrays of the sort together fit in the budget,
  and the vector has room for its items.  Every growth of the vector keeps the old and the new
  allocation together within the budget.\<close>

theorem listing_memory_bounded:
  assumes alnum: "comparator (so_alnum so)"
    and laws: "mem_laws (le_mem env)" "0 < mem_item_size (le_mem env)"
    and limits: "le_max_entries env < usize_max" "le_max_bytes env < usize_max"
    and res: "collect_list_snapshot_blocking env so sort_field order events = Inr v"
  shows "length (vec_items v) \<le> vec_capacity v
    \<and> mem_vec_size (le_mem env) + vec_capacity v * mem_item_size (le_mem env)
      + sum_list (map (path_item_heap_bytes (le_mem env)) (vec_items v)) + 16 * length (vec_items v)
      \<le> le_max_bytes env
    \<and> (\<forall>w n w'. length (vec_items w) \<le> vec_capacity w \<and>
        try_reserve_bounded_vec_slot (le_mem env) w n (le_max_bytes env) = Inr w' \<longrightarrow>
        vec_capacity w' = vec_capacity w
        \<or> n + (vec_capacity w + vec_capacity w') * mem_item_size (le_mem env) \<le> le_max_bytes env)"
proof -
  from collect_sorted [OF alnum limits(1) res] obtain s items where
    v: "visit_dir env events scan_start = (Inr (), s)" and ok: "ls_error s = None" "ls_stop s = None"
    and b: "ensure_path_sort_budget (le_mem env) (ls_paths s) (le_max_bytes env) ''list_snapshot_sort''
        (le_path env) (le_serve_path env) = Inr ()"
    and items: "vec_items (ls_paths s) = items"
    and v': "v = shrink_paths_if_wasteful (le_mem env) ((ls_paths s)\<lparr>vec_items :=
        sort_by (Abs_comparator (compare_path_items (so_alnum so) sort_field order)) items\<rparr>)" by blast
  let ?sorted = "sort_by (Abs_comparator (compare_path_items (so_alnum so) sort_field order)) items"
  have "scan_memory env s"
    using visit_dir_result [OF v ok limits(1)] laws limits(2) scan_start_memory by (auto simp: scan_start_def)
  then have cap: "length items \<le> vec_capacity (ls_paths s)" by (simp add: scan_memory_def items)
  have shrink: "length items \<le> vec_capacity v" "vec_capacity v \<le> vec_capacity (ls_paths s)"
    using laws(1) cap unfolding v' shrink_paths_if_wasteful_def mem_laws_def by (simp_all add: Let_def)
  have "mem_vec_size (le_mem env) + vec_capacity (ls_paths s) * mem_item_size (le_mem env)
      + sum_list (map (path_item_heap_bytes (le_mem env)) items) + 16 * length items \<le> le_max_bytes env"
    using sort_budget_exact [OF b limits(2)] by (simp add: items)
  moreover have "sum_list (map f ?sorted) = sum_list (map f items)" for f :: "PathItem \<Rightarrow> nat"
    by (metis mset_sort mset_map sum_mset_sum_list)
  moreover have "vec_items v = ?sorted" using v' by simp
  moreover have "vec_capacity v * mem_item_size (le_mem env) \<le>
      vec_capacity (ls_paths s) * mem_item_size (le_mem env)" using shrink(2) by (rule mult_le_mono1)
  ultimately have "mem_vec_size (le_mem env) + vec_capacity v * mem_item_size (le_mem env)
      + sum_list (map (path_item_heap_bytes (le_mem env)) (vec_items v)) + 16 * length (vec_items v)
      \<le> le_max_bytes env" by (simp only: length_sort)
  moreover have "vec_capacity w' = vec_capacity w
        \<or> n + (vec_capacity w + vec_capacity w') * mem_item_size (le_mem env) \<le> le_max_bytes env"
    if "length (vec_items w) \<le> vec_capacity w"
      "try_reserve_bounded_vec_slot (le_mem env) w n (le_max_bytes env) = Inr w'" for w n w'
    using reserve_capacity [OF laws that(1) limits(2) that(2)] by (simp add: algebra_simps)
  ultimately show ?thesis using shrink(1) v' by simp
qed

theorem listing_memory_bounded_witness:
  "\<exists>v. collect_list_snapshot_blocking sample_env sample_sort ''name'' ''asc'' sample_events = Inr v
    \<and> 24 + vec_capacity v * 128 \<le> 4096"
proof -
  obtain v where v: "collect_list_snapshot_blocking sample_env sample_sort ''name'' ''asc'' sample_events = Inr v"
    using sample_collect by blast
  have "mem_laws sample_mem" by (simp add: mem_laws_def sample_mem_def)
  with listing_memory_bounded [OF sample_alnum _ _ _ _ v] v show ?thesis
    by (auto simp: sample_env_limits usize_max_def) (simp add: sample_mem_def)
qed

end
