(* ===== verification/List_Snapshot.thy ===== *)
theory List_Snapshot
  imports Listing_Collect
begin

text \<open>
  The bounded cache of directory listings and its page cursors
  (\<open>src/src/server/listing/snapshot.rs\<close>).  SHA-256, base64, the random generator and the sizes of
  the Rust types are parameters.  A hash map is a list of pairs with distinct keys; instants are
  nanoseconds on the monotonic clock.
\<close>

section \<open>Records and limits\<close>

definition MAX_CACHED_LIST_SNAPSHOTS :: nat where
  "MAX_CACHED_LIST_SNAPSHOTS = 32"

definition MAX_CACHED_LIST_SNAPSHOT_BYTES :: nat where
  "MAX_CACHED_LIST_SNAPSHOT_BYTES = 64 * 1024 * 1024"

definition MAX_CACHED_LIST_SNAPSHOTS_PER_OWNER :: nat where
  "MAX_CACHED_LIST_SNAPSHOTS_PER_OWNER = 8"

definition MAX_CACHED_LIST_SNAPSHOT_BYTES_PER_OWNER :: nat where
  "MAX_CACHED_LIST_SNAPSHOT_BYTES_PER_OWNER = 32 * 1024 * 1024"

definition LIST_SNAPSHOT_TTL :: nat where
  "LIST_SNAPSHOT_TTL = 120 * 10 ^ 9"

lemmas snapshot_limits = MAX_CACHED_LIST_SNAPSHOTS_def MAX_CACHED_LIST_SNAPSHOT_BYTES_def
  MAX_CACHED_LIST_SNAPSHOTS_PER_OWNER_def MAX_CACHED_LIST_SNAPSHOT_BYTES_PER_OWNER_def

record DirectorySnapshot =
  ds_device :: u64
  ds_inode :: u64
  ds_mtime :: i64
  ds_mtime_nanoseconds :: i64
  ds_ctime :: i64
  ds_ctime_nanoseconds :: i64

record ListSnapshotBinding =
  sb_owner :: bytes
  sb_path :: bytes
  sb_directory :: DirectorySnapshot
  sb_sort :: string
  sb_order :: string
  sb_query :: string
  sb_limit :: nat

text \<open>A request has the same fields; the directory is compared apart.\<close>

type_synonym ListSnapshotRequest = ListSnapshotBinding

definition matches_request :: "ListSnapshotBinding \<Rightarrow> ListSnapshotRequest \<Rightarrow> bool" where
  "matches_request b r \<longleftrightarrow>
     sb_owner b = sb_owner r \<and> path_eq (sb_path b) (sb_path r) \<and> sb_sort b = sb_sort r
     \<and> sb_order b = sb_order r \<and> sb_query b = sb_query r \<and> sb_limit b = sb_limit r"

record ListSnapshotRecord =
  sr_secret :: bytes
  sr_binding :: ListSnapshotBinding
  sr_paths :: "PathItem list"
  sr_expires_at :: nat
  sr_weight :: nat

record ListSnapshotStore =
  ss_snapshots :: "(bytes \<times> ListSnapshotRecord) list"
  ss_insertion_order :: "bytes list"
  ss_total_weight :: nat

definition store_empty :: ListSnapshotStore where
  "store_empty = \<lparr>ss_snapshots = [], ss_insertion_order = [], ss_total_weight = 0\<rparr>"

definition snapshot_remove :: "bytes \<Rightarrow> ListSnapshotStore \<Rightarrow> ListSnapshotStore" where
  "snapshot_remove i s = s\<lparr>ss_snapshots := filter (\<lambda>(j, _). j \<noteq> i) (ss_snapshots s)\<rparr>"

section \<open>Eviction\<close>

function remove_oldest :: "ListSnapshotStore \<Rightarrow> ListSnapshotStore" where
  "remove_oldest s =
     (case ss_insertion_order s of
        [] \<Rightarrow> s
      | i # rest \<Rightarrow>
          (case map_of (ss_snapshots s) i of
             Some r \<Rightarrow> (snapshot_remove i s)\<lparr>ss_insertion_order := rest,
               ss_total_weight := sat_sub (ss_total_weight s) (sr_weight r)\<rparr>
           | None \<Rightarrow> remove_oldest (s\<lparr>ss_insertion_order := rest\<rparr>)))"
  by pat_completeness auto
termination by (relation "measure (\<lambda>s. length (ss_insertion_order s))") auto

declare remove_oldest.simps [simp del]

lemma remove_oldest_shrinks:
  "ss_insertion_order s \<noteq> [] \<Longrightarrow> length (ss_insertion_order (remove_oldest s)) < length (ss_insertion_order s)"
proof (induction s rule: remove_oldest.induct)
  case (1 s)
  obtain i rest where o: "ss_insertion_order s = i # rest" using 1(2) by (cases "ss_insertion_order s") auto
  show ?case
  proof (cases "map_of (ss_snapshots s) i")
    case None
    show ?thesis
    proof (cases "rest = []")
      case True
      with o None show ?thesis by (simp add: remove_oldest.simps)
    next
      case False
      with 1(1) [OF o None] o None show ?thesis by (subst remove_oldest.simps) simp
    qed
  qed (use o in \<open>simp add: remove_oldest.simps\<close>)
qed

lemma remove_oldest_Cons:
  "ss_insertion_order s = i # rest \<Longrightarrow> length (ss_insertion_order (remove_oldest s)) < Suc (length rest)"
  using remove_oldest_shrinks [of s] by simp

function snapshot_purge_expired :: "nat \<Rightarrow> ListSnapshotStore \<Rightarrow> ListSnapshotStore" where
  "snapshot_purge_expired now s =
     (case ss_insertion_order s of
        [] \<Rightarrow> s
      | i # _ \<Rightarrow>
          if (case map_of (ss_snapshots s) i of None \<Rightarrow> True | Some r \<Rightarrow> now \<ge> sr_expires_at r)
          then snapshot_purge_expired now (remove_oldest s)
          else s)"
  by pat_completeness auto
termination
  by (relation "measure (\<lambda>(_, s). length (ss_insertion_order s))") (auto intro: remove_oldest_Cons)

declare snapshot_purge_expired.simps [simp del]

definition owner_usage :: "bytes \<Rightarrow> ListSnapshotStore \<Rightarrow> nat \<times> nat" where
  "owner_usage owner s =
     foldl (\<lambda>(count, weight) r. (sat_add count 1, sat_add weight (sr_weight r))) (0, 0)
       (filter (\<lambda>r. sb_owner (sr_binding r) = owner) (map snd (ss_snapshots s)))"

text \<open>The first id in insertion order whose snapshot has a property, with the ids around it.\<close>

fun split_first :: "('a \<Rightarrow> bool) \<Rightarrow> 'a list \<Rightarrow> ('a list \<times> 'a \<times> 'a list) option" where
  "split_first P [] = None"
| "split_first P (x # xs) =
     (if P x then Some ([], x, xs)
      else map_option (\<lambda>(a, y, b). (x # a, y, b)) (split_first P xs))"

definition remove_oldest_for_owner :: "bytes \<Rightarrow> ListSnapshotStore \<Rightarrow> bool \<times> ListSnapshotStore" where
  "remove_oldest_for_owner owner s =
     (case split_first (\<lambda>i. case map_of (ss_snapshots s) i of
            None \<Rightarrow> False | Some r \<Rightarrow> sb_owner (sr_binding r) = owner) (ss_insertion_order s) of
        None \<Rightarrow> (False, s)
      | Some (before, i, after) \<Rightarrow>
          let s1 = s\<lparr>ss_insertion_order := before @ after\<rparr> in
          (case map_of (ss_snapshots s) i of
             Some r \<Rightarrow> (True, (snapshot_remove i s1)\<lparr>ss_total_weight := sat_sub (ss_total_weight s) (sr_weight r)\<rparr>)
           | None \<Rightarrow> (False, s1)))"

lemma split_first_Some:
  "split_first P xs = Some (a, x, b) \<Longrightarrow> xs = a @ x # b \<and> P x \<and> list_all (\<lambda>y. \<not> P y) a"
  by (induction xs arbitrary: a) (auto split: if_splits)

lemma split_first_None: "split_first P xs = None \<longleftrightarrow> list_all (\<lambda>y. \<not> P y) xs"
  by (induction xs) auto

lemma remove_oldest_for_owner_shrinks:
  "remove_oldest_for_owner owner s = (True, s') \<Longrightarrow>
    length (ss_insertion_order s') < length (ss_insertion_order s)"
  by (auto simp: remove_oldest_for_owner_def snapshot_remove_def Let_def dest!: split_first_Some
      split: option.splits)

function make_room_owner :: "bytes \<Rightarrow> nat \<Rightarrow> ListSnapshotStore \<Rightarrow> ListSnapshotStore" where
  "make_room_owner owner weight s =
     (case owner_usage owner s of (owner_count, owner_weight) \<Rightarrow>
        if owner_count < MAX_CACHED_LIST_SNAPSHOTS_PER_OWNER
           \<and> sat_add owner_weight weight \<le> MAX_CACHED_LIST_SNAPSHOT_BYTES_PER_OWNER then s
        else (case remove_oldest_for_owner owner s of
            (False, s') \<Rightarrow> s'
          | (True, s') \<Rightarrow> make_room_owner owner weight s'))"
  by pat_completeness auto
termination
  by (relation "measure (\<lambda>(_, _, s). length (ss_insertion_order s))")
    (simp_all add: remove_oldest_for_owner_shrinks [OF sym])

text \<open>\<open>None\<close> where the source would loop forever: a snapshot that is in no position of the
  insertion order can not be evicted.\<close>

function make_room_global :: "nat \<Rightarrow> ListSnapshotStore \<Rightarrow> ListSnapshotStore option" where
  "make_room_global weight s =
     (if ss_snapshots s \<noteq> []
         \<and> (length (ss_snapshots s) \<ge> MAX_CACHED_LIST_SNAPSHOTS
            \<or> sat_add (ss_total_weight s) weight > MAX_CACHED_LIST_SNAPSHOT_BYTES)
      then (if ss_insertion_order s = [] then None else make_room_global weight (remove_oldest s))
      else Some s)"
  by pat_completeness auto
termination
  by (relation "measure (\<lambda>(_, s). length (ss_insertion_order s))") (auto intro: remove_oldest_shrinks)

declare make_room_owner.simps [simp del] make_room_global.simps [simp del]

definition make_room :: "bytes \<Rightarrow> nat \<Rightarrow> ListSnapshotStore \<Rightarrow> ListSnapshotStore option" where
  "make_room owner weight s = make_room_global weight (make_room_owner owner weight s)"

section \<open>Cursors\<close>

text \<open>URL-safe base64 without padding.\<close>

record B64Lib =
  b64_encode :: "bytes \<Rightarrow> string"
  b64_decode :: "string \<Rightarrow> bytes option"

definition b64_laws :: "B64Lib \<Rightarrow> bool" where
  "b64_laws b64 \<longleftrightarrow>
     (\<forall>bs. b64_decode b64 (b64_encode b64 bs) = Some bs
        \<and> length (b64_encode b64 bs) = (4 * length bs + 2) div 3)"

definition xor_pad :: "byte \<Rightarrow> bytes \<Rightarrow> bytes" where
  "xor_pad p block = map (\<lambda>b. p XOR b) block"

definition hmac_sha256 :: "(bytes \<Rightarrow> bytes) \<Rightarrow> bytes \<Rightarrow> bytes list \<Rightarrow> bytes" where
  "hmac_sha256 sha256 k parts =
     (let short = (if length k > 64 then sha256 k else k);
          key_block = short @ replicate (64 - length short) 0 in
      sha256 (xor_pad 0x5C key_block @ sha256 (xor_pad 0x36 key_block @ concat parts)))"

definition list_cursor_tag :: "(bytes \<Rightarrow> bytes) \<Rightarrow> bytes \<Rightarrow> bytes \<Rightarrow> u64 \<Rightarrow> bytes" where
  "list_cursor_tag sha256 secret i offset =
     take 16 (hmac_sha256 sha256 secret
       [str_bytes ''xczs-list-cursor-v1'' @ [0], i, to_be_bytes offset])"

definition encode_list_cursor :: "B64Lib \<Rightarrow> (bytes \<Rightarrow> bytes) \<Rightarrow> bytes \<Rightarrow> bytes \<Rightarrow> u64 \<Rightarrow> string" where
  "encode_list_cursor b64 sha256 i secret offset =
     b64_encode b64 ([3] @ i @ to_be_bytes offset @ list_cursor_tag sha256 secret i offset)"

record DecodedListCursor =
  dc_id :: bytes
  dc_offset :: u64
  dc_tag :: bytes

definition decode_list_cursor :: "B64Lib \<Rightarrow> string \<Rightarrow> string + DecodedListCursor" where
  "decode_list_cursor b64 v =
     (if length v \<noteq> 76 then Inl ''invalid list cursor length''
      else (case b64_decode b64 v of
          None \<Rightarrow> Inl ''invalid list cursor encoding''
        | Some bs \<Rightarrow>
            if length bs \<noteq> 57 \<or> hd bs \<noteq> 3 then Inl ''unsupported list cursor version''
            else if b64_encode b64 bs \<noteq> v then Inl ''non-canonical list cursor encoding''
            else Inr \<lparr>dc_id = take 32 (drop 1 bs), dc_offset = from_be_bytes (take 8 (drop 33 bs)),
                      dc_tag = drop 41 bs\<rparr>))"

section \<open>Pages\<close>

record ListSnapshotPage =
  pg_paths :: "PathItem list"
  pg_start :: nat
  pg_end :: nat
  pg_next_cursor :: "string option"

definition page_items :: "ListSnapshotPage \<Rightarrow> PathItem list" where
  "page_items pg = take (pg_end pg - pg_start pg) (drop (pg_start pg) (pg_paths pg))"

definition page_from_vec :: "PathItem list \<Rightarrow> string option \<Rightarrow> ListSnapshotPage" where
  "page_from_vec paths next_cursor =
     \<lparr>pg_paths = paths, pg_start = 0, pg_end = length paths, pg_next_cursor = next_cursor\<rparr>"

datatype ListSnapshotLookupError = LookupDirectoryChanged | LookupInvalidBinding | LookupUnavailable

definition snapshot_page ::
  "B64Lib \<Rightarrow> (bytes \<Rightarrow> bytes) \<Rightarrow> DecodedListCursor \<Rightarrow> ListSnapshotRequest \<Rightarrow> nat \<Rightarrow> ListSnapshotStore \<Rightarrow>
    (ListSnapshotLookupError + ListSnapshotPage) \<times> ListSnapshotStore" where
  "snapshot_page b64 sha256 cursor request now s =
     (let s = snapshot_purge_expired now s in
      ((case map_of (ss_snapshots s) (dc_id cursor) of
          None \<Rightarrow> Inl LookupUnavailable
        | Some r \<Rightarrow>
            if list_cursor_tag sha256 (sr_secret r) (dc_id cursor) (dc_offset cursor) \<noteq> dc_tag cursor
            then Inl LookupUnavailable
            else if \<not> matches_request (sr_binding r) request then Inl LookupInvalidBinding
            else if sb_directory (sr_binding r) \<noteq> sb_directory request then Inl LookupDirectoryChanged
            else
              let offset = unat (dc_offset cursor) in
              if offset = 0 \<or> offset \<ge> length (sr_paths r) then Inl LookupUnavailable
              else
                let stop = min (sat_add offset (sb_limit (sr_binding r))) (length (sr_paths r)) in
                Inr \<lparr>pg_paths = sr_paths r, pg_start = offset, pg_end = stop,
                     pg_next_cursor =
                       (if stop < length (sr_paths r)
                        then Some (encode_list_cursor b64 sha256 (dc_id cursor) (sr_secret r) (of_nat stop))
                        else None)\<rparr>), s))"

text \<open>\<open>sm_record_size\<close> and the capacities of the binding's strings are parameters, as in the
  collection of a listing.\<close>

record SnapshotMem =
  sm_mem :: MemLib
  sm_record_size :: nat
  sm_capacity :: "string \<Rightarrow> nat"

definition list_snapshot_weight ::
  "SnapshotMem \<Rightarrow> ListSnapshotBinding \<Rightarrow> PathItem list \<Rightarrow> nat \<Rightarrow> nat" where
  "list_snapshot_weight sm b paths path_capacity =
     (let fixed = sat_add (sm_record_size sm) (sat_mul path_capacity (mem_item_size (sm_mem sm))) in
      foldl (\<lambda>weight item.
          sat_add (sat_add weight (mem_name_capacity (sm_mem sm) item)) (mem_sort_name_capacity (sm_mem sm) item))
        (sat_add (sat_add (sat_add (sat_add fixed (length (sb_path b))) (sm_capacity sm (sb_sort b)))
          (sm_capacity sm (sb_order b))) (sm_capacity sm (sb_query b)))
        paths)"

text \<open>Up to eight draws of 64 random bytes; a draw that fails or hits a used id is skipped.\<close>

fun find_cursor_id :: "ListSnapshotStore \<Rightarrow> bytes option list \<Rightarrow> (bytes \<times> bytes) option" where
  "find_cursor_id s [] = None"
| "find_cursor_id s (None # draws) = find_cursor_id s draws"
| "find_cursor_id s (Some random # draws) =
     (if map_of (ss_snapshots s) (take 32 random) \<noteq> None then find_cursor_id s draws
      else Some (take 32 random, drop 32 random))"

text \<open>\<open>None\<close> when eviction does not end.\<close>

definition snapshot_cache ::
  "B64Lib \<Rightarrow> (bytes \<Rightarrow> bytes) \<Rightarrow> SnapshotMem \<Rightarrow> (nat \<Rightarrow> bytes option) \<Rightarrow> bytes \<Rightarrow> ListSnapshotBinding \<Rightarrow>
    PathItem Vec \<Rightarrow> nat \<Rightarrow> ListSnapshotStore \<Rightarrow>
    ((ListingError + ListSnapshotPage) \<times> ListSnapshotStore) option" where
  "snapshot_cache b64 sha256 sm random serve_root b paths now s =
     (let weight = list_snapshot_weight sm b (vec_items paths) (vec_capacity paths) in
      if weight > MAX_CACHED_LIST_SNAPSHOT_BYTES_PER_OWNER
      then Some (Inl (le_limit ''list_snapshot_cache'' (sb_path b) serve_root ''snapshot_memory_budget''
        ListSnapshotLimit), s)
      else
        map_option (\<lambda>s.
          case find_cursor_id s (map random [0..<8]) of
            None \<Rightarrow> (Inl (le_limit ''list_snapshot_cache'' (sb_path b) serve_root
              ''random_cursor_generation'' DirectoryOperationFailed), s)
          | Some (i, secret) \<Rightarrow>
              (Inr \<lparr>pg_paths = vec_items paths, pg_start = 0, pg_end = sb_limit b,
                   pg_next_cursor = Some (encode_list_cursor b64 sha256 i secret (of_nat (sb_limit b)))\<rparr>,
               s\<lparr>ss_total_weight := sat_add (ss_total_weight s) weight,
                 ss_insertion_order := ss_insertion_order s @ [i],
                 ss_snapshots := (i, \<lparr>sr_secret = secret, sr_binding = b, sr_paths = vec_items paths,
                   sr_expires_at = now + LIST_SNAPSHOT_TTL, sr_weight = weight\<rparr>) # ss_snapshots s\<rparr>))
          (make_room (sb_owner b) weight (snapshot_purge_expired now s)))"

section \<open>The invariant\<close>

definition snapshot_weights :: "ListSnapshotStore \<Rightarrow> nat" where
  "snapshot_weights s = sum_list (map (\<lambda>p. sr_weight (snd p)) (ss_snapshots s))"

definition owned :: "bytes \<Rightarrow> ListSnapshotStore \<Rightarrow> ListSnapshotRecord list" where
  "owned owner s = filter (\<lambda>r. sb_owner (sr_binding r) = owner) (map snd (ss_snapshots s))"

text \<open>Every snapshot has one place in the insertion order and the total weight is exact.\<close>

definition store_wf :: "ListSnapshotStore \<Rightarrow> bool" where
  "store_wf s \<longleftrightarrow>
     distinct (map fst (ss_snapshots s)) \<and> distinct (ss_insertion_order s)
     \<and> set (ss_insertion_order s) = set (map fst (ss_snapshots s))
     \<and> ss_total_weight s = snapshot_weights s"

text \<open>The insertion order is the order of expiry.  The instant of a call is read before the lock is
  taken, so this holds only when the calls enter in the order of their instants.\<close>

definition store_timed :: "nat \<Rightarrow> ListSnapshotStore \<Rightarrow> bool" where
  "store_timed now s \<longleftrightarrow>
     sorted_wrt (\<lambda>i j. \<forall>r q. map_of (ss_snapshots s) i = Some r \<and> map_of (ss_snapshots s) j = Some q \<longrightarrow>
         sr_expires_at r \<le> sr_expires_at q) (ss_insertion_order s)
     \<and> (\<forall>i r. map_of (ss_snapshots s) i = Some r \<longrightarrow> sr_expires_at r \<le> now + LIST_SNAPSHOT_TTL)"

definition store_bounded :: "ListSnapshotStore \<Rightarrow> bool" where
  "store_bounded s \<longleftrightarrow>
     length (ss_snapshots s) \<le> MAX_CACHED_LIST_SNAPSHOTS
     \<and> snapshot_weights s \<le> MAX_CACHED_LIST_SNAPSHOT_BYTES
     \<and> (\<forall>owner. length (owned owner s) \<le> MAX_CACHED_LIST_SNAPSHOTS_PER_OWNER
          \<and> sum_list (map sr_weight (owned owner s)) \<le> MAX_CACHED_LIST_SNAPSHOT_BYTES_PER_OWNER)"

text \<open>What every eviction does.\<close>

definition evict :: "bytes \<Rightarrow> ListSnapshotStore \<Rightarrow> ListSnapshotStore" where
  "evict i s = s\<lparr>ss_snapshots := filter (\<lambda>(j, _). j \<noteq> i) (ss_snapshots s),
     ss_insertion_order := filter (\<lambda>j. j \<noteq> i) (ss_insertion_order s),
     ss_total_weight := ss_total_weight s - (case map_of (ss_snapshots s) i of None \<Rightarrow> 0 | Some r \<Rightarrow> sr_weight r)\<rparr>"

lemma map_of_filter_other: "map_of (filter (\<lambda>(j, _). j \<noteq> i) xs) j = (if j = i then None else map_of xs j)"
  by (induction xs) auto

lemma sum_filter_other:
  "distinct (map fst xs) \<Longrightarrow> map_of xs i = Some r \<Longrightarrow>
    sum_list (map (\<lambda>p. f (snd p)) xs) = f r + sum_list (map (\<lambda>p. f (snd p)) (filter (\<lambda>(j, _). j \<noteq> i) xs))"
  for f :: "'b \<Rightarrow> nat"
proof (induction xs)
  case (Cons p xs)
  show ?case
  proof (cases "fst p = i")
    case True
    with Cons.prems have "filter (\<lambda>(j, _). j \<noteq> i) xs = xs"
      by (auto simp: filter_id_conv image_iff split: prod.splits)
    with True Cons.prems show ?thesis by (cases p) auto
  next
    case False
    with Cons show ?thesis by (cases p) auto
  qed
qed simp

lemma map_fst_filter: "map fst (filter (\<lambda>(j, _). j \<noteq> i) xs) = filter (\<lambda>j. j \<noteq> i) (map fst xs)"
  by (induction xs) auto

lemma sorted_wrt_mono_on:
  "sorted_wrt P xs \<Longrightarrow> (\<And>x y. x \<in> set xs \<Longrightarrow> y \<in> set xs \<Longrightarrow> P x y \<Longrightarrow> Q x y) \<Longrightarrow> sorted_wrt Q xs"
  by (induction xs) auto

lemma evict_wf:
  assumes "store_wf s" and "i \<in> set (ss_insertion_order s)" shows "store_wf (evict i s)"
proof -
  have "i \<in> fst ` set (ss_snapshots s)" using assms by (simp add: store_wf_def)
  then obtain r where r: "map_of (ss_snapshots s) i = Some r"
    by (metis domD dom_map_of_conv_image_fst)
  have wt: "ss_total_weight (evict i s) = snapshot_weights (evict i s)"
    using assms(1) r sum_filter_other [of "ss_snapshots s" i r sr_weight]
    by (simp add: store_wf_def evict_def snapshot_weights_def)
  have keys: "map fst (ss_snapshots (evict i s)) = filter (\<lambda>j. j \<noteq> i) (map fst (ss_snapshots s))"
    "ss_insertion_order (evict i s) = filter (\<lambda>j. j \<noteq> i) (ss_insertion_order s)"
    by (simp_all add: evict_def map_fst_filter)
  have old: "distinct (map fst (ss_snapshots s))" "distinct (ss_insertion_order s)"
    "set (ss_insertion_order s) = set (map fst (ss_snapshots s))"
    using assms(1) unfolding store_wf_def by blast+
  show ?thesis
    unfolding store_wf_def by (intro conjI wt; simp only: keys old distinct_filter set_filter)
qed

lemma evict_timed: "store_timed now s \<Longrightarrow> store_timed now (evict i s)"
  unfolding store_timed_def evict_def
  by (auto simp: map_of_filter_other intro!: sorted_wrt_filter elim!: sorted_wrt_mono_on split: if_splits)

lemma evict_sub:
  "length (ss_snapshots (evict i s)) \<le> length (ss_snapshots s)"
  "snapshot_weights (evict i s) \<le> snapshot_weights s"
  "length (owned owner (evict i s)) \<le> length (owned owner s)"
  "sum_list (map sr_weight (owned owner (evict i s))) \<le> sum_list (map sr_weight (owned owner s))"
  "map_of (ss_snapshots (evict i s)) j = (if j = i then None else map_of (ss_snapshots s) j)"
proof -
  have sum: "sum_list (map f (filter P xs)) \<le> sum_list (map f xs)" for f :: "'x \<Rightarrow> nat" and P xs
    by (induction xs) auto
  have own: "owned owner (evict i s) = map snd (filter (\<lambda>p. fst p \<noteq> i)
      (filter (\<lambda>p. sb_owner (sr_binding (snd p)) = owner) (ss_snapshots s)))"
    "owned owner s = map snd (filter (\<lambda>p. sb_owner (sr_binding (snd p)) = owner) (ss_snapshots s))"
    unfolding owned_def evict_def
    by (simp_all add: filter_map o_def case_prod_unfold conj_commute)
  show "length (ss_snapshots (evict i s)) \<le> length (ss_snapshots s)" by (simp add: evict_def)
  show "snapshot_weights (evict i s) \<le> snapshot_weights s"
    using sum by (simp add: evict_def snapshot_weights_def)
  show "length (owned owner (evict i s)) \<le> length (owned owner s)"
    unfolding own by (simp del: filter_filter)
  show "sum_list (map sr_weight (owned owner (evict i s))) \<le> sum_list (map sr_weight (owned owner s))"
    unfolding own using sum by (simp del: filter_filter add: o_def)
  show "map_of (ss_snapshots (evict i s)) j = (if j = i then None else map_of (ss_snapshots s) j)"
    by (simp add: evict_def map_of_filter_other)
qed

text \<open>Evictions in any number.\<close>

inductive evicts :: "ListSnapshotStore \<Rightarrow> ListSnapshotStore \<Rightarrow> bool" where
  evicts_none: "evicts s s"
| evicts_one: "i \<in> set (ss_insertion_order s) \<Longrightarrow> evicts (evict i s) s' \<Longrightarrow> evicts s s'"

lemma evicts_trans: "evicts s t \<Longrightarrow> evicts t u \<Longrightarrow> evicts s u"
  by (induction rule: evicts.induct) (auto intro: evicts.intros)

lemma evicts_keeps:
  "evicts s s' \<Longrightarrow> store_wf s \<Longrightarrow> store_wf s' \<and> (store_timed now s \<longrightarrow> store_timed now s')
    \<and> (store_bounded s \<longrightarrow> store_bounded s')
    \<and> length (ss_snapshots s') \<le> length (ss_snapshots s) \<and> snapshot_weights s' \<le> snapshot_weights s
    \<and> length (owned owner s') \<le> length (owned owner s)
    \<and> sum_list (map sr_weight (owned owner s')) \<le> sum_list (map sr_weight (owned owner s))
    \<and> (\<forall>j r. map_of (ss_snapshots s') j = Some r \<longrightarrow> map_of (ss_snapshots s) j = Some r)"
proof (induction rule: evicts.induct)
  case (evicts_one i s s')
  note e = evict_sub [where i = i and s = s]
  have bounded: "store_bounded s \<longrightarrow> store_bounded (evict i s)"
    unfolding store_bounded_def by (auto intro: order_trans [OF e(1)] order_trans [OF e(2)]
        order_trans [OF e(3)] order_trans [OF e(4)])
  have timed: "store_timed now s \<longrightarrow> store_timed now (evict i s)" by (simp add: evict_timed)
  have "store_wf (evict i s)" using evict_wf evicts_one by blast
  note IH = evicts_one.IH [OF this]
  have "map_of (ss_snapshots (evict i s)) j = Some r \<longrightarrow> map_of (ss_snapshots s) j = Some r" for j r
    by (simp add: e(5))
  with IH have "\<forall>j r. map_of (ss_snapshots s') j = Some r \<longrightarrow> map_of (ss_snapshots s) j = Some r" by blast
  with IH bounded timed show ?case
    by (simp add: order_trans [OF _ e(1)] order_trans [OF _ e(2)] order_trans [OF _ e(3)] order_trans [OF _ e(4)])
qed auto

lemma wf_head:
  assumes "store_wf s" and "ss_insertion_order s = i # rest"
  shows "\<exists>r. map_of (ss_snapshots s) i = Some r" and "remove_oldest s = evict i s"
proof -
  have "i \<in> fst ` set (ss_snapshots s)" using assms by (auto simp: store_wf_def)
  then show r: "\<exists>r. map_of (ss_snapshots s) i = Some r" by (metis domD dom_map_of_conv_image_fst)
  have "filter (\<lambda>j. j \<noteq> i) rest = rest" using assms by (auto simp: store_wf_def filter_id_conv)
  with r assms(2) show "remove_oldest s = evict i s"
    by (subst remove_oldest.simps) (auto simp: evict_def snapshot_remove_def sat_sub_def)
qed

lemma wf_later:
  assumes "store_wf s" and timed: "store_timed t s" and "ss_insertion_order s = i # rest"
    and "map_of (ss_snapshots s) i = Some r" and "(j, q) \<in> set (ss_snapshots s)"
  shows "sr_expires_at r \<le> sr_expires_at q"
proof -
  have q: "map_of (ss_snapshots s) j = Some q" using assms(1,5) by (simp add: store_wf_def)
  moreover have "j \<in> set (ss_insertion_order s)" using assms(1,5) unfolding store_wf_def by force
  ultimately show ?thesis using timed assms(3,4) by (cases "j = i") (auto simp: store_timed_def)
qed

lemma purge_expired_ok:
  "store_wf s \<Longrightarrow> evicts s (snapshot_purge_expired now s)
    \<and> (store_timed t s \<longrightarrow> (\<forall>(j, q)\<in>set (ss_snapshots (snapshot_purge_expired now s)). now < sr_expires_at q))"
proof (induction now s rule: snapshot_purge_expired.induct)
  case (1 now s)
  show ?case
  proof (cases "ss_insertion_order s")
    case Nil
    then have "ss_snapshots s = []" using 1(2) by (simp add: store_wf_def)
    with Nil show ?thesis by (subst (1 2) snapshot_purge_expired.simps) (simp add: evicts_none)
  next
    case (Cons i rest)
    then obtain r where r: "map_of (ss_snapshots s) i = Some r" using wf_head(1) [OF 1(2)] by blast
    show ?thesis
    proof (cases "sr_expires_at r \<le> now")
      case True
      have i: "i \<in> set (ss_insertion_order s)" using Cons by simp
      have "snapshot_purge_expired now s = snapshot_purge_expired now (evict i s)"
        using Cons r True wf_head(2) [OF 1(2) Cons] by (subst snapshot_purge_expired.simps) simp
      moreover have "evicts (evict i s) (snapshot_purge_expired now (evict i s))
          \<and> (store_timed t (evict i s) \<longrightarrow>
            (\<forall>(j, q)\<in>set (ss_snapshots (snapshot_purge_expired now (evict i s))). now < sr_expires_at q))"
        using 1(1) [OF Cons] evict_wf [OF 1(2) i] r True wf_head(2) [OF 1(2) Cons] by simp
      ultimately show ?thesis using evicts_one [OF i] evict_timed by simp
    next
      case False
      then have "snapshot_purge_expired now s = s"
        using Cons r by (subst snapshot_purge_expired.simps) simp
      then show ?thesis using wf_later [OF 1(2) _ Cons r] False by (force simp: evicts_none)
    qed
  qed
qed

lemma remove_for_owner_ok:
  assumes "store_wf s"
  shows "remove_oldest_for_owner owner s = (False, s) \<and> owned owner s = []
    \<or> (\<exists>i r. remove_oldest_for_owner owner s = (True, evict i s) \<and> i \<in> set (ss_insertion_order s)
        \<and> map_of (ss_snapshots s) i = Some r \<and> sb_owner (sr_binding r) = owner)"
proof (cases "split_first (\<lambda>i. case map_of (ss_snapshots s) i of
            None \<Rightarrow> False | Some r \<Rightarrow> sb_owner (sr_binding r) = owner) (ss_insertion_order s)")
  case None
  have "sb_owner (sr_binding r) \<noteq> owner" if "(i, r) \<in> set (ss_snapshots s)" for i r
  proof -
    have "map_of (ss_snapshots s) i = Some r" using assms that by (simp add: store_wf_def)
    moreover have "i \<in> set (ss_insertion_order s)" using assms that unfolding store_wf_def by force
    ultimately show ?thesis using None unfolding split_first_None list_all_iff by fastforce
  qed
  then have "owned owner s = []" by (force simp: owned_def filter_empty_conv)
  with None show ?thesis by (simp add: remove_oldest_for_owner_def)
next
  case (Some abc)
  obtain a i b where "abc = (a, i, b)" by (cases abc) auto
  with Some have sp: "split_first (\<lambda>i. case map_of (ss_snapshots s) i of
            None \<Rightarrow> False | Some r \<Rightarrow> sb_owner (sr_binding r) = owner) (ss_insertion_order s) = Some (a, i, b)"
    by simp
  note ab = split_first_Some [OF sp]
  then obtain r where r: "map_of (ss_snapshots s) i = Some r" "sb_owner (sr_binding r) = owner"
    by (auto split: option.splits)
  have "distinct (a @ i # b)" using assms ab by (simp add: store_wf_def)
  then have "filter (\<lambda>j. j \<noteq> i) a = a" "filter (\<lambda>j. j \<noteq> i) b = b"
    by (auto simp: filter_id_conv)
  with sp ab r have "remove_oldest_for_owner owner s = (True, evict i s)"
    by (simp add: remove_oldest_for_owner_def evict_def snapshot_remove_def sat_sub_def)
  with ab r show ?thesis by auto
qed

lemma owner_usage_exact:
  "owner_usage owner s =
    (min (length (owned owner s)) usize_max, min (sum_list (map sr_weight (owned owner s))) usize_max)"
proof -
  have "foldl (\<lambda>(count, weight) r. (sat_add count 1, sat_add weight (sr_weight r)))
      (min c usize_max, min w usize_max) rs
    = (min (c + length rs) usize_max, min (w + sum_list (map sr_weight rs)) usize_max)" for c w rs
  proof (induction rs arbitrary: c w)
    case (Cons r rs)
    have "sat_add (min c usize_max) 1 = min (c + 1) usize_max"
      "sat_add (min w usize_max) (sr_weight r) = min (w + sr_weight r) usize_max"
      by (auto simp: sat_add_def min_def)
    then show ?case using Cons [of "c + 1" "w + sr_weight r"] by (simp add: add.assoc)
  qed simp
  from this [of 0 0 "owned owner s"] show ?thesis by (simp add: owner_usage_def owned_def)
qed

lemma sat_add_le: "n < usize_max \<Longrightarrow> sat_add (min a usize_max) b \<le> n \<longleftrightarrow> a + b \<le> n"
  by (auto simp: sat_add_def min_def)

lemma limits_lt_usize:
  "MAX_CACHED_LIST_SNAPSHOTS_PER_OWNER < usize_max" "MAX_CACHED_LIST_SNAPSHOT_BYTES_PER_OWNER < usize_max"
  "MAX_CACHED_LIST_SNAPSHOT_BYTES < usize_max"
  by (simp_all add: snapshot_limits usize_max_def)

lemma owner_fits:
  "(case owner_usage owner s of (c, w) \<Rightarrow> c < MAX_CACHED_LIST_SNAPSHOTS_PER_OWNER
      \<and> sat_add w weight \<le> MAX_CACHED_LIST_SNAPSHOT_BYTES_PER_OWNER)
    \<longleftrightarrow> length (owned owner s) < MAX_CACHED_LIST_SNAPSHOTS_PER_OWNER
      \<and> sum_list (map sr_weight (owned owner s)) + weight \<le> MAX_CACHED_LIST_SNAPSHOT_BYTES_PER_OWNER"
  using limits_lt_usize(1) by (auto simp: owner_usage_exact sat_add_le [OF limits_lt_usize(2)] min_less_iff_disj)

lemma make_room_owner_ok:
  "store_wf s \<Longrightarrow> weight \<le> MAX_CACHED_LIST_SNAPSHOT_BYTES_PER_OWNER \<Longrightarrow>
    evicts s (make_room_owner owner weight s)
    \<and> length (owned owner (make_room_owner owner weight s)) < MAX_CACHED_LIST_SNAPSHOTS_PER_OWNER
    \<and> sum_list (map sr_weight (owned owner (make_room_owner owner weight s))) + weight
      \<le> MAX_CACHED_LIST_SNAPSHOT_BYTES_PER_OWNER"
proof (induction owner weight s rule: make_room_owner.induct)
  case (1 owner weight s)
  obtain c w where u: "owner_usage owner s = (c, w)" by (cases "owner_usage owner s")
  note fits = owner_fits [where owner = owner and s = s and weight = weight, unfolded u prod.case]
  note eq = make_room_owner.simps [of owner weight s, unfolded u prod.case]
  show ?case
  proof (cases "c < MAX_CACHED_LIST_SNAPSHOTS_PER_OWNER
      \<and> sat_add w weight \<le> MAX_CACHED_LIST_SNAPSHOT_BYTES_PER_OWNER")
    case True
    with fits eq show ?thesis by (simp add: evicts_none)
  next
    case False
    from remove_for_owner_ok [OF 1(2), of owner] show ?thesis
    proof (elim disjE exE conjE)
      assume "owned owner s = []"
      then show ?thesis using fits False 1(3) by (simp add: MAX_CACHED_LIST_SNAPSHOTS_PER_OWNER_def)
    next
      fix i r assume rm: "remove_oldest_for_owner owner s = (True, evict i s)"
        and i: "i \<in> set (ss_insertion_order s)"
      have "make_room_owner owner weight s = make_room_owner owner weight (evict i s)"
        using eq False rm by simp
      then show ?thesis
        using 1(1) [OF u [symmetric] False rm [symmetric] refl evict_wf [OF 1(2) i] 1(3)] evicts_one [OF i]
        by simp
    qed
  qed
qed

lemma make_room_global_ok:
  "store_wf s \<Longrightarrow> weight \<le> MAX_CACHED_LIST_SNAPSHOT_BYTES \<Longrightarrow>
    \<exists>s'. make_room_global weight s = Some s' \<and> evicts s s'
      \<and> length (ss_snapshots s') < MAX_CACHED_LIST_SNAPSHOTS
      \<and> snapshot_weights s' + weight \<le> MAX_CACHED_LIST_SNAPSHOT_BYTES"
proof (induction weight s rule: make_room_global.induct)
  case (1 weight s)
  let ?full = "ss_snapshots s \<noteq> [] \<and> (length (ss_snapshots s) \<ge> MAX_CACHED_LIST_SNAPSHOTS
            \<or> sat_add (ss_total_weight s) weight > MAX_CACHED_LIST_SNAPSHOT_BYTES)"
  show ?case
  proof (cases ?full)
    case True
    then obtain i rest where o: "ss_insertion_order s = i # rest"
      using 1(2) by (cases "ss_insertion_order s") (auto simp: store_wf_def)
    then have i: "i \<in> set (ss_insertion_order s)" and ne: "ss_insertion_order s \<noteq> []" by auto
    have "make_room_global weight s = make_room_global weight (evict i s)"
      using True ne wf_head(2) [OF 1(2) o] by (subst make_room_global.simps) simp
    then show ?thesis
      using 1(1) [OF True ne, unfolded wf_head(2) [OF 1(2) o], OF evict_wf [OF 1(2) i] 1(3)] evicts_one [OF i]
      by auto
  next
    case False
    then have "make_room_global weight s = Some s" by (subst make_room_global.simps) argo
    moreover have "ss_total_weight s = snapshot_weights s" using 1(2) by (simp add: store_wf_def)
    moreover have "sat_add a weight \<le> MAX_CACHED_LIST_SNAPSHOT_BYTES \<Longrightarrow> a + weight \<le> MAX_CACHED_LIST_SNAPSHOT_BYTES" for a
      using limits_lt_usize(3) by (auto simp: sat_add_def min_def split: if_splits)
    ultimately show ?thesis using False 1(3)
      by (auto simp: evicts_none snapshot_weights_def MAX_CACHED_LIST_SNAPSHOTS_def not_le not_less)
  qed
qed

lemma make_room_ok:
  assumes "store_wf s" and "weight \<le> MAX_CACHED_LIST_SNAPSHOT_BYTES_PER_OWNER"
  shows "\<exists>s'. make_room owner weight s = Some s' \<and> evicts s s'
    \<and> length (ss_snapshots s') < MAX_CACHED_LIST_SNAPSHOTS
    \<and> snapshot_weights s' + weight \<le> MAX_CACHED_LIST_SNAPSHOT_BYTES
    \<and> length (owned owner s') < MAX_CACHED_LIST_SNAPSHOTS_PER_OWNER
    \<and> sum_list (map sr_weight (owned owner s')) + weight \<le> MAX_CACHED_LIST_SNAPSHOT_BYTES_PER_OWNER"
proof -
  let ?t = "make_room_owner owner weight s"
  note own = make_room_owner_ok [OF assms, of owner]
  have wf: "store_wf ?t" using own evicts_keeps assms(1) by blast
  have "weight \<le> MAX_CACHED_LIST_SNAPSHOT_BYTES" using assms(2) by (simp add: snapshot_limits)
  from make_room_global_ok [OF wf this] obtain s' where s': "make_room_global weight ?t = Some s'" "evicts ?t s'"
      "length (ss_snapshots s') < MAX_CACHED_LIST_SNAPSHOTS"
      "snapshot_weights s' + weight \<le> MAX_CACHED_LIST_SNAPSHOT_BYTES" by blast
  have "length (owned owner s') \<le> length (owned owner ?t)"
    "sum_list (map sr_weight (owned owner s')) \<le> sum_list (map sr_weight (owned owner ?t))"
    using evicts_keeps [OF s'(2) wf, where owner = owner] by blast+
  with s' own show ?thesis unfolding make_room_def by (auto intro: evicts_trans)
qed

lemma find_cursor_id_fresh:
  "find_cursor_id s draws = Some (i, secret) \<Longrightarrow> map_of (ss_snapshots s) i = None"
  by (induction s draws rule: find_cursor_id.induct) (auto split: if_splits)

lemma store_timed_mono: "store_timed t s \<Longrightarrow> t \<le> now \<Longrightarrow> store_timed now s"
  unfolding store_timed_def by (meson add_le_mono1 order_trans)

definition store_insert :: "bytes \<Rightarrow> ListSnapshotRecord \<Rightarrow> ListSnapshotStore \<Rightarrow> ListSnapshotStore" where
  "store_insert i r s = s\<lparr>ss_total_weight := sat_add (ss_total_weight s) (sr_weight r),
     ss_insertion_order := ss_insertion_order s @ [i], ss_snapshots := (i, r) # ss_snapshots s\<rparr>"

lemma store_insert_wf:
  assumes "store_wf s" and "map_of (ss_snapshots s) i = None"
    and "snapshot_weights s + sr_weight r \<le> MAX_CACHED_LIST_SNAPSHOT_BYTES"
  shows "store_wf (store_insert i r s)"
proof -
  have "i \<notin> set (map fst (ss_snapshots s))" using assms(2) by (simp add: map_of_eq_None_iff)
  moreover have "sat_add (snapshot_weights s) (sr_weight r) = snapshot_weights s + sr_weight r"
    using assms(3) limits_lt_usize(3) by (simp add: sat_add_def)
  ultimately show ?thesis using assms(1) by (simp add: store_wf_def store_insert_def snapshot_weights_def)
qed

lemma store_insert_timed:
  assumes "store_timed now s" and "store_wf s" and "map_of (ss_snapshots s) i = None"
    and "sr_expires_at r = now + LIST_SNAPSHOT_TTL"
  shows "store_timed now (store_insert i r s)"
proof -
  have i: "i \<notin> set (ss_insertion_order s)" using assms(2,3) by (simp add: store_wf_def map_of_eq_None_iff)
  have m: "map_of (ss_snapshots (store_insert i r s)) j = (if j = i then Some r else map_of (ss_snapshots s) j)" for j
    by (simp add: store_insert_def)
  have o: "ss_insertion_order (store_insert i r s) = ss_insertion_order s @ [i]" by (simp add: store_insert_def)
  have "sorted_wrt (\<lambda>a b. \<forall>x q. (if a = i then Some r else map_of (ss_snapshots s) a) = Some x
      \<and> (if b = i then Some r else map_of (ss_snapshots s) b) = Some q \<longrightarrow> sr_expires_at x \<le> sr_expires_at q)
      (ss_insertion_order s)"
    using assms(1) i unfolding store_timed_def by (auto elim!: sorted_wrt_mono_on split: if_splits)
  then show ?thesis using assms(1,4) i unfolding store_timed_def m o by (auto simp: sorted_wrt_append)
qed

lemma store_insert_bounded:
  assumes "store_bounded s" and "length (ss_snapshots s) < MAX_CACHED_LIST_SNAPSHOTS"
    and "snapshot_weights s + sr_weight r \<le> MAX_CACHED_LIST_SNAPSHOT_BYTES"
    and "length (owned (sb_owner (sr_binding r)) s) < MAX_CACHED_LIST_SNAPSHOTS_PER_OWNER"
    and "sum_list (map sr_weight (owned (sb_owner (sr_binding r)) s)) + sr_weight r
      \<le> MAX_CACHED_LIST_SNAPSHOT_BYTES_PER_OWNER"
  shows "store_bounded (store_insert i r s)"
  using assms by (auto simp: store_bounded_def store_insert_def snapshot_weights_def owned_def)

section \<open>Runs of the cache\<close>

text \<open>A call enters with the instant its caller read.\<close>

datatype SnapshotCall =
    CallCache "nat \<Rightarrow> bytes option" bytes ListSnapshotBinding "PathItem Vec" nat
  | CallPage DecodedListCursor ListSnapshotRequest nat

fun call_time :: "SnapshotCall \<Rightarrow> nat" where
  "call_time (CallCache _ _ _ _ now) = now"
| "call_time (CallPage _ _ now) = now"

fun snapshot_call ::
  "B64Lib \<Rightarrow> (bytes \<Rightarrow> bytes) \<Rightarrow> SnapshotMem \<Rightarrow> SnapshotCall \<Rightarrow> ListSnapshotStore \<Rightarrow> ListSnapshotStore option" where
  "snapshot_call b64 sha256 sm (CallCache random serve_root b paths now) s =
     map_option snd (snapshot_cache b64 sha256 sm random serve_root b paths now s)"
| "snapshot_call b64 sha256 sm (CallPage cursor request now) s =
     Some (snd (snapshot_page b64 sha256 cursor request now s))"

fun snapshot_run ::
  "B64Lib \<Rightarrow> (bytes \<Rightarrow> bytes) \<Rightarrow> SnapshotMem \<Rightarrow> SnapshotCall list \<Rightarrow> ListSnapshotStore \<Rightarrow> ListSnapshotStore option" where
  "snapshot_run b64 sha256 sm [] s = Some s"
| "snapshot_run b64 sha256 sm (call # calls) s =
     Option.bind (snapshot_call b64 sha256 sm call s) (snapshot_run b64 sha256 sm calls)"

lemma purge_keeps:
  assumes "store_wf s"
  shows "store_wf (snapshot_purge_expired now s)" "store_bounded s \<Longrightarrow> store_bounded (snapshot_purge_expired now s)"
    "store_timed t s \<Longrightarrow> store_timed t (snapshot_purge_expired now s)"
    "map_of (ss_snapshots (snapshot_purge_expired now s)) j = Some r \<Longrightarrow> map_of (ss_snapshots s) j = Some r"
  using evicts_keeps [OF conjunct1 [OF purge_expired_ok [OF assms]] assms] by blast+

lemma snapshot_cache_ok:
  assumes "store_wf s"
  shows "\<exists>res s'. snapshot_cache b64 sha256 sm random serve_root b paths now s = Some (res, s')
    \<and> store_wf s' \<and> (store_bounded s \<longrightarrow> store_bounded s') \<and> (store_timed t s \<and> t \<le> now \<longrightarrow> store_timed now s')"
proof (cases "list_snapshot_weight sm b (vec_items paths) (vec_capacity paths) > MAX_CACHED_LIST_SNAPSHOT_BYTES_PER_OWNER")
  case True
  then show ?thesis using assms by (auto simp: snapshot_cache_def intro: store_timed_mono)
next
  case False
  let ?w = "list_snapshot_weight sm b (vec_items paths) (vec_capacity paths)"
  let ?p = "snapshot_purge_expired now s"
  from make_room_ok [OF purge_keeps(1) [OF assms], of ?w "sb_owner b" now] False
  obtain m where m: "make_room (sb_owner b) ?w ?p = Some m" "evicts ?p m"
    "length (ss_snapshots m) < MAX_CACHED_LIST_SNAPSHOTS"
    "snapshot_weights m + ?w \<le> MAX_CACHED_LIST_SNAPSHOT_BYTES"
    "length (owned (sb_owner b) m) < MAX_CACHED_LIST_SNAPSHOTS_PER_OWNER"
    "sum_list (map sr_weight (owned (sb_owner b) m)) + ?w \<le> MAX_CACHED_LIST_SNAPSHOT_BYTES_PER_OWNER"
    by auto
  note k = evicts_keeps [OF m(2) purge_keeps(1) [OF assms]]
  have k: "store_wf m" "store_bounded s \<longrightarrow> store_bounded m" "store_timed t s \<and> t \<le> now \<longrightarrow> store_timed now m"
    using k purge_keeps [OF assms] store_timed_mono by blast+
  show ?thesis
  proof (cases "find_cursor_id m (map random [0..<8])")
    case None
    with False m(1) k show ?thesis by (simp add: snapshot_cache_def)
  next
    case (Some found)
    obtain i secret where f: "find_cursor_id m (map random [0..<8]) = Some (i, secret)"
      using Some by (cases found) auto
    let ?r = "\<lparr>sr_secret = secret, sr_binding = b, sr_paths = vec_items paths,
      sr_expires_at = now + LIST_SNAPSHOT_TTL, sr_weight = ?w\<rparr>"
    have "\<exists>pg. snapshot_cache b64 sha256 sm random serve_root b paths now s = Some (Inr pg, store_insert i ?r m)"
      using False m(1) f by (simp add: snapshot_cache_def Let_def store_insert_def)
    moreover note fresh = find_cursor_id_fresh [OF f]
    moreover have "store_wf (store_insert i ?r m)" using store_insert_wf [OF k(1) fresh] m(4) by simp
    moreover have "store_bounded m \<Longrightarrow> store_bounded (store_insert i ?r m)"
      using store_insert_bounded [of m ?r i] m(3-6) by simp
    moreover have "store_timed now m \<Longrightarrow> store_timed now (store_insert i ?r m)"
      using store_insert_timed [OF _ k(1) fresh, of now ?r] by simp
    ultimately show ?thesis using k by blast
  qed
qed

lemma snapshot_page_store: "snd (snapshot_page b64 sha256 cursor request now s) = snapshot_purge_expired now s"
  by (simp add: snapshot_page_def Let_def)

lemma snapshot_call_ok:
  assumes "store_wf s"
  shows "\<exists>s'. snapshot_call b64 sha256 sm call s = Some s' \<and> store_wf s' \<and> (store_bounded s \<longrightarrow> store_bounded s')
    \<and> (store_timed t s \<and> t \<le> call_time call \<longrightarrow> store_timed (call_time call) s')"
proof (cases call)
  case (CallCache random serve_root b paths now)
  from snapshot_cache_ok [OF assms, of b64 sha256 sm random serve_root b paths now t] CallCache
  show ?thesis by auto
next
  case (CallPage cursor request now)
  with purge_keeps [OF assms, of now] show ?thesis by (auto simp: snapshot_page_store intro: store_timed_mono)
qed

lemma snapshot_run_ok:
  "store_wf s \<Longrightarrow> \<exists>s'. snapshot_run b64 sha256 sm calls s = Some s' \<and> store_wf s'
    \<and> (store_bounded s \<longrightarrow> store_bounded s')
    \<and> (store_timed t s \<and> sorted_wrt (\<le>) (t # map call_time calls) \<longrightarrow> store_timed (last (t # map call_time calls)) s')"
proof (induction calls arbitrary: s t)
  case (Cons call calls)
  from snapshot_call_ok [OF Cons.prems, of b64 sha256 sm call t] obtain s1
    where s1: "snapshot_call b64 sha256 sm call s = Some s1" "store_wf s1" "store_bounded s \<longrightarrow> store_bounded s1"
      "store_timed t s \<and> t \<le> call_time call \<longrightarrow> store_timed (call_time call) s1" by blast
  from Cons.IH [OF s1(2), of "call_time call"] s1 show ?case by auto
qed simp

lemma store_empty_ok: "store_wf store_empty" "store_bounded store_empty" "store_timed t store_empty"
  by (simp_all add: store_wf_def store_bounded_def store_timed_def store_empty_def snapshot_weights_def owned_def)

text \<open>Purging drops what has expired only.\<close>

lemma purge_keeps_live:
  "store_wf s \<Longrightarrow> map_of (ss_snapshots s) j = Some r \<Longrightarrow> now < sr_expires_at r \<Longrightarrow>
    map_of (ss_snapshots (snapshot_purge_expired now s)) j = Some r"
proof (induction now s rule: snapshot_purge_expired.induct)
  case (1 now s)
  show ?case
  proof (cases "ss_insertion_order s")
    case Nil
    with 1(3) show ?thesis by (subst snapshot_purge_expired.simps) simp
  next
    case (Cons i rest)
    then obtain q where q: "map_of (ss_snapshots s) i = Some q" using wf_head(1) [OF 1(2)] by blast
    show ?thesis
    proof (cases "sr_expires_at q \<le> now")
      case True
      have i: "i \<in> set (ss_insertion_order s)" using Cons by simp
      have "j \<noteq> i" using q 1(3,4) True by auto
      then have "map_of (ss_snapshots (evict i s)) j = Some r" using 1(3) by (simp add: evict_sub(5))
      moreover have "snapshot_purge_expired now s = snapshot_purge_expired now (evict i s)"
        using Cons q True wf_head(2) [OF 1(2) Cons] by (subst snapshot_purge_expired.simps) simp
      ultimately show ?thesis
        using 1(1) [OF Cons] evict_wf [OF 1(2) i] q True wf_head(2) [OF 1(2) Cons] 1(4) by simp
    next
      case False
      then show ?thesis using Cons q 1(3) by (subst snapshot_purge_expired.simps) simp
    qed
  qed
qed

section \<open>Cursors are unambiguous\<close>

lemma to_from_be_bytes:
  assumes "length bs = 8" shows "to_be_bytes (from_be_bytes bs) = bs"
proof -
  have "to_be_bytes ` UNIV = {xs. set xs \<subseteq> UNIV \<and> length xs = 8}"
  proof (rule card_subset_eq)
    show "finite {xs :: bytes. set xs \<subseteq> UNIV \<and> length xs = 8}" by (rule finite_lists_length_eq) simp
    have "card (to_be_bytes ` UNIV) = card (UNIV :: u64 set)"
      by (rule card_image) (auto simp: inj_on_def to_be_bytes_inject)
    also have "\<dots> = card (UNIV :: byte set) ^ 8" by (simp add: card_word)
    also have "\<dots> = card {xs :: bytes. set xs \<subseteq> UNIV \<and> length xs = 8}" by (simp only: card_lists_length_eq finite)
    finally show "card (to_be_bytes ` UNIV) = card {xs :: bytes. set xs \<subseteq> UNIV \<and> length xs = 8}" .
  qed auto
  with assms obtain w where "bs = to_be_bytes w" by blast
  then show ?thesis by (simp add: from_to_be_bytes)
qed

lemma decode_is_encode:
  assumes "decode_list_cursor b64 v = Inr c"
  shows "v = b64_encode b64 ([3] @ dc_id c @ to_be_bytes (dc_offset c) @ dc_tag c)"
proof -
  from assms obtain bs where bs: "length bs = 57" "hd bs = 3" "b64_encode b64 bs = v"
    and c: "dc_id c = take 32 (drop 1 bs)" "dc_offset c = from_be_bytes (take 8 (drop 33 bs))" "dc_tag c = drop 41 bs"
    by (auto simp: decode_list_cursor_def split: if_splits option.splits)
  have "to_be_bytes (dc_offset c) = take 8 (drop 33 bs)" unfolding c by (rule to_from_be_bytes) (use bs in simp)
  moreover have "bs = [hd bs] @ take 32 (drop 1 bs) @ take 8 (drop 33 bs) @ drop 41 bs"
  proof -
    have "bs = [hd bs] @ drop 1 bs" using bs(1) by (cases bs) auto
    moreover have "drop 1 bs = take 32 (drop 1 bs) @ drop 33 bs"
      by (subst append_take_drop_id [of 32 "drop 1 bs", symmetric]) simp
    moreover have "drop 33 bs = take 8 (drop 33 bs) @ drop 41 bs"
      by (subst append_take_drop_id [of 8 "drop 33 bs", symmetric]) simp
    ultimately show ?thesis by metis
  qed
  ultimately show ?thesis using bs c by simp
qed

lemma decode_encode_cursor:
  assumes "b64_laws b64" and "length i = 32" and "\<And>bs. length (sha256 bs) = 32"
  shows "decode_list_cursor b64 (encode_list_cursor b64 sha256 i secret offset) =
    Inr \<lparr>dc_id = i, dc_offset = offset, dc_tag = list_cursor_tag sha256 secret i offset\<rparr>"
proof -
  have "length (list_cursor_tag sha256 secret i offset) = 16"
    using assms(3) by (simp add: list_cursor_tag_def hmac_sha256_def Let_def)
  then show ?thesis
    using assms(1,2) by (simp add: decode_list_cursor_def encode_list_cursor_def b64_laws_def from_to_be_bytes)
qed

section \<open>Reading a listing page by page\<close>

text \<open>A client that sends every cursor it gets back, at the given instants.\<close>

fun follow_cursors ::
  "B64Lib \<Rightarrow> (bytes \<Rightarrow> bytes) \<Rightarrow> ListSnapshotRequest \<Rightarrow> nat list \<Rightarrow> string option \<Rightarrow> ListSnapshotStore \<Rightarrow>
    PathItem list option" where
  "follow_cursors b64 sha256 request nows None s = Some []"
| "follow_cursors b64 sha256 request [] (Some v) s = None"
| "follow_cursors b64 sha256 request (now # nows) (Some v) s =
     (case decode_list_cursor b64 v of
        Inl _ \<Rightarrow> None
      | Inr cursor \<Rightarrow>
          (case snapshot_page b64 sha256 cursor request now s of
             (Inl _, _) \<Rightarrow> None
           | (Inr pg, s') \<Rightarrow>
               map_option (\<lambda>rest. page_items pg @ rest)
                 (follow_cursors b64 sha256 request nows (pg_next_cursor pg) s')))"

lemma page_slice: "off \<le> stop \<Longrightarrow> take (stop - off) (drop off xs) @ drop stop xs = drop off xs"
  using append_take_drop_id [of "stop - off" "drop off xs"] by simp

lemma snapshot_page_hit:
  assumes "store_wf s" and "map_of (ss_snapshots s) i = Some r" and "now < sr_expires_at r"
    and "matches_request (sr_binding r) request" and "sb_directory (sr_binding r) = sb_directory request"
    and "0 < off" and "off < length (sr_paths r)" and "length (sr_paths r) \<le> usize_max"
  shows "snapshot_page b64 sha256 \<lparr>dc_id = i, dc_offset = of_nat off,
      dc_tag = list_cursor_tag sha256 (sr_secret r) i (of_nat off)\<rparr> request now s =
    (let stop = min (off + sb_limit (sr_binding r)) (length (sr_paths r)) in
     (Inr \<lparr>pg_paths = sr_paths r, pg_start = off, pg_end = stop, pg_next_cursor =
        (if stop < length (sr_paths r) then Some (encode_list_cursor b64 sha256 i (sr_secret r) (of_nat stop))
         else None)\<rparr>, snapshot_purge_expired now s))"
proof -
  have off: "unat (of_nat off :: u64) = off"
    using assms(7,8) by (simp add: unat_of_nat usize_max_def take_bit_eq_mod)
  have stop: "min (sat_add off n) (length (sr_paths r)) = min (off + n) (length (sr_paths r))" for n
    using assms(8) by (auto simp: sat_add_def min_def)
  show ?thesis
    using assms purge_keeps_live [OF assms(1-3)] by (simp add: snapshot_page_def Let_def off stop)
qed

lemma follow_from:
  assumes "b64_laws b64" and "\<And>bs. length (sha256 bs) = 32" and "length i = 32"
    and "0 < sb_limit (sr_binding r)" and "length (sr_paths r) \<le> usize_max"
    and "matches_request (sr_binding r) request" and "sb_directory (sr_binding r) = sb_directory request"
  shows "store_wf s \<Longrightarrow> map_of (ss_snapshots s) i = Some r \<Longrightarrow> list_all (\<lambda>now. now < sr_expires_at r) nows \<Longrightarrow>
    0 < off \<Longrightarrow> off < length (sr_paths r) \<Longrightarrow> length (sr_paths r) - off \<le> length nows \<Longrightarrow>
    follow_cursors b64 sha256 request nows (Some (encode_list_cursor b64 sha256 i (sr_secret r) (of_nat off))) s
      = Some (drop off (sr_paths r))"
proof (induction nows arbitrary: off s)
  case (Cons now nows)
  let ?xs = "sr_paths r" and ?stop = "min (off + sb_limit (sr_binding r)) (length (sr_paths r))"
  let ?p = "snapshot_purge_expired now s"
  have live: "now < sr_expires_at r" and nows: "list_all (\<lambda>now. now < sr_expires_at r) nows" using Cons.prems by auto
  have p: "store_wf ?p" "map_of (ss_snapshots ?p) i = Some r"
    using purge_keeps(1) [OF Cons.prems(1)] purge_keeps_live [OF Cons.prems(1,2) live] by auto
  have items: "page_items \<lparr>pg_paths = ?xs, pg_start = off, pg_end = ?stop, pg_next_cursor = c\<rparr> @ drop ?stop ?xs = drop off ?xs" for c
    using page_slice [of off ?stop ?xs] Cons.prems(5) by (simp only: page_items_def ListSnapshotPage.simps)
  note hit = snapshot_page_hit [OF Cons.prems(1,2) live assms(6,7) Cons.prems(4,5) assms(5), of b64 sha256]
  show ?case
  proof (cases "?stop < length ?xs")
    case True
    have "follow_cursors b64 sha256 request nows (Some (encode_list_cursor b64 sha256 i (sr_secret r) (of_nat ?stop))) ?p
      = Some (drop ?stop ?xs)"
      by (rule Cons.IH [OF p nows]) (use Cons.prems(4,6) True assms(4) in auto)
    with True hit items show ?thesis
      by (simp only: follow_cursors.simps decode_encode_cursor [OF assms(1,3,2)] Let_def sum.case prod.case if_True
          ListSnapshotPage.simps option.map)
  next
    case False
    then have "drop ?stop ?xs = []" by simp
    with False hit items show ?thesis
      by (simp only: follow_cursors.simps decode_encode_cursor [OF assms(1,3,2)] Let_def sum.case prod.case if_False
          ListSnapshotPage.simps option.map append_Nil2)
  qed
qed simp

lemma find_cursor_id_length:
  "find_cursor_id s draws = Some (i, secret) \<Longrightarrow> (\<And>bs. Some bs \<in> set draws \<Longrightarrow> length bs = 64) \<Longrightarrow> length i = 32"
  by (induction s draws rule: find_cursor_id.induct) (auto split: if_splits)

lemma snapshot_cache_Inr:
  assumes "snapshot_cache b64 sha256 sm random serve_root b paths now s = Some (Inr pg, s')"
    and "\<forall>n bs. random n = Some bs \<longrightarrow> length bs = 64"
  shows "\<exists>i r. length i = 32 \<and> map_of (ss_snapshots s') i = Some r \<and> sr_binding r = b
    \<and> sr_paths r = vec_items paths \<and> sr_expires_at r = now + LIST_SNAPSHOT_TTL
    \<and> pg = \<lparr>pg_paths = vec_items paths, pg_start = 0, pg_end = sb_limit b,
        pg_next_cursor = Some (encode_list_cursor b64 sha256 i (sr_secret r) (of_nat (sb_limit b)))\<rparr>"
proof -
  from assms(1) obtain m i secret where f: "find_cursor_id m (map random [0..<8]) = Some (i, secret)"
    and pg: "pg = \<lparr>pg_paths = vec_items paths, pg_start = 0, pg_end = sb_limit b,
        pg_next_cursor = Some (encode_list_cursor b64 sha256 i secret (of_nat (sb_limit b)))\<rparr>"
    and s': "ss_snapshots s' = (i, \<lparr>sr_secret = secret, sr_binding = b, sr_paths = vec_items paths,
        sr_expires_at = now + LIST_SNAPSHOT_TTL,
        sr_weight = list_snapshot_weight sm b (vec_items paths) (vec_capacity paths)\<rparr>) # ss_snapshots m"
    by (auto simp: snapshot_cache_def Let_def split: if_splits option.splits prod.splits)
  have "length i = 32" by (rule find_cursor_id_length [OF f]) (use assms(2) in auto)
  with pg s' show ?thesis by auto
qed

section \<open>What the cache promises\<close>

text \<open>C33: However the calls of \<open>cache\<close> and \<open>page\<close> interleave and whatever instants they carry, every
  call ends, the insertion order lists exactly the cached snapshots, the recorded total weight is
  their sum, and the limits hold: 32 snapshots and 64 MiB in all, 8 snapshots and 32 MiB per owner.\<close>

theorem snapshot_cache_bounded:
  "\<exists>s. snapshot_run b64 sha256 sm calls store_empty = Some s
    \<and> distinct (ss_insertion_order s) \<and> set (ss_insertion_order s) = fst ` set (ss_snapshots s)
    \<and> ss_total_weight s = snapshot_weights s \<and> store_bounded s"
  using snapshot_run_ok [OF store_empty_ok(1), of b64 sha256 sm calls 0] store_empty_ok(2)
  by (auto simp: store_wf_def)

text \<open>A sample listing of two entries, one per page, on an encoding that satisfies the laws.\<close>

definition sample_b64 :: B64Lib where
  "sample_b64 = \<lparr>b64_encode = (\<lambda>bs. map (\<lambda>b. char_of (unat b)) bs
       @ replicate ((4 * length bs + 2) div 3 - length bs) CHR ''A''),
     b64_decode = (\<lambda>v. Some (map (\<lambda>c. of_nat (of_char c)) (take (3 * length v div 4) v)))\<rparr>"

lemma sample_b64_laws: "b64_laws sample_b64"
proof -
  have "of_nat (of_char (char_of (unat b) :: char)) = b" for b :: byte
    using unsigned_less [of b, where ?'a = nat] by (simp add: take_bit_eq_mod)
  moreover have "n \<le> (4 * n + 2) div 3" "3 * ((4 * n + 2) div 3) div 4 = n" for n :: nat by linarith+
  ultimately show ?thesis
    by (simp add: b64_laws_def sample_b64_def le_diff_conv2 o_def del: of_char_of)
qed

definition sample_binding :: ListSnapshotBinding where
  "sample_binding = \<lparr>sb_owner = replicate 32 1, sb_path = [], sb_directory = \<lparr>ds_device = 1, ds_inode = 2,
     ds_mtime = 3, ds_mtime_nanoseconds = 4, ds_ctime = 5, ds_ctime_nanoseconds = 6\<rparr>,
     sb_sort = ''name'', sb_order = ''asc'', sb_query = [], sb_limit = 1\<rparr>"

definition sample_listing :: "PathItem Vec" where
  "sample_listing = \<lparr>vec_items = [sample_item ''a'' File 2, sample_item ''b'' Dir 0], vec_capacity = 2\<rparr>"

definition sample_snapshot_mem :: SnapshotMem where
  "sample_snapshot_mem = \<lparr>sm_mem = sample_mem, sm_record_size = 200, sm_capacity = length\<rparr>"

definition sample_record :: ListSnapshotRecord where
  "sample_record = \<lparr>sr_secret = replicate 32 7, sr_binding = sample_binding, sr_paths = vec_items sample_listing,
     sr_expires_at = LIST_SNAPSHOT_TTL, sr_weight =
       list_snapshot_weight sample_snapshot_mem sample_binding (vec_items sample_listing) 2\<rparr>"

definition sample_store :: ListSnapshotStore where
  "sample_store = store_insert (replicate 32 7) sample_record store_empty"

definition sample_page :: ListSnapshotPage where
  "sample_page = \<lparr>pg_paths = vec_items sample_listing, pg_start = 0, pg_end = 1, pg_next_cursor =
     Some (encode_list_cursor sample_b64 (\<lambda>_. replicate 32 0) (replicate 32 7) (replicate 32 7) 1)\<rparr>"

lemma sat_small: "a + b \<le> 1000000 \<Longrightarrow> sat_add a b = a + b" "a * b \<le> 1000000 \<Longrightarrow> sat_mul a b = a * b"
  by (simp_all add: sat_add_def sat_mul_def usize_max_def)

lemma sample_cached:
  "snapshot_cache sample_b64 (\<lambda>_. replicate 32 0) sample_snapshot_mem (\<lambda>_. Some (replicate 64 7)) []
    sample_binding sample_listing 0 store_empty = Some (Inr sample_page, sample_store)"
proof -
  have w: "list_snapshot_weight sample_snapshot_mem sample_binding (vec_items sample_listing) 2
      \<le> MAX_CACHED_LIST_SNAPSHOT_BYTES_PER_OWNER"
    by (simp add: list_snapshot_weight_def sample_snapshot_mem_def sample_mem_def sample_binding_def
        sample_listing_def sample_item_def snapshot_limits sat_small)
  have p: "snapshot_purge_expired 0 store_empty = store_empty"
    by (subst snapshot_purge_expired.simps) (simp add: store_empty_def)
  have u: "owner_usage owner store_empty = (0, 0)" for owner by (simp add: owner_usage_def store_empty_def)
  have m: "make_room owner weight store_empty = Some store_empty"
    if "weight \<le> MAX_CACHED_LIST_SNAPSHOT_BYTES_PER_OWNER" for owner weight
  proof -
    have "make_room_owner owner weight store_empty = store_empty"
      using that by (subst make_room_owner.simps) (simp add: u sat_add_def MAX_CACHED_LIST_SNAPSHOTS_PER_OWNER_def)
    moreover have "make_room_global weight store_empty = Some store_empty"
      by (subst make_room_global.simps) (simp add: store_empty_def)
    ultimately show ?thesis by (simp add: make_room_def)
  qed
  have f: "find_cursor_id store_empty (map (\<lambda>_. Some (replicate 64 7)) [0..<8]) = Some (replicate 32 7, replicate 32 7)"
    by (simp add: upt_conv_Cons store_empty_def)
  show ?thesis
    using w by (simp add: snapshot_cache_def Let_def p m f sample_page_def sample_store_def store_insert_def
        sample_record_def sample_listing_def sample_binding_def not_less)
qed

text \<open>C34: A page is served only for a cursor text that is the server's own encoding for a cached
  snapshot with that snapshot's secret, to a request with the owner, path, sort, order, query and
  limit the snapshot was made for, and only while the directory is as it was; the page is an
  in-range slice of at most that limit that starts at the cursor's offset, which is not zero.  When the calls entered in the order
  of their instants the snapshot has not expired.\<close>

theorem page_needs_own_cursor:
  assumes run: "snapshot_run b64 sha256 sm calls store_empty = Some s"
    and decoded: "decode_list_cursor b64 v = Inr cursor"
    and page: "snapshot_page b64 sha256 cursor request now s = (Inr pg, s')"
  shows "\<exists>i r. map_of (ss_snapshots s) i = Some r
    \<and> v = encode_list_cursor b64 sha256 i (sr_secret r) (dc_offset cursor)
    \<and> sb_owner (sr_binding r) = sb_owner request \<and> path_eq (sb_path (sr_binding r)) (sb_path request)
    \<and> sb_sort (sr_binding r) = sb_sort request \<and> sb_order (sr_binding r) = sb_order request
    \<and> sb_query (sr_binding r) = sb_query request \<and> sb_limit (sr_binding r) = sb_limit request
    \<and> sb_directory (sr_binding r) = sb_directory request
    \<and> pg_paths pg = sr_paths r \<and> pg_start pg = unat (dc_offset cursor) \<and> 0 < pg_start pg
    \<and> pg_start pg \<le> pg_end pg \<and> pg_end pg \<le> length (sr_paths r) \<and> pg_end pg \<le> pg_start pg + sb_limit request
    \<and> (sorted_wrt (\<le>) (map call_time calls @ [now]) \<longrightarrow> now < sr_expires_at r)"
proof -
  have wf: "store_wf s" using run snapshot_run_ok [OF store_empty_ok(1), of b64 sha256 sm calls 0] by auto
  let ?p = "snapshot_purge_expired now s" and ?i = "dc_id cursor"
  from page obtain r where r: "map_of (ss_snapshots ?p) ?i = Some r"
    and tag: "list_cursor_tag sha256 (sr_secret r) ?i (dc_offset cursor) = dc_tag cursor"
    and match: "matches_request (sr_binding r) request" "sb_directory (sr_binding r) = sb_directory request"
    and off: "unat (dc_offset cursor) \<noteq> 0" "unat (dc_offset cursor) < length (sr_paths r)"
    and pg: "pg_paths pg = sr_paths r" "pg_start pg = unat (dc_offset cursor)"
      "pg_end pg = min (sat_add (unat (dc_offset cursor)) (sb_limit (sr_binding r))) (length (sr_paths r))"
    by (auto simp: snapshot_page_def Let_def not_le split: option.splits if_splits)
  have "unat (dc_offset cursor) \<le> usize_max"
    using unsigned_less [of "dc_offset cursor", where ?'a = nat] by (simp add: usize_max_def)
  then have "pg_start pg \<le> pg_end pg \<and> pg_end pg \<le> length (sr_paths r) \<and> pg_end pg \<le> pg_start pg + sb_limit request"
    using pg off match by (auto simp: sat_add_def matches_request_def)
  moreover have "sorted_wrt (\<le>) (map call_time calls @ [now]) \<longrightarrow> now < sr_expires_at r"
  proof
    assume "sorted_wrt (\<le>) (map call_time calls @ [now])"
    then have "store_timed (last (0 # map call_time calls)) s"
      using run snapshot_run_ok [OF store_empty_ok(1), of b64 sha256 sm calls 0] store_empty_ok(3)
      by (auto simp: sorted_wrt_append)
    moreover have "(?i, r) \<in> set (ss_snapshots ?p)" using r by (rule map_of_SomeD)
    ultimately show "now < sr_expires_at r" using purge_expired_ok [OF wf] by blast
  qed
  moreover have "v = encode_list_cursor b64 sha256 ?i (sr_secret r) (dc_offset cursor)"
    using decode_is_encode [OF decoded] tag by (simp add: encode_list_cursor_def)
  moreover have "map_of (ss_snapshots s) ?i = Some r" using purge_keeps(4) [OF wf r] .
  ultimately show ?thesis using match pg(1,2) off
    by (intro exI [of _ ?i] exI [of _ r]) (simp add: matches_request_def)
qed

theorem page_needs_own_cursor_witness:
  "\<exists>i r. map_of (ss_snapshots sample_store) i = Some r \<and> (1 :: nat) < sr_expires_at r
    \<and> the (pg_next_cursor sample_page) = encode_list_cursor sample_b64 (\<lambda>_. replicate 32 0) i (sr_secret r) 1"
proof -
  let ?sha = "\<lambda>_ :: bytes. replicate 32 (0 :: byte)"
  let ?tag = "list_cursor_tag ?sha (sr_secret sample_record) (replicate 32 7) (of_nat 1)"
  let ?c = "\<lparr>dc_id = replicate 32 7, dc_offset = of_nat 1, dc_tag = ?tag\<rparr>"
  have run: "snapshot_run sample_b64 ?sha sample_snapshot_mem
      [CallCache (\<lambda>_. Some (replicate 64 7)) [] sample_binding sample_listing 0] store_empty = Some sample_store"
    by (simp add: sample_cached)
  then have wf: "store_wf sample_store"
    using snapshot_run_ok [OF store_empty_ok(1)] by (metis option.sel)
  have v: "decode_list_cursor sample_b64 (the (pg_next_cursor sample_page)) = Inr ?c"
    using decode_encode_cursor [OF sample_b64_laws, of "replicate 32 7" ?sha "replicate 32 7" 1]
    by (simp add: sample_page_def sample_record_def)
  have "map_of (ss_snapshots sample_store) (replicate 32 7) = Some sample_record"
    by (simp add: sample_store_def store_insert_def)
  note hit = snapshot_page_hit [OF wf this, of 1 sample_binding 1 sample_b64 ?sha]
  obtain pg s' where "snapshot_page sample_b64 ?sha ?c sample_binding 1 sample_store = (Inr pg, s')"
    using hit by (auto simp: sample_record_def sample_listing_def LIST_SNAPSHOT_TTL_def matches_request_def path_eq_def
        usize_max_def Let_def)
  from page_needs_own_cursor [OF run v this] show ?thesis by auto
qed

text \<open>C35: A client that caches a listing and then sends back every cursor it receives, before the
  snapshot expires, gets each entry of the listing exactly once and in the listing's order.\<close>

theorem listing_pages_cover:
  assumes "b64_laws b64" and "\<forall>bs. length (sha256 bs) = 32"
    and "\<forall>n bs. random n = Some bs \<longrightarrow> length bs = 64"
    and run: "snapshot_run b64 sha256 sm calls store_empty = Some s"
    and limit: "0 < sb_limit b" "sb_limit b < length (vec_items paths)" "length (vec_items paths) \<le> usize_max"
    and cached: "snapshot_cache b64 sha256 sm random serve_root b paths now s = Some (Inr pg, s')"
    and "list_all (\<lambda>t. t < now + LIST_SNAPSHOT_TTL) nows" and "length (vec_items paths) \<le> length nows"
  shows "\<exists>rest. follow_cursors b64 sha256 b nows (pg_next_cursor pg) s' = Some rest
    \<and> page_items pg @ rest = vec_items paths"
proof -
  have wf: "store_wf s" using run snapshot_run_ok [OF store_empty_ok(1), of b64 sha256 sm calls 0] by auto
  have wf': "store_wf s'" using snapshot_cache_ok [OF wf, of b64 sha256 sm random serve_root b paths now] cached by auto
  from snapshot_cache_Inr [OF cached assms(3)] obtain i r where i: "length i = 32"
    and r: "map_of (ss_snapshots s') i = Some r" "sr_binding r = b" "sr_paths r = vec_items paths"
      "sr_expires_at r = now + LIST_SNAPSHOT_TTL"
    and pg: "pg = \<lparr>pg_paths = vec_items paths, pg_start = 0, pg_end = sb_limit b,
        pg_next_cursor = Some (encode_list_cursor b64 sha256 i (sr_secret r) (of_nat (sb_limit b)))\<rparr>" by blast
  have "follow_cursors b64 sha256 b nows (Some (encode_list_cursor b64 sha256 i (sr_secret r) (of_nat (sb_limit b)))) s'
      = Some (drop (sb_limit b) (sr_paths r))"
    by (rule follow_from [where s = s']) (use assms i r wf' in \<open>auto simp: matches_request_def path_eq_def\<close>)
  then show ?thesis using pg r(3) by (simp add: page_items_def)
qed

theorem listing_pages_cover_witness:
  "\<exists>rest. follow_cursors sample_b64 (\<lambda>_. replicate 32 0) sample_binding [1, 2] (pg_next_cursor sample_page) sample_store = Some rest
    \<and> page_items sample_page @ rest = vec_items sample_listing"
  by (rule listing_pages_cover [OF sample_b64_laws _ _ _ _ _ _ sample_cached, where calls = "[]"])
    (simp_all add: sample_binding_def sample_listing_def usize_max_def LIST_SNAPSHOT_TTL_def)

end
