(* ===== verification/Disk_Space.thy ===== *)
theory Disk_Space
  imports Prelude
begin

text \<open>
  Reservations of disk space (\<open>src/src/server/disk_space.rs\<close>).  The tracker counts, per device, the
  bytes that live reservations still protect.  A reservation is granted against a probe of the
  file system that runs outside the lock; a revision counter detects changes made meanwhile.
  What the file system answers is an argument of a step.  Panics are values.
\<close>

section \<open>Arithmetic\<close>

definition MAX_CAPACITY_SNAPSHOT_RETRIES :: nat where
  "MAX_CAPACITY_SNAPSHOT_RETRIES = 8"

definition RESERVATION_RELEASE_BATCH_BYTES :: u64 where
  "RESERVATION_RELEASE_BATCH_BYTES = 1024 * 1024"

definition space_budget_fits :: "u64 \<Rightarrow> u64 \<Rightarrow> u64 \<Rightarrow> u64 \<Rightarrow> bool" where
  "space_budget_fits available already_reserved requested minimum_free =
     (case Option.bind (u64_checked_add minimum_free already_reserved)
        (\<lambda>required. u64_checked_add required requested) of
        None \<Rightarrow> False
      | Some required \<Rightarrow> available \<ge> required)"

definition round_up :: "u64 \<Rightarrow> u64 \<Rightarrow> u64 option" where
  "round_up v unit =
     (if v = 0 then Some 0
      else Option.bind (u64_checked_sub unit 1) (\<lambda>m.
        Option.bind (u64_checked_add v m) (\<lambda>s. Some (s div unit * unit))))"

definition allocation_budget :: "u64 \<Rightarrow> u64 \<Rightarrow> u64 \<Rightarrow> u64 option" where
  "allocation_budget logical_bytes allocation_unit metadata_bytes =
     Option.bind (round_up logical_bytes allocation_unit) (\<lambda>a.
     Option.bind (round_up metadata_bytes allocation_unit) (\<lambda>b. u64_checked_add a b))"

text \<open>Errors of the file system and of the tracker itself.\<close>

datatype DiskError = ProbeFailed | ReportTooLarge | BudgetTooLarge | UnstableSnapshot

definition available_bytes :: "u64 \<Rightarrow> u64 \<Rightarrow> DiskError + u64" where
  "available_bytes available_blocks fragment_size =
     ok_or (u64_checked_mul available_blocks fragment_size) ReportTooLarge"

definition allocated_reservation_bytes :: "u64 \<Rightarrow> u64 \<Rightarrow> u64 \<Rightarrow> DiskError + u64" where
  "allocated_reservation_bytes fragment_size logical_bytes metadata_bytes =
     ok_or (allocation_budget logical_bytes (max fragment_size 1) metadata_bytes) BudgetTooLarge"

section \<open>The tracker\<close>

record DiskSpaceState =
  dk_reserved :: "u64 \<rightharpoonup> u64"
  dk_revisions :: "u64 \<rightharpoonup> u64"

record DiskSpaceReservation =
  rv_device :: u64
  rv_remaining :: u64
  rv_pending_release :: u64

text \<open>The panics: the three \<open>expect\<close>s, and the three assertions of a debug build.\<close>

datatype DiskPanic =
    ReservedOverflow | ConsumedOverflow | TrackedOverflow
  | ReleaseTooMuch | BucketMissing | ConsumeTooMuch

definition debug_assert :: "bool \<Rightarrow> bool \<Rightarrow> DiskPanic \<Rightarrow> DiskPanic + unit" where
  "debug_assert dbg c p = ensure (dbg \<longrightarrow> c) p"

definition unwrap_or_default :: "u64 option \<Rightarrow> u64" where
  "unwrap_or_default x = (case x of None \<Rightarrow> 0 | Some v \<Rightarrow> v)"

definition bump_revision :: "u64 \<Rightarrow> DiskSpaceState \<Rightarrow> DiskSpaceState" where
  "bump_revision device st =
     st\<lparr>dk_revisions := (dk_revisions st)(device \<mapsto> unwrap_or_default (dk_revisions st device) + 1)\<rparr>"

definition reserve_locked ::
  "DiskSpaceState \<Rightarrow> u64 \<Rightarrow> u64 \<Rightarrow> u64 \<Rightarrow> u64 \<Rightarrow>
    DiskPanic + DiskSpaceReservation option \<times> DiskSpaceState" where
  "reserve_locked st device available requested minimum_free =
     (let reserved = unwrap_or_default (dk_reserved st device) in
      if \<not> space_budget_fits available reserved requested minimum_free then Inr (None, st)
      else
        result_bind
          (if requested > 0
           then result_bind (ok_or (u64_checked_add reserved requested) ReservedOverflow) (\<lambda>total.
             Inr (bump_revision device (st\<lparr>dk_reserved := (dk_reserved st)(device \<mapsto> total)\<rparr>)))
           else Inr st) (\<lambda>st.
        Inr (Some \<lparr>rv_device = device, rv_remaining = requested, rv_pending_release = 0\<rparr>, st)))"

definition release :: "bool \<Rightarrow> u64 \<Rightarrow> u64 \<Rightarrow> DiskSpaceState \<Rightarrow> DiskPanic + DiskSpaceState" where
  "release dbg device n st =
     (if n = 0 then Inr st
      else
        result_bind
          (case dk_reserved st device of
             Some reserved \<Rightarrow>
               result_bind (debug_assert dbg (n \<le> reserved) ReleaseTooMuch) (\<lambda>_.
               let left = u64_saturating_sub reserved n in
               Inr (st\<lparr>dk_reserved := (if left = 0 then (dk_reserved st)(device := None)
                 else (dk_reserved st)(device \<mapsto> left))\<rparr>))
           | None \<Rightarrow> result_bind (debug_assert dbg False BucketMissing) (\<lambda>_. Inr st)) (\<lambda>st.
        Inr (bump_revision device st)))"

definition flush_pending_release ::
  "bool \<Rightarrow> DiskSpaceReservation \<Rightarrow> DiskSpaceState \<Rightarrow> DiskPanic + DiskSpaceReservation \<times> DiskSpaceState" where
  "flush_pending_release dbg rv st =
     result_map (\<lambda>st. (rv\<lparr>rv_pending_release := 0\<rparr>, st)) (release dbg (rv_device rv) (rv_pending_release rv) st)"

definition consume ::
  "bool \<Rightarrow> DiskSpaceReservation \<Rightarrow> u64 \<Rightarrow> DiskSpaceState \<Rightarrow>
    DiskPanic + DiskSpaceReservation \<times> DiskSpaceState" where
  "consume dbg rv n st =
     result_bind (debug_assert dbg (n \<le> rv_remaining rv) ConsumeTooMuch) (\<lambda>_.
     let consumed = min n (rv_remaining rv); rv = rv\<lparr>rv_remaining := rv_remaining rv - consumed\<rparr> in
     result_bind (ok_or (u64_checked_add (rv_pending_release rv) consumed) ConsumedOverflow) (\<lambda>pending.
     let rv = rv\<lparr>rv_pending_release := pending\<rparr> in
     if pending \<ge> RESERVATION_RELEASE_BATCH_BYTES then flush_pending_release dbg rv st
     else Inr (rv, st)))"

definition reservation_drop :: "bool \<Rightarrow> DiskSpaceReservation \<Rightarrow> DiskSpaceState \<Rightarrow> DiskPanic + DiskSpaceState" where
  "reservation_drop dbg rv st =
     result_bind (ok_or (u64_checked_add (rv_remaining rv) (rv_pending_release rv)) TrackedOverflow) (\<lambda>tracked.
     release dbg (rv_device rv) tracked st)"

section \<open>Interleaved calls\<close>

text \<open>Both probing calls run the same loop: read the revision, probe without the lock, and decide
  when the revision is still the same.  \<open>pt_attempts\<close> counts the rounds left.\<close>

datatype ProbePurpose = ToReserve u64 u64 | ToCheck u64

datatype ProbePhase = RoundStart | Observed u64 | Probed u64 u64

record ProbeTask =
  pt_device :: u64
  pt_purpose :: ProbePurpose
  pt_attempts :: nat
  pt_phase :: ProbePhase

datatype ProbeResult = Reserved "DiskSpaceReservation option" | Checked bool | Failed DiskError

definition observe_revision :: "DiskSpaceState \<Rightarrow> ProbeTask \<Rightarrow> ProbeTask" where
  "observe_revision st t = t\<lparr>pt_phase := Observed (unwrap_or_default (dk_revisions st (pt_device t)))\<rparr>"

definition next_round :: "ProbeTask \<Rightarrow> ProbeResult + ProbeTask" where
  "next_round t =
     (if pt_attempts t \<le> 1 then Inl (Failed UnstableSnapshot)
      else Inr (t\<lparr>pt_attempts := pt_attempts t - 1, pt_phase := RoundStart\<rparr>))"

text \<open>The second critical section.  \<open>Inl\<close> is the result of the call, \<open>Inr\<close> another round.\<close>

definition decide ::
  "DiskSpaceState \<Rightarrow> ProbeTask \<Rightarrow> u64 \<Rightarrow> u64 \<Rightarrow> DiskPanic + (ProbeResult + ProbeTask) \<times> DiskSpaceState" where
  "decide st t observed_revision available =
     (if unwrap_or_default (dk_revisions st (pt_device t)) \<noteq> observed_revision
      then Inr (next_round t, st)
      else (case pt_purpose t of
          ToReserve requested minimum_free \<Rightarrow>
            result_map (\<lambda>(rv, st). (Inl (Reserved rv), st))
              (reserve_locked st (pt_device t) available requested minimum_free)
        | ToCheck minimum_free \<Rightarrow>
            Inr (Inl (Checked (case u64_checked_add minimum_free
                (unwrap_or_default (dk_reserved st (pt_device t))) of
                None \<Rightarrow> False
              | Some required \<Rightarrow> available \<ge> required)), st)))"

text \<open>The process: the tracker, the live reservations, and the probing calls in flight.\<close>

record DiskSystem =
  dy_state :: DiskSpaceState
  dy_live :: "DiskSpaceReservation list"
  dy_tasks :: "nat \<rightharpoonup> ProbeTask"
  dy_panic :: "DiskPanic option"

datatype DiskEvent =
    EvReserve nat u64 u64 u64
  | EvObserve nat
  | EvProbe nat "DiskError + u64"
  | EvDecide nat
  | EvConsume nat u64
  | EvCheck nat nat u64 u64
  | EvDrop nat

definition disk_init :: DiskSystem where
  "disk_init = \<lparr>dy_state = \<lparr>dk_reserved = (\<lambda>_. None), dk_revisions = (\<lambda>_. None)\<rparr>, dy_live = [],
     dy_tasks = (\<lambda>_. None), dy_panic = None\<rparr>"

definition on_live ::
  "nat \<Rightarrow> (DiskSpaceReservation \<Rightarrow> DiskPanic + DiskSpaceReservation option \<times> DiskSpaceState) \<Rightarrow>
    DiskSystem \<Rightarrow> DiskSystem" where
  "on_live i f s =
     (if i < length (dy_live s)
      then (case f (dy_live s ! i) of
          Inl p \<Rightarrow> s\<lparr>dy_panic := Some p\<rparr>
        | Inr (Some rv, st) \<Rightarrow> s\<lparr>dy_live := (dy_live s)[i := rv], dy_state := st\<rparr>
        | Inr (None, st) \<Rightarrow> s\<lparr>dy_live := take i (dy_live s) @ drop (Suc i) (dy_live s), dy_state := st\<rparr>)
      else s)"

definition start_call :: "nat \<Rightarrow> u64 \<Rightarrow> ProbePurpose \<Rightarrow> DiskSystem \<Rightarrow> DiskSystem" where
  "start_call t device purpose s =
     (if dy_tasks s t = None
      then s\<lparr>dy_tasks := (dy_tasks s)(t \<mapsto> \<lparr>pt_device = device, pt_purpose = purpose,
        pt_attempts = MAX_CAPACITY_SNAPSHOT_RETRIES, pt_phase = RoundStart\<rparr>)\<rparr>
      else s)"

text \<open>\<open>reserved_space_is_available_async\<close>: flush, compare the device of the file, then probe.\<close>

definition check_reserved ::
  "bool \<Rightarrow> nat \<Rightarrow> nat \<Rightarrow> u64 \<Rightarrow> u64 \<Rightarrow> DiskSystem \<Rightarrow> DiskSystem" where
  "check_reserved dbg i t actual_device minimum_free s =
     (let s' = on_live i (\<lambda>rv. result_map (\<lambda>(rv, st). (Some rv, st))
         (flush_pending_release dbg rv (dy_state s))) s in
      if i < length (dy_live s) \<and> dy_panic s' = None \<and> actual_device = rv_device (dy_live s ! i)
      then start_call t actual_device (ToCheck minimum_free) s' else s')"

fun disk_step :: "bool \<Rightarrow> DiskEvent \<Rightarrow> DiskSystem \<Rightarrow> DiskSystem" where
  "disk_step dbg (EvReserve t device requested minimum_free) s =
     start_call t device (ToReserve requested minimum_free) s"
| "disk_step dbg (EvObserve t) s =
     (case dy_tasks s t of
        None \<Rightarrow> s
      | Some task \<Rightarrow>
          if pt_phase task = RoundStart
          then s\<lparr>dy_tasks := (dy_tasks s)(t \<mapsto> observe_revision (dy_state s) task)\<rparr> else s)"
| "disk_step dbg (EvProbe t answer) s =
     (case dy_tasks s t of
        None \<Rightarrow> s
      | Some task \<Rightarrow>
          (case pt_phase task of
             Observed revision \<Rightarrow>
               (case answer of
                  Inl _ \<Rightarrow> s\<lparr>dy_tasks := (dy_tasks s)(t := None)\<rparr>
                | Inr available \<Rightarrow>
                    s\<lparr>dy_tasks := (dy_tasks s)(t \<mapsto> task\<lparr>pt_phase := Probed revision available\<rparr>)\<rparr>)
           | _ \<Rightarrow> s))"
| "disk_step dbg (EvDecide t) s =
     (case dy_tasks s t of
        None \<Rightarrow> s
      | Some task \<Rightarrow>
          (case pt_phase task of
             Probed revision available \<Rightarrow>
               (case decide (dy_state s) task revision available of
                  Inl p \<Rightarrow> s\<lparr>dy_panic := Some p\<rparr>
                | Inr (Inr task', st) \<Rightarrow> s\<lparr>dy_tasks := (dy_tasks s)(t \<mapsto> task'), dy_state := st\<rparr>
                | Inr (Inl r, st) \<Rightarrow>
                    s\<lparr>dy_tasks := (dy_tasks s)(t := None), dy_state := st,
                      dy_live := dy_live s @ (case r of Reserved (Some rv) \<Rightarrow> [rv] | _ \<Rightarrow> [])\<rparr>)
           | _ \<Rightarrow> s))"
| "disk_step dbg (EvConsume i n) s =
     on_live i (\<lambda>rv. result_map (\<lambda>(rv, st). (Some rv, st)) (consume dbg rv n (dy_state s))) s"
| "disk_step dbg (EvCheck i t actual_device minimum_free) s = check_reserved dbg i t actual_device minimum_free s"
| "disk_step dbg (EvDrop i) s =
     on_live i (\<lambda>rv. result_map (\<lambda>st. (None, st)) (reservation_drop dbg rv (dy_state s))) s"

text \<open>A run stops at a panic, which only a misuse in a debug build can cause.  In the server the other
  threads would go on, since a poisoned lock is entered anyway; about them the run says nothing.\<close>

fun disk_run :: "bool \<Rightarrow> DiskEvent list \<Rightarrow> DiskSystem \<Rightarrow> DiskSystem" where
  "disk_run dbg [] s = s"
| "disk_run dbg (e # es) s = (if dy_panic s \<noteq> None then s else disk_run dbg es (disk_step dbg e s))"

section \<open>Accounting\<close>

definition tracked :: "DiskSpaceReservation \<Rightarrow> nat" where
  "tracked rv = unat (rv_remaining rv) + unat (rv_pending_release rv)"

definition tracked_on :: "u64 \<Rightarrow> DiskSpaceReservation list \<Rightarrow> nat" where
  "tracked_on d live = sum_list (map (\<lambda>rv. if rv_device rv = d then tracked rv else 0) live)"

definition disk_inv :: "DiskSpaceState \<Rightarrow> DiskSpaceReservation list \<Rightarrow> bool" where
  "disk_inv st live \<longleftrightarrow>
     (\<forall>d. unat (unwrap_or_default (dk_reserved st d)) = tracked_on d live \<and> dk_reserved st d \<noteq> Some 0)"

lemma tracked_on_simps [simp]:
  "tracked_on d [] = 0" "tracked_on d (live @ [rv]) = tracked_on d live + (if rv_device rv = d then tracked rv else 0)"
  by (simp_all add: tracked_on_def)

lemma tracked_on_nth:
  assumes "i < length live"
  shows "tracked_on d (live[i := rv]) + (if rv_device (live ! i) = d then tracked (live ! i) else 0)
      = tracked_on d live + (if rv_device rv = d then tracked rv else 0)"
    and "tracked_on d (take i live @ drop (Suc i) live) + (if rv_device (live ! i) = d then tracked (live ! i) else 0)
      = tracked_on d live"
  unfolding tracked_on_def
  by (subst (2) id_take_nth_drop [OF assms], simp add: upd_conv_take_nth_drop [OF assms])
    (subst (3) id_take_nth_drop [OF assms], simp)

abbreviation reserved_on :: "u64 \<Rightarrow> DiskSpaceState \<Rightarrow> nat" where
  "reserved_on d st \<equiv> unat (unwrap_or_default (dk_reserved st d))"

lemma bump_reserved [simp]: "dk_reserved (bump_revision d st) = dk_reserved st"
  by (simp add: bump_revision_def)

lemma budget_fits_iff:
  "space_budget_fits available reserved requested minimum_free \<longleftrightarrow>
    unat minimum_free + unat reserved + unat requested \<le> unat available"
proof -
  have "unat available < 2 ^ 64" using unsigned_less [of available, where ?'a = nat] by simp
  then show ?thesis
    by (auto simp: space_budget_fits_def u64_checked_add_def word_le_nat_alt unat_word_ariths split: option.splits)
qed

lemma reserve_locked_cases:
  "(\<exists>rv st'. reserve_locked st d available requested minimum_free = Inr (Some rv, st')
      \<and> rv = \<lparr>rv_device = d, rv_remaining = requested, rv_pending_release = 0\<rparr>
      \<and> (\<forall>e. reserved_on e st' = reserved_on e st + (if e = d then unat requested else 0))
      \<and> ((\<forall>e. dk_reserved st e \<noteq> Some 0) \<longrightarrow> (\<forall>e. dk_reserved st' e \<noteq> Some 0))
      \<and> unat minimum_free + reserved_on d st + unat requested \<le> unat available)
    \<or> reserve_locked st d available requested minimum_free = Inr (None, st)
      \<and> unat available < unat minimum_free + reserved_on d st + unat requested"
proof (cases "unat minimum_free + reserved_on d st + unat requested \<le> unat available")
  case True
  have "unat available < 2 ^ 64" using unsigned_less [of available, where ?'a = nat] by simp
  then have sum: "u64_checked_add (unwrap_or_default (dk_reserved st d)) requested
      = Some (unwrap_or_default (dk_reserved st d) + requested)"
      "unat (unwrap_or_default (dk_reserved st d) + requested) = reserved_on d st + unat requested"
    using True by (auto simp: u64_checked_add_def unat_word_ariths)
  have nz: "unwrap_or_default (dk_reserved st d) + requested \<noteq> 0" if "requested > 0"
    using sum(2) that by (metis add_is_0 unat_0 unat_eq_zero word_gt_0)
  show ?thesis
    using True sum nz by (auto simp: reserve_locked_def budget_fits_iff Let_def unwrap_or_default_def unat_eq_zero word_gt_0)
next
  case False
  then show ?thesis by (simp add: reserve_locked_def budget_fits_iff Let_def)
qed

lemma release_ok:
  assumes "unat n \<le> reserved_on d st"
  shows "\<exists>st'. release dbg d n st = Inr st'
    \<and> (\<forall>e. reserved_on e st' = reserved_on e st - (if e = d then unat n else 0))
    \<and> ((\<forall>e. dk_reserved st e \<noteq> Some 0) \<longrightarrow> (\<forall>e. dk_reserved st' e \<noteq> Some 0))"
proof (cases "n = 0")
  case False
  then obtain r where r: "dk_reserved st d = Some r" "n \<le> r"
    using assms by (cases "dk_reserved st d") (auto simp: unwrap_or_default_def word_le_nat_alt unat_eq_zero)
  have sub: "u64_saturating_sub r n = r - n" "unat (r - n) = unat r - unat n"
    using r by (auto simp: u64_saturating_sub_def unat_u64_diff)
  then show ?thesis
    using False r by (auto simp: release_def debug_assert_def Let_def unwrap_or_default_def)
qed (simp add: release_def)

lemma tracked_le:
  assumes "disk_inv st live" and "i < length live"
  shows "tracked (live ! i) \<le> reserved_on (rv_device (live ! i)) st" "tracked (live ! i) < 2 ^ 64"
proof -
  have "tracked (live ! i) \<le> tracked_on (rv_device (live ! i)) live"
    using tracked_on_nth(2) [OF assms(2), of "rv_device (live ! i)"] by simp
  then show le: "tracked (live ! i) \<le> reserved_on (rv_device (live ! i)) st"
    using assms(1) by (simp add: disk_inv_def)
  show "tracked (live ! i) < 2 ^ 64"
    using le unsigned_less [of "unwrap_or_default (dk_reserved st (rv_device (live ! i)))", where ?'a = nat]
    by (simp add: le_less_trans)
qed

text \<open>Giving back \<open>n\<close> bytes of a reservation.\<close>

lemma inv_release:
  assumes inv: "disk_inv st live" and i: "i < length live" and rv: "rv_device rv = rv_device (live ! i)"
    and n: "tracked rv + unat n = tracked (live ! i)"
  shows "\<exists>st'. release dbg (rv_device rv) n st = Inr st' \<and> disk_inv st' (live[i := rv])"
proof -
  have "unat n \<le> reserved_on (rv_device rv) st" using tracked_le(1) [OF inv i] n rv by simp
  from release_ok [OF this, of dbg] obtain st' where st': "release dbg (rv_device rv) n st = Inr st'"
    "\<And>e. reserved_on e st' = reserved_on e st - (if e = rv_device rv then unat n else 0)"
    "(\<forall>e. dk_reserved st e \<noteq> Some 0) \<longrightarrow> (\<forall>e. dk_reserved st' e \<noteq> Some 0)" by blast
  have "reserved_on e st' = tracked_on e (live[i := rv])" for e
    using st'(2) [of e] tracked_on_nth(1) [OF i, of e rv] inv n rv by (auto simp: disk_inv_def split: if_splits)
  with st' inv show ?thesis by (simp add: disk_inv_def)
qed

lemma inv_flush:
  assumes "disk_inv st live" and "i < length live" and "rv_device rv = rv_device (live ! i)"
    and "tracked rv = tracked (live ! i)"
  shows "\<exists>rv' st'. flush_pending_release dbg rv st = Inr (rv', st') \<and> disk_inv st' (live[i := rv'])"
proof -
  let ?rv = "rv\<lparr>rv_pending_release := 0\<rparr>"
  have "rv_device ?rv = rv_device (live ! i)" "tracked ?rv + unat (rv_pending_release rv) = tracked (live ! i)"
    using assms(3,4) by (simp_all add: tracked_def)
  from inv_release [OF assms(1,2) this, of dbg] show ?thesis by (auto simp: flush_pending_release_def)
qed

lemma inv_same: "disk_inv st live \<Longrightarrow> i < length live \<Longrightarrow> rv_device rv = rv_device (live ! i) \<Longrightarrow>
    tracked rv = tracked (live ! i) \<Longrightarrow> disk_inv st (live[i := rv])"
proof -
  assume a: "disk_inv st live" "i < length live" "rv_device rv = rv_device (live ! i)" "tracked rv = tracked (live ! i)"
  have "tracked_on d (live[i := rv]) = tracked_on d live" for d
    using tracked_on_nth(1) [OF a(2), of d rv] a(3,4) by (simp split: if_splits)
  with a(1) show ?thesis by (simp add: disk_inv_def)
qed

lemma inv_consume:
  assumes inv: "disk_inv st live" and i: "i < length live"
  shows "(\<exists>rv st'. consume dbg (live ! i) n st = Inr (rv, st') \<and> disk_inv st' (live[i := rv]))
    \<or> dbg \<and> consume dbg (live ! i) n st = Inl ConsumeTooMuch"
proof (cases "dbg \<and> \<not> n \<le> rv_remaining (live ! i)")
  case True
  then show ?thesis by (simp add: consume_def debug_assert_def)
next
  case False
  let ?rv = "live ! i" and ?c = "min n (rv_remaining (live ! i))"
  have c: "unat ?c \<le> unat (rv_remaining ?rv)" "unat (rv_remaining ?rv - ?c) = unat (rv_remaining ?rv) - unat ?c"
    by (simp_all add: word_le_nat_alt [symmetric] unat_u64_diff)
  have sum: "u64_checked_add (rv_pending_release ?rv) ?c = Some (rv_pending_release ?rv + ?c)"
    "unat (rv_pending_release ?rv + ?c) = unat (rv_pending_release ?rv) + unat ?c"
    using tracked_le(2) [OF inv i] c(1) by (auto simp: u64_checked_add_def tracked_def unat_word_ariths)
  let ?rv' = "?rv\<lparr>rv_remaining := rv_remaining ?rv - ?c, rv_pending_release := rv_pending_release ?rv + ?c\<rparr>"
  have rv': "rv_device ?rv' = rv_device ?rv" "tracked ?rv' = tracked ?rv"
    using c sum(2) by (simp_all add: tracked_def)
  have "consume dbg ?rv n st = (if rv_pending_release ?rv + ?c \<ge> RESERVATION_RELEASE_BATCH_BYTES
      then flush_pending_release dbg ?rv' st else Inr (?rv', st))"
    using False sum(1) by (simp add: consume_def debug_assert_def Let_def)
  with inv_flush [OF inv i rv', of dbg] inv_same [OF inv i rv'] show ?thesis by auto
qed

lemma inv_drop:
  assumes inv: "disk_inv st live" and i: "i < length live"
  shows "\<exists>st'. reservation_drop dbg (live ! i) st = Inr st' \<and> disk_inv st' (take i live @ drop (Suc i) live)"
proof -
  let ?rv = "live ! i" and ?n = "rv_remaining (live ! i) + rv_pending_release (live ! i)"
  have n: "u64_checked_add (rv_remaining ?rv) (rv_pending_release ?rv) = Some ?n" "unat ?n = tracked ?rv"
    using tracked_le(2) [OF inv i] by (auto simp: u64_checked_add_def tracked_def unat_word_ariths)
  have "unat ?n \<le> reserved_on (rv_device ?rv) st" using tracked_le(1) [OF inv i] n by simp
  from release_ok [OF this, of dbg] obtain st' where st': "release dbg (rv_device ?rv) ?n st = Inr st'"
    "\<And>e. reserved_on e st' = reserved_on e st - (if e = rv_device ?rv then unat ?n else 0)"
    "(\<forall>e. dk_reserved st e \<noteq> Some 0) \<longrightarrow> (\<forall>e. dk_reserved st' e \<noteq> Some 0)" by blast
  have "reserved_on e st' = tracked_on e (take i live @ drop (Suc i) live)" for e
    using st'(2) [of e] tracked_on_nth(2) [OF i, of e] inv n by (auto simp: disk_inv_def split: if_splits)
  with st' inv n show ?thesis by (simp add: disk_inv_def reservation_drop_def)
qed

definition sys_ok :: "bool \<Rightarrow> DiskSystem \<Rightarrow> bool" where
  "sys_ok dbg s \<longleftrightarrow> disk_inv (dy_state s) (dy_live s)
     \<and> (dy_panic s = None \<or> dbg \<and> dy_panic s = Some ConsumeTooMuch)"

lemma on_live_ok:
  assumes "sys_ok dbg s" and "dy_panic s = None"
    and "\<And>rv. i < length (dy_live s) \<Longrightarrow> rv = dy_live s ! i \<Longrightarrow>
      (\<exists>rv' st. f rv = Inr (Some rv', st) \<and> disk_inv st ((dy_live s)[i := rv']))
      \<or> (\<exists>st. f rv = Inr (None, st) \<and> disk_inv st (take i (dy_live s) @ drop (Suc i) (dy_live s)))
      \<or> dbg \<and> f rv = Inl ConsumeTooMuch"
  shows "sys_ok dbg (on_live i f s)"
  using assms(1,2) assms(3) [OF _ refl] by (auto simp: on_live_def sys_ok_def)

lemma inv_decide:
  assumes "disk_inv st live"
  shows "\<exists>r st'. decide st t version available = Inr (r, st')
    \<and> disk_inv st' (live @ (case r of Inl (Reserved (Some rv)) \<Rightarrow> [rv] | _ \<Rightarrow> []))"
proof (cases "unwrap_or_default (dk_revisions st (pt_device t)) = version")
  case True
  show ?thesis
  proof (cases "pt_purpose t")
    case (ToReserve requested minimum_free)
    from reserve_locked_cases [of st "pt_device t" available requested minimum_free] show ?thesis
      using True ToReserve assms by (auto simp: decide_def disk_inv_def tracked_def)
  next
    case (ToCheck minimum_free)
    with True assms show ?thesis by (simp add: decide_def)
  qed
next
  case False
  then show ?thesis using assms by (auto simp: decide_def next_round_def)
qed

lemma start_call_ok: "sys_ok dbg s \<Longrightarrow> sys_ok dbg (start_call t d p s)"
  by (simp add: start_call_def sys_ok_def)

lemma disk_step_ok:
  assumes "sys_ok dbg s" and "dy_panic s = None"
  shows "sys_ok dbg (disk_step dbg e s)"
proof -
  have inv: "disk_inv (dy_state s) (dy_live s)" using assms(1) by (simp add: sys_ok_def)
  show ?thesis
  proof (cases e)
    case (EvReserve t d r m)
    then show ?thesis using assms by (simp add: start_call_ok)
  next
    case (EvObserve t)
    then show ?thesis using assms by (auto simp: sys_ok_def split: option.splits)
  next
    case (EvProbe t a)
    then show ?thesis using assms by (auto simp: sys_ok_def split: option.splits ProbePhase.splits sum.splits)
  next
    case (EvDecide t)
    show ?thesis
    proof (cases "\<exists>task version available. dy_tasks s t = Some task \<and> pt_phase task = Probed version available")
      case True
      then obtain task version available where t: "dy_tasks s t = Some task" "pt_phase task = Probed version available" by blast
      from inv_decide [OF inv, of task version available] obtain r st' where
        "decide (dy_state s) task version available = Inr (r, st')"
        "disk_inv st' (dy_live s @ (case r of Inl (Reserved (Some rv)) \<Rightarrow> [rv] | _ \<Rightarrow> []))" by blast
      with t EvDecide assms show ?thesis by (auto simp: sys_ok_def split: sum.splits)
    next
      case False
      then show ?thesis using EvDecide assms by (auto split: option.splits ProbePhase.splits)
    qed
  next
    case (EvConsume i n)
    show ?thesis unfolding EvConsume disk_step.simps
      by (rule on_live_ok [OF assms]) (use inv_consume [OF inv, of i dbg n] in auto)
  next
    case (EvCheck i t a m)
    have "sys_ok dbg (on_live i (\<lambda>rv. result_map (\<lambda>(rv, st). (Some rv, st))
         (flush_pending_release dbg rv (dy_state s))) s)"
      by (rule on_live_ok [OF assms]) (use inv_flush [OF inv, of i _ dbg] in fastforce)
    then show ?thesis unfolding EvCheck by (simp add: check_reserved_def Let_def start_call_ok)
  next
    case (EvDrop i)
    show ?thesis unfolding EvDrop disk_step.simps
      by (rule on_live_ok [OF assms]) (use inv_drop [OF inv, of i dbg] in auto)
  qed
qed

lemma disk_run_ok: "sys_ok dbg s \<Longrightarrow> sys_ok dbg (disk_run dbg es s)"
  by (induction dbg es s rule: disk_run.induct) (auto intro: disk_step_ok)

lemma disk_init_ok: "sys_ok dbg disk_init"
  by (simp add: sys_ok_def disk_init_def disk_inv_def unwrap_or_default_def)

section \<open>Revisions\<close>

abbreviation version_of :: "u64 \<Rightarrow> DiskSpaceState \<Rightarrow> u64" where
  "version_of d st \<equiv> unwrap_or_default (dk_revisions st d)"

text \<open>Between two states the device was changed \<open>k\<close> times.\<close>

definition bumps :: "u64 \<Rightarrow> nat \<Rightarrow> DiskSpaceState \<Rightarrow> DiskSpaceState \<Rightarrow> bool" where
  "bumps d k st st' \<longleftrightarrow> version_of d st' = version_of d st + of_nat k
     \<and> (k = 0 \<longrightarrow> dk_reserved st' d = dk_reserved st d)"

definition steps_once :: "u64 \<Rightarrow> DiskSpaceState \<Rightarrow> DiskSpaceState \<Rightarrow> bool" where
  "steps_once d st st' \<longleftrightarrow> bumps d 0 st st' \<or> bumps d 1 st st'"

lemma steps_once_refl [simp]: "steps_once d st st"
  by (simp add: steps_once_def bumps_def)

lemma release_once: "release dbg e n st = Inr st' \<Longrightarrow> steps_once d st st'"
  by (cases "d = e")
    (auto simp: release_def steps_once_def bumps_def bump_revision_def unwrap_or_default_def Let_def
      split: if_splits option.splits)

lemma reserve_once: "reserve_locked st e a r m = Inr (rv, st') \<Longrightarrow> steps_once d st st'"
  by (cases "d = e")
    (auto simp: reserve_locked_def steps_once_def bumps_def bump_revision_def unwrap_or_default_def Let_def
      split: if_splits option.splits)

lemma op_once:
  "flush_pending_release dbg rv st = Inr (rv', st') \<Longrightarrow> steps_once d st st'"
  "consume dbg rv n st = Inr (rv', st') \<Longrightarrow> steps_once d st st'"
  "reservation_drop dbg rv st = Inr st' \<Longrightarrow> steps_once d st st'"
  "decide st t v a = Inr (res, st') \<Longrightarrow> steps_once d st st'"
proof -
  show f: "flush_pending_release dbg rv st = Inr (rv', st') \<Longrightarrow> steps_once d st st'" for rv
    by (auto simp: flush_pending_release_def intro: release_once)
  show "consume dbg rv n st = Inr (rv', st') \<Longrightarrow> steps_once d st st'"
    by (auto simp: consume_def Let_def intro: f split: if_splits)
  show "reservation_drop dbg rv st = Inr st' \<Longrightarrow> steps_once d st st'"
    by (auto simp: reservation_drop_def intro: release_once)
  show "decide st t v a = Inr (res, st') \<Longrightarrow> steps_once d st st'"
    by (auto simp: decide_def intro: reserve_once split: if_splits ProbePurpose.splits)
qed

lemma on_live_once:
  "(\<And>rv rv' st'. f rv = Inr (rv', st') \<Longrightarrow> steps_once d (dy_state s) st') \<Longrightarrow>
    steps_once d (dy_state s) (dy_state (on_live i f s))"
  by (auto simp: on_live_def split: sum.splits option.splits prod.splits)

lemma start_call_state [simp]: "dy_state (start_call t e p s) = dy_state s"
  by (simp add: start_call_def)

lemma disk_step_once: "steps_once d (dy_state s) (dy_state (disk_step dbg e s))"
proof (cases e)
  case (EvDecide t)
  then show ?thesis by (auto intro: op_once split: option.splits ProbePhase.splits sum.splits prod.splits)
next
  case (EvConsume i n)
  then show ?thesis by (auto intro!: on_live_once intro: op_once)
next
  case (EvCheck i t a m)
  have "steps_once d (dy_state s) (dy_state (on_live i (\<lambda>rv. result_map (\<lambda>(rv, st). (Some rv, st))
         (flush_pending_release dbg rv (dy_state s))) s))"
    by (auto intro!: on_live_once intro: op_once)
  with EvCheck show ?thesis by (simp add: check_reserved_def Let_def)
next
  case (EvDrop i)
  then show ?thesis by (auto intro!: on_live_once intro: op_once)
qed (auto split: option.splits ProbePhase.splits sum.splits)

lemma bumps_trans: "bumps d j st st1 \<Longrightarrow> bumps d k st1 st2 \<Longrightarrow> bumps d (j + k) st st2"
  by (simp add: bumps_def)

lemma disk_run_bumps:
  "\<exists>k \<le> length es. bumps d k (dy_state s) (dy_state (disk_run dbg es s))
    \<and> (k = 0 \<longrightarrow> (\<forall>a b. es = a @ b \<longrightarrow> dk_reserved (dy_state (disk_run dbg a s)) d = dk_reserved (dy_state s) d))"
proof (induction es arbitrary: s)
  case (Cons e es)
  show ?case
  proof (cases "dy_panic s = None")
    case True
    obtain j where j: "j \<le> 1" "bumps d j (dy_state s) (dy_state (disk_step dbg e s))"
      using disk_step_once [of d s dbg e] by (auto simp: steps_once_def)
    obtain k where k: "k \<le> length es"
      "bumps d k (dy_state (disk_step dbg e s)) (dy_state (disk_run dbg es (disk_step dbg e s)))"
      "k = 0 \<longrightarrow> (\<forall>a b. es = a @ b \<longrightarrow> dk_reserved (dy_state (disk_run dbg a (disk_step dbg e s))) d
        = dk_reserved (dy_state (disk_step dbg e s)) d)" using Cons by blast
    have "dk_reserved (dy_state (disk_run dbg a s)) d = dk_reserved (dy_state s) d"
      if "j + k = 0" "e # es = a @ b" for a b
      using that True j k(3) by (cases a) (auto simp: bumps_def)
    then show ?thesis using True bumps_trans [OF j(2) k(2)] j(1) k(1) by (intro exI [of _ "j + k"]) simp
  next
    case False
    then have "disk_run dbg a s = s" for a by (cases a) auto
    with False show ?thesis by (intro exI [of _ 0]) (simp add: bumps_def)
  qed
qed (simp add: bumps_def)

text \<open>The revision that a call has observed stays with it until it observes again.\<close>

definition observed_ok :: "nat \<Rightarrow> u64 \<Rightarrow> u64 \<Rightarrow> DiskSystem \<Rightarrow> bool" where
  "observed_ok t d v s \<longleftrightarrow> (\<forall>task. dy_tasks s t = Some task \<longrightarrow>
     (case pt_phase task of RoundStart \<Rightarrow> True | Observed w \<Rightarrow> w = v \<and> pt_device task = d
      | Probed w _ \<Rightarrow> w = v \<and> pt_device task = d))"

lemma on_live_tasks [simp]: "dy_tasks (on_live i f s) = dy_tasks s"
  by (auto simp: on_live_def split: sum.splits option.splits prod.splits)

lemma observed_cong: "dy_tasks s' t = dy_tasks s t \<Longrightarrow> observed_ok t d v s \<Longrightarrow> observed_ok t d v s'"
  by (simp add: observed_ok_def)

lemma observed_fresh:
  "dy_tasks s t = None \<or> (\<exists>task. dy_tasks s t = Some task \<and> pt_phase task = RoundStart) \<Longrightarrow> observed_ok t d v s"
  by (auto simp: observed_ok_def)

lemma decide_again: "decide st task v a = Inr (Inr task', st') \<Longrightarrow> pt_phase task' = RoundStart"
  by (auto simp: decide_def next_round_def split: if_splits ProbePurpose.splits)

lemma observed_decided:
  "pt_phase task = RoundStart \<Longrightarrow> observed_ok t d v (s\<lparr>dy_tasks := (dy_tasks s)(t \<mapsto> task), dy_state := st\<rparr>)"
  by (simp add: observed_ok_def)

lemma observed_start: "observed_ok t d v s \<Longrightarrow> observed_ok t d v (start_call u e p s)"
  by (auto simp: observed_ok_def start_call_def split: if_splits)

lemma observed_step:
  assumes ok: "observed_ok t d v s" and "e \<noteq> EvObserve t" shows "observed_ok t d v (disk_step dbg e s)"
proof (cases e)
  case (EvReserve u e r m)
  then show ?thesis using ok by (simp add: observed_start)
next
  case (EvObserve u)
  then have "u \<noteq> t" using assms(2) by simp
  then show ?thesis using ok EvObserve by (auto intro: observed_cong split: option.splits)
next
  case (EvProbe u a)
  then show ?thesis
    using ok by (cases "u = t") (auto simp: observed_ok_def split: option.splits ProbePhase.splits sum.splits)
next
  case (EvDecide u)
  show ?thesis
  proof (cases "u = t")
    case True
    with EvDecide ok show ?thesis
      by (auto intro: observed_fresh observed_cong [OF _ ok] simp: decide_again [THEN observed_decided]
          split: option.splits ProbePhase.splits sum.splits prod.splits)
  next
    case False
    then have "dy_tasks (disk_step dbg e s) t = dy_tasks s t"
      unfolding EvDecide by (simp split: option.splits ProbePhase.splits sum.splits prod.splits)
    with ok show ?thesis by (rule observed_cong [rotated])
  qed
next
  case (EvConsume i n)
  then show ?thesis using observed_cong [OF _ ok] by simp
next
  case (EvCheck i u a m)
  have "observed_ok t d v (on_live i f s)" for f using observed_cong [OF _ ok] by simp
  then show ?thesis unfolding EvCheck by (simp add: check_reserved_def Let_def observed_start)
next
  case (EvDrop i)
  then show ?thesis using observed_cong [OF _ ok] by simp
qed

lemma observed_run:
  "observed_ok t d v s \<Longrightarrow> EvObserve t \<notin> set es \<Longrightarrow> observed_ok t d v (disk_run dbg es s)"
  by (induction dbg es s rule: disk_run.induct) (auto intro: observed_step)

section \<open>What the tracker promises\<close>

text \<open>C26: In every interleaving of reservations, writes, checks and drops, the bytes recorded for a
  device are exactly those that its live reservations still protect (unwritten, or written and not
  yet given back), and a device without protected bytes has no record.  No arithmetic overflows:
  a release build never panics, and a debug build panics only when a caller consumes more than
  its reservation holds.\<close>

theorem disk_accounting_exact:
  "(\<forall>d. unat (unwrap_or_default (dk_reserved (dy_state (disk_run dbg es disk_init)) d))
        = tracked_on d (dy_live (disk_run dbg es disk_init))
      \<and> (dk_reserved (dy_state (disk_run dbg es disk_init)) d = None
          \<longleftrightarrow> tracked_on d (dy_live (disk_run dbg es disk_init)) = 0))
    \<and> (dy_panic (disk_run dbg es disk_init) = None
      \<or> dbg \<and> dy_panic (disk_run dbg es disk_init) = Some ConsumeTooMuch)"
proof -
  let ?s = "disk_run dbg es disk_init"
  have ok: "sys_ok dbg ?s" by (rule disk_run_ok [OF disk_init_ok])
  then have "dk_reserved (dy_state ?s) d = None \<longleftrightarrow> tracked_on d (dy_live ?s) = 0" for d
    unfolding sys_ok_def disk_inv_def unwrap_or_default_def
    by (cases "dk_reserved (dy_state ?s) d") (auto simp: unat_eq_zero dest!: spec [of _ d] intro: gr0I)
  with ok show ?thesis by (simp add: sys_ok_def disk_inv_def)
qed

text \<open>C27: A granted reservation leaves the configured minimum free.  Suppose a call read the
  revision, then the file system was probed, and then the call was granted, with fewer than
  \<open>2^64\<close> events in between.  Then the bytes recorded for the device did not change at any moment
  from the reading of the revision to the grant, so also not at the probe; and the probed free
  space covers the minimum plus all bytes protected on the device, the new reservation included.\<close>

theorem reservation_leaves_minimum_free:
  assumes s0: "disk_run dbg evs0 disk_init = s0" "dy_panic s0 = None"
    and t0: "dy_tasks s0 t = Some task0" "pt_phase task0 = RoundStart"
    and s1: "disk_step dbg (EvObserve t) s0 = s1"
    and s2: "disk_run dbg evs s1 = s2" "EvObserve t \<notin> set evs" "length evs < 2 ^ 64" "dy_panic s2 = None"
    and grant: "length (dy_live (disk_step dbg (EvDecide t) s2)) > length (dy_live s2)"
  shows "\<exists>task requested minimum_free revision available.
    dy_tasks s2 t = Some task \<and> pt_device task = pt_device task0
    \<and> pt_purpose task = ToReserve requested minimum_free \<and> pt_phase task = Probed revision available
    \<and> (\<forall>before after. evs = before @ after \<longrightarrow>
        dk_reserved (dy_state (disk_run dbg before s1)) (pt_device task) = dk_reserved (dy_state s2) (pt_device task))
    \<and> unat minimum_free + tracked_on (pt_device task) (dy_live (disk_step dbg (EvDecide t) s2)) \<le> unat available"
proof -
  let ?d = "pt_device task0" and ?v = "version_of (pt_device task0) (dy_state s0)"
  have s1': "s1 = s0\<lparr>dy_tasks := (dy_tasks s0)(t \<mapsto> observe_revision (dy_state s0) task0)\<rparr>"
    using s1 t0 by simp
  have "observed_ok t ?d ?v s1" by (simp add: s1' observed_ok_def observe_revision_def)
  then have obs: "observed_ok t ?d ?v s2" using observed_run s2 by blast
  have inv: "disk_inv (dy_state s2) (dy_live s2)"
    using disk_run_ok [OF disk_step_ok [OF disk_run_ok [OF disk_init_ok, of dbg evs0]]] s0 s1 s2(1)
    unfolding sys_ok_def by blast
  from grant obtain task v a where task: "dy_tasks s2 t = Some task" "pt_phase task = Probed v a"
    by (auto split: option.splits ProbePhase.splits)
  with obs have v: "v = ?v" "pt_device task = ?d" by (auto simp: observed_ok_def)
  from grant task obtain rv st' where dec: "decide (dy_state s2) task v a = Inr (Inl (Reserved (Some rv)), st')"
    by (auto split: sum.splits prod.splits ProbeResult.splits option.splits)
  then obtain requested minimum_free where p: "pt_purpose task = ToReserve requested minimum_free"
      and same: "version_of ?d (dy_state s2) = ?v"
      and res: "reserve_locked (dy_state s2) ?d a requested minimum_free = Inr (Some rv, st')"
    using v by (auto simp: decide_def next_round_def split: if_splits ProbePurpose.splits)
  obtain k where k: "k \<le> length evs" "bumps ?d k (dy_state s1) (dy_state s2)"
    "k = 0 \<longrightarrow> (\<forall>before after. evs = before @ after \<longrightarrow>
      dk_reserved (dy_state (disk_run dbg before s1)) ?d = dk_reserved (dy_state s1) ?d)"
    using disk_run_bumps [of evs ?d s1 dbg] s2(1) by blast
  have "of_nat k = (0 :: u64)" using k(2) same by (simp add: bumps_def s1')
  moreover have "k < 2 ^ 64" using k(1) s2(3) by simp
  ultimately have "k = 0" using nat_dvd_not_less [of k "2 ^ 64"] by (auto simp: word_of_nat_eq_0_iff)
  with k have unchanged: "\<forall>before after. evs = before @ after \<longrightarrow>
      dk_reserved (dy_state (disk_run dbg before s1)) ?d = dk_reserved (dy_state s2) ?d"
    by (simp add: bumps_def)
  have "unat minimum_free + reserved_on ?d (dy_state s2) + unat requested \<le> unat a"
    "rv = \<lparr>rv_device = ?d, rv_remaining = requested, rv_pending_release = 0\<rparr>"
    using reserve_locked_cases [of "dy_state s2" ?d a requested minimum_free] res by auto
  then have "unat minimum_free + tracked_on ?d (dy_live s2 @ [rv]) \<le> unat a"
    using inv by (simp add: disk_inv_def tracked_def)
  then show ?thesis using task p unchanged v dec by auto
qed

definition sample_disk :: DiskSystem where
  "sample_disk = disk_run False [EvReserve 0 1 100 10] disk_init"

theorem reservation_leaves_minimum_free_witness:
  "unat (10 :: u64) + tracked_on 1 (dy_live (disk_step False (EvDecide 0)
      (disk_run False [EvProbe 0 (Inr 1000)] (disk_step False (EvObserve 0) sample_disk)))) \<le> unat (1000 :: u64)"
proof -
  have s: "sample_disk = disk_init\<lparr>dy_tasks := [0 \<mapsto> \<lparr>pt_device = 1, pt_purpose = ToReserve 100 10,
      pt_attempts = 8, pt_phase = RoundStart\<rparr>]\<rparr>"
    by (simp add: sample_disk_def disk_init_def start_call_def MAX_CAPACITY_SNAPSHOT_RETRIES_def)
  let ?task = "\<lparr>pt_device = 1, pt_purpose = ToReserve 100 10, pt_attempts = 8, pt_phase = RoundStart\<rparr>"
  let ?s1 = "disk_step False (EvObserve 0) sample_disk"
  let ?s2 = "disk_run False [EvProbe 0 (Inr 1000)] ?s1"
  have s2: "?s2 = disk_init\<lparr>dy_tasks := [0 \<mapsto> ?task\<lparr>pt_phase := Probed 0 1000\<rparr>]\<rparr>"
    by (simp add: s observe_revision_def disk_init_def unwrap_or_default_def)
  have grant: "length (dy_live (disk_step False (EvDecide 0) ?s2)) > length (dy_live ?s2)"
    unfolding s2
    by (simp add: disk_init_def decide_def reserve_locked_def budget_fits_iff unwrap_or_default_def Let_def
        u64_checked_add_def)
  have "\<exists>task requested minimum_free revision available.
    dy_tasks ?s2 0 = Some task \<and> pt_device task = pt_device ?task
    \<and> pt_purpose task = ToReserve requested minimum_free \<and> pt_phase task = Probed revision available
    \<and> (\<forall>before after. [EvProbe 0 (Inr 1000)] = before @ after \<longrightarrow>
        dk_reserved (dy_state (disk_run False before ?s1)) (pt_device task) = dk_reserved (dy_state ?s2) (pt_device task))
    \<and> unat minimum_free + tracked_on (pt_device task) (dy_live (disk_step False (EvDecide 0) ?s2)) \<le> unat available"
    by (rule reservation_leaves_minimum_free [OF sample_disk_def [symmetric] _ _ _ refl refl _ _ _ grant, of ?task])
      (simp_all add: s observe_revision_def disk_init_def unwrap_or_default_def)
  then show ?thesis unfolding s2 by (auto simp del: disk_step.simps)
qed

text \<open>The reservation for a file counts whole allocation units: data and metadata are each
  rounded up to the next multiple of the unit, and the sum is refused when it does not fit into
  64 bits.\<close>

theorem allocation_budget_rounds_up:
  assumes "allocated_reservation_bytes fragment logical metadata = Inr n"
  shows "unat n = (unat logical + unat (max fragment 1) - 1) div unat (max fragment 1) * unat (max fragment 1)
      + (unat metadata + unat (max fragment 1) - 1) div unat (max fragment 1) * unat (max fragment 1)
    \<and> unat logical + unat metadata \<le> unat n"
proof -
  let ?u = "max fragment 1"
  have "?u \<noteq> 0" by (auto simp: max_def)
  then have u: "0 < unat ?u" by (simp add: unat_eq_zero zero_less_iff_neq_zero)
  have r: "unat m = (unat v + unat ?u - 1) div unat ?u * unat ?u \<and> unat v \<le> unat m" if "round_up v ?u = Some m" for v m
  proof (cases "v = 0")
    case True
    then show ?thesis using that u by (simp add: round_up_def)
  next
    case False
    have one: "1 \<le> ?u" by simp
    with that False obtain s where s: "u64_checked_add v (?u - 1) = Some s" "m = s div ?u * ?u"
      by (auto simp: round_up_def u64_checked_sub_def split: Option.bind_splits if_splits)
    have su: "unat s = unat v + unat ?u - 1"
      using u64_checked_add_Some [OF s(1)] unat_u64_diff [OF one] u by simp
    have "unat s div unat ?u * unat ?u < 2 ^ LENGTH(64)"
      using unsigned_less [of s, where ?'a = nat] div_times_less_eq_dividend [of "unat s" "unat ?u"] by linarith
    then have m: "unat m = unat s div unat ?u * unat ?u"
      unfolding s(2) by (simp only: unat_word_ariths(2) unat_div mod_less)
    moreover have "unat v \<le> unat s div unat ?u * unat ?u"
      using div_mod_decomp [of "unat s" "unat ?u"] mod_less_divisor [OF u, of "unat s"] su u by linarith
    ultimately show ?thesis using su by simp
  qed
  from assms obtain a b where ab: "round_up logical ?u = Some a" "round_up metadata ?u = Some b"
    "u64_checked_add a b = Some n"
    by (auto simp: allocated_reservation_bytes_def allocation_budget_def split: Option.bind_splits)
  show ?thesis using r [OF ab(1)] r [OF ab(2)] u64_checked_add_Some [OF ab(3)] by simp
qed

theorem allocation_budget_rounds_up_witness:
  "allocated_reservation_bytes 4096 10000 1 = Inr 16384 \<and> unat (10000 :: u64) + unat (1 :: u64) \<le> unat (16384 :: u64)"
proof -
  have "allocated_reservation_bytes 4096 10000 1 = Inr 16384"
    by (simp add: allocated_reservation_bytes_def allocation_budget_def round_up_def u64_checked_sub_def
        u64_checked_add_def max_def word_le_nat_alt)
  with allocation_budget_rounds_up [of 4096 10000 1 16384] show ?thesis by simp
qed

end
