(* ===== verification/Download.thy ===== *)
theory Download
  imports Listing_Problem Upload_Protocol
begin

text \<open>
  Sending a file (\<open>src/src/server/download.rs\<close> and \<open>set_content_disposition\<close> of
  \<open>src/src/server.rs\<close>): conditional requests, byte ranges, and the response body that is read from
  the file in bounded chunks.  The typed headers of the \<open>headers\<close> crate, \<open>mime_guess\<close>, SHA-256 and
  the answers of the file system are parameters.
\<close>

section \<open>Names in headers\<close>

definition hex_upper :: "byte \<Rightarrow> char" where
  "hex_upper n = (if n < 10 then char_of (48 + unat n) else char_of (55 + unat n))"

definition attr_char :: "byte \<Rightarrow> bool" where
  "attr_char b \<longleftrightarrow>
     0x30 \<le> b \<and> b \<le> 0x39 \<or> 0x41 \<le> b \<and> b \<le> 0x5A \<or> 0x61 \<le> b \<and> b \<le> 0x7A
     \<or> b \<in> {0x21, 0x23, 0x24, 0x26, 0x2B, 0x2D, 0x2E, 0x5E, 0x5F, 0x60, 0x7C, 0x7E}"

definition encode_content_disposition_filename :: "bytes \<Rightarrow> string" where
  "encode_content_disposition_filename name =
     concat (map (\<lambda>b. if attr_char b then [char_of (unat b)]
       else [CHR ''%'', hex_upper (drop_bit 4 b), hex_upper (b AND 0x0F)]) name)"

text \<open>Control characters of a UTF-8 text: U+0000 to U+001F, U+007F, and U+0080 to U+009F, which are
  two bytes long.\<close>

fun blank_controls :: "bytes \<Rightarrow> bytes" where
  "blank_controls [] = []"
| "blank_controls [b] = [if b < 0x20 \<or> b = 0x7F then 0x20 else b]"
| "blank_controls (b # c # bs) =
     (if b = 0xC2 \<and> 0x80 \<le> c \<and> c \<le> 0x9F then 0x20 # blank_controls bs
      else (if b < 0x20 \<or> b = 0x7F then 0x20 else b) # blank_controls (c # bs))"

datatype DownloadError = IllegalHeaderValue | NoFileName | OpenFailed io_error

definition set_header :: "'h HttpLib \<Rightarrow> string \<Rightarrow> string \<Rightarrow> 'h \<Rightarrow> DownloadError + 'h" where
  "set_header lib name v h = ok_or (put_header lib name v h) IllegalHeaderValue"

definition set_content_disposition :: "'h HttpLib \<Rightarrow> string \<Rightarrow> 'h \<Rightarrow> DownloadError + 'h" where
  "set_content_disposition lib filename h =
     set_header lib ''content-disposition''
       (''attachment; filename='' @ [CHR 0x22] @ ''download'' @ [CHR 0x22] @ ''; filename*=UTF-8'' @ [CHR 0x27, CHR 0x27]
         @ encode_content_disposition_filename (blank_controls (str_bytes filename))) h"

definition try_get_file_name :: "bytes \<Rightarrow> DownloadError + string" where
  "try_get_file_name path = ok_or (Option.bind (path_file_name path) to_str) NoFileName"

section \<open>Validators\<close>

record Metadata =
  md_is_file :: bool
  md_len :: u64
  md_modified :: "int option"
  md_created :: "int option"
  md_dev :: u64
  md_ino :: u64
  md_mtime :: i64
  md_mtime_nsec :: i64
  md_ctime :: i64
  md_ctime_nsec :: i64

text \<open>The typed headers.  A condition is \<open>None\<close> when the request does not carry it, and otherwise
  tells whether it passes for the given entity tag or modification date.\<close>

record 'h TypedHeaders =
  th_if_match :: "'h \<Rightarrow> string \<Rightarrow> bool option"
  th_if_unmodified_since :: "'h \<Rightarrow> string \<Rightarrow> bool option"
  th_if_none_match :: "'h \<Rightarrow> string \<Rightarrow> bool option"
  th_if_modified_since :: "'h \<Rightarrow> string \<Rightarrow> bool option"
  th_etag_parse :: "string \<Rightarrow> string option"
  th_last_modified :: "int \<Rightarrow> string"
  th_private_no_store :: string
  th_mime :: "bytes \<Rightarrow> string"

definition to_le_bytes :: "u64 \<Rightarrow> bytes" where
  "to_le_bytes w = rev (to_be_bytes w)"

definition validator_input :: "Metadata \<Rightarrow> bytes" where
  "validator_input m =
     to_le_bytes (md_dev m) @ to_le_bytes (md_ino m) @ to_le_bytes (md_len m)
     @ rev (i64_be_bytes (md_mtime m)) @ rev (i64_be_bytes (md_mtime_nsec m))
     @ rev (i64_be_bytes (md_ctime m)) @ rev (i64_be_bytes (md_ctime_nsec m))"

definition extract_cache_headers ::
  "'h TypedHeaders \<Rightarrow> (bytes \<Rightarrow> bytes) \<Rightarrow> Metadata \<Rightarrow> (string \<times> string) option" where
  "extract_cache_headers th sha256 m =
     Option.bind (case md_modified m of Some t \<Rightarrow> Some t | None \<Rightarrow> md_created m) (\<lambda>mtime.
     Option.bind (th_etag_parse th (''W/'' @ [CHR 0x22] @ encode_hex (sha256 (validator_input m)) @ [CHR 0x22]))
       (\<lambda>etag. Some (etag, th_last_modified th mtime)))"

section \<open>The response\<close>

text \<open>A body is empty, a fixed text, or \<open>length\<close> bytes of the file from an offset.\<close>

datatype DownloadBody = NoBody | TextBody string | FileBody u64 u64

record 'h DownloadResponse =
  dr_status :: u16
  dr_headers :: 'h
  dr_body :: DownloadBody

definition status_not_found :: "'h DownloadResponse \<Rightarrow> 'h DownloadResponse" where
  "status_not_found res = res\<lparr>dr_status := 404, dr_body := TextBody ''Not Found''\<rparr>"

text \<open>The status with which a condition ends the request, if one does.\<close>

definition failed_condition :: "'h TypedHeaders \<Rightarrow> 'h \<Rightarrow> string \<Rightarrow> string \<Rightarrow> u16 option" where
  "failed_condition th headers etag last_modified =
     (case (case th_if_match th headers etag of
          Some passes \<Rightarrow> if \<not> passes then Some 412 else None
        | None \<Rightarrow>
            (case th_if_unmodified_since th headers last_modified of
               Some False \<Rightarrow> Some 412
             | _ \<Rightarrow> None)) of
        Some status \<Rightarrow> Some status
      | None \<Rightarrow>
          (case th_if_none_match th headers etag of
             Some passes \<Rightarrow> if \<not> passes then Some 304 else None
           | None \<Rightarrow>
               (case th_if_modified_since th headers last_modified of
                  Some False \<Rightarrow> Some 304
                | _ \<Rightarrow> None)))"

definition requested_range :: "'h HttpLib \<Rightarrow> 'h \<Rightarrow> bool \<Rightarrow> u64 \<Rightarrow> ParsedRange option" where
  "requested_range lib headers use_range fsize =
     (if use_range
      then (case http_get_all lib headers ''range'' of
          [] \<Rightarrow> None
        | first # others \<Rightarrow>
            let parsed = (case http_to_str lib first of
                  None \<Rightarrow> Unsatisfiable
                | Some s \<Rightarrow> parse_range s fsize) in
            Some (if parsed = RangeIgnore then RangeIgnore
              else if others \<noteq> [] then Unsatisfiable
              else parsed))
      else None)"

definition range_text :: "u64 \<Rightarrow> u64 \<Rightarrow> u64 \<Rightarrow> string" where
  "range_text start final fsize =
     ''bytes '' @ decimal (unat start) @ ''-'' @ decimal (unat final) @ ''/'' @ decimal (unat fsize)"

definition unsatisfied_text :: "u64 \<Rightarrow> string" where
  "unsatisfied_text fsize = ''bytes */'' @ decimal (unat fsize)"

text \<open>Content headers and the body.\<close>

definition send_content ::
  "'h HttpLib \<Rightarrow> 'h TypedHeaders \<Rightarrow> bytes \<Rightarrow> bool \<Rightarrow> u64 \<Rightarrow> ParsedRange option \<Rightarrow>
    'h DownloadResponse \<Rightarrow> DownloadError + 'h DownloadResponse" where
  "send_content lib th path head_only fsize requested res =
     result_bind (set_header lib ''content-type'' (th_mime th path) (dr_headers res)) (\<lambda>h.
     result_bind (try_get_file_name path) (\<lambda>filename.
     result_bind (set_content_disposition lib filename h) (\<lambda>h.
     let h = http_insert lib ''accept-ranges'' ''bytes'' h in
     case requested of
       Some (Satisfiable start final) \<Rightarrow>
         let range_size = final - start + 1 in
         result_bind (set_header lib ''content-range'' (range_text start final fsize) h) (\<lambda>h.
         result_bind (set_header lib ''content-length'' (decimal (unat range_size)) h) (\<lambda>h.
         Inr (res\<lparr>dr_status := 206, dr_headers := h,
           dr_body := (if head_only then dr_body res else FileBody start range_size)\<rparr>)))
     | Some Unsatisfiable \<Rightarrow>
         result_bind (set_header lib ''content-range'' (unsatisfied_text fsize) h) (\<lambda>h.
         Inr (res\<lparr>dr_status := 416, dr_headers := h\<rparr>))
     | _ \<Rightarrow>
         result_bind (set_header lib ''content-length'' (decimal (unat fsize)) h) (\<lambda>h.
         Inr (res\<lparr>dr_headers := h,
           dr_body := (if head_only then dr_body res else FileBody 0 fsize)\<rparr>)))))"

definition send_open_file ::
  "'h HttpLib \<Rightarrow> 'h TypedHeaders \<Rightarrow> (bytes \<Rightarrow> bytes) \<Rightarrow> bytes \<Rightarrow> Metadata \<Rightarrow> 'h \<Rightarrow> bool \<Rightarrow>
    'h DownloadResponse \<Rightarrow> DownloadError + 'h DownloadResponse" where
  "send_open_file lib th sha256 path m headers head_only res =
     (if \<not> md_is_file m then Inr (status_not_found res)
      else
        let res = res\<lparr>dr_headers := http_insert lib ''cache-control'' (th_private_no_store th) (dr_headers res)\<rparr> in
        case extract_cache_headers th sha256 m of
          None \<Rightarrow> send_content lib th path head_only (md_len m)
            (requested_range lib headers (\<not> head_only) (md_len m)) res
        | Some (etag, last_modified) \<Rightarrow>
            let res = res\<lparr>dr_headers := http_insert lib ''etag'' etag
                  (http_insert lib ''last-modified'' last_modified (dr_headers res))\<rparr> in
            (case failed_condition th headers etag last_modified of
               Some status \<Rightarrow> Inr (res\<lparr>dr_status := status\<rparr>)
             | None \<Rightarrow> send_content lib th path head_only (md_len m)
                 (requested_range lib headers
                   (\<not> head_only \<and> http_get_all lib headers ''range'' \<noteq> [] \<and> http_get_all lib headers ''if-range'' = [])
                   (md_len m)) res))"

definition handle_send_file ::
  "'h HttpLib \<Rightarrow> 'h TypedHeaders \<Rightarrow> (bytes \<Rightarrow> bytes) \<Rightarrow> bytes \<Rightarrow> io_error + Metadata \<Rightarrow> 'h \<Rightarrow> bool \<Rightarrow>
    'h DownloadResponse \<Rightarrow> DownloadError + 'h DownloadResponse" where
  "handle_send_file lib th sha256 path opened headers head_only res =
     (case opened of
        Inr m \<Rightarrow> send_open_file lib th sha256 path m headers head_only res
      | Inl e \<Rightarrow>
          if io_kind e \<in> {NotFound, NotADirectory} then Inr (status_not_found res)
          else Inl (OpenFailed e))"

section \<open>Reading the body\<close>

definition BUF_SIZE :: nat where
  "BUF_SIZE = 65536"

datatype StreamError = UnexpectedEof | ReadTimedOut | ReadFailed io_error

lemma chunk_left:
  assumes "remaining \<noteq> 0" and "0 < n" and "n \<le> min (unat (remaining :: u64)) BUF_SIZE"
  shows "unat (remaining - of_nat n) = unat remaining - n" "unat (of_nat n :: u64) = n"
proof -
  show n: "unat (of_nat n :: u64) = n"
    using assms(3) by (simp add: BUF_SIZE_def unat_of_nat take_bit_eq_mod)
  then have "(of_nat n :: u64) \<le> remaining" using assms(3) by (simp add: word_le_nat_alt)
  with n show "unat (remaining - of_nat n) = unat remaining - n" by (simp add: unat_sub)
qed

text \<open>\<open>read_at k offset n\<close> is the answer of the \<open>k\<close>-th read into a buffer of \<open>n\<close> bytes, which is cut to
  what was read.\<close>

function file_stream ::
  "(nat \<Rightarrow> u64 \<Rightarrow> nat \<Rightarrow> StreamError + bytes) \<Rightarrow> nat \<Rightarrow> u64 \<Rightarrow> u64 \<Rightarrow> bytes list \<times> StreamError option" where
  "file_stream read_at k offset remaining =
     (if remaining = 0 then ([], None)
      else
        let chunk_size = min (unat remaining) BUF_SIZE in
        case read_at k offset chunk_size of
          Inl e \<Rightarrow> ([], Some e)
        | Inr bs \<Rightarrow>
            let buffer = take chunk_size bs in
            if buffer = [] then ([], Some UnexpectedEof)
            else
              let n = of_nat (length buffer);
                  rest = file_stream read_at (k + 1) (offset + n) (remaining - n) in
              (buffer # fst rest, snd rest))"
  by pat_completeness auto

termination
proof (relation "measure (\<lambda>(_, _, _, remaining). unat remaining)", goal_cases)
  case (2 read_at k offset remaining c bs buffer n)
  then have "0 < length buffer" "length buffer \<le> min (unat remaining) BUF_SIZE" by auto
  from chunk_left [OF 2(1) this] 2(1) \<open>0 < length buffer\<close> show ?case
    unfolding 2 by (simp add: unat_gt_0)
qed simp

declare file_stream.simps [simp del]

section \<open>Lemmas\<close>

lemma file_stream_frame:
  "length (concat (fst (file_stream read_at k offset remaining))) \<le> unat remaining
    \<and> (snd (file_stream read_at k offset remaining) = None
        \<longleftrightarrow> length (concat (fst (file_stream read_at k offset remaining))) = unat remaining)
    \<and> list_all (\<lambda>c. c \<noteq> [] \<and> length c \<le> BUF_SIZE) (fst (file_stream read_at k offset remaining))"
proof (induction read_at k offset remaining rule: file_stream.induct)
  case (1 read_at k offset remaining)
  show ?case
  proof (cases "remaining = 0")
    case False
    then have pos: "0 < unat remaining" by (simp add: unat_gt_0)
    let ?c = "min (unat remaining) BUF_SIZE"
    show ?thesis
    proof (cases "read_at k offset ?c")
      case (Inl e)
      with False pos show ?thesis by (simp add: file_stream.simps [of read_at k offset remaining])
    next
      case (Inr bs)
      let ?b = "take ?c bs"
      show ?thesis
      proof (cases "?b = []")
        case True
        with False Inr pos show ?thesis by (simp add: file_stream.simps [of read_at k offset remaining] Let_def)
      next
        case b: False
        then have len: "0 < length ?b" "length ?b \<le> ?c" by auto
        note left = chunk_left(1) [OF False len]
        note IH = 1 [OF False refl Inr refl b refl, unfolded left]
        have "file_stream read_at k offset remaining =
            (let rest = file_stream read_at (k + 1) (offset + of_nat (length ?b)) (remaining - of_nat (length ?b)) in
             (?b # fst rest, snd rest))"
          using False Inr b by (subst file_stream.simps) (simp only: Let_def sum.case if_False)
        moreover have "length ?b \<le> unat remaining" "length ?b \<le> BUF_SIZE" using len(2) by simp_all
        then have "length ?b + n \<le> unat remaining \<longleftrightarrow> n \<le> unat remaining - length ?b"
          "length ?b + n = unat remaining \<longleftrightarrow> n = unat remaining - length ?b" for n by auto
        ultimately show ?thesis
          using IH b \<open>length ?b \<le> BUF_SIZE\<close>
          by (simp only: Let_def fst_conv snd_conv concat.simps length_append list.pred_inject simp_thms)
      qed
    qed
  qed (simp add: file_stream.simps)
qed

text \<open>A file that does not change: every read before its end returns at least one of its bytes.\<close>

definition reads_from :: "bytes \<Rightarrow> (nat \<Rightarrow> u64 \<Rightarrow> nat \<Rightarrow> StreamError + bytes) \<Rightarrow> bool" where
  "reads_from content read_at \<longleftrightarrow>
     (\<forall>k offset n. unat offset < length content \<and> 0 < n \<longrightarrow>
        (\<exists>m. 0 < m \<and> m \<le> n \<and> read_at k offset n = Inr (take m (drop (unat offset) content))))"

lemma file_stream_slice:
  assumes "reads_from content read_at" and "length content < 2 ^ 64"
  shows "unat offset + unat remaining \<le> length content \<Longrightarrow>
    snd (file_stream read_at k offset remaining) = None
    \<and> concat (fst (file_stream read_at k offset remaining)) = take (unat remaining) (drop (unat offset) content)"
  using assms
proof (induction read_at k offset remaining rule: file_stream.induct)
  case (1 read_at k offset remaining)
  show ?case
  proof (cases "remaining = 0")
    case False
    then have pos: "0 < unat remaining" by (simp add: unat_gt_0)
    let ?c = "min (unat remaining) BUF_SIZE" and ?rest = "drop (unat offset) content"
    have "0 < ?c" using pos by (simp add: BUF_SIZE_def)
    moreover have "unat offset < length content" using 1(2) pos by simp
    ultimately obtain m where m: "0 < m" "m \<le> ?c" "read_at k offset ?c = Inr (take m ?rest)"
      using 1(3) unfolding reads_from_def by blast
    have "m \<le> length content - unat offset" using m(2) 1(2) by linarith
    then have lenm: "length (take m ?rest) = m" by simp
    let ?b = "take ?c (take m ?rest)"
    have b: "?b = take m ?rest" "?b \<noteq> []" "length ?b = m" using m lenm by (auto simp: min_def)
    note left = chunk_left [OF False m(1,2)]
    have off: "unat (offset + of_nat m) = unat offset + m"
      using 1(2,4) m(2) left(2) by (simp add: unat_word_ariths)
    have "file_stream read_at k offset remaining =
        (let rest = file_stream read_at (k + 1) (offset + of_nat m) (remaining - of_nat m) in
         (take m ?rest # fst rest, snd rest))"
      using False m(3) b by (subst file_stream.simps) (simp only: Let_def sum.case if_False)
    moreover have "snd (file_stream read_at (k + 1) (offset + of_nat m) (remaining - of_nat m)) = None
      \<and> concat (fst (file_stream read_at (k + 1) (offset + of_nat m) (remaining - of_nat m)))
        = take (unat remaining - m) (drop (unat offset + m) content)"
      using 1(1) [OF False refl m(3) refl b(2) refl, unfolded b(3)] 1(2-4) m(2) unfolding left(1) off by simp
    moreover have "take m ?rest @ take (unat remaining - m) (drop (unat offset + m) content) = take (unat remaining) ?rest"
      using m(2) take_add [of m "unat remaining - m" ?rest] by (simp add: add.commute)
    ultimately show ?thesis by (simp add: Let_def)
  qed (simp add: file_stream.simps)
qed

lemma set_header_Inr:
  assumes "http_laws lib" and "set_header lib n v h = Inr h'"
  shows "\<exists>w. http_value_from_str lib v = Some w \<and> h' = http_insert lib n w h"
  using assms(2) by (auto simp: set_header_def put_header_def)

lemma set_header_printable:
  "http_laws lib \<Longrightarrow> list_all is_printable v \<Longrightarrow> set_header lib n v h = Inr (http_insert lib n v h)"
  by (simp add: set_header_def put_header_def http_headers(3))

lemma range_text_printable [simp]: "list_all is_printable (range_text a b c)"
  by (simp add: range_text_def is_printable_def)

lemma unsatisfied_printable [simp]: "list_all is_printable (unsatisfied_text n)"
  by (simp add: unsatisfied_text_def is_printable_def)

text \<open>The outcome of \<open>send_content\<close>, branch by branch.\<close>

lemma send_content_cases:
  assumes laws: "http_laws lib" and "send_content lib th path head_only fsize requested res = Inr res'"
  obtains (partial) start final where "requested = Some (Satisfiable start final)" "dr_status res' = 206"
      "dr_body res' = (if head_only then dr_body res else FileBody start (final - start + 1))"
      "http_get_all lib (dr_headers res') ''content-length'' = [decimal (unat (final - start + 1))]"
      "http_get_all lib (dr_headers res') ''content-range'' = [range_text start final fsize]"
  | (unsatisfiable) "requested = Some Unsatisfiable" "dr_status res' = 416" "dr_body res' = dr_body res"
      "http_get_all lib (dr_headers res') ''content-range'' = [unsatisfied_text fsize]"
  | (full) "requested = None \<or> requested = Some RangeIgnore" "dr_status res' = dr_status res"
      "dr_body res' = (if head_only then dr_body res else FileBody 0 fsize)"
      "http_get_all lib (dr_headers res') ''content-length'' = [decimal (unat fsize)]"
proof -
  note put = set_header_printable [OF laws] and get = http_headers(4) [OF laws]
  from assms(2) obtain h where h:
    "(case requested of
       Some (Satisfiable start final) \<Rightarrow>
         let range_size = final - start + 1 in
         result_bind (set_header lib ''content-range'' (range_text start final fsize) h) (\<lambda>h.
         result_bind (set_header lib ''content-length'' (decimal (unat range_size)) h) (\<lambda>h.
         Inr (res\<lparr>dr_status := 206, dr_headers := h,
           dr_body := (if head_only then dr_body res else FileBody start range_size)\<rparr>)))
     | Some Unsatisfiable \<Rightarrow>
         result_bind (set_header lib ''content-range'' (unsatisfied_text fsize) h) (\<lambda>h.
         Inr (res\<lparr>dr_status := 416, dr_headers := h\<rparr>))
     | _ \<Rightarrow>
         result_bind (set_header lib ''content-length'' (decimal (unat fsize)) h) (\<lambda>h.
         Inr (res\<lparr>dr_headers := h,
           dr_body := (if head_only then dr_body res else FileBody 0 fsize)\<rparr>))) = Inr res'"
    by (auto simp: send_content_def Let_def simp del: result_bind.simps)
  show thesis
  proof (cases requested)
    case None
    with h full show thesis by (auto simp: put get)
  next
    case (Some r)
    with h partial unsatisfiable full show thesis by (cases r) (auto simp: put get Let_def)
  qed
qed

lemma requested_range_Satisfiable:
  assumes "http_laws lib" and "requested_range lib headers use fsize = Some (Satisfiable first final)"
  shows "use \<and> (\<exists>r. http_get_all lib headers ''range'' = [r] \<and> parse_range r fsize = Satisfiable first final)"
  using assms(2) http_headers(1) [OF assms(1)]
  by (auto simp: requested_range_def Let_def split: if_splits list.splits option.splits)

lemma hex_upper_printable: "n < 16 \<Longrightarrow> is_printable (hex_upper n)"
proof -
  assume "n < 16"
  then have "unat n < 16" by (simp add: word_less_nat_alt)
  then show ?thesis by (auto simp: hex_upper_def is_printable_def)
qed

lemma attr_char_printable: "attr_char b \<Longrightarrow> is_printable (char_of (unat b))"
  by (auto simp: attr_char_def is_printable_def word_le_nat_alt word_less_nat_alt)

lemma filename_printable: "list_all is_printable (encode_content_disposition_filename name)"
proof -
  have "drop_bit 4 b < 16" "b AND 0x0F < 16" for b :: byte
  proof -
    have "unat (drop_bit 4 b) < 16" using unsigned_less [of b, where ?'a = nat] by (simp add: drop_bit_eq_div unat_div less_mult_imp_div_less)
    then show "drop_bit 4 b < 16" by (simp add: word_less_nat_alt)
    have "b AND 0x0F \<le> 0x0F" by (rule word_and_le1)
    then show "b AND 0x0F < 16" by (rule order.strict_trans1) simp
  qed
  then show ?thesis
    by (auto simp: encode_content_disposition_filename_def list_all_iff attr_char_printable hex_upper_printable)
      (simp add: is_printable_def)
qed

lemma disposition_accepted:
  "http_laws lib \<Longrightarrow> \<exists>v. set_content_disposition lib filename h = Inr (http_insert lib ''content-disposition'' v h)"
  unfolding set_content_disposition_def
  by (subst set_header_printable) (auto simp: filename_printable is_printable_def)

section \<open>What a download promises\<close>

text \<open>C29: Whatever the reads of the file return, a body that the response announces with \<open>n\<close> bytes
  never carries more than \<open>n\<close> bytes, is read in non-empty chunks of at most 64 KiB, ends, and
  ends without an error exactly when it has carried \<open>n\<close> bytes.\<close>

theorem download_body_is_framed:
  "length (concat (fst (file_stream read_at k offset remaining))) \<le> unat remaining
    \<and> (snd (file_stream read_at k offset remaining) = None
        \<longleftrightarrow> length (concat (fst (file_stream read_at k offset remaining))) = unat remaining)
    \<and> list_all (\<lambda>c. c \<noteq> [] \<and> length c \<le> 65536) (fst (file_stream read_at k offset remaining))"
  using file_stream_frame [of read_at k offset remaining] by (simp add: BUF_SIZE_def)

text \<open>C28: When a GET is answered with file content and the file does not change meanwhile, the body
  is the whole file (200), or exactly the requested byte range (206, for the single Range header
  of the request), and the Content-Length and Content-Range headers describe it.\<close>

theorem download_sends_requested_bytes:
  assumes laws: "http_laws lib"
    and sent: "send_open_file lib th sha256 path m headers False \<lparr>dr_status = 200, dr_headers = h, dr_body = NoBody\<rparr> = Inr res"
    and body: "dr_body res = FileBody start n"
    and content: "reads_from content read_at" "length content = unat (md_len m)"
  shows "snd (file_stream read_at 0 start n) = None
    \<and> http_get_all lib (dr_headers res) ''content-length'' = [decimal (length (concat (fst (file_stream read_at 0 start n))))]
    \<and> (dr_status res = 200 \<and> concat (fst (file_stream read_at 0 start n)) = content
      \<or> dr_status res = 206 \<and> (\<exists>r first final. http_get_all lib headers ''range'' = [r]
          \<and> parse_range r (md_len m) = Satisfiable first final
          \<and> http_get_all lib (dr_headers res) ''content-range'' = [range_text first final (md_len m)]
          \<and> concat (fst (file_stream read_at 0 start n)) = take (unat final - unat first + 1) (drop (unat first) content)))"
proof -
  have lt: "length content < 2 ^ 64" using unsigned_less [of "md_len m", where ?'a = nat] content(2) by simp
  have "md_is_file m" using sent body by (auto simp: send_open_file_def status_not_found_def split: if_splits)
  with sent body obtain res0 use where c: "send_content lib th path False (md_len m)
      (requested_range lib headers use (md_len m)) res0 = Inr res" "dr_status res0 = 200" "dr_body res0 = NoBody"
    by (auto simp: send_open_file_def Let_def split: option.splits)
  from laws c(1) show ?thesis
  proof (cases rule: send_content_cases)
    case (partial first final)
    note r = requested_range_Satisfiable [OF laws partial(1)]
    then have le: "first \<le> final" "final < md_len m" using range_within_file by blast+
    have n: "start = first" "n = final - first + 1" using partial(3) body by auto
    have "unat (final - first) = unat final - unat first" using le(1) by (rule unat_sub)
    then have un: "unat n = unat final - unat first + 1"
      using le unsigned_less [of "md_len m", where ?'a = nat] unfolding n
      by (simp add: unat_word_ariths word_less_nat_alt word_le_nat_alt)
    have "unat start + unat n \<le> length content"
      using un n(1) le content(2) by (simp add: word_less_nat_alt word_le_nat_alt)
    note slice = file_stream_slice [OF content(1) lt this, of 0]
    have "length (take (unat n) (drop (unat start) content)) = unat n"
      using \<open>unat start + unat n \<le> length content\<close> by simp
    with slice partial r un n show ?thesis by auto
  next
    case unsatisfiable
    with c(3) body show ?thesis by simp
  next
    case full
    with body have n: "start = 0" "n = md_len m" by auto
    have "unat start + unat n \<le> length content" using n content(2) by simp
    from file_stream_slice [OF content(1) lt this, of 0] full n content(2) c(2) show ?thesis by simp
  qed
qed

definition sample_typed :: "(string \<times> string) list TypedHeaders" where
  "sample_typed = \<lparr>th_if_match = (\<lambda>_ _. None), th_if_unmodified_since = (\<lambda>_ _. None),
     th_if_none_match = (\<lambda>h tag. if h = [(''if-none-match'', tag)] then Some False else None),
     th_if_modified_since = (\<lambda>_ _. None), th_etag_parse = Some, th_last_modified = (\<lambda>_. ''date''),
     th_private_no_store = ''private, no-store'', th_mime = (\<lambda>_. ''text/plain'')\<rparr>"

definition sample_metadata :: Metadata where
  "sample_metadata = \<lparr>md_is_file = True, md_len = 5, md_modified = Some 0, md_created = None, md_dev = 1, md_ino = 2,
     md_mtime = 0, md_mtime_nsec = 0, md_ctime = 0, md_ctime_nsec = 0\<rparr>"

lemma sample_file_name: "try_get_file_name (str_bytes ''/srv/a'') = Inr ''a''"
  by code_simp

lemma sample_partial:
  "\<exists>h. send_open_file sample_http sample_typed (\<lambda>_. replicate 32 0) (str_bytes ''/srv/a'') sample_metadata
      [(''range'', ''bytes=1-2'')] False \<lparr>dr_status = 200, dr_headers = [], dr_body = NoBody\<rparr>
    = Inr \<lparr>dr_status = 206, dr_headers = h, dr_body = FileBody 1 2\<rparr>"
proof -
  have "decimal (unat (1 :: u64)) = ''1''" "decimal (unat (2 :: u64)) = ''2''"
    by (simp_all add: decimal.simps digit_char_def char_of_def bit_0)
  with range_closed [of 1 2 5] have r: "parse_range ''bytes=1-2'' 5 = Satisfiable 1 2"
    by (simp add: min_def word_le_nat_alt)
  have get: "http_get_all sample_http [(''range'', ''bytes=1-2'')] ''range'' = [''bytes=1-2'']"
    "http_get_all sample_http [(''range'', ''bytes=1-2'')] ''if-range'' = []"
    "http_to_str sample_http ''bytes=1-2'' = Some ''bytes=1-2''"
    by (simp_all add: sample_http_def is_printable_def)
  have mime: "set_header sample_http ''content-type'' ''text/plain'' h = Inr (http_insert sample_http ''content-type'' ''text/plain'' h)" for h
    by (rule set_header_printable [OF sample_http_laws]) (simp add: is_printable_def)
  obtain d where d: "\<And>h. set_content_disposition sample_http ''a'' h = Inr (http_insert sample_http ''content-disposition'' (d h) h)"
    using disposition_accepted [OF sample_http_laws, of "''a''"] by metis
  show ?thesis
    by (simp add: send_open_file_def sample_metadata_def extract_cache_headers_def sample_typed_def failed_condition_def
        Let_def requested_range_def get r send_content_def mime sample_file_name d set_header_printable [OF sample_http_laws])
qed

theorem download_sends_requested_bytes_witness:
  "concat (fst (file_stream (\<lambda>_ offset n. Inr (take n (drop (unat offset) [1, 2, 3, 4, 5]))) 0 1 2)) = [2, 3]"
proof -
  let ?content = "[1, 2, 3, 4, 5] :: bytes"
  let ?read = "\<lambda>(_ :: nat) offset n. Inr (take n (drop (unat offset) ?content)) :: StreamError + bytes"
  obtain h where sent: "send_open_file sample_http sample_typed (\<lambda>_. replicate 32 0) (str_bytes ''/srv/a'') sample_metadata
      [(''range'', ''bytes=1-2'')] False \<lparr>dr_status = 200, dr_headers = [], dr_body = NoBody\<rparr>
    = Inr \<lparr>dr_status = 206, dr_headers = h, dr_body = FileBody 1 2\<rparr>" using sample_partial by blast
  have "reads_from ?content ?read" unfolding reads_from_def by auto
  from download_sends_requested_bytes [OF sample_http_laws sent _ this]
  obtain first final where r: "parse_range ''bytes=1-2'' 5 = Satisfiable first final"
    and slice: "concat (fst (file_stream ?read 0 1 2)) = take (unat final - unat first + 1) (drop (unat first) ?content)"
    by (auto simp: sample_metadata_def sample_http_def)
  have "decimal (unat (1 :: u64)) = ''1''" "decimal (unat (2 :: u64)) = ''2''"
    by (simp_all add: decimal.simps digit_char_def char_of_def bit_0)
  with range_closed [of 1 2 5] r have "first = 1" "final = 2" by (simp_all add: min_def word_le_nat_alt)
  with slice show ?thesis by simp
qed

text \<open>C30: Conditional requests on a file that has validators.  If-Match decides before
  If-Unmodified-Since, and either of them, when it fails, before If-None-Match and If-Modified-Since;
  a failed condition gives 412 or 304 without a body.  Otherwise the answer is 200, 206 or 416,
  where 206 and 416 need a GET with a Range and without an If-Range header.\<close>

theorem conditional_requests:
  assumes laws: "http_laws lib" and regular: "md_is_file m"
    and validators: "extract_cache_headers th sha256 m = Some (etag, modified)"
    and sent: "send_open_file lib th sha256 path m headers head_only \<lparr>dr_status = 200, dr_headers = h, dr_body = NoBody\<rparr> = Inr res"
  defines "stale \<equiv> (case th_if_match th headers etag of Some passes \<Rightarrow> \<not> passes
      | None \<Rightarrow> th_if_unmodified_since th headers modified = Some False)"
  defines "fresh \<equiv> (case th_if_none_match th headers etag of Some passes \<Rightarrow> \<not> passes
      | None \<Rightarrow> th_if_modified_since th headers modified = Some False)"
  shows "(dr_status res = 412 \<longleftrightarrow> stale) \<and> (dr_status res = 304 \<longleftrightarrow> \<not> stale \<and> fresh)
    \<and> (stale \<or> fresh \<or> head_only \<longleftrightarrow> dr_body res = NoBody \<and> dr_status res \<noteq> 416)
    \<and> dr_status res \<in> {200, 206, 304, 412, 416}
    \<and> (dr_status res \<in> {206, 416} \<longrightarrow>
        \<not> head_only \<and> http_get_all lib headers ''range'' \<noteq> [] \<and> http_get_all lib headers ''if-range'' = [])"
proof -
  have cond: "failed_condition th headers etag modified =
      (if stale then Some 412 else if fresh then Some 304 else None)"
    by (auto simp: failed_condition_def stale_def fresh_def split: option.splits bool.splits)
  show ?thesis
  proof (cases "stale \<or> fresh")
    case True
    with sent regular validators cond show ?thesis
      by (cases stale; cases fresh) (auto simp: send_open_file_def Let_def)
  next
    case False
    let ?use = "\<not> head_only \<and> http_get_all lib headers ''range'' \<noteq> [] \<and> http_get_all lib headers ''if-range'' = []"
    obtain res0 where c: "send_content lib th path head_only (md_len m)
        (requested_range lib headers ?use (md_len m)) res0 = Inr res" "dr_status res0 = 200" "dr_body res0 = NoBody"
      using sent regular validators cond False by (auto simp: send_open_file_def Let_def)
    have use: "?use" if "requested_range lib headers ?use (md_len m) = Some r" for r
      using that by (auto simp: requested_range_def split: if_splits)
    from laws c(1) show ?thesis
      by (cases rule: send_content_cases) (use False c use in auto)
  qed
qed

theorem conditional_requests_witness:
  "\<exists>res. send_open_file sample_http sample_typed (\<lambda>_. replicate 32 0) (str_bytes ''/srv/a'') sample_metadata
      [(''range'', ''bytes=1-2'')] False \<lparr>dr_status = 200, dr_headers = [], dr_body = NoBody\<rparr> = Inr res
    \<and> dr_status res \<noteq> 412 \<and> dr_status res \<noteq> 304"
proof -
  obtain h where sent: "send_open_file sample_http sample_typed (\<lambda>_. replicate 32 0) (str_bytes ''/srv/a'') sample_metadata
      [(''range'', ''bytes=1-2'')] False \<lparr>dr_status = 200, dr_headers = [], dr_body = NoBody\<rparr>
    = Inr \<lparr>dr_status = 206, dr_headers = h, dr_body = FileBody 1 2\<rparr>" using sample_partial by blast
  have "extract_cache_headers sample_typed (\<lambda>_. replicate 32 0) sample_metadata
      = Some (''W/'' @ [CHR 0x22] @ encode_hex (replicate 32 0) @ [CHR 0x22], ''date'')"
    by (simp add: extract_cache_headers_def sample_typed_def sample_metadata_def)
  from conditional_requests [OF sample_http_laws _ this sent] sent show ?thesis
    by (auto simp: sample_metadata_def sample_typed_def)
qed

end
