(* ===== verification/Tag_Store.thy ===== *)
theory Tag_Store
  imports Tables Wire_Text
begin

text \<open>
  The tag database (\<open>src/src/server/tagging/db/write.rs\<close>, \<open>tagging/capacity.rs\<close>,
  \<open>src/schema/tagging.sql\<close>): files found by scans, tags, and which file has which tag.  A
  transaction is a function from the database to an error, which rolls everything back, or the
  committed database.  What the file system and SQLite report about sizes is an argument.
  Operations that the caller finds busy, or that run past their deadline, have no effect and are
  left out.
\<close>

section \<open>Tables\<close>

datatype FileStatus = Present | Missing | Suspect | Relinked

record Sample =
  sa_path :: string
  sa_parent :: string
  sa_name :: string
  sa_dev :: i64
  sa_ino :: i64
  sa_size :: i64
  sa_mtime_ns :: i64
  sa_ctime_ns :: i64

definition sample_identity :: "Sample \<Rightarrow> i64 list" where
  "sample_identity s = [sa_dev s, sa_ino s, sa_size s, sa_mtime_ns s, sa_ctime_ns s]"

text \<open>A row of \<open>files\<close>: what the scan saw, the status, and the last scan that saw it.  Every row
  belongs to the one root.\<close>

record TagFile =
  tf_sample :: Sample
  tf_status :: FileStatus
  tf_last_seen_generation :: i64

record TagEntry =
  te_name :: string
  te_color :: "string option"

record TagDb =
  td_available :: bool
  td_scan_generation :: i64
  td_last_scan_at :: "i64 option"
  td_last_error :: "string option"
  td_files :: "(int, TagFile) table"
  td_tags :: "(int, TagEntry) table"
  td_file_tags :: "(int \<times> int, unit) table"

definition tag_db_initial :: TagDb where
  "tag_db_initial = \<lparr>td_available = False, td_scan_generation = 0, td_last_scan_at = None,
     td_last_error = None, td_files = [], td_tags = [], td_file_tags = []\<rparr>"

definition MAX_FILE_TAGS :: int where
  "MAX_FILE_TAGS = 16"

section \<open>Capacity\<close>

record TagLimits =
  tl_files :: i64
  tl_tags :: i64
  tl_relations :: i64
  tl_database_bytes :: u64
  tl_free_floor :: u64

definition PRODUCTION :: TagLimits where
  "PRODUCTION = \<lparr>tl_files = 1000000, tl_tags = 10000, tl_relations = 1000000,
     tl_database_bytes = 8 * 1024 * 1024 * 1024, tl_free_floor = 1024 * 1024 * 1024\<rparr>"

datatype TagError =
    Exhausted | TagLimitExceeded | InvalidJournal | StorageIo | InvalidValue | RowIdsUsedUp
  | UniqueViolation | FileUnavailable | UnknownTag | SameFile | NotRelinkable

definition u64_saturating_add :: "u64 \<Rightarrow> u64 \<Rightarrow> u64" where
  "u64_saturating_add a b = (if unat a + unat b < 2 ^ 64 then a + b else - 1)"

definition u64_saturating_mul :: "u64 \<Rightarrow> u64 \<Rightarrow> u64" where
  "u64_saturating_mul a b = (if unat a * unat b < 2 ^ 64 then a * b else - 1)"

text \<open>What a capacity check finds: page count and size, the two journal files, free space.\<close>

datatype JournalFile = JournalAbsent | JournalFile u64 | JournalIrregular | JournalUnreadable

record StorageProbe =
  sp_pages :: i64
  sp_page_size :: i64
  sp_journals :: "JournalFile list"
  sp_available_blocks :: u64
  sp_fragment_size :: u64

fun add_journal :: "JournalFile \<Rightarrow> u64 \<Rightarrow> TagError + u64" where
  "add_journal JournalAbsent current = Inr current"
| "add_journal (JournalFile n) current = ok_or (u64_checked_add current n) Exhausted"
| "add_journal JournalIrregular current = Inl InvalidJournal"
| "add_journal JournalUnreadable current = Inl StorageIo"

fun add_journals :: "JournalFile list \<Rightarrow> u64 \<Rightarrow> TagError + u64" where
  "add_journals [] current = Inr current"
| "add_journals (j # js) current = result_bind (add_journal j current) (add_journals js)"

definition storage :: "StorageProbe \<Rightarrow> u64 \<Rightarrow> TagLimits \<Rightarrow> TagError + unit" where
  "storage p new_bytes limits =
     result_bind (ok_or (u64_of_i64 (sp_pages p)) InvalidValue) (\<lambda>pages.
     result_bind (ok_or (u64_of_i64 (sp_page_size p)) InvalidValue) (\<lambda>page_size.
     result_bind (ok_or (u64_checked_mul pages page_size) Exhausted) (\<lambda>current.
     result_bind (add_journals (sp_journals p) current) (\<lambda>current.
     let available = u64_saturating_mul (sp_available_blocks p) (sp_fragment_size p);
         reserve = 64 * 1024 * 1024 in
     ensure (\<not> (u64_saturating_add (u64_saturating_add current new_bytes) reserve > tl_database_bytes limits
       \<or> available < u64_saturating_add (u64_saturating_add (tl_free_floor limits) new_bytes) reserve))
       Exhausted))))"

section \<open>Scans\<close>

definition is_current :: "FileStatus \<Rightarrow> bool" where
  "is_current st \<longleftrightarrow> st = Present \<or> st = Suspect"

text \<open>SQLite numbers a new row one above the largest row id.  At the end of the 64-bit range it would
  look for a gap; here that is an error.\<close>

definition next_rowid :: "(int, 'r) table \<Rightarrow> TagError + int" where
  "next_rowid t = (if t = [] then Inr 1 else ok_or (i64_checked_add (fst (last t)) 1) RowIdsUsedUp)"

definition set_status :: "int \<Rightarrow> FileStatus \<Rightarrow> (int, TagFile) table \<Rightarrow> (int, TagFile) table" where
  "set_status i st t = tbl_update (\<lambda>k _. k = i) (\<lambda>r. r\<lparr>tf_status := st\<rparr>) t"

text \<open>\<open>ORDER BY id DESC LIMIT 1\<close> over the current rows of a path.\<close>

definition current_row :: "string \<Rightarrow> (int, TagFile) table \<Rightarrow> (int \<times> TagFile) option" where
  "current_row path t =
     (case filter (\<lambda>(_, r). sa_path (tf_sample r) = path \<and> is_current (tf_status r)) t of
        [] \<Rightarrow> None
      | rows \<Rightarrow> Some (last rows))"

definition sample_bytes :: "Sample \<Rightarrow> u64" where
  "sample_bytes s = of_nat (length (sa_path s) + length (sa_parent s) + length (sa_name s) + 512)"

definition scan_insert ::
  "TagLimits \<Rightarrow> ((int, TagFile) table \<Rightarrow> StorageProbe) \<Rightarrow> i64 \<Rightarrow> Sample \<Rightarrow> bool \<Rightarrow> int \<Rightarrow>
    (int, TagFile) table \<Rightarrow> TagError + int \<times> (int, TagFile) table" where
  "scan_insert limits probe generation s was_known retained files =
     (if retained \<ge> tl_files limits then Inl Exhausted
      else
        result_bind (storage (probe files) (u64_saturating_mul (sample_bytes s) 2) limits) (\<lambda>_.
        result_bind (next_rowid files) (\<lambda>i.
        Inr (retained + 1, tbl_put i \<lparr>tf_sample = s, tf_status = (if was_known then Suspect else Present),
          tf_last_seen_generation = generation\<rparr> files))))"

text \<open>One sample of a scan; the state is the number of rows and the files.\<close>

definition scan_sample ::
  "TagLimits \<Rightarrow> ((int, TagFile) table \<Rightarrow> StorageProbe) \<Rightarrow> i64 \<Rightarrow> Sample \<Rightarrow> int \<times> (int, TagFile) table \<Rightarrow>
    TagError + int \<times> (int, TagFile) table" where
  "scan_sample limits probe generation s st =
     (case st of (retained, files) \<Rightarrow>
      let previous = current_row (sa_path s) files;
          was_known = list_ex (\<lambda>(_, r). sa_path (tf_sample r) = sa_path s) files in
      case previous of
        Some (i, r) \<Rightarrow>
          if sample_identity (tf_sample r) = sample_identity s
          then Inr (retained, tbl_update (\<lambda>k _. k = i) (\<lambda>r. r\<lparr>tf_last_seen_generation := generation\<rparr>) files)
          else scan_insert limits probe generation s was_known retained (set_status i Missing files)
      | None \<Rightarrow> scan_insert limits probe generation s was_known retained files)"

fun scan_samples ::
  "TagLimits \<Rightarrow> ((int, TagFile) table \<Rightarrow> StorageProbe) \<Rightarrow> i64 \<Rightarrow> Sample list \<Rightarrow> int \<times> (int, TagFile) table \<Rightarrow>
    TagError + int \<times> (int, TagFile) table" where
  "scan_samples limits probe generation [] st = Inr st"
| "scan_samples limits probe generation (s # ss) st =
     result_bind (scan_sample limits probe generation s st) (scan_samples limits probe generation ss)"

definition scan_complete ::
  "TagLimits \<Rightarrow> ((int, TagFile) table \<Rightarrow> StorageProbe) \<Rightarrow> i64 \<Rightarrow> Sample list \<Rightarrow> TagDb \<Rightarrow> TagError + TagDb" where
  "scan_complete limits probe now samples db =
     result_bind (ok_or (i64_checked_add (td_scan_generation db) 1) InvalidValue) (\<lambda>generation.
     result_bind (scan_samples limits probe generation samples (int (length (td_files db)), td_files db))
       (\<lambda>(_, files).
     Inr (db\<lparr>td_files := tbl_update (\<lambda>_ r. is_current (tf_status r) \<and> tf_last_seen_generation r \<noteq> generation)
           (\<lambda>r. r\<lparr>tf_status := Missing\<rparr>) files,
         td_available := True, td_scan_generation := generation, td_last_scan_at := Some now,
         td_last_error := None\<rparr>)))"

definition scan_error :: "string \<Rightarrow> TagDb \<Rightarrow> TagDb" where
  "scan_error message db = db\<lparr>td_available := False, td_last_error := Some message\<rparr>"

section \<open>Tags\<close>

text \<open>\<open>UNIQUE COLLATE NOCASE\<close>.\<close>

definition name_taken :: "int option \<Rightarrow> string \<Rightarrow> (int, TagEntry) table \<Rightarrow> bool" where
  "name_taken self name t = list_ex (\<lambda>(k, r). Some k \<noteq> self \<and> eq_ignore_ascii_case (te_name r) name) t"

definition create_tag ::
  "TagLimits \<Rightarrow> (TagDb \<Rightarrow> StorageProbe) \<Rightarrow> string \<Rightarrow> string option \<Rightarrow> TagDb \<Rightarrow> TagError + int \<times> TagDb" where
  "create_tag limits probe name color db =
     (if int (length (td_tags db)) \<ge> tl_tags limits then Inl Exhausted
      else
        result_bind (storage (probe db) 2048 limits) (\<lambda>_.
        result_bind (next_rowid (td_tags db)) (\<lambda>i.
        result_bind (ensure (\<not> name_taken None name (td_tags db)) UniqueViolation) (\<lambda>_.
        Inr (i, db\<lparr>td_tags := tbl_put i \<lparr>te_name = name, te_color = color\<rparr> (td_tags db)\<rparr>)))))"

definition update_tag :: "int \<Rightarrow> string \<Rightarrow> string option \<Rightarrow> TagDb \<Rightarrow> TagError + bool \<times> TagDb" where
  "update_tag i name color db =
     (case tbl_get (td_tags db) i of
        None \<Rightarrow> Inr (False, db)
      | Some _ \<Rightarrow>
          result_bind (ensure (\<not> name_taken (Some i) name (td_tags db)) UniqueViolation) (\<lambda>_.
          Inr (True, db\<lparr>td_tags := tbl_update (\<lambda>k _. k = i) (\<lambda>_. \<lparr>te_name = name, te_color = color\<rparr>)
            (td_tags db)\<rparr>)))"

text \<open>\<open>ON DELETE CASCADE\<close>.\<close>

definition delete_tag :: "int \<Rightarrow> TagDb \<Rightarrow> bool \<times> TagDb" where
  "delete_tag i db =
     (tbl_get (td_tags db) i \<noteq> None,
      db\<lparr>td_tags := tbl_delete (\<lambda>k _. k = i) (td_tags db),
         td_file_tags := tbl_delete (\<lambda>(_, t) _. t = i) (td_file_tags db)\<rparr>)"

definition file_tag_count :: "int \<Rightarrow> (int \<times> int, unit) table \<Rightarrow> int" where
  "file_tag_count f t = int (tbl_count (\<lambda>(g, _) _. g = f) t)"

text \<open>The inner loop over the tags of one file: the relation, its size, and the tags of the file.\<close>

fun add_tags ::
  "TagLimits \<Rightarrow> ((int \<times> int, unit) table \<Rightarrow> StorageProbe) \<Rightarrow> int \<Rightarrow> int list \<Rightarrow>
    int \<times> int \<times> (int \<times> int, unit) table \<Rightarrow> TagError + int \<times> int \<times> (int \<times> int, unit) table" where
  "add_tags limits probe file [] st = Inr st"
| "add_tags limits probe file (tag # tags) (retained, file_count, rel) =
     (if tbl_get rel (file, tag) \<noteq> None then add_tags limits probe file tags (retained, file_count, rel)
      else if file_count \<ge> MAX_FILE_TAGS then Inl TagLimitExceeded
      else if retained \<ge> tl_relations limits then Inl Exhausted
      else
        result_bind (storage (probe rel) 512 limits) (\<lambda>_.
        add_tags limits probe file tags (retained + 1, file_count + 1, tbl_put (file, tag) () rel)))"

definition remove_tags :: "int \<Rightarrow> int list \<Rightarrow> (int \<times> int, unit) table \<Rightarrow> (int \<times> int, unit) table" where
  "remove_tags file tags rel = fold (\<lambda>tag. tbl_delete (\<lambda>k _. k = (file, tag))) tags rel"

fun mutate_files ::
  "TagLimits \<Rightarrow> ((int \<times> int, unit) table \<Rightarrow> StorageProbe) \<Rightarrow> bool \<Rightarrow> int list \<Rightarrow> int list \<Rightarrow>
    int \<times> (int \<times> int, unit) table \<Rightarrow> TagError + int \<times> (int \<times> int, unit) table" where
  "mutate_files limits probe add tags [] st = Inr st"
| "mutate_files limits probe add tags (file # files) (retained, rel) =
     (if add
      then result_bind (add_tags limits probe file tags (retained, file_tag_count file rel, rel))
        (\<lambda>(retained, _, rel). mutate_files limits probe add tags files (retained, rel))
      else mutate_files limits probe add tags files (retained, remove_tags file tags rel))"

definition file_is_current :: "TagDb \<Rightarrow> int \<Rightarrow> bool" where
  "file_is_current db i = (case tbl_get (td_files db) i of None \<Rightarrow> False | Some r \<Rightarrow> is_current (tf_status r))"

definition mutate_tags ::
  "TagLimits \<Rightarrow> ((int \<times> int, unit) table \<Rightarrow> StorageProbe) \<Rightarrow> int list \<Rightarrow> int list \<Rightarrow> bool \<Rightarrow> TagDb \<Rightarrow>
    TagError + TagDb" where
  "mutate_tags limits probe file_ids tag_ids add db =
     result_bind (ensure (list_all (file_is_current db) file_ids) FileUnavailable) (\<lambda>_.
     result_bind (ensure (list_all (\<lambda>i. tbl_get (td_tags db) i \<noteq> None) tag_ids) UnknownTag) (\<lambda>_.
     result_bind (mutate_files limits probe add tag_ids file_ids (int (length (td_file_tags db)), td_file_tags db))
       (\<lambda>(_, rel). Inr (db\<lparr>td_file_tags := rel\<rparr>))))"

section \<open>Relinking\<close>

definition tags_of :: "int \<Rightarrow> (int \<times> int, unit) table \<Rightarrow> int list" where
  "tags_of f t = map (snd \<circ> fst) (filter (\<lambda>((g, _), _). g = f) t)"

definition relink :: "int \<Rightarrow> int \<Rightarrow> TagDb \<Rightarrow> TagError + TagDb" where
  "relink old_id new_id db =
     result_bind (ensure (old_id \<noteq> new_id) SameFile) (\<lambda>_.
     result_bind (ensure (map_option tf_status (tbl_get (td_files db) old_id) = Some Missing
       \<and> file_is_current db new_id) NotRelinkable) (\<lambda>_.
     let rel = td_file_tags db;
         current = file_tag_count new_id rel;
         additional = int (length (filter (\<lambda>t. tbl_get rel (new_id, t) = None) (tags_of old_id rel))) in
     if additional > 0 \<and> current + additional > MAX_FILE_TAGS then Inl TagLimitExceeded
     else Inr (db\<lparr>td_file_tags := tbl_delete (\<lambda>(f, _) _. f = old_id)
           (fold (\<lambda>t r. if tbl_get r (new_id, t) = None then tbl_put (new_id, t) () r else r)
             (tags_of old_id rel) rel),
         td_files := set_status new_id Present (set_status old_id Relinked (td_files db))\<rparr>)))"

definition confirm :: "int \<Rightarrow> TagDb \<Rightarrow> bool \<times> TagDb" where
  "confirm i db =
     (map_option tf_status (tbl_get (td_files db) i) = Some Suspect,
      db\<lparr>td_files := tbl_update (\<lambda>k r. k = i \<and> tf_status r = Suspect) (\<lambda>r. r\<lparr>tf_status := Present\<rparr>) (td_files db)\<rparr>)"

section \<open>Reading tags of listed files\<close>

text \<open>Tags are never inherited by path alone: the row must be current and have the file's identity.\<close>

definition listed_file :: "Sample \<Rightarrow> TagDb \<Rightarrow> int option" where
  "listed_file s db =
     (case filter (\<lambda>(_, r). sa_path (tf_sample r) = sa_path s \<and> is_current (tf_status r)
          \<and> sample_identity (tf_sample r) = sample_identity s) (td_files db) of
        [] \<Rightarrow> None
      | rows \<Rightarrow> Some (fst (last rows)))"

section \<open>Rows of one path\<close>

text \<open>A sample only touches the rows of its path, and a new row goes to the end of the table.\<close>

definition rows_of :: "string \<Rightarrow> (int, TagFile) table \<Rightarrow> (int, TagFile) table" where
  "rows_of p t = filter (\<lambda>(_, r). sa_path (tf_sample r) = p) t"

lemma last_is_max:
  assumes "tbl_wf t" and "k \<in> fst ` set t" shows "k \<le> fst (last t)"
  using assms by (induction t) (force simp: tbl_wf_Cons intro: less_imp_le)+

lemma next_rowid_fresh:
  assumes "tbl_wf t" and "next_rowid t = Inr j"
  shows "\<forall>k\<in>fst ` set t. k < j" "tbl_get t j = None"
proof -
  show less: "\<forall>k\<in>fst ` set t. k < j"
    using assms last_is_max [OF assms(1)] unfolding next_rowid_def
    by (fastforce simp: i64_checked_add_Some split: if_splits)
  then show "tbl_get t j = None" by (auto simp: tbl_get_def map_of_eq_None_iff)
qed

lemma put_behind: "\<forall>k\<in>fst ` set t. k < j \<Longrightarrow> tbl_put j r t = t @ [(j, r)]"
  by (induction j r t rule: tbl_put.induct) auto

lemma rows_of_update:
  assumes "\<And>r. sa_path (tf_sample (f r)) = sa_path (tf_sample r)"
  shows "rows_of p (tbl_update P f t) = tbl_update P f (rows_of p t)"
  using assms by (induction t) (auto simp: rows_of_def tbl_update_def split: if_splits)

lemma current_row_rows_of: "current_row p (rows_of p t) = current_row p t"
  by (simp add: current_row_def rows_of_def case_prod_unfold conj_comms)

lemma known_rows_of: "list_ex (\<lambda>(_, r). sa_path (tf_sample r) = p) t \<longleftrightarrow> rows_of p t \<noteq> []"
  by (auto simp: rows_of_def list_ex_iff filter_empty_conv)

lemma in_rows_of: "(i, r) \<in> set (rows_of p t) \<longleftrightarrow> (i, r) \<in> set t \<and> sa_path (tf_sample r) = p"
  by (auto simp: rows_of_def)

lemma current_row_Some:
  assumes "current_row p t = Some (i, r)"
  shows "(i, r) \<in> set t" "sa_path (tf_sample r) = p" "is_current (tf_status r)"
proof -
  let ?rows = "filter (\<lambda>(_, r). sa_path (tf_sample r) = p \<and> is_current (tf_status r)) t"
  have "?rows \<noteq> []" "last ?rows = (i, r)" using assms by (auto simp: current_row_def split: list.splits)
  then have "(i, r) \<in> set ?rows" by (metis last_in_set)
  then show "(i, r) \<in> set t" "sa_path (tf_sample r) = p" "is_current (tf_status r)" by auto
qed

lemma current_row_None:
  "current_row p t = None \<longleftrightarrow> (\<forall>(i, r)\<in>set t. sa_path (tf_sample r) = p \<longrightarrow> \<not> is_current (tf_status r))"
proof -
  have "current_row p t = None \<longleftrightarrow> filter (\<lambda>(_, r). sa_path (tf_sample r) = p \<and> is_current (tf_status r)) t = []"
    by (simp add: current_row_def split: list.splits)
  then show ?thesis by (auto simp: filter_empty_conv)
qed

text \<open>The rows of the path of a sample after the scan of that sample; \<open>j\<close> is the id of a new row.\<close>

definition scanned_rows :: "i64 \<Rightarrow> Sample \<Rightarrow> int \<Rightarrow> (int, TagFile) table \<Rightarrow> (int, TagFile) table" where
  "scanned_rows g s j rows =
     (let fresh = \<lparr>tf_sample = s, tf_status = (if rows \<noteq> [] then Suspect else Present),
            tf_last_seen_generation = g\<rparr> in
      case current_row (sa_path s) rows of
        Some (i, r) \<Rightarrow>
          if sample_identity (tf_sample r) = sample_identity s
          then tbl_update (\<lambda>k _. k = i) (\<lambda>r. r\<lparr>tf_last_seen_generation := g\<rparr>) rows
          else set_status i Missing rows @ [(j, fresh)]
      | None \<Rightarrow> rows @ [(j, fresh)])"

lemma keys_set_status [simp]: "map fst (set_status i st t) = map fst t"
  by (simp add: set_status_def)

lemma wf_set_status [simp]: "tbl_wf (set_status i st t) \<longleftrightarrow> tbl_wf t"
  by (simp add: tbl_wf_def)

lemma rows_of_set_status [simp]: "rows_of p (set_status i st t) = set_status i st (rows_of p t)"
  by (simp add: set_status_def rows_of_update)

lemma scan_insert_effect:
  assumes "tbl_wf t" and "scan_insert limits probe g s known n t = Inr (n', t')"
  shows "\<exists>j. tbl_wf t' \<and> (\<forall>k\<in>fst ` set t. k < j) \<and> n' = n + 1 \<and> n < tl_files limits
    \<and> t' = t @ [(j, \<lparr>tf_sample = s, tf_status = (if known then Suspect else Present), tf_last_seen_generation = g\<rparr>)]"
proof -
  from assms(2) obtain j where j: "next_rowid t = Inr j" "n' = n + 1" "\<not> n \<ge> tl_files limits"
    "t' = tbl_put j \<lparr>tf_sample = s, tf_status = (if known then Suspect else Present), tf_last_seen_generation = g\<rparr> t"
    by (auto simp: scan_insert_def split: if_splits)
  have "tbl_wf t'" unfolding j(4) by (rule tbl_wf_put [OF assms(1)])
  with j next_rowid_fresh(1) [OF assms(1) j(1)] put_behind [of t j] show ?thesis by (intro exI [of _ j]) simp
qed

lemma scan_sample_effect:
  assumes wf: "tbl_wf t" and scan: "scan_sample limits probe g s (n, t) = Inr (n', t')" and n: "n = int (length t)"
  shows "tbl_wf t' \<and> n' = int (length t') \<and> n' \<le> max n (tl_files limits) \<and> fst ` set t \<subseteq> fst ` set t'
    \<and> (\<forall>p. p \<noteq> sa_path s \<longrightarrow> rows_of p t' = rows_of p t)
    \<and> (\<exists>j. j \<notin> fst ` set t \<and> rows_of (sa_path s) t' = scanned_rows g s j (rows_of (sa_path s) t))"
proof -
  have fresh: ?thesis if "t1 = t \<or> (\<exists>i. t1 = set_status i Missing t)"
    and ins: "scan_insert limits probe g s (rows_of (sa_path s) t \<noteq> []) n t1 = Inr (n', t')"
    and eq: "\<And>j. scanned_rows g s j (rows_of (sa_path s) t) = rows_of (sa_path s) t1 @
      [(j, \<lparr>tf_sample = s, tf_status = (if rows_of (sa_path s) t \<noteq> [] then Suspect else Present), tf_last_seen_generation = g\<rparr>)]"
    and other: "\<And>p. p \<noteq> sa_path s \<Longrightarrow> rows_of p t1 = rows_of p t" for t1
  proof -
    have t1: "tbl_wf t1" "map fst t1 = map fst t" using that(1) wf by auto
    then have keys: "fst ` set t1 = fst ` set t" "length t1 = length t" by (metis set_map, metis length_map)
    from scan_insert_effect [OF t1(1) ins] obtain j where "tbl_wf t'" "\<forall>k\<in>fst ` set t1. k < j" "n' = n + 1"
      "n < tl_files limits" "t' = t1 @ [(j, \<lparr>tf_sample = s, tf_status = (if rows_of (sa_path s) t \<noteq> [] then Suspect else Present),
        tf_last_seen_generation = g\<rparr>)]" by blast
    with keys eq other n show ?thesis by (auto simp: rows_of_def)
  qed
  show ?thesis
  proof (cases "current_row (sa_path s) t")
    case None
    show ?thesis
    proof (rule fresh [of t])
      show "scan_insert limits probe g s (rows_of (sa_path s) t \<noteq> []) n t = Inr (n', t')"
        using scan None by (simp add: scan_sample_def known_rows_of)
    qed (simp_all add: scanned_rows_def current_row_rows_of None)
  next
    case (Some ir)
    obtain i r where c: "current_row (sa_path s) t = Some (i, r)" using Some by (cases ir) auto
    note cur = current_row_Some [OF c]
    have other: "rows_of p (tbl_update (\<lambda>k _. k = i) f t) = rows_of p t"
      if "p \<noteq> sa_path s" and f: "\<And>r. sa_path (tf_sample (f r)) = sa_path (tf_sample r)" for p f
    proof -
      have "tbl_all (\<lambda>k _. \<not> k = i) (rows_of p t)"
        using cur wf that(1) tbl_wf_distinct [OF wf]
        by (auto simp: tbl_all_def list_all_iff in_rows_of dest: eq_key_imp_eq_value)
      then show ?thesis unfolding rows_of_update [of f, OF f] by (rule tbl_update_idle)
    qed
    show ?thesis
    proof (cases "sample_identity (tf_sample r) = sample_identity s")
      case True
      then have t': "t' = tbl_update (\<lambda>k _. k = i) (\<lambda>r. r\<lparr>tf_last_seen_generation := g\<rparr>) t" "n' = n"
        using scan c by (auto simp: scan_sample_def)
      obtain j where "j \<notin> fst ` set t" using ex_new_if_finite [of "fst ` set t"] infinite_UNIV_int by auto
      moreover have "scanned_rows g s j (rows_of (sa_path s) t) = rows_of (sa_path s) t'"
        unfolding t' by (simp add: scanned_rows_def current_row_rows_of c True rows_of_update)
      moreover have "fst ` set t' = fst ` set t" unfolding t' by (metis keys_update set_map)
      ultimately show ?thesis using t' n other wf by (auto intro: wf_intros)
    next
      case False
      show ?thesis
      proof (rule fresh [of "set_status i Missing t"])
        show "scan_insert limits probe g s (rows_of (sa_path s) t \<noteq> []) n (set_status i Missing t) = Inr (n', t')"
          using scan c False by (simp add: scan_sample_def known_rows_of)
        show "p \<noteq> sa_path s \<Longrightarrow> rows_of p (set_status i Missing t) = rows_of p t" for p
          unfolding set_status_def by (rule other) simp_all
      qed (auto simp: scanned_rows_def current_row_rows_of c False Let_def)
    qed
  qed
qed

lemma scan_samples_effect:
  assumes "tbl_wf t" and "scan_samples limits probe g ss (n, t) = Inr (n', t')" and "n = int (length t)"
    and "distinct (map sa_path ss)"
  shows "tbl_wf t' \<and> n' = int (length t') \<and> n' \<le> max n (tl_files limits) \<and> fst ` set t \<subseteq> fst ` set t'
    \<and> (\<forall>p. p \<notin> sa_path ` set ss \<longrightarrow> rows_of p t' = rows_of p t)
    \<and> (\<forall>s\<in>set ss. \<exists>j. j \<notin> fst ` set t \<and> rows_of (sa_path s) t' = scanned_rows g s j (rows_of (sa_path s) t))"
  using assms
proof (induction ss arbitrary: n t)
  case (Cons s ss)
  from Cons.prems(2) obtain n1 t1 where s: "scan_sample limits probe g s (n, t) = Inr (n1, t1)"
    and ss: "scan_samples limits probe g ss (n1, t1) = Inr (n', t')" by auto
  from scan_sample_effect [OF Cons.prems(1) s Cons.prems(3)] obtain j where
    one: "tbl_wf t1" "n1 = int (length t1)" "n1 \<le> max n (tl_files limits)" "fst ` set t \<subseteq> fst ` set t1"
      "\<forall>p. p \<noteq> sa_path s \<longrightarrow> rows_of p t1 = rows_of p t"
    and j: "j \<notin> fst ` set t" "rows_of (sa_path s) t1 = scanned_rows g s j (rows_of (sa_path s) t)" by blast
  have "distinct (map sa_path ss)" using Cons.prems(4) by simp
  note IH = Cons.IH [OF one(1) ss one(2) this]
  have new: "sa_path s \<notin> sa_path ` set ss" using Cons.prems(4) by simp
  have each: "\<exists>j. j \<notin> fst ` set t \<and> rows_of (sa_path q) t' = scanned_rows g q j (rows_of (sa_path q) t)"
    if q: "q \<in> set (s # ss)" for q
  proof (cases "q = s")
    case True
    have "rows_of (sa_path s) t' = rows_of (sa_path s) t1" using IH new by blast
    with j True show ?thesis by auto
  next
    case False
    then have q: "q \<in> set ss" using q by simp
    then have "sa_path q \<noteq> sa_path s" using new by (metis imageI)
    then have eq: "rows_of (sa_path q) t1 = rows_of (sa_path q) t" using one(5) by blast
    obtain i where "i \<notin> fst ` set t1" "rows_of (sa_path q) t' = scanned_rows g q i (rows_of (sa_path q) t1)"
      using IH q by blast
    then show ?thesis using eq one(4) by (intro exI [of _ i]) auto
  qed
  have "fst ` set t1 \<subseteq> fst ` set t'" using IH by (elim conjE)
  with one(4) have "fst ` set t \<subseteq> fst ` set t'" by (rule subset_trans)
  moreover have "n' \<le> max n (tl_files limits)" using one(3) IH by (meson max.bounded_iff max.cobounded2 order_trans)
  moreover have "rows_of p t' = rows_of p t" if "p \<notin> sa_path ` set (s # ss)" for p
    using that one(5) IH by simp
  ultimately show ?case using IH each by blast
qed auto

lemma rows_of_sweep:
  "rows_of p (tbl_update P (\<lambda>r. r\<lparr>tf_status := st\<rparr>) t) = tbl_update P (\<lambda>r. r\<lparr>tf_status := st\<rparr>) (rows_of p t)"
  by (rule rows_of_update) simp

lemma get_rows_of: "tbl_wf t \<Longrightarrow> tbl_get t i = Some r \<longleftrightarrow> (i, r) \<in> set (rows_of (sa_path (tf_sample r)) t)"
  by (simp add: in_rows_of tbl_get_Some_set)

lemma in_update: "(i, r) \<in> set (tbl_update P f t) \<longleftrightarrow> (\<exists>q. (i, q) \<in> set t \<and> r = (if P i q then f q else q))"
  by (force simp: tbl_update_def)

text \<open>The rows of a scanned path after the sweep, when no row was seen by this scan before.\<close>

definition swept :: "i64 \<Rightarrow> (int, TagFile) table \<Rightarrow> (int, TagFile) table" where
  "swept g t = tbl_update (\<lambda>_ r. is_current (tf_status r) \<and> tf_last_seen_generation r \<noteq> g)
     (\<lambda>r. r\<lparr>tf_status := Missing\<rparr>) t"

lemma same_status [simp]: "r\<lparr>tf_status := st\<rparr> = r \<longleftrightarrow> tf_status r = st" for r :: TagFile
  by (cases r) auto

lemma current_after_sweep:
  "(i, r) \<in> set (swept g t) \<and> is_current (tf_status r) \<longleftrightarrow>
    (i, r) \<in> set t \<and> is_current (tf_status r) \<and> tf_last_seen_generation r = g"
  by (auto simp: swept_def in_update is_current_def)

lemma scanned_current:
  assumes "\<forall>(i, r)\<in>set rows. sa_path (tf_sample r) = sa_path s \<and> tf_last_seen_generation r \<noteq> g"
    and "distinct (map fst rows)" and "j \<notin> fst ` set rows"
  shows "(i, r) \<in> set (swept g (scanned_rows g s j rows)) \<and> is_current (tf_status r) \<longleftrightarrow>
    (case current_row (sa_path s) rows of
       Some (k, q) \<Rightarrow>
         if sample_identity (tf_sample q) = sample_identity s then i = k \<and> r = q\<lparr>tf_last_seen_generation := g\<rparr>
         else i = j \<and> r = \<lparr>tf_sample = s, tf_status = Suspect, tf_last_seen_generation = g\<rparr>
     | None \<Rightarrow> i = j \<and> r = \<lparr>tf_sample = s, tf_status = (if rows \<noteq> [] then Suspect else Present),
         tf_last_seen_generation = g\<rparr>)"
  unfolding current_after_sweep
proof (cases "current_row (sa_path s) rows")
  case None
  show "((i, r) \<in> set (scanned_rows g s j rows) \<and> is_current (tf_status r) \<and> tf_last_seen_generation r = g) =
    (case current_row (sa_path s) rows of
       Some (k, q) \<Rightarrow>
         if sample_identity (tf_sample q) = sample_identity s then i = k \<and> r = q\<lparr>tf_last_seen_generation := g\<rparr>
         else i = j \<and> r = \<lparr>tf_sample = s, tf_status = Suspect, tf_last_seen_generation = g\<rparr>
     | None \<Rightarrow> i = j \<and> r = \<lparr>tf_sample = s, tf_status = (if rows \<noteq> [] then Suspect else Present),
         tf_last_seen_generation = g\<rparr>)"
  proof -
    have "(i, r) \<in> set (scanned_rows g s j rows) \<longleftrightarrow> (i, r) \<in> set rows \<or> i = j \<and> r =
        \<lparr>tf_sample = s, tf_status = (if rows \<noteq> [] then Suspect else Present), tf_last_seen_generation = g\<rparr>"
      using None by (auto simp: scanned_rows_def)
    moreover have "tf_last_seen_generation r \<noteq> g" if "(i, r) \<in> set rows" using assms(1) that by auto
    moreover have "is_current (if rows \<noteq> [] then Suspect else Present)" by (simp add: is_current_def)
    ultimately show ?thesis using None by (cases "(i, r) \<in> set rows") auto
  qed
next
  case (Some kq)
  obtain k q where c: "current_row (sa_path s) rows = Some (k, q)" using Some by (cases kq) auto
  note cur = current_row_Some [OF c]
  have uniq: "q' = q" if "(k, q') \<in> set rows" for q' using eq_key_imp_eq_value [OF assms(2) that cur(1)] .
  have ne: "rows \<noteq> []" using cur(1) by auto
  have old: "tf_last_seen_generation q' \<noteq> g" if "(i, q') \<in> set rows" for q' using assms(1) that by auto
  show "((i, r) \<in> set (scanned_rows g s j rows) \<and> is_current (tf_status r) \<and> tf_last_seen_generation r = g) =
    (case current_row (sa_path s) rows of
       Some (k, q) \<Rightarrow>
         if sample_identity (tf_sample q) = sample_identity s then i = k \<and> r = q\<lparr>tf_last_seen_generation := g\<rparr>
         else i = j \<and> r = \<lparr>tf_sample = s, tf_status = Suspect, tf_last_seen_generation = g\<rparr>
     | None \<Rightarrow> i = j \<and> r = \<lparr>tf_sample = s, tf_status = (if rows \<noteq> [] then Suspect else Present),
         tf_last_seen_generation = g\<rparr>)"
  proof (cases "sample_identity (tf_sample q) = sample_identity s")
    case True
    then have "(i, r) \<in> set (scanned_rows g s j rows) \<longleftrightarrow>
        (\<exists>q'. (i, q') \<in> set rows \<and> r = (if i = k then q'\<lparr>tf_last_seen_generation := g\<rparr> else q'))"
      by (simp add: scanned_rows_def c in_update)
    then have eq: "(i, r) \<in> set (scanned_rows g s j rows) \<longleftrightarrow>
        (if i = k then r = q\<lparr>tf_last_seen_generation := g\<rparr> else (i, r) \<in> set rows)"
      using uniq cur(1) by (metis (no_types))
    have "is_current (tf_status (q\<lparr>tf_last_seen_generation := g\<rparr>))" using cur(3) by simp
    moreover have "(i, r) \<in> set rows \<Longrightarrow> tf_last_seen_generation r \<noteq> g" by (rule old)
    ultimately show ?thesis unfolding eq c by (simp only: True option.case prod.case if_True) (cases "i = k"; auto)
  next
    case False
    then have "(i, r) \<in> set (scanned_rows g s j rows) \<longleftrightarrow>
        (\<exists>q'. (i, q') \<in> set rows \<and> r = (if i = k then q'\<lparr>tf_status := Missing\<rparr> else q'))
        \<or> i = j \<and> r = \<lparr>tf_sample = s, tf_status = Suspect, tf_last_seen_generation = g\<rparr>"
      using ne by (auto simp: scanned_rows_def c in_update set_status_def)
    moreover have "is_current Suspect" "\<not> is_current Missing" by (simp_all add: is_current_def)
    ultimately show ?thesis using False c old by (cases "i = k") auto
  qed
qed

end
