(* ===== verification/Tag_Laws.thy ===== *)
theory Tag_Laws
  imports Tag_Store
begin

text \<open>
  Laws of the tag database: what a scan does to the rows of a path, how relations between files and
  tags change, and the invariant that every operation keeps.
\<close>

section \<open>Rows never disappear\<close>

text \<open>What a scan may do to the table: rows keep their sample, a current row may go missing, and new
  rows are not relinked.\<close>

definition evolved :: "i64 \<Rightarrow> (int, TagFile) table \<Rightarrow> (int, TagFile) table \<Rightarrow> bool" where
  "evolved g t t' \<longleftrightarrow> fst ` set t \<subseteq> fst ` set t' \<and> (\<forall>i r. (i, r) \<in> set t' \<longrightarrow>
     (\<exists>q. (i, q) \<in> set t \<and> tf_sample r = tf_sample q
        \<and> (tf_status r = tf_status q \<or> is_current (tf_status q) \<and> tf_status r = Missing)
        \<and> (tf_last_seen_generation r = tf_last_seen_generation q \<or> tf_last_seen_generation r = g))
     \<or> i \<notin> fst ` set t \<and> tf_status r \<noteq> Relinked \<and> tf_last_seen_generation r = g)"

lemma evolved_refl [simp]: "evolved g t t"
  by (auto simp: evolved_def)

lemma evolved_trans:
  assumes one: "evolved g t t1" and two: "evolved g t1 t2"
  shows "evolved g t t2"
  unfolding evolved_def
proof (intro conjI allI impI)
  show "fst ` set t \<subseteq> fst ` set t2" using one two unfolding evolved_def by (meson subset_trans)
  fix i r assume r: "(i, r) \<in> set t2"
  have sub: "i \<in> fst ` set t \<Longrightarrow> i \<in> fst ` set t1" using one unfolding evolved_def by blast
  show "(\<exists>q. (i, q) \<in> set t \<and> tf_sample r = tf_sample q
        \<and> (tf_status r = tf_status q \<or> is_current (tf_status q) \<and> tf_status r = Missing)
        \<and> (tf_last_seen_generation r = tf_last_seen_generation q \<or> tf_last_seen_generation r = g))
     \<or> i \<notin> fst ` set t \<and> tf_status r \<noteq> Relinked \<and> tf_last_seen_generation r = g"
  proof (cases "i \<in> fst ` set t1")
    case True
    then obtain q where q: "(i, q) \<in> set t1" "tf_sample r = tf_sample q"
      "tf_status r = tf_status q \<or> is_current (tf_status q) \<and> tf_status r = Missing"
      "tf_last_seen_generation r = tf_last_seen_generation q \<or> tf_last_seen_generation r = g"
      using two r unfolding evolved_def by blast
    from one q(1) consider
      (old) p where "(i, p) \<in> set t" "tf_sample q = tf_sample p"
        "tf_status q = tf_status p \<or> is_current (tf_status p) \<and> tf_status q = Missing"
        "tf_last_seen_generation q = tf_last_seen_generation p \<or> tf_last_seen_generation q = g"
    | (new) "i \<notin> fst ` set t" "tf_status q \<noteq> Relinked" "tf_last_seen_generation q = g"
      unfolding evolved_def by blast
    then show ?thesis
    proof cases
      case old
      then have "tf_status r = tf_status p \<or> is_current (tf_status p) \<and> tf_status r = Missing"
        using q(3) by metis
      then show ?thesis using old q by (intro disjI1 exI [of _ p]) auto
    qed (use q in auto)
  next
    case False
    then have "tf_status r \<noteq> Relinked" "tf_last_seen_generation r = g"
      using two r unfolding evolved_def by (metis fst_conv imageI)+
    with False sub show ?thesis by blast
  qed
qed

lemma keys_of_update [simp]: "fst ` set (tbl_update P f t) = fst ` set t"
  by (metis keys_update set_map)

lemma evolved_seen: "evolved g t (tbl_update P (\<lambda>r. r\<lparr>tf_last_seen_generation := g\<rparr>) t)"
  unfolding evolved_def by (auto simp: in_update)

lemma evolved_missing:
  assumes "\<And>k r. (k, r) \<in> set t \<Longrightarrow> P k r \<Longrightarrow> is_current (tf_status r)"
  shows "evolved g t (tbl_update P (\<lambda>r. r\<lparr>tf_status := Missing\<rparr>) t)"
  unfolding evolved_def
proof (intro conjI allI impI disjI1)
  fix i r assume "(i, r) \<in> set (tbl_update P (\<lambda>r. r\<lparr>tf_status := Missing\<rparr>) t)"
  then obtain q where "(i, q) \<in> set t" "r = (if P i q then q\<lparr>tf_status := Missing\<rparr> else q)"
    by (auto simp: in_update)
  with assms [of i q] show "\<exists>q. (i, q) \<in> set t \<and> tf_sample r = tf_sample q
      \<and> (tf_status r = tf_status q \<or> is_current (tf_status q) \<and> tf_status r = Missing)
      \<and> (tf_last_seen_generation r = tf_last_seen_generation q \<or> tf_last_seen_generation r = g)"
    by (intro exI [of _ q]) simp
qed simp

lemma evolved_append:
  assumes "j \<notin> fst ` set t" and "tf_status r \<noteq> Relinked" and "tf_last_seen_generation r = g"
  shows "evolved g t (t @ [(j, r)])"
  using assms unfolding evolved_def by auto

lemma scan_sample_evolved:
  assumes wf: "tbl_wf t" and scan: "scan_sample limits probe g s (n, t) = Inr (n', t')"
  shows "evolved g t t'"
proof -
  have fresh: "evolved g t1 t'" if t1: "tbl_wf t1" and ins: "scan_insert limits probe g s k n t1 = Inr (n', t')" for t1 k
  proof -
    from scan_insert_effect [OF t1 ins] obtain j where j: "\<forall>k\<in>fst ` set t1. k < j" "t' = t1 @ [(j,
        \<lparr>tf_sample = s, tf_status = (if k then Suspect else Present), tf_last_seen_generation = g\<rparr>)]" by blast
    show ?thesis unfolding j(2) by (rule evolved_append) (use j(1) in auto)
  qed
  show ?thesis
  proof (cases "current_row (sa_path s) t")
    case None
    with scan show ?thesis by (auto simp: scan_sample_def intro: fresh [OF wf])
  next
    case (Some ir)
    obtain i r where c: "current_row (sa_path s) t = Some (i, r)" using Some by (cases ir) auto
    show ?thesis
    proof (cases "sample_identity (tf_sample r) = sample_identity s")
      case True
      with scan c have "t' = tbl_update (\<lambda>k _. k = i) (\<lambda>r. r\<lparr>tf_last_seen_generation := g\<rparr>) t"
        by (auto simp: scan_sample_def)
      then show ?thesis by (simp only: evolved_seen)
    next
      case False
      have "evolved g t (set_status i Missing t)" unfolding set_status_def
      proof (rule evolved_missing)
        fix k q assume "(k, q) \<in> set t" "k = i"
        then show "is_current (tf_status q)"
          using current_row_Some [OF c] eq_key_imp_eq_value [OF tbl_wf_distinct [OF wf]] by blast
      qed
      moreover have "evolved g (set_status i Missing t) t'"
        using scan c False wf by (auto simp: scan_sample_def intro: fresh)
      ultimately show ?thesis by (rule evolved_trans)
    qed
  qed
qed

lemma scan_samples_evolved:
  assumes "tbl_wf t" and "scan_samples limits probe g ss (n, t) = Inr (n', t')" and "n = int (length t)"
  shows "tbl_wf t' \<and> n' = int (length t') \<and> n' \<le> max n (tl_files limits) \<and> evolved g t t'"
  using assms
proof (induction ss arbitrary: n t)
  case (Cons s ss)
  from Cons.prems(2) obtain n1 t1 where s: "scan_sample limits probe g s (n, t) = Inr (n1, t1)"
    and ss: "scan_samples limits probe g ss (n1, t1) = Inr (n', t')" by auto
  from scan_sample_effect [OF Cons.prems(1) s Cons.prems(3)]
  have one: "tbl_wf t1" "n1 = int (length t1)" "n1 \<le> max n (tl_files limits)" by blast+
  have "evolved g t t1" by (rule scan_sample_evolved [OF Cons.prems(1) s])
  moreover note IH = Cons.IH [OF one(1) ss one(2)]
  ultimately have "evolved g t t'" by (blast intro: evolved_trans)
  moreover have "n' \<le> max n (tl_files limits)" using one(3) IH by linarith
  ultimately show ?case using IH by simp
qed auto

section \<open>Relations between files and tags\<close>

abbreviation tagged :: "int \<Rightarrow> int \<Rightarrow> (int \<times> int, unit) table \<Rightarrow> bool" where
  "tagged f t rel \<equiv> tbl_get rel (f, t) \<noteq> None"

lemma in_tags_of: "tbl_wf rel \<Longrightarrow> t \<in> set (tags_of f rel) \<longleftrightarrow> tagged f t rel"
  by (force simp: tags_of_def tbl_get_Some_set)

lemma length_tags_of: "int (length (tags_of f rel)) = file_tag_count f rel"
  by (simp add: tags_of_def file_tag_count_def tbl_count_def case_prod_unfold)

lemma distinct_tags_of: "tbl_wf rel \<Longrightarrow> distinct (tags_of f rel)"
proof -
  assume "tbl_wf rel"
  then have "distinct (map fst rel)" by (rule tbl_wf_distinct)
  then show ?thesis unfolding tags_of_def
    by (induction rel) (auto simp: case_prod_unfold)
qed

lemma length_put: "tbl_get t k = None \<Longrightarrow> length (tbl_put k r t) = Suc (length t)"
  using tbl_count_put [of t k "\<lambda>_ _. True" r] by (simp add: tbl_count_all)

lemma file_tag_count_put:
  "tbl_get rel (f, t) = None \<Longrightarrow> file_tag_count g (tbl_put (f, t) () rel)
    = (if g = f then file_tag_count g rel + 1 else file_tag_count g rel)"
  by (simp add: file_tag_count_def tbl_count_put)

lemma add_tags_effect:
  assumes "tbl_wf rel" and "add_tags limits probe f tags (n, c, rel) = Inr (n', c', rel')"
    and "n = int (length rel)" and "c = file_tag_count f rel"
  shows "tbl_wf rel' \<and> n' = int (length rel') \<and> n' \<le> max n (tl_relations limits)
    \<and> (\<forall>g t. tagged g t rel' \<longleftrightarrow> tagged g t rel \<or> g = f \<and> t \<in> set tags)
    \<and> (\<forall>g. file_tag_count g rel' \<le> max (file_tag_count g rel) MAX_FILE_TAGS)"
  using assms
proof (induction tags arbitrary: n c rel)
  case (Cons t tags)
  show ?case
  proof (cases "tagged f t rel")
    case True
    then have "add_tags limits probe f tags (n, c, rel) = Inr (n', c', rel')" using Cons.prems(2) by simp
    from Cons.IH [OF Cons.prems(1) this Cons.prems(3,4)] True show ?thesis by auto
  next
    case False
    let ?rel = "tbl_put (f, t) () rel"
    from Cons.prems(2) False have room: "c < MAX_FILE_TAGS" "n < tl_relations limits"
      and rest: "add_tags limits probe f tags (n + 1, c + 1, ?rel) = Inr (n', c', rel')"
      by (auto split: if_splits)
    have new: "tbl_get rel (f, t) = None" using False by blast
    have "n + 1 = int (length ?rel)" "c + 1 = file_tag_count f ?rel"
      using Cons.prems(3,4) by (simp_all add: length_put [OF new] file_tag_count_put [OF new])
    note IH = Cons.IH [OF tbl_wf_put [OF Cons.prems(1)] rest this]
    have "file_tag_count g ?rel \<le> max (file_tag_count g rel) MAX_FILE_TAGS" for g
      using room(1) Cons.prems(4) by (simp add: file_tag_count_put [OF new])
    then have "file_tag_count g rel' \<le> max (file_tag_count g rel) MAX_FILE_TAGS" for g
      using IH by (meson max.bounded_iff max.cobounded2 order_trans)
    moreover have "tagged g u rel' \<longleftrightarrow> tagged g u rel \<or> g = f \<and> u \<in> set (t # tags)" for g u
      using IH by (auto simp: tbl_get_put)
    moreover have "n' \<le> max n (tl_relations limits)" using IH room(2) by linarith
    ultimately show ?thesis using IH by blast
  qed
qed auto

lemma get_remove_tags:
  assumes "tbl_wf rel"
  shows "tbl_wf (remove_tags f tags rel) \<and> length (remove_tags f tags rel) \<le> length rel
    \<and> (\<forall>g t. tagged g t (remove_tags f tags rel) \<longleftrightarrow> tagged g t rel \<and> \<not> (g = f \<and> t \<in> set tags))
    \<and> (\<forall>g. file_tag_count g (remove_tags f tags rel) \<le> file_tag_count g rel)"
  using assms
proof (induction tags arbitrary: rel)
  case (Cons t tags)
  let ?rel = "tbl_delete (\<lambda>k _. k = (f, t)) rel"
  have step: "remove_tags f (t # tags) rel = remove_tags f tags ?rel" by (simp add: remove_tags_def)
  note IH = Cons.IH [OF tbl_wf_delete [OF Cons.prems, of "\<lambda>k _. k = (f, t)"]]
  have "tagged g u ?rel \<longleftrightarrow> tagged g u rel \<and> \<not> (g = f \<and> u = t)" for g u
    by (auto simp: tbl_get_delete [OF Cons.prems] split: option.splits)
  moreover have "length ?rel \<le> length rel" by (simp add: tbl_delete_def)
  moreover have "file_tag_count g ?rel \<le> file_tag_count g rel" for g
    by (simp add: file_tag_count_def tbl_count_delete_le)
  ultimately show ?case unfolding step using IH by (auto intro: order_trans)
qed (simp add: remove_tags_def)

lemma mutate_files_effect:
  assumes "tbl_wf rel" and "mutate_files limits probe add tags files (n, rel) = Inr (n', rel')"
    and "add \<longrightarrow> n = int (length rel)"
  shows "tbl_wf rel' \<and> int (length rel') \<le> max (int (length rel)) (tl_relations limits)
    \<and> (\<forall>g t. tagged g t rel' \<longleftrightarrow> (if add then tagged g t rel \<or> g \<in> set files \<and> t \<in> set tags
          else tagged g t rel \<and> \<not> (g \<in> set files \<and> t \<in> set tags)))
    \<and> (\<forall>g. file_tag_count g rel' \<le> max (file_tag_count g rel) MAX_FILE_TAGS)"
  using assms
proof (induction files arbitrary: n rel)
  case (Cons f files)
  obtain n1 rel1 where one: "tbl_wf rel1" "add \<longrightarrow> n1 = int (length rel1)"
      "int (length rel1) \<le> max (int (length rel)) (tl_relations limits)"
      "\<forall>g t. tagged g t rel1 \<longleftrightarrow> (if add then tagged g t rel \<or> g = f \<and> t \<in> set tags
          else tagged g t rel \<and> \<not> (g = f \<and> t \<in> set tags))"
      "\<forall>g. file_tag_count g rel1 \<le> max (file_tag_count g rel) MAX_FILE_TAGS"
    and rest: "mutate_files limits probe add tags files (n1, rel1) = Inr (n', rel')"
  proof (cases add)
    case True
    then obtain n1 c1 rel1 where a: "add_tags limits probe f tags (n, file_tag_count f rel, rel) = Inr (n1, c1, rel1)"
      and m: "mutate_files limits probe add tags files (n1, rel1) = Inr (n', rel')" using Cons.prems(2) by auto
    have "n = int (length rel)" using Cons.prems(3) True by simp
    from add_tags_effect [OF Cons.prems(1) a this refl] this True m show ?thesis by (intro that [of rel1 n1]) auto
  next
    case False
    with get_remove_tags [OF Cons.prems(1), of f tags] Cons.prems(2) show ?thesis
      by (intro that [of "remove_tags f tags rel" n]) (auto simp: max.coboundedI1)
  qed
  note IH = Cons.IH [OF one(1) rest one(2)]
  have "tagged g t rel' \<longleftrightarrow> (if add then tagged g t rel \<or> g \<in> set (f # files) \<and> t \<in> set tags
          else tagged g t rel \<and> \<not> (g \<in> set (f # files) \<and> t \<in> set tags))" for g t
    using IH one(4) by auto
  moreover have "file_tag_count g rel' \<le> max (file_tag_count g rel) MAX_FILE_TAGS" for g
    using IH one(5) by (meson max.bounded_iff max.cobounded2 order_trans)
  moreover have "int (length rel') \<le> max (int (length rel)) (tl_relations limits)" using IH one(3) by linarith
  ultimately show ?case using IH by blast
qed auto

text \<open>Relinking: the tags that are copied are at most as many as those that are deleted.\<close>

definition copied :: "int \<Rightarrow> int list \<Rightarrow> (int \<times> int, unit) table \<Rightarrow> (int \<times> int, unit) table" where
  "copied new tags rel = fold (\<lambda>t r. if tbl_get r (new, t) = None then tbl_put (new, t) () r else r) tags rel"

lemma copied_effect:
  assumes "tbl_wf rel" and "distinct tags"
  shows "tbl_wf (copied new tags rel)
    \<and> length (copied new tags rel) = length rel + length (filter (\<lambda>t. tbl_get rel (new, t) = None) tags)
    \<and> (\<forall>g t. tagged g t (copied new tags rel) \<longleftrightarrow> tagged g t rel \<or> g = new \<and> t \<in> set tags)
    \<and> (\<forall>g. file_tag_count g (copied new tags rel) = file_tag_count g rel
        + (if g = new then int (length (filter (\<lambda>t. tbl_get rel (new, t) = None) tags)) else 0))"
  using assms
proof (induction tags arbitrary: rel)
  case (Cons t tags)
  show ?case
  proof (cases "tagged new t rel")
    case True
    then have "copied new (t # tags) rel = copied new tags rel" by (simp add: copied_def)
    with Cons.IH [OF Cons.prems(1)] Cons.prems(2) True show ?thesis by auto
  next
    case False
    let ?rel = "tbl_put (new, t) () rel"
    have none: "tbl_get rel (new, t) = None" using False by blast
    then have step: "copied new (t # tags) rel = copied new tags ?rel" by (simp add: copied_def)
    have "filter (\<lambda>u. tbl_get ?rel (new, u) = None) tags = filter (\<lambda>u. tbl_get rel (new, u) = None) tags"
      using Cons.prems(2) by (intro filter_cong) (auto simp: tbl_get_put)
    with Cons.IH [OF tbl_wf_put [OF Cons.prems(1), where k = "(new, t)" and r = "()"]] Cons.prems(2) False show ?thesis
      unfolding step by (auto simp: tbl_get_put length_put [OF none] file_tag_count_put [OF none])
  qed
qed (simp add: copied_def)

section \<open>What a scan leaves\<close>

text \<open>The one current row of the path of a sample after a scan; \<open>j\<close> is the id of a new row.\<close>

definition scan_row :: "i64 \<Rightarrow> Sample \<Rightarrow> int \<Rightarrow> (int, TagFile) table \<Rightarrow> int \<times> TagFile" where
  "scan_row g s j t =
     (case current_row (sa_path s) t of
        Some (k, q) \<Rightarrow>
          if sample_identity (tf_sample q) = sample_identity s then (k, q\<lparr>tf_last_seen_generation := g\<rparr>)
          else (j, \<lparr>tf_sample = s, tf_status = Suspect, tf_last_seen_generation = g\<rparr>)
      | None \<Rightarrow> (j, \<lparr>tf_sample = s, tf_status = (if rows_of (sa_path s) t \<noteq> [] then Suspect else Present),
          tf_last_seen_generation = g\<rparr>))"

definition files_ok :: "TagLimits \<Rightarrow> i64 \<Rightarrow> (int, TagFile) table \<Rightarrow> bool" where
  "files_ok limits g t \<longleftrightarrow> tbl_wf t \<and> int (length t) \<le> tl_files limits
     \<and> (\<forall>i r. (i, r) \<in> set t \<longrightarrow> tf_last_seen_generation r \<le> g)
     \<and> (\<forall>i r j q. (i, r) \<in> set t \<and> (j, q) \<in> set t \<and> is_current (tf_status r) \<and> is_current (tf_status q)
          \<and> sa_path (tf_sample r) = sa_path (tf_sample q) \<longrightarrow> i = j)"

lemma files_ok_wf: "files_ok limits g t \<Longrightarrow> tbl_wf t"
  by (simp add: files_ok_def)

lemma rows_of_swept: "rows_of p (swept g t) = swept g (rows_of p t)"
  unfolding swept_def by (rule rows_of_sweep)

lemma in_path:
  "(i, r) \<in> set t \<and> sa_path (tf_sample r) = p \<and> is_current (tf_status r)
    \<longleftrightarrow> (i, r) \<in> set (rows_of p t) \<and> is_current (tf_status r)"
  by (auto simp: in_rows_of)

lemma swept_current_row:
  assumes ok: "files_ok limits g t" and "j \<notin> fst ` set t"
    and rows: "rows_of (sa_path s) t' = scanned_rows (g + 1) s j (rows_of (sa_path s) t)"
  shows "(i, r) \<in> set (swept (g + 1) t') \<and> sa_path (tf_sample r) = sa_path s \<and> is_current (tf_status r)
    \<longleftrightarrow> (i, r) = scan_row (g + 1) s j t"
proof -
  let ?rows = "rows_of (sa_path s) t"
  have "tf_last_seen_generation r \<noteq> g + 1" if "(i, r) \<in> set ?rows" for i r
  proof -
    have "(i, r) \<in> set t" using that by (simp add: in_rows_of)
    then have "tf_last_seen_generation r \<le> g" using ok unfolding files_ok_def by blast
    then show ?thesis by simp
  qed
  then have "\<forall>(i, r)\<in>set ?rows. sa_path (tf_sample r) = sa_path s \<and> tf_last_seen_generation r \<noteq> g + 1"
    by (auto simp: in_rows_of)
  moreover have "distinct (map fst ?rows)"
    using tbl_wf_distinct [OF files_ok_wf [OF ok]] unfolding rows_of_def by (rule distinct_map_filter)
  moreover have "j \<notin> fst ` set ?rows" using assms(2) by (auto simp: rows_of_def)
  ultimately have "(i, r) \<in> set (swept (g + 1) (scanned_rows (g + 1) s j ?rows)) \<and> is_current (tf_status r) \<longleftrightarrow>
    (case current_row (sa_path s) ?rows of
       Some (k, q) \<Rightarrow>
         if sample_identity (tf_sample q) = sample_identity s then i = k \<and> r = q\<lparr>tf_last_seen_generation := g + 1\<rparr>
         else i = j \<and> r = \<lparr>tf_sample = s, tf_status = Suspect, tf_last_seen_generation = g + 1\<rparr>
     | None \<Rightarrow> i = j \<and> r = \<lparr>tf_sample = s, tf_status = (if ?rows \<noteq> [] then Suspect else Present),
         tf_last_seen_generation = g + 1\<rparr>)" by (rule scanned_current)
  also have "\<dots> \<longleftrightarrow> (i, r) = scan_row (g + 1) s j t"
    unfolding current_row_rows_of scan_row_def
    by (cases "current_row (sa_path s) t") (simp_all only: option.case prod.case prod.inject split: prod.split if_split, auto)
  finally show ?thesis unfolding in_path rows_of_swept rows .
qed

lemma swept_evolved: "evolved g t (swept g t)"
  unfolding swept_def by (rule evolved_missing) simp

lemma scan_outcome:
  assumes ok: "files_ok limits g t" and dist: "distinct (map sa_path ss)"
    and scan: "scan_samples limits probe (g + 1) ss (int (length t), t) = Inr (n', t')"
  shows "evolved (g + 1) t (swept (g + 1) t')"
    and "s \<in> set ss \<Longrightarrow> \<exists>j. j \<notin> fst ` set t \<and> (\<forall>i r. (i, r) \<in> set (swept (g + 1) t')
      \<and> sa_path (tf_sample r) = sa_path s \<and> is_current (tf_status r) \<longleftrightarrow> (i, r) = scan_row (g + 1) s j t)"
    and "(i, r) \<in> set (swept (g + 1) t') \<Longrightarrow> is_current (tf_status r) \<Longrightarrow> sa_path (tf_sample r) \<in> sa_path ` set ss"
    and "files_ok limits (g + 1) (swept (g + 1) t')"
proof -
  note wf = files_ok_wf [OF ok]
  note ev = scan_samples_evolved [OF wf scan refl] and eff = scan_samples_effect [OF wf scan refl dist]
  show all: "evolved (g + 1) t (swept (g + 1) t')" using ev swept_evolved by (blast intro: evolved_trans)
  show row: "\<exists>j. j \<notin> fst ` set t \<and> (\<forall>i r. (i, r) \<in> set (swept (g + 1) t')
      \<and> sa_path (tf_sample r) = sa_path s \<and> is_current (tf_status r) \<longleftrightarrow> (i, r) = scan_row (g + 1) s j t)"
    if "s \<in> set ss" for s
  proof -
    from eff that obtain j where j: "j \<notin> fst ` set t"
      "rows_of (sa_path s) t' = scanned_rows (g + 1) s j (rows_of (sa_path s) t)" by blast
    show ?thesis using swept_current_row [OF ok j] j(1) by blast
  qed
  show path: "sa_path (tf_sample r) \<in> sa_path ` set ss"
    if r: "(i, r) \<in> set (swept (g + 1) t')" "is_current (tf_status r)" for i r
  proof (rule ccontr)
    assume no: "sa_path (tf_sample r) \<notin> sa_path ` set ss"
    from r current_after_sweep [of i r "g + 1" t']
    have t': "(i, r) \<in> set t'" "tf_last_seen_generation r = g + 1" by blast+
    have "rows_of (sa_path (tf_sample r)) t' = rows_of (sa_path (tf_sample r)) t" using eff no by blast
    then have "(i, r) \<in> set t" using t'(1) in_rows_of [of i r "sa_path (tf_sample r)"] by (metis (no_types))
    then have "tf_last_seen_generation r \<le> g" using ok unfolding files_ok_def by blast
    with t'(2) show False by simp
  qed
  have "i = j" if i: "(i, r) \<in> set (swept (g + 1) t')" "is_current (tf_status r)"
    and j: "(j, q) \<in> set (swept (g + 1) t')" "is_current (tf_status q)"
    and eq: "sa_path (tf_sample r) = sa_path (tf_sample q)" for i r j q
  proof -
    obtain s where s: "s \<in> set ss" "sa_path (tf_sample r) = sa_path s" using path [OF i] by blast
    from row [OF s(1)] obtain k where
      "\<forall>i r. (i, r) \<in> set (swept (g + 1) t') \<and> sa_path (tf_sample r) = sa_path s \<and> is_current (tf_status r)
        \<longleftrightarrow> (i, r) = scan_row (g + 1) s k t" by blast
    then have "(i, r) = scan_row (g + 1) s k t" "(j, q) = scan_row (g + 1) s k t" using i j s(2) eq by auto
    then show ?thesis by (metis prod.inject)
  qed
  moreover have "tf_last_seen_generation r \<le> g + 1" if "(i, r) \<in> set (swept (g + 1) t')" for i r
  proof -
    from all that consider q where "(i, q) \<in> set t" "tf_last_seen_generation r = tf_last_seen_generation q"
      | "tf_last_seen_generation r = g + 1" unfolding evolved_def by blast
    then show ?thesis
    proof cases
      case 1
      then have "tf_last_seen_generation q \<le> g" using ok unfolding files_ok_def by blast
      with 1 show ?thesis by simp
    qed simp
  qed
  moreover have "tbl_wf (swept (g + 1) t')" using ev by (simp add: swept_def tbl_wf_update)
  moreover have "int (length (swept (g + 1) t')) \<le> tl_files limits"
    using ev ok by (simp add: swept_def files_ok_def)
  ultimately show "files_ok limits (g + 1) (swept (g + 1) t')" unfolding files_ok_def by blast
qed

section \<open>The database over time\<close>

definition tags_ok :: "TagLimits \<Rightarrow> (int, TagEntry) table \<Rightarrow> bool" where
  "tags_ok limits t \<longleftrightarrow> tbl_wf t \<and> int (length t) \<le> tl_tags limits
     \<and> (\<forall>i r j q. tbl_get t i = Some r \<and> tbl_get t j = Some q
          \<and> eq_ignore_ascii_case (te_name r) (te_name q) \<longrightarrow> i = j)"

definition relations_ok :: "TagLimits \<Rightarrow> TagDb \<Rightarrow> bool" where
  "relations_ok limits db \<longleftrightarrow> tbl_wf (td_file_tags db) \<and> int (length (td_file_tags db)) \<le> tl_relations limits
     \<and> (\<forall>f. file_tag_count f (td_file_tags db) \<le> MAX_FILE_TAGS)
     \<and> (\<forall>f t. tagged f t (td_file_tags db) \<longrightarrow>
          (\<exists>r. tbl_get (td_files db) f = Some r \<and> tf_status r \<noteq> Relinked) \<and> tbl_get (td_tags db) t \<noteq> None)"

definition tag_ok :: "TagLimits \<Rightarrow> TagDb \<Rightarrow> bool" where
  "tag_ok limits db \<longleftrightarrow> files_ok limits (td_scan_generation db) (td_files db) \<and> tags_ok limits (td_tags db)
     \<and> relations_ok limits db"

text \<open>The operations of the database.  A scan visits every path once.\<close>

inductive tag_step :: "TagLimits \<Rightarrow> TagDb \<Rightarrow> TagDb \<Rightarrow> bool" for limits where
  tag_scan: "distinct (map sa_path samples) \<Longrightarrow> scan_complete limits probe now samples db = Inr db' \<Longrightarrow>
    tag_step limits db db'"
| tag_scan_error: "tag_step limits db (scan_error message db)"
| tag_create: "create_tag limits probe' name color db = Inr (i, db') \<Longrightarrow> tag_step limits db db'"
| tag_update: "update_tag i name color db = Inr (found, db') \<Longrightarrow> tag_step limits db db'"
| tag_delete: "delete_tag i db = (found, db') \<Longrightarrow> tag_step limits db db'"
| tag_mutate: "mutate_tags limits probe'' file_ids tag_ids add db = Inr db' \<Longrightarrow> tag_step limits db db'"
| tag_relink: "relink old_id new_id db = Inr db' \<Longrightarrow> tag_step limits db db'"
| tag_confirm: "confirm i db = (found, db') \<Longrightarrow> tag_step limits db db'"

lemma scan_complete_cases:
  assumes "scan_complete limits probe now samples db = Inr db'"
  obtains n' t' where
    "scan_samples limits probe (td_scan_generation db + 1) samples (int (length (td_files db)), td_files db) = Inr (n', t')"
    "db' = db\<lparr>td_files := swept (td_scan_generation db + 1) t', td_available := True,
       td_scan_generation := td_scan_generation db + 1, td_last_scan_at := Some now, td_last_error := None\<rparr>"
  using assms by (auto simp: scan_complete_def swept_def i64_checked_add_Some)

lemma relations_evolved:
  assumes rel: "relations_ok limits db" and wf: "tbl_wf (td_files db)" "tbl_wf t'" and ev: "evolved g (td_files db) t'"
  shows "relations_ok limits (db\<lparr>td_files := t'\<rparr>)"
proof -
  have "\<exists>r. tbl_get t' f = Some r \<and> tf_status r \<noteq> Relinked"
    if f: "tbl_get (td_files db) f = Some q" "tf_status q \<noteq> Relinked" for f q
  proof -
    have mem: "(f, q) \<in> set (td_files db)" using f(1) wf(1) by (simp add: tbl_get_Some_set)
    then have "f \<in> fst ` set t'" using ev unfolding evolved_def by force
    then obtain r where r: "(f, r) \<in> set t'" by auto
    have "q' = q" if "(f, q') \<in> set (td_files db)" for q'
      using eq_key_imp_eq_value [OF tbl_wf_distinct [OF wf(1)] that mem] .
    moreover have "f \<in> fst ` set (td_files db)" using mem by force
    ultimately have "tf_status r = tf_status q \<or> tf_status r = Missing"
      using ev r unfolding evolved_def by blast
    then show ?thesis using f(2) r wf(2) by (auto simp: tbl_get_Some_set)
  qed
  then show ?thesis using rel unfolding relations_ok_def by (simp, blast)
qed

lemma scan_complete_ok:
  assumes ok: "tag_ok limits db" and dist: "distinct (map sa_path samples)"
    and scan: "scan_complete limits probe now samples db = Inr db'"
  shows "tag_ok limits db'"
proof -
  from scan_complete_cases [OF scan] obtain n' t' where
    s: "scan_samples limits probe (td_scan_generation db + 1) samples (int (length (td_files db)), td_files db) = Inr (n', t')"
    and db': "db' = db\<lparr>td_files := swept (td_scan_generation db + 1) t', td_available := True,
       td_scan_generation := td_scan_generation db + 1, td_last_scan_at := Some now, td_last_error := None\<rparr>" .
  have f: "files_ok limits (td_scan_generation db) (td_files db)" using ok by (simp add: tag_ok_def)
  note out = scan_outcome [OF f dist s]
  have "relations_ok limits (db\<lparr>td_files := swept (td_scan_generation db + 1) t'\<rparr>)"
    using relations_evolved [OF _ files_ok_wf [OF f] files_ok_wf [OF out(4)] out(1)] ok by (simp add: tag_ok_def)
  then show ?thesis using ok out(4) unfolding db' by (simp add: tag_ok_def relations_ok_def)
qed

lemma relations_kept:
  assumes "relations_ok limits db" and "\<And>t. tbl_get (td_tags db) t \<noteq> None \<Longrightarrow> tbl_get tags' t \<noteq> None"
  shows "relations_ok limits (db\<lparr>td_tags := tags'\<rparr>)"
proof -
  have "tbl_get tags' t \<noteq> None" if "tagged f t (td_file_tags db)" for f t
    using that assms unfolding relations_ok_def by blast
  then show ?thesis using assms(1) unfolding relations_ok_def by simp
qed

lemma put_fresh_tag:
  assumes ok: "tags_ok limits t" and room: "int (length t) < tl_tags limits" and none: "tbl_get t i = None"
    and free: "\<not> name_taken None (te_name r) t"
  shows "tags_ok limits (tbl_put i r t)"
proof -
  have wf: "tbl_wf t" using ok by (simp add: tags_ok_def)
  have other: "\<not> eq_ignore_ascii_case (te_name q) (te_name r)" if "tbl_get t j = Some q" for j q
    using free tbl_get_in [OF that] by (auto simp: name_taken_def list_ex_iff)
  then have "\<not> eq_ignore_ascii_case (te_name r) (te_name q)" if "tbl_get t j = Some q" for j q
    using that by (metis eq_ignore_ascii_case_def)
  with other ok room none show ?thesis unfolding tags_ok_def
    by (auto simp: tbl_get_put length_put tbl_wf_put split: if_splits)
qed

lemma replace_tag:
  assumes ok: "tags_ok limits t" and free: "\<not> name_taken (Some i) (te_name e) t"
  shows "tags_ok limits (tbl_update (\<lambda>k _. k = i) (\<lambda>_. e) t)"
proof -
  have other: "\<not> eq_ignore_ascii_case (te_name q) (te_name e)" if "tbl_get t j = Some q" "j \<noteq> i" for j q
    using free tbl_get_in [OF that(1)] that(2) by (auto simp: name_taken_def list_ex_iff)
  then have "\<not> eq_ignore_ascii_case (te_name e) (te_name q)" if "tbl_get t j = Some q" "j \<noteq> i" for j q
    using that by (metis eq_ignore_ascii_case_def)
  with other ok show ?thesis unfolding tags_ok_def
    by (auto simp: tbl_get_update tbl_wf_update split: option.splits if_splits)
qed

lemma create_tag_ok:
  assumes ok: "tag_ok limits db" and "create_tag limits probe name color db = Inr (i, db')"
  shows "tag_ok limits db'"
proof -
  let ?e = "\<lparr>te_name = name, te_color = color\<rparr>"
  from assms(2) have room: "int (length (td_tags db)) < tl_tags limits" and i: "next_rowid (td_tags db) = Inr i"
    and free: "\<not> name_taken None (te_name ?e) (td_tags db)" and db': "db' = db\<lparr>td_tags := tbl_put i ?e (td_tags db)\<rparr>"
    by (auto simp: create_tag_def split: if_splits)
  have t: "tags_ok limits (td_tags db)" using ok by (simp add: tag_ok_def)
  then have "tbl_get (td_tags db) i = None" using next_rowid_fresh(2) i by (auto simp: tags_ok_def)
  note put = put_fresh_tag [OF t room this free]
  have "relations_ok limits db'"
    unfolding db' by (rule relations_kept) (use ok in \<open>simp_all add: tag_ok_def tbl_get_put\<close>)
  with put ok show ?thesis by (simp add: db' tag_ok_def)
qed

lemma update_tag_ok:
  assumes ok: "tag_ok limits db" and "update_tag i name color db = Inr (found, db')"
  shows "tag_ok limits db'"
proof (cases "tbl_get (td_tags db) i")
  case None
  with assms show ?thesis by (simp add: update_tag_def)
next
  case (Some r)
  let ?e = "\<lparr>te_name = name, te_color = color\<rparr>"
  from Some assms(2) have free: "\<not> name_taken (Some i) (te_name ?e) (td_tags db)"
    and db': "db' = db\<lparr>td_tags := tbl_update (\<lambda>k _. k = i) (\<lambda>_. ?e) (td_tags db)\<rparr>"
    by (auto simp: update_tag_def)
  have "tags_ok limits (td_tags db)" using ok by (simp add: tag_ok_def)
  note put = replace_tag [OF this free]
  have "relations_ok limits db'"
    unfolding db' by (rule relations_kept) (use ok in \<open>auto simp: tag_ok_def tbl_get_update\<close>)
  with put ok show ?thesis by (simp add: db' tag_ok_def)
qed

lemma length_delete: "length (tbl_delete P t) \<le> length t"
  by (simp add: tbl_delete_def)

lemma tags_ok_delete:
  assumes "tags_ok limits t"
  shows "tags_ok limits (tbl_delete P t)"
proof -
  have wf: "tbl_wf t" using assms by (simp add: tags_ok_def)
  have kept: "tbl_get (tbl_delete P t) i = Some r \<Longrightarrow> tbl_get t i = Some r" for i r
    by (simp add: tbl_get_delete [OF wf] split: option.splits if_splits)
  have "int (length (tbl_delete P t)) \<le> tl_tags limits"
    using length_delete [of P t] assms unfolding tags_ok_def by linarith
  then show ?thesis using assms kept tbl_wf_delete [OF wf] unfolding tags_ok_def by blast
qed

lemma delete_tag_ok:
  assumes ok: "tag_ok limits db" and "delete_tag i db = (found, db')"
  shows "tag_ok limits db'"
proof -
  let ?rel = "tbl_delete (\<lambda>(_, t) _. t = i) (td_file_tags db)" and ?tags = "tbl_delete (\<lambda>k _. k = i) (td_tags db)"
  have db': "db' = db\<lparr>td_tags := ?tags, td_file_tags := ?rel\<rparr>" using assms(2) by (simp add: delete_tag_def)
  have t: "tags_ok limits (td_tags db)" and rel: "relations_ok limits db" using ok by (simp_all add: tag_ok_def)
  have wf: "tbl_wf (td_tags db)" "tbl_wf (td_file_tags db)"
    using t rel by (simp_all add: tags_ok_def relations_ok_def)
  have "file_tag_count f ?rel \<le> file_tag_count f (td_file_tags db)" for f
    by (simp add: file_tag_count_def tbl_count_delete_le)
  then have "file_tag_count f ?rel \<le> MAX_FILE_TAGS" for f
    using rel unfolding relations_ok_def by (blast intro: order_trans)
  moreover have "int (length ?rel) \<le> tl_relations limits"
    using length_delete [of "\<lambda>(_, t) _. t = i" "td_file_tags db"] rel unfolding relations_ok_def by linarith
  moreover have "(\<exists>r. tbl_get (td_files db) f = Some r \<and> tf_status r \<noteq> Relinked) \<and> tbl_get ?tags u \<noteq> None"
    if "tagged f u ?rel" for f u
  proof -
    have "tagged f u (td_file_tags db)" "u \<noteq> i"
      using that by (auto simp: tbl_get_delete [OF wf(2)] split: option.splits if_splits)
    moreover from this have "tbl_get (td_tags db) u \<noteq> None" using rel unfolding relations_ok_def by blast
    then have "tbl_get ?tags u \<noteq> None" using \<open>u \<noteq> i\<close> by (auto simp: tbl_get_delete [OF wf(1)])
    ultimately show ?thesis using rel unfolding relations_ok_def by blast
  qed
  ultimately have "relations_ok limits db'"
    using tbl_wf_delete [OF wf(2)] unfolding db' relations_ok_def by simp
  then show ?thesis using ok tags_ok_delete [OF t] unfolding db' tag_ok_def by simp
qed

lemma file_is_current_get:
  "file_is_current db i \<longleftrightarrow> (\<exists>r. tbl_get (td_files db) i = Some r \<and> is_current (tf_status r))"
  by (simp add: file_is_current_def split: option.splits)

lemma mutate_tags_cases:
  assumes wf: "tbl_wf (td_file_tags db)" and m: "mutate_tags limits probe file_ids tag_ids add db = Inr db'"
  shows "\<forall>f\<in>set file_ids. file_is_current db f" and "\<forall>t\<in>set tag_ids. tbl_get (td_tags db) t \<noteq> None"
    and "db' = db\<lparr>td_file_tags := td_file_tags db'\<rparr>" and "tbl_wf (td_file_tags db')"
    and "int (length (td_file_tags db')) \<le> max (int (length (td_file_tags db))) (tl_relations limits)"
    and "tagged f t (td_file_tags db') \<longleftrightarrow>
      (if add then tagged f t (td_file_tags db) \<or> f \<in> set file_ids \<and> t \<in> set tag_ids
       else tagged f t (td_file_tags db) \<and> \<not> (f \<in> set file_ids \<and> t \<in> set tag_ids))"
    and "file_tag_count f (td_file_tags db') \<le> max (file_tag_count f (td_file_tags db)) MAX_FILE_TAGS"
proof -
  from m obtain n' rel' where r: "mutate_files limits probe add tag_ids file_ids
      (int (length (td_file_tags db)), td_file_tags db) = Inr (n', rel')" and db': "db' = db\<lparr>td_file_tags := rel'\<rparr>"
    and c: "list_all (file_is_current db) file_ids" "list_all (\<lambda>i. tbl_get (td_tags db) i \<noteq> None) tag_ids"
    by (auto simp: mutate_tags_def)
  show "\<forall>f\<in>set file_ids. file_is_current db f" "\<forall>t\<in>set tag_ids. tbl_get (td_tags db) t \<noteq> None"
    using c unfolding list_all_iff by blast+
  show "db' = db\<lparr>td_file_tags := td_file_tags db'\<rparr>" by (simp add: db')
  have rel': "td_file_tags db' = rel'" by (simp add: db')
  note eff = mutate_files_effect [OF wf r impI [OF refl]]
  show "tbl_wf (td_file_tags db')" "int (length (td_file_tags db')) \<le> max (int (length (td_file_tags db))) (tl_relations limits)"
    unfolding rel' using eff by blast+
  show "tagged f t (td_file_tags db') \<longleftrightarrow>
      (if add then tagged f t (td_file_tags db) \<or> f \<in> set file_ids \<and> t \<in> set tag_ids
       else tagged f t (td_file_tags db) \<and> \<not> (f \<in> set file_ids \<and> t \<in> set tag_ids))"
    unfolding rel' using eff by blast
  show "file_tag_count f (td_file_tags db') \<le> max (file_tag_count f (td_file_tags db)) MAX_FILE_TAGS"
    unfolding rel' using eff by blast
qed

lemma mutate_tags_ok:
  assumes ok: "tag_ok limits db" and m: "mutate_tags limits probe file_ids tag_ids add db = Inr db'"
  shows "tag_ok limits db'"
proof -
  have rel: "relations_ok limits db" using ok by (simp add: tag_ok_def)
  then have wf: "tbl_wf (td_file_tags db)" by (simp add: relations_ok_def)
  note eff = mutate_tags_cases [OF wf m]
  have same: "td_files db' = td_files db" "td_tags db' = td_tags db" "td_scan_generation db' = td_scan_generation db"
    by (subst eff(3), simp)+
  have "int (length (td_file_tags db')) \<le> tl_relations limits"
    using order_trans [OF eff(5)] rel by (simp add: relations_ok_def)
  moreover have "file_tag_count f (td_file_tags db') \<le> MAX_FILE_TAGS" for f
    using order_trans [OF eff(7)] rel by (simp add: relations_ok_def)
  moreover have "(\<exists>r. tbl_get (td_files db) f = Some r \<and> tf_status r \<noteq> Relinked) \<and> tbl_get (td_tags db) t \<noteq> None"
    if "tagged f t (td_file_tags db')" for f t
  proof -
    from that consider "tagged f t (td_file_tags db)" | "f \<in> set file_ids" "t \<in> set tag_ids"
      unfolding eff(6) by (auto split: if_splits)
    then show ?thesis
    proof cases
      case 1
      then show ?thesis using rel unfolding relations_ok_def by blast
    next
      case 2
      have "tf_status r \<noteq> Relinked" if "is_current (tf_status r)" for r
        using that by (auto simp: is_current_def)
      with 2 eff(1,2) show ?thesis unfolding file_is_current_get by blast
    qed
  qed
  ultimately have "relations_ok limits db'" unfolding relations_ok_def same using eff(4) by blast
  with ok show ?thesis unfolding tag_ok_def same by simp
qed

lemma relink_cases:
  assumes rel: "relations_ok limits db" and r: "relink old_id new_id db = Inr db'"
  shows "old_id \<noteq> new_id" and "\<exists>q. tbl_get (td_files db) old_id = Some q \<and> tf_status q = Missing"
    and "file_is_current db new_id"
    and "td_files db' = set_status new_id Present (set_status old_id Relinked (td_files db))"
    and "db' = db\<lparr>td_files := td_files db', td_file_tags := td_file_tags db'\<rparr>"
    and "tbl_wf (td_file_tags db')" and "length (td_file_tags db') \<le> length (td_file_tags db)"
    and "tagged f t (td_file_tags db') \<longleftrightarrow> f \<noteq> old_id \<and>
      (tagged f t (td_file_tags db) \<or> f = new_id \<and> tagged old_id t (td_file_tags db))"
    and "file_tag_count f (td_file_tags db') \<le> MAX_FILE_TAGS"
proof -
  let ?rel = "td_file_tags db"
  let ?tags = "tags_of old_id ?rel"
  let ?new = "filter (\<lambda>t. tbl_get ?rel (new_id, t) = None) ?tags"
  let ?c = "copied new_id ?tags ?rel"
  let ?d = "tbl_delete (\<lambda>(f, _) _. f = old_id) ?c"
  from r show ne: "old_id \<noteq> new_id" and "\<exists>q. tbl_get (td_files db) old_id = Some q \<and> tf_status q = Missing"
    and "file_is_current db new_id" by (auto simp: relink_def)
  from r have few: "\<not> (int (length ?new) > 0 \<and> file_tag_count new_id ?rel + int (length ?new) > MAX_FILE_TAGS)"
    and db': "db' = db\<lparr>td_file_tags := ?d, td_files := set_status new_id Present (set_status old_id Relinked (td_files db))\<rparr>"
    by (auto simp: relink_def copied_def Let_def split: if_splits)
  show "td_files db' = set_status new_id Present (set_status old_id Relinked (td_files db))"
    "db' = db\<lparr>td_files := td_files db', td_file_tags := td_file_tags db'\<rparr>" by (simp_all add: db')
  have rel': "td_file_tags db' = ?d" by (simp add: db')
  have wf: "tbl_wf ?rel" and max: "file_tag_count f ?rel \<le> MAX_FILE_TAGS" for f
    using rel by (simp_all add: relations_ok_def)
  note eff = copied_effect [OF wf distinct_tags_of [OF wf], of new_id old_id]
  then have wfc: "tbl_wf ?c" by blast
  show "tbl_wf (td_file_tags db')" unfolding rel' by (rule tbl_wf_delete [OF wfc])
  have del: "file_tag_count g ?d = (if g = old_id then 0 else file_tag_count g ?c)" for g
    unfolding file_tag_count_def tbl_count_def tbl_delete_def
    by (auto simp: filter_empty_conv case_prod_unfold intro!: arg_cong [where f = length] filter_cong)
  show "length (td_file_tags db') \<le> length ?rel"
  proof -
    have "length ?d + length (filter (\<lambda>((f, _), _). f = old_id) ?c) = length ?c"
      using sum_length_filter_compl [of "\<lambda>((f, _), _). f = old_id" ?c] unfolding tbl_delete_def
      by (simp add: case_prod_unfold)
    moreover have "int (length (filter (\<lambda>((f, _), _). f = old_id) ?c)) = file_tag_count old_id ?c"
      by (simp add: file_tag_count_def tbl_count_def case_prod_unfold)
    moreover have "file_tag_count old_id ?c = int (length ?tags)" using eff ne by (simp add: length_tags_of)
    moreover have "length ?c \<le> length ?rel + length ?tags" using eff by simp
    ultimately show ?thesis unfolding rel' by linarith
  qed
  show "tagged f t (td_file_tags db') \<longleftrightarrow> f \<noteq> old_id \<and>
      (tagged f t ?rel \<or> f = new_id \<and> tagged old_id t ?rel)"
  proof -
    have "tagged f t ?d \<longleftrightarrow> f \<noteq> old_id \<and> tagged f t ?c"
      by (auto simp: tbl_get_delete [OF wfc] split: option.splits)
    also have "\<dots> \<longleftrightarrow> f \<noteq> old_id \<and> (tagged f t ?rel \<or> f = new_id \<and> t \<in> set ?tags)" using eff by blast
    finally show ?thesis unfolding rel' in_tags_of [OF wf] .
  qed
  have copies: "file_tag_count g ?c = file_tag_count g ?rel + (if g = new_id then int (length ?new) else 0)" for g
    using eff by simp
  have "file_tag_count f ?c \<le> MAX_FILE_TAGS"
    unfolding copies using few max [of f] by (cases "f = new_id"; cases "?new = []") simp_all
  then show "file_tag_count f (td_file_tags db') \<le> MAX_FILE_TAGS"
    unfolding rel' del by (simp add: MAX_FILE_TAGS_def)
qed

lemma get_set_status:
  "tbl_get (set_status i st t) k = map_option (\<lambda>r. if k = i then r\<lparr>tf_status := st\<rparr> else r) (tbl_get t k)"
  by (simp add: set_status_def tbl_get_update split: option.splits)

text \<open>A change of statuses that makes no path current keeps the table valid.\<close>

lemma files_ok_status:
  assumes ok: "files_ok limits g t"
    and cur: "\<And>k r. (k, r) \<in> set t \<Longrightarrow> P k r \<Longrightarrow> is_current st \<Longrightarrow> is_current (tf_status r)"
  shows "files_ok limits g (tbl_update P (\<lambda>r. r\<lparr>tf_status := st\<rparr>) t)"
proof -
  let ?t = "tbl_update P (\<lambda>r. r\<lparr>tf_status := st\<rparr>) t"
  have old: "\<exists>q. (i, q) \<in> set t \<and> tf_sample r = tf_sample q \<and> tf_last_seen_generation r = tf_last_seen_generation q
      \<and> (is_current (tf_status r) \<longrightarrow> is_current (tf_status q))" if "(i, r) \<in> set ?t" for i r
  proof -
    from that obtain q where q: "(i, q) \<in> set t" "r = (if P i q then q\<lparr>tf_status := st\<rparr> else q)"
      by (auto simp: in_update)
    with cur [OF q(1)] show ?thesis by (intro exI [of _ q]) auto
  qed
  have "tf_last_seen_generation r \<le> g" if "(i, r) \<in> set ?t" for i r
    using old [OF that] ok unfolding files_ok_def by metis
  moreover have "i = j" if "(i, r) \<in> set ?t" "(j, q) \<in> set ?t" "is_current (tf_status r)" "is_current (tf_status q)"
    "sa_path (tf_sample r) = sa_path (tf_sample q)" for i r j q
    using old [OF that(1)] old [OF that(2)] that(3-5) ok unfolding files_ok_def by metis
  moreover have "tbl_wf ?t" "int (length ?t) \<le> tl_files limits"
    using ok by (simp_all add: files_ok_def tbl_wf_update)
  ultimately show ?thesis unfolding files_ok_def by blast
qed

lemma relink_ok:
  assumes ok: "tag_ok limits db" and r: "relink old_id new_id db = Inr db'"
  shows "tag_ok limits db'"
proof -
  have rel: "relations_ok limits db" and f: "files_ok limits (td_scan_generation db) (td_files db)"
    using ok by (simp_all add: tag_ok_def)
  note wf = files_ok_wf [OF f] and c = relink_cases [OF rel r]
  from c(3) obtain q where q: "tbl_get (td_files db) new_id = Some q" "is_current (tf_status q)"
    unfolding file_is_current_get by blast
  have one: "files_ok limits (td_scan_generation db) (set_status old_id Relinked (td_files db))"
    unfolding set_status_def by (rule files_ok_status [OF f]) (simp add: is_current_def)
  have "(new_id, q') \<in> set (set_status old_id Relinked (td_files db)) \<Longrightarrow> q' = q" for q'
    using q(1) c(1) wf by (simp add: tbl_get_Some_set [symmetric] get_set_status)
  then have files: "files_ok limits (td_scan_generation db) (td_files db')"
    unfolding c(4) set_status_def [of new_id Present]
    by (intro files_ok_status [OF one]) (use q(2) in blast)
  have same: "td_tags db' = td_tags db" "td_scan_generation db' = td_scan_generation db"
    by (subst c(5), simp)+
  have "(\<exists>r. tbl_get (td_files db') g = Some r \<and> tf_status r \<noteq> Relinked) \<and> tbl_get (td_tags db) t \<noteq> None"
    if "tagged g t (td_file_tags db')" for g t
  proof -
    from that have g: "g \<noteq> old_id" "tagged g t (td_file_tags db) \<or> g = new_id \<and> tagged old_id t (td_file_tags db)"
      unfolding c(8) by blast+
    then have "tbl_get (td_tags db) t \<noteq> None" using rel unfolding relations_ok_def by blast
    moreover have "\<exists>r. tbl_get (td_files db') g = Some r \<and> tf_status r \<noteq> Relinked"
    proof (cases "g = new_id")
      case True
      then show ?thesis using q(1) c(1) unfolding c(4) by (simp add: get_set_status)
    next
      case False
      then obtain r where "tbl_get (td_files db) g = Some r" "tf_status r \<noteq> Relinked"
        using g(2) rel unfolding relations_ok_def by blast
      then show ?thesis using False g(1) unfolding c(4) by (simp add: get_set_status)
    qed
    ultimately show ?thesis by blast
  qed
  moreover have "int (length (td_file_tags db')) \<le> tl_relations limits"
    using c(7) rel unfolding relations_ok_def by linarith
  ultimately have "relations_ok limits db'" unfolding relations_ok_def same using c(6,9) by blast
  with ok files show ?thesis unfolding tag_ok_def same by simp
qed

lemma confirm_ok:
  assumes ok: "tag_ok limits db" and "confirm i db = (found, db')"
  shows "tag_ok limits db'"
proof -
  let ?t = "tbl_update (\<lambda>k r. k = i \<and> tf_status r = Suspect) (\<lambda>r. r\<lparr>tf_status := Present\<rparr>) (td_files db)"
  have db': "db' = db\<lparr>td_files := ?t\<rparr>" using assms(2) by (simp add: confirm_def)
  have "files_ok limits (td_scan_generation db) ?t"
    using ok by (intro files_ok_status) (auto simp: tag_ok_def is_current_def)
  moreover have "\<exists>r. tbl_get ?t f = Some r \<and> tf_status r \<noteq> Relinked"
    if "tbl_get (td_files db) f = Some q" "tf_status q \<noteq> Relinked" for f q
    using that by (simp add: tbl_get_update)
  then have "relations_ok limits db'" using ok unfolding db' tag_ok_def relations_ok_def by (simp, blast)
  ultimately show ?thesis using ok unfolding db' tag_ok_def by simp
qed

lemma tag_step_ok:
  assumes "tag_step limits db db'" and ok: "tag_ok limits db"
  shows "tag_ok limits db'"
  using assms(1)
proof cases
  case (tag_scan samples probe now)
  then show ?thesis by (rule scan_complete_ok [OF ok])
next
  case (tag_scan_error message)
  then show ?thesis using ok by (simp add: tag_ok_def relations_ok_def scan_error_def)
next
  case (tag_create probe name color i)
  then show ?thesis by (rule create_tag_ok [OF ok])
next
  case (tag_update i name color found)
  then show ?thesis by (rule update_tag_ok [OF ok])
next
  case (tag_delete i found)
  then show ?thesis by (rule delete_tag_ok [OF ok])
next
  case (tag_mutate probe file_ids tag_ids add)
  then show ?thesis by (rule mutate_tags_ok [OF ok])
next
  case (tag_relink old_id new_id)
  then show ?thesis by (rule relink_ok [OF ok])
next
  case (tag_confirm i found)
  then show ?thesis by (rule confirm_ok [OF ok])
qed

lemma tag_initial_ok:
  assumes "0 \<le> tl_files limits" and "0 \<le> tl_tags limits" and "0 \<le> tl_relations limits"
  shows "tag_ok limits tag_db_initial"
  using assms by (simp add: tag_ok_def files_ok_def tags_ok_def relations_ok_def tag_db_initial_def
    file_tag_count_def tbl_count_def MAX_FILE_TAGS_def)




lemma known_row: "tbl_wf t \<Longrightarrow> rows_of p t \<noteq> [] \<longleftrightarrow> (\<exists>k q. tbl_get t k = Some q \<and> sa_path (tf_sample q) = p)"
  by (auto simp: tbl_get_Some_set rows_of_def filter_empty_conv)


lemma tags_of_unit: "tbl_wf rel \<Longrightarrow> t \<in> set (tags_of f rel) \<longleftrightarrow> \<not> tbl_get rel (f, t) = None"
  using in_tags_of [of rel t f] by (cases "tbl_get rel (f, t)") auto

lemma tag_union_size:
  assumes wf: "tbl_wf rel"
  shows "int (card (set (tags_of new rel) \<union> set (tags_of old rel))) =
    file_tag_count new rel + int (length (filter (\<lambda>t. tbl_get rel (new, t) = None) (tags_of old rel)))"
proof -
  let ?add = "filter (\<lambda>t. tbl_get rel (new, t) = None) (tags_of old rel)"
  have "set (tags_of new rel) \<union> set (tags_of old rel) = set (tags_of new rel) \<union> set ?add"
    "set (tags_of new rel) \<inter> set ?add = {}" by (auto simp: tags_of_unit [OF wf] simp del: not_None_eq)
  then have "card (set (tags_of new rel) \<union> set (tags_of old rel)) = card (set (tags_of new rel)) + card (set ?add)"
    by (simp add: card_Un_disjoint)
  then show ?thesis
    using distinct_card [OF distinct_tags_of [OF wf, of new]]
      distinct_card [OF distinct_filter [OF distinct_tags_of [OF wf, of old]]] length_tags_of [of new rel] by simp
qed

lemma relink_decision:
  assumes rel: "relations_ok limits db"
  shows "relink old_id new_id db = Inl e \<longleftrightarrow>
      (if old_id = new_id then e = SameFile
       else if \<not> (map_option tf_status (tbl_get (td_files db) old_id) = Some Missing \<and> file_is_current db new_id)
       then e = NotRelinkable
       else e = TagLimitExceeded
         \<and> card (set (tags_of new_id (td_file_tags db)) \<union> set (tags_of old_id (td_file_tags db))) > 16)"
proof -
  let ?rel = "td_file_tags db"
  let ?n = "int (length (filter (\<lambda>t. tbl_get ?rel (new_id, t) = None) (tags_of old_id ?rel)))"
  have wf: "tbl_wf ?rel" and few: "file_tag_count new_id ?rel \<le> MAX_FILE_TAGS"
    using rel by (simp_all add: relations_ok_def)
  have full: "?n > 0 \<and> file_tag_count new_id ?rel + ?n > MAX_FILE_TAGS \<longleftrightarrow>
      card (set (tags_of new_id ?rel) \<union> set (tags_of old_id ?rel)) > 16"
    using tag_union_size [OF wf, of new_id old_id] few unfolding MAX_FILE_TAGS_def by linarith
  show ?thesis
    unfolding relink_def Let_def full
    by (cases "old_id = new_id"; cases "map_option tf_status (tbl_get (td_files db) old_id) = Some Missing
        \<and> file_is_current db new_id")
      (simp_all add: ensure_def del: map_option_eq_Some not_None_eq, auto)
qed

lemma mutate_files_remove: "\<exists>n rel'. mutate_files limits probe False tags files (k, rel) = Inr (n, rel')"
  by (induction files arbitrary: k rel) simp_all



section \<open>What the tag database promises\<close>

interpretation tags: invariant_steps "tag_step limits" "tag_ok limits" for limits
  by unfold_locales (use tag_step_ok in blast)

text \<open>In every state that the operations can reach, the tables are valid: at most one current row
  per path and no row seen by a scan that has not happened; tag names that differ in more than
  ASCII case; no more files, tags and relations than the limits, and at most 16 tags for a file;
  and every relation joins a tag that exists with a file that exists and was not relinked.\<close>

theorem tag_database_stays_valid:
  assumes "0 \<le> tl_files limits" and "0 \<le> tl_tags limits" and "0 \<le> tl_relations limits"
    and "(tag_step limits)\<^sup>*\<^sup>* tag_db_initial db"
  shows "tag_ok limits db"
  using tags.steps_inv [OF assms(4)] tag_initial_ok [OF assms(1-3)] by blast

text \<open>An empty database, two files and a tag, then the first file is tagged.\<close>

definition sample_probe :: StorageProbe where
  "sample_probe = \<lparr>sp_pages = 10, sp_page_size = 4096, sp_journals = [JournalAbsent, JournalFile 4096],
     sp_available_blocks = 1000000000, sp_fragment_size = 4096\<rparr>"

definition sample_file :: "string \<Rightarrow> i64 \<Rightarrow> Sample" where
  "sample_file name ino = \<lparr>sa_path = name, sa_parent = '''', sa_name = name, sa_dev = 1, sa_ino = ino,
     sa_size = 10, sa_mtime_ns = 0, sa_ctime_ns = 0\<rparr>"

lemma sample_storage [simp]:
  "storage sample_probe 1028 PRODUCTION = Inr ()" "storage sample_probe 2048 PRODUCTION = Inr ()"
  "storage sample_probe 512 PRODUCTION = Inr ()"
  by (simp_all add: storage_def sample_probe_def PRODUCTION_def u64_of_i64_def u64_checked_mul_def
      u64_checked_add_def u64_saturating_add_def u64_saturating_mul_def unat_word_ariths)

lemma production_limits [simp]:
  "tl_files PRODUCTION = 1000000" "tl_tags PRODUCTION = 10000" "tl_relations PRODUCTION = 1000000"
  by (simp_all add: PRODUCTION_def)

lemma sample_file_simps [simp]:
  "sa_path (sample_file p i) = p" "sample_identity (sample_file p i) = [1, i, 10, 0, 0]"
  "u64_saturating_mul (sample_bytes (sample_file [c] i)) 2 = 1028"
  by (simp_all add: sample_file_def sample_identity_def sample_bytes_def u64_saturating_mul_def)

definition sample_scanned :: TagDb where
  "sample_scanned = tag_db_initial\<lparr>td_files :=
       [(1, \<lparr>tf_sample = sample_file ''a'' 1, tf_status = Present, tf_last_seen_generation = 1\<rparr>),
        (2, \<lparr>tf_sample = sample_file ''b'' 2, tf_status = Present, tf_last_seen_generation = 1\<rparr>)],
     td_available := True, td_scan_generation := 1, td_last_scan_at := Some 7, td_last_error := None\<rparr>"

definition sample_tagged :: TagDb where
  "sample_tagged = sample_scanned\<lparr>td_tags := [(1, \<lparr>te_name = ''red'', te_color = None\<rparr>)],
     td_file_tags := [((1, 1), ())]\<rparr>"

lemma sample_scan: "scan_complete PRODUCTION (\<lambda>_. sample_probe) 7 [sample_file ''a'' 1, sample_file ''b'' 2]
    tag_db_initial = Inr sample_scanned"
  by (simp add: scan_complete_def scan_sample_def scan_insert_def current_row_def next_rowid_def sample_scanned_def
      tag_db_initial_def i64_checked_add_def is_i64_def i64_min_def i64_max_def tbl_update_def Let_def is_current_def)

lemma sample_create: "create_tag PRODUCTION (\<lambda>_. sample_probe) ''red'' None sample_scanned =
    Inr (1, sample_scanned\<lparr>td_tags := [(1, \<lparr>te_name = ''red'', te_color = None\<rparr>)]\<rparr>)"
  by (simp add: create_tag_def next_rowid_def name_taken_def sample_scanned_def tag_db_initial_def)

lemma sample_mutate: "mutate_tags PRODUCTION (\<lambda>_. sample_probe) [1] [1] True
    (sample_scanned\<lparr>td_tags := [(1, \<lparr>te_name = ''red'', te_color = None\<rparr>)]\<rparr>) = Inr sample_tagged"
  by (simp add: mutate_tags_def file_is_current_def is_current_def sample_tagged_def sample_scanned_def
      tag_db_initial_def tbl_get_def file_tag_count_def tbl_count_def MAX_FILE_TAGS_def)

lemma sample_tagged_reached: "(tag_step PRODUCTION)\<^sup>*\<^sup>* tag_db_initial sample_tagged"
proof -
  have "tag_step PRODUCTION tag_db_initial sample_scanned"
    by (rule tag_scan [OF _ sample_scan]) simp
  moreover note tag_create [OF sample_create] tag_mutate [OF sample_mutate]
  ultimately show ?thesis by (meson converse_rtranclp_into_rtranclp r_into_rtranclp)
qed

lemma sample_tagged_ok: "tag_ok PRODUCTION sample_tagged"
  using tags.steps_inv [OF sample_tagged_reached] tag_initial_ok [of PRODUCTION] by simp

theorem tag_database_stays_valid_witness: "tag_ok PRODUCTION sample_tagged"
  using tag_database_stays_valid [OF _ _ _ sample_tagged_reached] by simp


text \<open>The second scan finds another file at the path of the tagged one.\<close>

definition sample_rescanned :: TagDb where
  "sample_rescanned = sample_tagged\<lparr>td_files :=
       [(1, \<lparr>tf_sample = sample_file ''a'' 1, tf_status = Missing, tf_last_seen_generation = 1\<rparr>),
        (2, \<lparr>tf_sample = sample_file ''b'' 2, tf_status = Present, tf_last_seen_generation = 2\<rparr>),
        (3, \<lparr>tf_sample = sample_file ''a'' 3, tf_status = Suspect, tf_last_seen_generation = 2\<rparr>)],
     td_scan_generation := 2, td_last_scan_at := Some 9\<rparr>"

lemma sample_rescan: "scan_complete PRODUCTION (\<lambda>_. sample_probe) 9 [sample_file ''a'' 3, sample_file ''b'' 2]
    sample_tagged = Inr sample_rescanned"
  by (simp add: scan_complete_def scan_sample_def scan_insert_def current_row_def next_rowid_def sample_scanned_def
      sample_tagged_def sample_rescanned_def set_status_def tag_db_initial_def i64_checked_add_def is_i64_def
      i64_min_def i64_max_def tbl_update_def Let_def is_current_def)


text \<open>Tagging is all or nothing and exact.  When a request to add or remove tags succeeds, every
  file of it is current and every tag exists, exactly the requested pairs were added or removed, and
  files and tags did not change.  A request to remove from current files tags that exist always
  succeeds.\<close>

theorem mutate_tags_exact:
  assumes ok: "tag_ok limits db"
  shows "(\<forall>db'. mutate_tags limits probe file_ids tag_ids add db = Inr db' \<longrightarrow>
      list_all (file_is_current db) file_ids \<and> list_all (\<lambda>t. tbl_get (td_tags db) t \<noteq> None) tag_ids
      \<and> td_files db' = td_files db \<and> td_tags db' = td_tags db
      \<and> (\<forall>f. set (tags_of f (td_file_tags db')) =
          (if f \<notin> set file_ids then set (tags_of f (td_file_tags db))
           else if add then set (tags_of f (td_file_tags db)) \<union> set tag_ids
           else set (tags_of f (td_file_tags db)) - set tag_ids)))
    \<and> (list_all (file_is_current db) file_ids \<and> list_all (\<lambda>t. tbl_get (td_tags db) t \<noteq> None) tag_ids \<longrightarrow>
        (\<exists>db'. mutate_tags limits probe file_ids tag_ids False db = Inr db'))"
proof (intro conjI impI allI)
  have wf: "tbl_wf (td_file_tags db)" using ok by (simp add: tag_ok_def relations_ok_def)
  fix db' assume m: "mutate_tags limits probe file_ids tag_ids add db = Inr db'"
  note c = mutate_tags_cases [OF wf m]
  show "list_all (file_is_current db) file_ids" "list_all (\<lambda>t. tbl_get (td_tags db) t \<noteq> None) tag_ids"
    using c(1,2) unfolding list_all_iff by blast+
  show "td_files db' = td_files db" "td_tags db' = td_tags db" by (subst c(3), simp)+
  show "set (tags_of f (td_file_tags db')) =
          (if f \<notin> set file_ids then set (tags_of f (td_file_tags db))
           else if add then set (tags_of f (td_file_tags db)) \<union> set tag_ids
           else set (tags_of f (td_file_tags db)) - set tag_ids)" for f
    using c(6) [of f] in_tags_of [OF wf, of _ f] in_tags_of [OF c(4), of _ f] by (auto simp: set_eq_iff)
next
  assume "list_all (file_is_current db) file_ids \<and> list_all (\<lambda>t. tbl_get (td_tags db) t \<noteq> None) tag_ids"
  then show "\<exists>db'. mutate_tags limits probe file_ids tag_ids False db = Inr db'"
    using mutate_files_remove [of limits probe tag_ids file_ids "int (length (td_file_tags db))" "td_file_tags db"]
    by (auto simp: mutate_tags_def)
qed

theorem mutate_tags_exact_witness:
  "\<exists>db'. mutate_tags PRODUCTION (\<lambda>_. sample_probe) [1, 2] [1] False sample_tagged = Inr db'
    \<and> set (tags_of 1 (td_file_tags db')) = {}"
proof -
  note exact = mutate_tags_exact [OF sample_tagged_ok, where probe = "\<lambda>_. sample_probe"
      and file_ids = "[1, 2]" and tag_ids = "[1]" and add = False]
  have "list_all (file_is_current sample_tagged) [1, 2] \<and> list_all (\<lambda>t. tbl_get (td_tags sample_tagged) t \<noteq> None) [1]"
    by (simp add: sample_tagged_def sample_scanned_def file_is_current_def is_current_def tbl_get_def)
  with exact obtain db' where m: "mutate_tags PRODUCTION (\<lambda>_. sample_probe) [1, 2] [1] False sample_tagged = Inr db'"
    by blast
  with exact have "set (tags_of 1 (td_file_tags db')) = set (tags_of 1 (td_file_tags sample_tagged)) - {1}" by simp
  with m show ?thesis by (auto simp: tags_of_def sample_tagged_def)
qed

text \<open>Relinking moves the tags of a missing file.  It is refused for equal ids, when the source is
  not missing or the target is not current, and when the two files together have more than 16 tags.
  Otherwise the target has the tags of both and is present, the source has none and is relinked, and
  no other file, tag or relation changes.\<close>

theorem relink_moves_tags:
  assumes ok: "tag_ok limits db"
  shows "case relink old_id new_id db of
      Inl e \<Rightarrow>
        (if old_id = new_id then e = SameFile
         else if \<not> (map_option tf_status (tbl_get (td_files db) old_id) = Some Missing \<and> file_is_current db new_id)
         then e = NotRelinkable
         else e = TagLimitExceeded
           \<and> card (set (tags_of new_id (td_file_tags db)) \<union> set (tags_of old_id (td_file_tags db))) > 16)
    | Inr db' \<Rightarrow>
        old_id \<noteq> new_id \<and> map_option tf_status (tbl_get (td_files db) old_id) = Some Missing
        \<and> file_is_current db new_id
        \<and> card (set (tags_of new_id (td_file_tags db)) \<union> set (tags_of old_id (td_file_tags db))) \<le> 16
        \<and> (\<forall>f. set (tags_of f (td_file_tags db')) =
            (if f = old_id then {}
             else if f = new_id then set (tags_of new_id (td_file_tags db)) \<union> set (tags_of old_id (td_file_tags db))
             else set (tags_of f (td_file_tags db))))
        \<and> (\<forall>f. tbl_get (td_files db') f = map_option (\<lambda>r. r\<lparr>tf_status :=
            (if f = old_id then Relinked else if f = new_id then Present else tf_status r)\<rparr>) (tbl_get (td_files db) f))
        \<and> td_tags db' = td_tags db"
proof (cases "relink old_id new_id db")
  case (Inl e)
  have "relations_ok limits db" using ok by (simp add: tag_ok_def)
  from relink_decision [OF this, of old_id new_id e] Inl show ?thesis by simp
next
  case (Inr db')
  have rel: "relations_ok limits db" using ok by (simp add: tag_ok_def)
  then have wf: "tbl_wf (td_file_tags db)" by (simp add: relations_ok_def)
  note c = relink_cases [OF rel Inr]
  have status: "map_option tf_status (tbl_get (td_files db) old_id) = Some Missing" using c(2) by auto
  have "\<not> relink old_id new_id db = Inl TagLimitExceeded" using Inr by simp
  then have "card (set (tags_of new_id (td_file_tags db)) \<union> set (tags_of old_id (td_file_tags db))) \<le> 16"
    using relink_decision [OF rel, of old_id new_id TagLimitExceeded] c(1,3) status by auto
  moreover have "set (tags_of f (td_file_tags db')) =
      (if f = old_id then {}
       else if f = new_id then set (tags_of new_id (td_file_tags db)) \<union> set (tags_of old_id (td_file_tags db))
       else set (tags_of f (td_file_tags db)))" for f
    using c(8) [of f] in_tags_of [OF wf] in_tags_of [OF c(6), of _ f] by (auto simp: set_eq_iff)
  moreover have "tbl_get (td_files db') f = map_option (\<lambda>r. r\<lparr>tf_status :=
      (if f = old_id then Relinked else if f = new_id then Present else tf_status r)\<rparr>) (tbl_get (td_files db) f)" for f
    using c(1) by (cases "tbl_get (td_files db) f") (simp_all add: c(4) get_set_status)
  moreover have "td_tags db' = td_tags db" by (subst c(5), simp)
  ultimately show ?thesis using Inr c(1,3) status by simp
qed

theorem relink_moves_tags_witness:
  "\<exists>db'. relink 1 2 sample_rescanned = Inr db'
    \<and> set (tags_of 2 (td_file_tags db')) = {1} \<and> set (tags_of 1 (td_file_tags db')) = {}"
proof -
  have "tag_ok PRODUCTION sample_rescanned" by (rule scan_complete_ok [OF sample_tagged_ok _ sample_rescan]) simp
  note moves = relink_moves_tags [OF this, of 1 2]
  have "tags_of 2 (td_file_tags sample_rescanned) = []" "tags_of 1 (td_file_tags sample_rescanned) = [1]"
    "map_option tf_status (tbl_get (td_files sample_rescanned) 1) = Some Missing" "file_is_current sample_rescanned 2"
    by (simp_all add: tags_of_def sample_rescanned_def sample_tagged_def file_is_current_def is_current_def tbl_get_def)
  with moves show ?thesis by (cases "relink 1 2 sample_rescanned") (simp_all split: if_splits)
qed

end
