(* ===== verification/Spec2Isabelle.thy ===== *)
theory Spec2Isabelle
  imports Actor_System State_Path_Scan List_Snapshot Disk_Space Download Tag_Laws
begin

text \<open>
  A verification library for the web file manager under \<open>src/\<close>.  The server lets a browser list,
  download, upload, move and delete files below one shared root.  It keeps what must survive a crash
  in a SQLite database that one worker thread owns, so that a repeated request is answered with the
  first outcome and never carried out twice.  Source files below are relative to \<open>src/src/\<close>, or to
  \<open>src/src/server/\<close> where they start with a bare module name.

  \<^bold>\<open>How the parts interact.\<close>  A request passes the path rules (\<open>path_policy.rs\<close>), then the operation
  registry (\<open>operation_registry.rs\<close>), which asks the state store (\<open>state_store.rs\<close> and
  \<open>state_store/\<close>) whether its operation id is new.  A mutation takes leases on its paths
  (\<open>path_coordinator.rs\<close>) and looks for durable state in its way (\<open>has_persisted_path_conflict\<close> in
  \<open>server.rs\<close>).  Uploads speak the protocol of \<open>upload/protocol.rs\<close>, reserve disk space
  (\<open>disk_space.rs\<close>), write to stage files with reserved names (\<open>internal_names.rs\<close>) and save
  checkpoints in the store; deletes become purge jobs there.  Listings are collected, sorted and
  cached (\<open>listing.rs\<close>, \<open>listing/snapshot.rs\<close>); downloads are conditional and ranged
  (\<open>download.rs\<close>); tags live in a database of their own (\<open>tagging/\<close>).  Errors become problem
  documents (\<open>problem.rs\<close>).

  \<^bold>\<open>Conventions.\<close>  Rust's unsigned integers are words of their width, \<open>i64\<close> is an integer with the
  predicate \<open>is_i64\<close>, and checked, saturating and wrapping operations are written out.  A fallible
  function returns \<open>'e + 'a\<close> with the error on the left; the question mark of Rust is \<open>result_bind\<close>.
  Paths are byte strings, compared by components where the source compares \<open>Path\<close>s.  Mutable state is
  a record that is passed on.  A loop is a recursive function; threads and tasks are step relations
  or sequences of events in which every lock section and every atomic access is one action.  Code
  that is not part of the sources is a parameter: the \<open>http\<close>, \<open>headers\<close>, \<open>uuid\<close>, \<open>base64\<close> and
  \<open>alphanumeric_sort\<close> crates, SHA-256, serde's JSON text, percent coding, the random generator, the
  allocator's capacities, and what the file system, SQLite's transactions and the clock answer.  What
  a theorem needs of them is a named hypothesis (\<open>http_laws\<close>, \<open>uuid_laws\<close>, \<open>b64_laws\<close> and the like)
  that a sample instance satisfies.

  \<^bold>\<open>Foundations.\<close>
  \<^item> \<open>Prelude\<close>: integers, results, byte encodings, text helpers, the collections of rewrite rules, and
    the contracts of components that run: \<open>invariant_steps\<close>, \<open>advancing_steps\<close> and \<open>invariant_calls\<close>.
  \<^item> \<open>Tables\<close>: a SQLite table as a list sorted by its primary key, with the statements that the store
    issues.  The locale \<open>keyed_table\<close> is the contract of a table, \<open>keyset_query\<close> that of paging with
    \<open>WHERE key > ? ORDER BY key LIMIT n\<close>; both are interpreted on the model's own tables and queries.
  \<^item> \<open>Paths\<close> and \<open>Path_Text\<close>: \<open>std::path\<close> on Unix and UTF-8.  \<open>Wire_Text\<close>: hexadecimal and byte ranges
    (\<open>utils.rs\<close>).  \<open>Http_Library\<close>: the interfaces of the third-party crates.

  \<^bold>\<open>The state store.\<close>
  \<^item> \<open>Store_Model\<close> (\<open>state_store/model.rs\<close>): the stored types, their validators and their encodings.
  \<^item> \<open>Store_Clock\<close> (\<open>state_store.rs\<close>): limits and the clock that never goes back.
  \<^item> \<open>Operation_Store\<close> (\<open>state_store/operation.rs\<close>): the ledger of operations.  \<open>operation_view\<close> is the
    abstract ledger of one key, and every transaction refines an abstract one on it.  A completed
    operation replays its outcome after any further calls until it expires (\<open>ledger_step\<close> is the
    driver of such a sequence); a caller without the lease changes nothing.
  \<^item> \<open>Upload_Store\<close> (\<open>state_store/upload.rs\<close>, part of \<open>upload/record.rs\<close>): sessions, the merge of
    checkpoints and the row codec.  Sessions only advance, live stage paths are unique, the start-up
    check sees every session, and rows decode to what was encoded.
  \<^item> \<open>Purge_Store\<close> (\<open>state_store/purge.rs\<close>): purge jobs and the pages of blocking paths.  The least due
    job is claimed; preparing is exact on every branch.
  \<^item> \<open>Store_Recovery\<close> (\<open>recover_database\<close> in \<open>state_store/database.rs\<close>): the outcome of recovery for
    every operation, session and job.
  \<^item> \<open>Store_Actor\<close> and \<open>Actor_System\<close> (\<open>state_store/actor.rs\<close>, the facade in \<open>state_store.rs\<close>): commands,
    the worker with its deferred abandons, and the transition system of clients, queue, control
    channel and worker.  In every reachable state the tables are valid and bounded, every reservation
    has a party that will settle it, and a started commit is not executed again within a TTL.

  \<^bold>\<open>Requests.\<close>
  \<^item> \<open>Problem_Details\<close> (\<open>protocol.rs\<close>, \<open>problem.rs\<close>): error codes and problem documents.
  \<^item> \<open>Operation_Registry\<close> (\<open>operation_registry.rs\<close>, \<open>identity.rs\<close>): fingerprints, outcomes, the guard and
    the responses.  Stored outcomes come back unchanged, and a replayed response equals the first.
  \<^item> \<open>Path_Policy\<close> (\<open>path_policy.rs\<close>): accepted targets and routes stay below the root and avoid
    reserved names, and both readings of a text agree.
  \<^item> \<open>Internal_Names\<close> (\<open>internal_names.rs\<close>): which names are reserved, and that a stage path is bound to
    its target.  The hash is of the lossily decoded name, so the binding is stated for UTF-8 names;
    names that are not UTF-8 can share a stage path.
  \<^item> \<open>Upload_Protocol\<close> (\<open>upload/protocol.rs\<close>, \<open>upload/target.rs\<close>): headers and target revisions.
  \<^item> \<open>Download\<close> (\<open>download.rs\<close>): conditions in the order of the RFC, ranges, and the framing of the body.

  \<^bold>\<open>Coordination.\<close>
  \<^item> \<open>Path_Coordinator\<close> (\<open>path_coordinator.rs\<close>): leases, waiters and the loop of \<open>acquire_inner\<close> as
    interleaved tasks (\<open>co_step\<close>).  Registration takes its id and its place in the map in two steps,
    and a dropped waiter is announced in a step of its own.  Held leases never overlap, waiters are
    not overtaken, and the first waiter acquires within eight of its own actions (\<open>own_run\<close>).
  \<^item> \<open>State_Path_Scan\<close> (\<open>path_coordinator.rs\<close>, \<open>server.rs\<close>, \<open>rooted_fs.rs\<close>): the paged admission scan
    equals one comparison over all rows, also under concurrent changes as far as rows stay.
  \<^item> \<open>Disk_Space\<close> (\<open>disk_space.rs\<close>): reservations per device with the unlocked probe and its revision
    check.  The accounting is exact and a granted reservation leaves the minimum free.

  \<^bold>\<open>Listings and tags.\<close>
  \<^item> \<open>Listing_Problem\<close>, \<open>Listing_Sort\<close> and \<open>Listing_Collect\<close> (\<open>listing.rs\<close>): the problems, the
    interruptible stable sort and the collection of a directory under a memory budget.
  \<^item> \<open>List_Snapshot\<close> (\<open>listing/snapshot.rs\<close>): the cache with its eviction and the signed cursors.
  \<^item> \<open>Tag_Store\<close> and \<open>Tag_Laws\<close> (\<open>tagging/db/write.rs\<close>, \<open>tagging/capacity.rs\<close>): scans, tags, relations
    and relinking.  Tags follow the identity of a file; adding, removing and relinking are exact; the
    database stays valid and within its limits.

  \<^bold>\<open>Bounds and fuel.\<close>  Every function is total.  Loops over pages take a list with the state of the
  tables at each turn (\<open>scan_pages\<close>) or carry a measure; one state per started page of 256 rows is
  enough.  The sort has explicit results for a panic and for a loop without
  progress, which are shown to be impossible.  Eviction ends because every turn removes a record.
  The bound of eight actions is the longest way from sleeping to holding a lease.

  \<^bold>\<open>Idealisations.\<close>  The 64-bit ids, epochs and change counters of the path coordinator are natural
  numbers and so do not wrap.  One scan of durable paths uses one answer of the file system per path.
  A run of the disk tracker stops at a panic, which only a misuse in a debug build can cause; in the
  server other threads would go on.  A new tag row beyond the largest 64-bit id is an error; SQLite
  would look for a gap.  \<open>ledger_step\<close>, \<open>retries\<close>, \<open>follow_cursors\<close>, \<open>disk_run\<close>, \<open>own_run\<close> and \<open>acts\<close> are
  drivers that call the operations in sequence; they are not code of the server.

  \<^bold>\<open>Not modelled.\<close>  The asynchronous bodies of the handlers (\<open>upload.rs\<close> and its transaction modules,
  \<open>browser_api.rs\<close>, \<open>delete.rs\<close>, \<open>router/\<close>), because they are sequences of file system calls and network
  input around the parts above.  The system calls themselves (\<open>rooted_fs.rs\<close>, \<open>rooted_fs/purge.rs\<close>,
  \<open>storage.rs\<close>, \<open>blocking_io.rs\<close>) and the loops that only drive them (\<open>purge.rs\<close>, \<open>maintenance.rs\<close>,
  \<open>listing/walk.rs\<close>, \<open>tagging/scan.rs\<close>).  The tag interface and its paged queries, opening and checking
  the database files, accounts and sessions (a crate outside the sources), configuration, logging,
  embedded assets, the browser front end, and the build and release scripts.
\<close>

end
